(* ===== verification/GoBase.thy ===== *)
theory GoBase
  imports Main "HOL-Library.Word" "HOL-Library.Multiset"
begin

text \<open>
  Shared prelude of the PhantomProxy development: the parts of the Go language and of its
  standard library that every component uses.

  \<^item> outcomes of a Go call: a value, an error value or a run-time panic;
  \<^item> byte strings, and the big- and little-endian integer codecs of \<open>encoding/binary\<close>;
  \<^item> slices with length and capacity, whose index and slice expressions panic as Go's do;
  \<^item> \<open>io.ReadFull\<close> on a byte stream with an end condition;
  \<^item> the text helpers of \<open>encoding/hex\<close>, \<open>strconv\<close> and \<open>strings\<close>.

  The collections \<open>res_simps\<close>, \<open>codec_simps\<close> and \<open>slice_simps\<close> carry the component proofs.
\<close>

named_theorems res_simps \<open>sequencing of outcomes\<close>
named_theorems codec_simps \<open>integer codecs\<close>
named_theorems slice_simps \<open>slice and index expressions\<close>

type_synonym byte = "8 word"
type_synonym bytes = "byte list"

section \<open>Outcomes\<close>

text \<open>
  A Go call returns a value, returns a non-nil error, or panics (an index or slice bound out of
  range, a nil dereference). No function of the repository recovers from a panic.
\<close>

datatype ('e, 'a) res = Ok 'a | Err 'e | Panic

fun bind_res :: "('e, 'a) res \<Rightarrow> ('a \<Rightarrow> ('e, 'b) res) \<Rightarrow> ('e, 'b) res" where
  "bind_res (Ok x) f = f x"
| "bind_res (Err e) f = Err e"
| "bind_res Panic f = Panic"

definition guard_res :: "bool \<Rightarrow> 'e \<Rightarrow> ('e, unit) res" where
  "guard_res b e = (if b then Ok () else Err e)"

fun is_ok :: "('e, 'a) res \<Rightarrow> bool" where
  "is_ok (Ok _) = True"
| "is_ok _ = False"

lemma bind_res_Ok_iff [res_simps]:
  "bind_res m f = Ok y \<longleftrightarrow> (\<exists>x. m = Ok x \<and> f x = Ok y)"
  by (cases m) auto

lemma bind_res_Panic_iff [res_simps]:
  "bind_res m f = Panic \<longleftrightarrow> m = Panic \<or> (\<exists>x. m = Ok x \<and> f x = Panic)"
  by (cases m) auto

lemma bind_res_assoc: "bind_res (bind_res m f) g = bind_res m (\<lambda>x. bind_res (f x) g)"
  by (cases m) auto

lemma guard_res_Ok [res_simps]: "guard_res b e = Ok u \<longleftrightarrow> b"
  by (simp add: guard_res_def)

lemma guard_res_not_Panic [simp]: "guard_res b e \<noteq> Panic"
  by (simp add: guard_res_def)

section \<open>Integers as bytes\<close>

text \<open>\<open>binary.BigEndian\<close> and \<open>binary.LittleEndian\<close>: the value of a byte string, and the
  \<open>n\<close>-byte encoding of a value, which drops the bits above the width as Go's conversions do.\<close>

fun be_val :: "bytes \<Rightarrow> nat" where
  "be_val [] = 0"
| "be_val (b # bs) = unat b * 256 ^ length bs + be_val bs"

definition le_val :: "bytes \<Rightarrow> nat" where
  "le_val bs = be_val (rev bs)"

fun put_be :: "nat \<Rightarrow> nat \<Rightarrow> bytes" where
  "put_be 0 v = []"
| "put_be (Suc n) v = word_of_nat (v div 256 ^ n) # put_be n v"

definition put_le :: "nat \<Rightarrow> nat \<Rightarrow> bytes" where
  "put_le n v = rev (put_be n v)"

lemma length_put_be [simp]: "length (put_be n v) = n"
  by (induction n) auto

lemma length_put_le [simp]: "length (put_le n v) = n"
  by (simp add: put_le_def)

lemma unat_byte_less [simp]: "unat (b :: byte) < 256"
  using unsigned_less [of b] by simp

lemma unat_byte_of_nat [simp]: "unat (word_of_nat n :: byte) = n mod 256"
  by (simp add: unat_of_nat take_bit_eq_mod)

lemma be_val_put_be [codec_simps]: "be_val (put_be n v) = v mod 256 ^ n"
proof (induction n)
  case 0
  then show ?case by simp
next
  case (Suc n)
  have "v mod 256 ^ Suc n = 256 ^ n * (v div 256 ^ n mod 256) + v mod 256 ^ n"
    using mod_mult2_eq [of v "256 ^ n" 256] by (simp add: mult.commute)
  then show ?case
    by (simp add: Suc.IH mult.commute)
qed

lemma le_val_put_le [codec_simps]: "le_val (put_le n v) = v mod 256 ^ n"
  by (simp add: le_val_def put_le_def be_val_put_be)

lemma be_val_less: "be_val bs < 256 ^ length bs"
proof (induction bs)
  case Nil
  then show ?case by simp
next
  case (Cons b bs)
  have "unat b * 256 ^ length bs + be_val bs < (unat b + 1) * 256 ^ length bs"
    using Cons.IH by simp
  also have "\<dots> \<le> 256 * 256 ^ length bs"
    using unat_byte_less [of b] by (intro mult_right_mono) (auto simp del: unat_byte_less)
  finally show ?case by simp
qed

lemma le_val_less: "le_val bs < 256 ^ length bs"
  using be_val_less [of "rev bs"] by (simp add: le_val_def)

lemma be_val_lt_16 [simp]: "length bs = 2 \<Longrightarrow> be_val bs < 65536"
  using be_val_less [of bs] by simp

lemma put_be_drop_high: "j \<le> n \<Longrightarrow> put_be j (k * 256 ^ n + w) = put_be j w"
proof (induction j)
  case 0
  then show ?case by simp
next
  case (Suc j)
  obtain d where d: "n = Suc j + d"
    using Suc.prems le_Suc_ex by blast
  have "k * 256 ^ n + w = w + 256 ^ j * (256 * (256 ^ d * k))"
    by (simp add: d power_add algebra_simps)
  then have "(k * 256 ^ n + w) div 256 ^ j = w div 256 ^ j + 256 * (256 ^ d * k)"
    by (simp only: div_mult_self2 [OF power_not_zero] add.commute)
  then have "(word_of_nat ((k * 256 ^ n + w) div 256 ^ j) :: byte) = word_of_nat (w div 256 ^ j)"
    by (simp only: word_unat_eq_iff unat_byte_of_nat mod_mult_self2)
  then show ?case using Suc by simp
qed

lemma put_be_be_val [codec_simps]: "put_be (length bs) (be_val bs) = bs"
proof (induction bs)
  case Nil
  then show ?case by simp
next
  case (Cons b bs)
  have "(unat b * 256 ^ length bs + be_val bs) div 256 ^ length bs = unat b"
    using be_val_less [of bs] by simp
  then show ?case
    using Cons.IH by (simp add: put_be_drop_high)
qed

lemma put_le_le_val [codec_simps]: "put_le (length bs) (le_val bs) = bs"
  using put_be_be_val [of "rev bs"] by (simp add: put_le_def le_val_def)

text \<open>\<open>int(int16(u))\<close> and \<open>uint16(int16(i))\<close>: the two's complement reading of 16 bits.\<close>

definition int16_of :: "nat \<Rightarrow> int" where
  "int16_of v = sint (word_of_nat v :: 16 word)"

definition uint16_of_int :: "int \<Rightarrow> nat" where
  "uint16_of_int i = unat (word_of_int i :: 16 word)"

definition int32_of :: "nat \<Rightarrow> int" where
  "int32_of v = sint (word_of_nat v :: 32 word)"

definition uint32_of_int :: "int \<Rightarrow> nat" where
  "uint32_of_int i = unat (word_of_int i :: 32 word)"

lemma uint16_of_int_less [simp]: "uint16_of_int i < 65536"
  using unsigned_less [of "word_of_int i :: 16 word"] by (simp add: uint16_of_int_def)

lemma uint32_of_int_less [simp]: "uint32_of_int i < 4294967296"
  using unsigned_less [of "word_of_int i :: 32 word"] by (simp add: uint32_of_int_def)

lemma uint32_of_int_nonneg: "0 \<le> i \<Longrightarrow> i < 4294967296 \<Longrightarrow> int (uint32_of_int i) = i"
  by (simp add: uint32_of_int_def unsigned_of_int take_bit_int_eq_self)

lemma int16_of_uint16_of_int [codec_simps]:
  "- 32768 \<le> i \<Longrightarrow> i < 32768 \<Longrightarrow> int16_of (uint16_of_int i) = i"
  by (simp add: int16_of_def uint16_of_int_def sint_sbintrunc' signed_take_bit_int_eq_self)

lemma int32_of_uint32_of_int [codec_simps]:
  "- 2147483648 \<le> i \<Longrightarrow> i < 2147483648 \<Longrightarrow> int32_of (uint32_of_int i) = i"
  by (simp add: int32_of_def uint32_of_int_def sint_sbintrunc' signed_take_bit_int_eq_self)

section \<open>Slices\<close>

text \<open>
  A Go slice is a window on a backing array: \<open>sl_arr\<close> holds the bytes from the start of the slice
  to the end of its capacity and \<open>sl_len\<close> its length. An index expression is checked against the
  length, a slice expression \<open>s[i:j]\<close> against the capacity, so it may reach past the length.
\<close>

record goslice =
  sl_arr :: bytes
  sl_len :: nat

definition slice_wf :: "goslice \<Rightarrow> bool" where
  "slice_wf s \<longleftrightarrow> sl_len s \<le> length (sl_arr s)"

definition slice_bytes :: "goslice \<Rightarrow> bytes" where
  "slice_bytes s = take (sl_len s) (sl_arr s)"

definition slice_of :: "bytes \<Rightarrow> goslice" where
  "slice_of bs = \<lparr>sl_arr = bs, sl_len = length bs\<rparr>"

definition slice_index :: "goslice \<Rightarrow> nat \<Rightarrow> ('e, byte) res" where
  "slice_index s i = (if i < sl_len s then Ok (sl_arr s ! i) else Panic)"

definition slice_range :: "goslice \<Rightarrow> nat \<Rightarrow> nat \<Rightarrow> ('e, goslice) res" where
  "slice_range s i j =
     (if i \<le> j \<and> j \<le> length (sl_arr s)
      then Ok \<lparr>sl_arr = drop i (sl_arr s), sl_len = j - i\<rparr> else Panic)"

definition slice_from :: "goslice \<Rightarrow> nat \<Rightarrow> ('e, goslice) res" where
  "slice_from s i = slice_range s i (sl_len s)"

text \<open>\<open>binary.BigEndian.Uint16(s[i:i+2])\<close>.\<close>

definition slice_u16 :: "goslice \<Rightarrow> nat \<Rightarrow> ('e, nat) res" where
  "slice_u16 s i = bind_res (slice_range s i (i + 2)) (\<lambda>t. Ok (be_val (slice_bytes t)))"

lemma slice_of_sel [simp]:
  "sl_arr (slice_of bs) = bs" "sl_len (slice_of bs) = length bs" "slice_wf (slice_of bs)"
  "slice_bytes (slice_of bs) = bs"
  by (simp_all add: slice_of_def slice_wf_def slice_bytes_def)

lemma slice_index_Ok [slice_simps]:
  "slice_index s i = Ok b \<longleftrightarrow> i < sl_len s \<and> b = sl_arr s ! i"
  by (auto simp: slice_index_def)

lemma slice_index_Panic [slice_simps]: "slice_index s i = Panic \<longleftrightarrow> sl_len s \<le> i"
  by (auto simp: slice_index_def)

lemma slice_range_Ok [slice_simps]:
  "slice_range s i j = Ok t \<longleftrightarrow>
     i \<le> j \<and> j \<le> length (sl_arr s) \<and> t = \<lparr>sl_arr = drop i (sl_arr s), sl_len = j - i\<rparr>"
  by (auto simp: slice_range_def)

lemma slice_range_Panic [slice_simps]:
  "slice_range s i j = Panic \<longleftrightarrow> \<not> (i \<le> j \<and> j \<le> length (sl_arr s))"
  by (auto simp: slice_range_def)

lemma slice_u16_Ok [slice_simps]:
  "slice_u16 s i = Ok v \<longleftrightarrow>
     i + 2 \<le> length (sl_arr s) \<and> v = be_val (take 2 (drop i (sl_arr s)))"
  by (auto simp: slice_u16_def res_simps slice_simps slice_bytes_def)

lemma slice_u16_Panic [slice_simps]: "slice_u16 s i = Panic \<longleftrightarrow> length (sl_arr s) < i + 2"
  by (auto simp: slice_u16_def res_simps slice_simps)

lemma slice_not_Err [simp]:
  "slice_index s i \<noteq> Err e" "slice_range s i j \<noteq> Err e" "slice_from s i \<noteq> Err e"
  by (simp_all add: slice_index_def slice_range_def slice_from_def)

lemma slice_wf_range: "slice_range s i j = Ok t \<Longrightarrow> slice_wf t"
  by (auto simp: slice_range_Ok slice_wf_def)

text \<open>Reading a field at its offset in a backing array written as a concatenation.\<close>

lemma slice_index_at:
  "sl_arr s = xs @ b # ys \<Longrightarrow> length xs = i \<Longrightarrow> i < sl_len s \<Longrightarrow> slice_index s i = Ok b"
  by (auto simp: slice_index_def nth_append)

lemma slice_range_at:
  "sl_arr s = xs @ ys @ zs \<Longrightarrow> length xs = i \<Longrightarrow> j = i + length ys \<Longrightarrow>
     slice_range s i j = Ok \<lparr>sl_arr = ys @ zs, sl_len = length ys\<rparr>"
  by (auto simp: slice_range_def)

lemma slice_u16_at:
  "sl_arr s = xs @ put_be 2 v @ ys \<Longrightarrow> length xs = i \<Longrightarrow> v < 65536 \<Longrightarrow> slice_u16 s i = Ok v"
  by (auto simp: slice_u16_Ok codec_simps)

section \<open>Byte streams\<close>

text \<open>
  The readable side of a connection: the bytes that arrive, and the error a read gets once they
  are used up (end of file, the read deadline, or a reset connection). The layers above add two
  errors of their own: a frame of a forbidden size and a frame that does not authenticate.
\<close>

datatype io_error = EOF | UnexpectedEOF | Timeout | ConnReset | BadFrameSize | BadFrameAuth

record stream =
  st_in :: bytes
  st_end :: io_error

text \<open>\<open>io.ReadFull\<close>: exactly \<open>n\<close> bytes, or an error with everything that arrived consumed.\<close>

definition read_full :: "nat \<Rightarrow> stream \<Rightarrow> (io_error + bytes) \<times> stream" where
  "read_full n s =
     (if n \<le> length (st_in s) then (Inr (take n (st_in s)), s\<lparr>st_in := drop n (st_in s)\<rparr>)
      else (Inl (if st_end s = EOF \<and> st_in s \<noteq> [] then UnexpectedEOF else st_end s),
            s\<lparr>st_in := []\<rparr>))"

lemma read_full_enough [simp]:
  "n \<le> length (st_in s) \<Longrightarrow>
     read_full n s = (Inr (take n (st_in s)), s\<lparr>st_in := drop n (st_in s)\<rparr>)"
  by (simp add: read_full_def)

lemma read_full_append:
  "length xs = n \<Longrightarrow> st_in s = xs @ ys \<Longrightarrow> read_full n s = (Inr xs, s\<lparr>st_in := ys\<rparr>)"
  by (simp add: read_full_def)

lemma read_full_Inr:
  "read_full n s = (Inr xs, s') \<longleftrightarrow>
     n \<le> length (st_in s) \<and> xs = take n (st_in s) \<and> s' = s\<lparr>st_in := drop n (st_in s)\<rparr>"
  by (auto simp: read_full_def)

section \<open>Text\<close>

text \<open>Go strings are byte strings; \<open>char\<close> has 256 values, so the two conversions are inverse.\<close>

definition string_of_bytes :: "bytes \<Rightarrow> string" where
  "string_of_bytes bs = map (\<lambda>b. char_of (unat b)) bs"

definition bytes_of_string :: "string \<Rightarrow> bytes" where
  "bytes_of_string s = map (\<lambda>c. word_of_nat (of_char c)) s"

lemma of_char_byte_less [simp]: "(of_char c :: nat) < 256"
  using of_char_mod_256 [of c, where 'a = nat] mod_less_divisor [of 256 "of_char c"] by simp

lemma string_bytes_inverse [simp]:
  "string_of_bytes (bytes_of_string s) = s" "bytes_of_string (string_of_bytes bs) = bs"
proof -
  have "char_of (unat (word_of_nat (of_char c) :: byte)) = c" for c
    by simp
  then show "string_of_bytes (bytes_of_string s) = s"
    by (simp add: string_of_bytes_def bytes_of_string_def comp_def map_idI)
  have "word_of_nat (of_char (char_of (unat b) :: char)) = (b :: byte)" for b
    by simp
  then show "bytes_of_string (string_of_bytes bs) = bs"
    by (simp add: string_of_bytes_def bytes_of_string_def comp_def map_idI)
qed

lemma length_bytes_of_string [simp]: "length (bytes_of_string s) = length s"
  by (simp add: bytes_of_string_def)

lemma length_string_of_bytes [simp]: "length (string_of_bytes bs) = length bs"
  by (simp add: string_of_bytes_def)

lemma string_of_bytes_Nil [simp]: "string_of_bytes bs = [] \<longleftrightarrow> bs = []"
  by (simp add: string_of_bytes_def)

lemma bytes_of_string_Nil [simp]: "bytes_of_string s = [] \<longleftrightarrow> s = []"
  by (simp add: bytes_of_string_def)

subsection \<open>Hexadecimal text: \<open>encoding/hex\<close>\<close>

definition hex_digit :: "nat \<Rightarrow> char" where
  "hex_digit n = (if n < 10 then char_of (48 + n) else char_of (87 + n))"

definition hex_value :: "char \<Rightarrow> nat option" where
  "hex_value c = (let n = (of_char c :: nat) in
     if 48 \<le> n \<and> n \<le> 57 then Some (n - 48)
     else if 97 \<le> n \<and> n \<le> 102 then Some (n - 87)
     else if 65 \<le> n \<and> n \<le> 70 then Some (n - 55)
     else None)"

fun hex_encode :: "bytes \<Rightarrow> string" where
  "hex_encode [] = []"
| "hex_encode (b # bs) = hex_digit (unat b div 16) # hex_digit (unat b mod 16) # hex_encode bs"

fun hex_decode :: "string \<Rightarrow> bytes option" where
  "hex_decode [] = Some []"
| "hex_decode [c] = None"
| "hex_decode (c # d # cs) =
     (case (hex_value c, hex_value d) of
        (Some h, Some l) \<Rightarrow> map_option (\<lambda>bs. word_of_nat (16 * h + l) # bs) (hex_decode cs)
      | _ \<Rightarrow> None)"

lemma hex_value_digit [simp]: "n < 16 \<Longrightarrow> hex_value (hex_digit n) = Some n"
  by (auto simp: hex_value_def hex_digit_def Let_def)

lemma unat_div_16 [simp]: "unat (b :: byte) div 16 < 16"
  using unat_byte_less [of b] by (simp add: less_mult_imp_div_less del: unat_byte_less)

lemma hex_decode_encode [simp]: "hex_decode (hex_encode bs) = Some bs"
proof (induction bs)
  case Nil
  then show ?case by simp
next
  case (Cons b bs)
  have "(word_of_nat (16 * (unat b div 16) + unat b mod 16) :: byte) = b"
    by (simp only: mult_div_mod_eq) simp
  then show ?case
    using Cons.IH by (simp del: of_nat_add of_nat_mult)
qed

lemma hex_decode_length: "hex_decode s = Some bs \<Longrightarrow> length s = 2 * length bs"
  by (induction s arbitrary: bs rule: hex_decode.induct) (auto split: option.splits)

lemma length_hex_encode [simp]: "length (hex_encode bs) = 2 * length bs"
  by (induction bs) auto

subsection \<open>Decimal text\<close>

definition dec_digit :: "nat \<Rightarrow> char" where
  "dec_digit n = char_of (48 + n)"

fun dec_nat :: "nat \<Rightarrow> string" where
  "dec_nat n = (if n < 10 then [dec_digit n] else dec_nat (n div 10) @ [dec_digit (n mod 10)])"

declare dec_nat.simps [simp del]

definition dec_int :: "int \<Rightarrow> string" where
  "dec_int i = (if i < 0 then CHR ''-'' # dec_nat (nat (- i)) else dec_nat (nat i))"

subsection \<open>\<open>strings.TrimSpace\<close> and \<open>strings.ToLower\<close>\<close>

text \<open>The UTF-8 encodings of the code points for which \<open>unicode.IsSpace\<close> holds.\<close>

definition ws_codes :: "nat list list" where
  "ws_codes = [[9], [10], [11], [12], [13], [32], [0xC2, 0x85], [0xC2, 0xA0],
     [0xE1, 0x9A, 0x80], [0xE2, 0x80, 0x80], [0xE2, 0x80, 0x81], [0xE2, 0x80, 0x82],
     [0xE2, 0x80, 0x83], [0xE2, 0x80, 0x84], [0xE2, 0x80, 0x85], [0xE2, 0x80, 0x86],
     [0xE2, 0x80, 0x87], [0xE2, 0x80, 0x88], [0xE2, 0x80, 0x89], [0xE2, 0x80, 0x8A],
     [0xE2, 0x80, 0xA8], [0xE2, 0x80, 0xA9], [0xE2, 0x80, 0xAF], [0xE2, 0x81, 0x9F],
     [0xE3, 0x80, 0x80]]"

definition ws_prefix :: "nat list list \<Rightarrow> string \<Rightarrow> nat" where
  "ws_prefix codes s =
     (case find (\<lambda>w. take (length w) (map of_char s) = w) codes of
        Some w \<Rightarrow> length w | None \<Rightarrow> 0)"

function strip_ws :: "nat list list \<Rightarrow> string \<Rightarrow> string" where
  "strip_ws codes s =
     (if ws_prefix codes s = 0 \<or> s = [] then s else strip_ws codes (drop (ws_prefix codes s) s))"
  by pat_completeness auto
termination
  by (relation "measure (\<lambda>(codes, s). length s)") auto

declare strip_ws.simps [simp del]

definition trim_space :: "string \<Rightarrow> string" where
  "trim_space s = rev (strip_ws (map rev ws_codes) (rev (strip_ws ws_codes s)))"

lemma strip_ws_suffix: "\<exists>p. s = p @ strip_ws codes s"
proof (induction codes s rule: strip_ws.induct)
  case (1 codes s)
  show ?case
  proof (cases "ws_prefix codes s = 0 \<or> s = []")
    case True
    then show ?thesis by (simp add: strip_ws.simps [of codes s])
  next
    case False
    then obtain p where "drop (ws_prefix codes s) s = p @ strip_ws codes (drop (ws_prefix codes s) s)"
      using 1 by blast
    with False show ?thesis
      by (metis append.assoc append_take_drop_id strip_ws.simps)
  qed
qed

lemma trim_space_Nil [simp]: "trim_space [] = []"
  by (simp add: trim_space_def strip_ws.simps)

text \<open>Lower case of the ASCII letters; the names the program compares are ASCII.\<close>

definition to_lower :: "string \<Rightarrow> string" where
  "to_lower s = map (\<lambda>c. let n = (of_char c :: nat) in
     if 65 \<le> n \<and> n \<le> 90 then char_of (n + 32) else c) s"

end
