(* ===== verification/Secret.thy ===== *)
theory Secret
  imports GoBase
begin

text \<open>
  MTProto secrets, \<open>internal/mtproto/secret.go\<close>: the \<open>ee\<close> (Fake TLS) and \<open>dd\<close> (secure) secrets,
  their parser over hexadecimal or raw URL base64 text, and the hexadecimal printer.
  The lemmas characterise exactly which texts the parser accepts and give the round trip of
  printer and parser on well-formed secrets.
\<close>

section \<open>Secrets\<close>

definition FakeTLSPrefix :: byte where
  "FakeTLSPrefix = 0xee"

definition SecurePrefix :: byte where
  "SecurePrefix = 0xdd"

definition KeyLength :: nat where
  "KeyLength = 16"

record secret =
  s_key :: bytes
  s_host :: string
  s_mode :: byte

datatype secret_error =
    ErrEmptySecret
  | SecretBadFormat
  | SecretTooShort nat
  | SecretBadPrefix byte
  | SecretShortKey
  | SecretEmptyHost

definition IsFakeTLS :: "secret \<Rightarrow> bool" where
  "IsFakeTLS s \<longleftrightarrow> s_mode s = FakeTLSPrefix"

definition IsSecure :: "secret \<Rightarrow> bool" where
  "IsSecure s \<longleftrightarrow> s_mode s = SecurePrefix"

section \<open>\<open>base64.RawURLEncoding.DecodeString\<close>\<close>

text \<open>
  The decoder skips carriage returns and line feeds, refuses every other character outside the URL
  alphabet and a final group of one character, and ignores the unused low bits of a short group.
\<close>

definition b64_value :: "char \<Rightarrow> nat option" where
  "b64_value c = (let n = (of_char c :: nat) in
     if 65 \<le> n \<and> n \<le> 90 then Some (n - 65)
     else if 97 \<le> n \<and> n \<le> 122 then Some (n - 71)
     else if 48 \<le> n \<and> n \<le> 57 then Some (n + 4)
     else if n = 45 then Some 62
     else if n = 95 then Some 63
     else None)"

fun b64_groups :: "nat list \<Rightarrow> bytes option" where
  "b64_groups [] = Some []"
| "b64_groups [a] = None"
| "b64_groups [a, b] = Some [word_of_nat (4 * a + b div 16)]"
| "b64_groups [a, b, c] =
     Some [word_of_nat (4 * a + b div 16), word_of_nat (16 * (b mod 16) + c div 4)]"
| "b64_groups (a # b # c # d # vs) =
     map_option (\<lambda>bs. word_of_nat (4 * a + b div 16) # word_of_nat (16 * (b mod 16) + c div 4)
                       # word_of_nat (64 * (c mod 4) + d) # bs) (b64_groups vs)"

fun b64_values :: "string \<Rightarrow> nat list option" where
  "b64_values [] = Some []"
| "b64_values (c # cs) =
     (if of_char c = (13 :: nat) \<or> of_char c = (10 :: nat) then b64_values cs
      else case b64_value c of
             None \<Rightarrow> None
           | Some v \<Rightarrow> map_option ((#) v) (b64_values cs))"

definition b64url_decode :: "string \<Rightarrow> bytes option" where
  "b64url_decode s = Option.bind (b64_values s) b64_groups"

section \<open>Parser and printer\<close>

text \<open>Hexadecimal is tried first, base64 when that fails.\<close>

definition secret_bytes :: "string \<Rightarrow> bytes option" where
  "secret_bytes text =
     (case hex_decode text of Some bs \<Rightarrow> Some bs | None \<Rightarrow> b64url_decode text)"

definition ParseSecret :: "string \<Rightarrow> (secret_error, secret) res" where
  "ParseSecret text =
     (if text = [] then Err ErrEmptySecret
      else case secret_bytes text of
             None \<Rightarrow> Err SecretBadFormat
           | Some decoded \<Rightarrow>
               if length decoded < 2 then Err (SecretTooShort (length decoded))
               else let mode = hd decoded; payload = tl decoded in
                 if mode \<noteq> FakeTLSPrefix \<and> mode \<noteq> SecurePrefix then Err (SecretBadPrefix mode)
                 else if length payload < KeyLength then Err SecretShortKey
                 else let key = take KeyLength payload in
                   if mode = FakeTLSPrefix then
                     let host = string_of_bytes (drop KeyLength payload) in
                       if host = [] then Err SecretEmptyHost
                       else Ok \<lparr>s_key = key, s_host = host, s_mode = mode\<rparr>
                   else Ok \<lparr>s_key = key, s_host = [], s_mode = mode\<rparr>)"

definition EncodeHex :: "secret \<Rightarrow> string" where
  "EncodeHex s = hex_encode (s_mode s # s_key s @
     (if s_mode s = FakeTLSPrefix then bytes_of_string (s_host s) else []))"

definition EncodeSecureHex :: "bytes \<Rightarrow> string" where
  "EncodeSecureHex key = hex_encode (SecurePrefix # key)"

text \<open>A well-formed secret: a 16-byte key, one of the two modes, a host exactly for \<open>ee\<close>.\<close>

definition secret_wf :: "secret \<Rightarrow> bool" where
  "secret_wf s \<longleftrightarrow> length (s_key s) = KeyLength
     \<and> (s_mode s = FakeTLSPrefix \<and> s_host s \<noteq> [] \<or> s_mode s = SecurePrefix \<and> s_host s = [])"

lemma prefixes_distinct [simp]: "FakeTLSPrefix \<noteq> SecurePrefix" "SecurePrefix \<noteq> FakeTLSPrefix"
  by (simp_all add: FakeTLSPrefix_def SecurePrefix_def)

lemma hex_encode_Nil [simp]: "hex_encode bs = [] \<longleftrightarrow> bs = []"
  by (cases bs) auto

lemma secret_bytes_hex [simp]: "secret_bytes (hex_encode bs) = Some bs"
  by (simp add: secret_bytes_def)

text \<open>The bytes that stand for a secret: an \<open>ee\<close> secret exactly, a \<open>dd\<close> secret as a prefix.\<close>

definition secret_repr :: "secret \<Rightarrow> bytes \<Rightarrow> bool" where
  "secret_repr s bs \<longleftrightarrow>
     (if s_mode s = FakeTLSPrefix then bs = s_mode s # s_key s @ bytes_of_string (s_host s)
      else take (Suc KeyLength) bs = s_mode s # s_key s)"

lemma ParseSecret_OkD:
  assumes "ParseSecret text = Ok s"
  obtains bs where "secret_bytes text = Some bs" "text \<noteq> []" "length bs \<ge> 2"
    "s_mode s = hd bs" "length (tl bs) \<ge> KeyLength" "s_key s = take KeyLength (tl bs)"
    "s_mode s = FakeTLSPrefix \<and> s_host s = string_of_bytes (drop KeyLength (tl bs)) \<and> s_host s \<noteq> []
      \<or> s_mode s = SecurePrefix \<and> s_host s = []"
  using assms
  by (auto simp: ParseSecret_def Let_def split: if_splits option.splits)

lemma ParseSecret_wf: "ParseSecret text = Ok s \<Longrightarrow> secret_wf s"
  by (auto elim!: ParseSecret_OkD simp: secret_wf_def)

lemma ParseSecret_of_repr:
  assumes "text \<noteq> []" "secret_bytes text = Some bs" "secret_wf s" "secret_repr s bs"
  shows "ParseSecret text = Ok s"
proof (cases "s_mode s = FakeTLSPrefix")
  case True
  then have "bs = FakeTLSPrefix # s_key s @ bytes_of_string (s_host s)" "length (s_key s) = KeyLength"
    "s_host s \<noteq> []"
    using assms(3,4) by (auto simp: secret_repr_def secret_wf_def)
  with True assms(1,2) show ?thesis
    by (cases s) (auto simp: ParseSecret_def Let_def KeyLength_def)
next
  case False
  then have m: "s_mode s = SecurePrefix" "s_host s = []" "length (s_key s) = KeyLength"
    using assms(3) by (auto simp: secret_wf_def)
  then have t: "take (Suc KeyLength) bs = SecurePrefix # s_key s"
    using assms(4) False by (simp add: secret_repr_def)
  then obtain rest where "bs = SecurePrefix # rest" "take KeyLength rest = s_key s"
    by (cases bs) auto
  moreover from this(2) m(3) have "KeyLength \<le> length rest"
    by (metis length_take min.cobounded1)
  ultimately show ?thesis
    using assms(1,2) m by (cases s) (auto simp: ParseSecret_def Let_def KeyLength_def)
qed

lemma ParseSecret_repr:
  assumes "ParseSecret text = Ok s"
  shows "\<exists>bs. secret_bytes text = Some bs \<and> secret_repr s bs"
  using assms
proof (rule ParseSecret_OkD)
  fix bs
  assume a: "secret_bytes text = Some bs" "length bs \<ge> 2" "s_mode s = hd bs"
    "s_key s = take KeyLength (tl bs)"
    "s_mode s = FakeTLSPrefix \<and> s_host s = string_of_bytes (drop KeyLength (tl bs)) \<and> s_host s \<noteq> []
      \<or> s_mode s = SecurePrefix \<and> s_host s = []"
  from a(2) obtain m r where "bs = m # r"
    by (cases bs) auto
  with a show ?thesis
    by (auto simp: secret_repr_def)
qed

text \<open>
  C39. The parser accepts exactly the non-empty texts that decode (as hexadecimal, or else as base64)
  to the bytes of a well-formed secret: mode byte, 16 key bytes and, for \<open>ee\<close>, a non-empty host
  name; the bytes after the key of a \<open>dd\<close> secret are ignored.
\<close>

theorem ParseSecret_accepts_iff:
  "ParseSecret text = Ok s \<longleftrightarrow>
     text \<noteq> [] \<and> secret_wf s \<and> (\<exists>bs. secret_bytes text = Some bs \<and> secret_repr s bs)"
proof
  assume ok: "ParseSecret text = Ok s"
  then show "text \<noteq> [] \<and> secret_wf s \<and> (\<exists>bs. secret_bytes text = Some bs \<and> secret_repr s bs)"
    using ParseSecret_wf [OF ok] ParseSecret_repr [OF ok] by (auto simp: ParseSecret_def)
next
  assume "text \<noteq> [] \<and> secret_wf s \<and> (\<exists>bs. secret_bytes text = Some bs \<and> secret_repr s bs)"
  then show "ParseSecret text = Ok s"
    using ParseSecret_of_repr by blast
qed

lemma EncodeHex_decode:
  "secret_wf s \<Longrightarrow> secret_repr s (s_mode s # s_key s @
     (if s_mode s = FakeTLSPrefix then bytes_of_string (s_host s) else []))"
  by (auto simp: secret_repr_def secret_wf_def)

lemma ParseSecret_EncodeHex: "secret_wf s \<Longrightarrow> ParseSecret (EncodeHex s) = Ok s"
  unfolding EncodeHex_def
  by (rule ParseSecret_of_repr [OF _ secret_bytes_hex]) (simp_all add: EncodeHex_decode)

text \<open>
  Printing a well-formed secret as hexadecimal text and parsing it gives the secret back.
\<close>

theorem EncodeHex_roundtrip:
  assumes "secret_wf s"
  shows "ParseSecret (EncodeHex s) = Ok s"
  using assms by (rule ParseSecret_EncodeHex)

theorem EncodeHex_roundtrip_witness:
  "ParseSecret (EncodeHex \<lparr>s_key = replicate 16 7, s_host = ''a.org'', s_mode = 0xee\<rparr>)
     = Ok \<lparr>s_key = replicate 16 7, s_host = ''a.org'', s_mode = 0xee\<rparr>"
  by (rule EncodeHex_roundtrip) (simp add: secret_wf_def KeyLength_def FakeTLSPrefix_def)

end
