(* ===== verification/ClientHello.thy ===== *)
theory ClientHello
  imports GoBase
begin

text \<open>
  The Fake TLS ClientHello, \<open>internal/faketls/client_hello.go\<close>, \<open>client_hello_policy.go\<close> and the
  client side of \<open>client.go\<close>: reading and parsing the record, the SNI and extension walks, the
  HMAC and time-stamp check of the client random, the policy check, and the generator of a valid
  record. Slice expressions are modelled with Go's bounds, so a malformed record shows as \<open>Panic\<close>.

  HMAC-SHA256 is the argument \<open>hmac\<close> (key, message), the clock the argument \<open>now\<close> (Unix seconds),
  and \<open>utls\<close> a function from host name and fingerprint to the handshake message it builds
  (\<open>None\<close> when it fails). \<open>spare n\<close> is the
  spare capacity (zero bytes) the runtime leaves after an appended slice of length \<open>n\<close>.
\<close>

section \<open>Data\<close>

definition recordHandshake :: byte where "recordHandshake = 0x16"
definition recordChangeCipher :: byte where "recordChangeCipher = 0x14"
definition recordApplicationData :: byte where "recordApplicationData = 0x17"
definition maxRecordPayload :: nat where "maxRecordPayload = 16384"
definition randomOffset :: nat where "randomOffset = 11"
definition randomLength :: nat where "randomLength = 32"
definition timestampSkewSeconds :: int where "timestampSkewSeconds = 120"

lemmas hello_consts = recordHandshake_def maxRecordPayload_def randomOffset_def randomLength_def
  timestampSkewSeconds_def

datatype hello_error =
    HelloIO io_error
  | ErrNotHandshake
  | RecordTooLarge
  | ErrNotClientHello
  | HelloTruncated
  | HelloTooShort
  | RawTooShort
  | ErrBadDigest
  | ErrTimestamp
  | SNIMismatch string string
  | UtlsBuildFailed

record client_hello =
  ch_raw :: goslice
  ch_random :: bytes
  ch_session :: bytes
  ch_cipher :: nat

section \<open>Reading and parsing\<close>

text \<open>\<open>int(p[1])<<16 | int(p[2])<<8 | int(p[3])\<close>\<close>

definition hello_len :: "bytes \<Rightarrow> nat" where
  "hello_len payload = be_val (take 3 (drop 1 payload))"

text \<open>The part of \<open>parseClientHello\<close> after the record is read.\<close>

definition parse_hello_payload ::
  "goslice \<Rightarrow> bytes \<Rightarrow> (hello_error, client_hello) res" where
  "parse_hello_payload raw payload =
     (if length payload < 4 \<or> payload ! 0 \<noteq> 1 then Err ErrNotClientHello
      else bind_res (slice_from (slice_of payload) 4) (\<lambda>hello.
        if sl_len hello < hello_len payload then Err HelloTruncated
        else bind_res (slice_range hello 0 (hello_len payload)) (\<lambda>hello.
          if sl_len hello < 34 then Err HelloTooShort
          else bind_res (slice_range hello 2 34) (\<lambda>rnd.
            bind_res (slice_index hello 34) (\<lambda>sl.
            let sidLen = unat sl in
            bind_res (slice_range hello 35 (35 + sidLen)) (\<lambda>sid.
            bind_res (slice_u16 hello (35 + sidLen)) (\<lambda>csLen.
            let ch = \<lparr>ch_raw = raw, ch_random = slice_bytes rnd, ch_session = slice_bytes sid,
                      ch_cipher = 0\<rparr> in
            if csLen \<ge> 2
            then bind_res (slice_u16 hello (35 + sidLen + 2)) (\<lambda>cs. Ok (ch\<lparr>ch_cipher := cs\<rparr>))
            else Ok ch)))))))"

definition raw_record :: "(nat \<Rightarrow> nat) \<Rightarrow> bytes \<Rightarrow> goslice" where
  "raw_record spare bs =
     \<lparr>sl_arr = bs @ replicate (spare (length bs)) 0, sl_len = length bs\<rparr>"

definition parseClientHello ::
  "(nat \<Rightarrow> nat) \<Rightarrow> stream \<Rightarrow> (hello_error, client_hello) res \<times> stream" where
  "parseClientHello spare s =
     (case read_full 5 s of
        (Inl e, s1) \<Rightarrow> (Err (HelloIO e), s1)
      | (Inr header, s1) \<Rightarrow>
          if header ! 0 \<noteq> recordHandshake then (Err ErrNotHandshake, s1)
          else let payloadLen = be_val (take 2 (drop 3 header)) in
            if payloadLen > maxRecordPayload + 2048 then (Err RecordTooLarge, s1)
            else case read_full payloadLen s1 of
                   (Inl e, s2) \<Rightarrow> (Err (HelloIO e), s2)
                 | (Inr payload, s2) \<Rightarrow>
                     (parse_hello_payload (raw_record spare (header @ payload)) payload, s2))"

section \<open>The extension block: SNI, extension lookup, policy\<close>

text \<open>
  The prefix that \<open>SNI\<close>, \<open>hasExtension\<close>, \<open>JA3\<close> and \<open>JA4\<close> share: the handshake body of a record,
  \<open>None\<close> where they return their default.
\<close>

definition hello_body :: "goslice \<Rightarrow> ('e, goslice option) res" where
  "hello_body raw =
     (if sl_len raw < 5 then Ok None
      else bind_res (slice_from raw 5) (\<lambda>payload.
        if sl_len payload < 4 then Ok None
        else bind_res (slice_index payload 0) (\<lambda>t.
          if t \<noteq> 1 then Ok None
          else bind_res (slice_from payload 4) (\<lambda>hello.
            if sl_len hello < hello_len (slice_bytes payload) then Ok None
            else bind_res (slice_range hello 0 (hello_len (slice_bytes payload))) (\<lambda>hello.
              Ok (Some hello))))))"

text \<open>The walk over session id, cipher suites and compression methods to the extensions.\<close>

definition ext_block :: "goslice \<Rightarrow> ('e, goslice option) res" where
  "ext_block hello =
     bind_res (slice_index hello 34) (\<lambda>sidLen.
     let pos = 35 + unat sidLen in
     if pos + 2 > sl_len hello then Ok None
     else bind_res (slice_u16 hello pos) (\<lambda>csLen.
     let pos = pos + 2 + csLen in
     if pos \<ge> sl_len hello then Ok None
     else bind_res (slice_index hello pos) (\<lambda>compLen.
     let pos = pos + 1 + unat compLen in
     if pos + 2 > sl_len hello then Ok None
     else bind_res (slice_u16 hello pos) (\<lambda>extLen.
       bind_res (slice_range hello (pos + 2) (pos + 2 + extLen)) (\<lambda>ext. Ok (Some ext))))))"

fun sni_names :: "bytes \<Rightarrow> string option" where
  "sni_names (t # h # l # data) =
     (let nameLen = be_val [h, l] in
      if nameLen > length data then None
      else if t = 0 then Some (string_of_bytes (take nameLen data))
      else sni_names (drop nameLen data))"
| "sni_names _ = None"

function parseSNI :: "bytes \<Rightarrow> string" where
  "parseSNI ext =
     (if length ext < 4 then []
      else let extType = be_val (take 2 ext); extLen = be_val (take 2 (drop 2 ext));
               rest = drop 4 ext
        in if extLen > length rest then []
           else if extType = 0 then
             (if extLen < 2 then []
              else case sni_names (drop 2 (take extLen rest)) of
                     Some host \<Rightarrow> host
                   | None \<Rightarrow> parseSNI (drop extLen rest))
           else parseSNI (drop extLen rest))"
  by pat_completeness auto
termination
  by (relation "measure length") auto

declare parseSNI.simps [simp del]

definition SNI :: "client_hello \<Rightarrow> ('e, string) res" where
  "SNI ch =
     bind_res (hello_body (ch_raw ch)) (\<lambda>b. case b of
        None \<Rightarrow> Ok []
      | Some hello \<Rightarrow>
          if 34 \<ge> sl_len hello then Ok []
          else bind_res (ext_block hello) (\<lambda>e. case e of
                 None \<Rightarrow> Ok []
               | Some ext \<Rightarrow> Ok (parseSNI (slice_bytes ext))))"

function find_ext :: "nat \<Rightarrow> bytes \<Rightarrow> bool" where
  "find_ext want ext =
     (if length ext < 4 then False
      else if be_val (take 2 ext) = want then True
      else find_ext want (drop (4 + be_val (take 2 (drop 2 ext))) ext))"
  by pat_completeness auto
termination
  by (relation "measure (\<lambda>(want, ext). length ext)") auto

declare find_ext.simps [simp del]

definition hasExtension :: "goslice \<Rightarrow> nat \<Rightarrow> ('e, bool) res" where
  "hasExtension raw want =
     bind_res (hello_body raw) (\<lambda>b. case b of
        None \<Rightarrow> Ok False
      | Some hello \<Rightarrow>
          if sl_len hello < 34 then Ok False
          else bind_res (ext_block hello) (\<lambda>e. case e of
                 None \<Rightarrow> Ok False
               | Some ext \<Rightarrow> Ok (find_ext want (slice_bytes ext))))"

definition extECH :: nat where "extECH = 0xfe0d"

definition HasECH :: "client_hello option \<Rightarrow> ('e, bool) res" where
  "HasECH ch = (case ch of None \<Rightarrow> Ok False | Some ch \<Rightarrow> hasExtension (ch_raw ch) extECH)"

datatype RejectReason =
    RejectReasonParse
  | RejectReasonReplay
  | RejectReasonSecret
  | RejectReasonFingerprint
  | RejectReasonECH
  | RejectReasonPolicy

text \<open>The error carries the reason of the \<open>PolicyError\<close>.\<close>

definition CheckClientHelloPolicy ::
  "client_hello option \<Rightarrow> string \<Rightarrow> (RejectReason, unit) res" where
  "CheckClientHelloPolicy ch policy =
     (if ch = None \<or> policy = '''' \<or> policy = ''accept'' then Ok ()
      else bind_res (HasECH ch) (\<lambda>ech.
        if ech \<and> policy = ''reject_fronting'' then Err RejectReasonECH
        else if policy = ''log'' then bind_res (HasECH ch) (\<lambda>_. Ok ())
        else Ok ()))"

section \<open>Authentication of the client random\<close>

definition zero_random :: "bytes \<Rightarrow> bytes" where
  "zero_random rec = take randomOffset rec @ replicate randomLength 0
     @ drop (randomOffset + randomLength) rec"

definition xor_bytes :: "bytes \<Rightarrow> bytes \<Rightarrow> bytes" where
  "xor_bytes xs ys = map2 (\<lambda>x y. Bit_Operations.xor x y) xs ys"

definition validateClientHello ::
  "(bytes \<Rightarrow> bytes \<Rightarrow> bytes) \<Rightarrow> int \<Rightarrow> client_hello \<Rightarrow> bytes \<Rightarrow> (hello_error, unit) res" where
  "validateClientHello hmac now ch secret =
     (if sl_len (ch_raw ch) < randomOffset + randomLength then Err RawTooShort
      else let computed = xor_bytes (hmac secret (zero_random (slice_bytes (ch_raw ch))))
                            (ch_random ch) in
        if take (randomLength - 4) computed \<noteq> replicate (randomLength - 4) 0 then Err ErrBadDigest
        else if \<bar>now - int (le_val (drop (randomLength - 4) computed))\<bar> > timestampSkewSeconds
             then Err ErrTimestamp
             else Ok ())"

definition ValidateClientHello ::
  "(bytes \<Rightarrow> bytes \<Rightarrow> bytes) \<Rightarrow> int \<Rightarrow> client_hello \<Rightarrow> bytes \<Rightarrow> string \<Rightarrow> (hello_error, unit) res"
where
  "ValidateClientHello hmac now ch secret hostname =
     bind_res (SNI ch) (\<lambda>sni.
       if sni \<noteq> [] \<and> hostname \<noteq> [] \<and> sni \<noteq> hostname then Err (SNIMismatch sni hostname)
       else validateClientHello hmac now ch secret)"

definition ReadClientHello ::
  "(nat \<Rightarrow> nat) \<Rightarrow> (bytes \<Rightarrow> bytes \<Rightarrow> bytes) \<Rightarrow> int \<Rightarrow> stream \<Rightarrow> bytes \<Rightarrow> string
     \<Rightarrow> (hello_error, client_hello) res \<times> stream" where
  "ReadClientHello spare hmac now s secret hostname =
     (case parseClientHello spare s of
        (r, s') \<Rightarrow>
          (bind_res r (\<lambda>ch. bind_res (ValidateClientHello hmac now ch secret hostname)
                              (\<lambda>_. Ok ch)), s'))"

text \<open>The fingerprints of \<open>utls\<close> that the program names; \<open>HelloZero\<close> is the zero \<open>ClientHelloID\<close>.\<close>

datatype ClientHelloID =
    HelloZero
  | HelloChrome_Auto
  | HelloChrome_120
  | HelloChrome_120_PQ
  | HelloChrome_115_PQ
  | HelloChrome_106_Shuffle
  | HelloFirefox_Auto
  | HelloFirefox_120
  | HelloFirefox_105
  | HelloEdge_Auto
  | HelloEdge_106
  | HelloSafari_Auto
  | HelloSafari_16_0

definition put_random :: "bytes \<Rightarrow> bytes \<Rightarrow> bytes" where
  "put_random rec rnd = take randomOffset rec @ rnd @ drop (randomOffset + randomLength) rec"

definition hello_record :: "bytes \<Rightarrow> bytes" where
  "hello_record hello = [recordHandshake, 3, 1] @ put_be 2 (length hello) @ hello"

text \<open>The HMAC with the little-endian time stamp added by exclusive or to its last four bytes.\<close>

definition client_random :: "(bytes \<Rightarrow> bytes \<Rightarrow> bytes) \<Rightarrow> int \<Rightarrow> bytes \<Rightarrow> bytes \<Rightarrow> bytes" where
  "client_random hmac now secret rec =
     (let mac = hmac secret (zero_random rec); ts = uint32_of_int now;
          old = drop (randomLength - 4) mac
      in take (randomLength - 4) mac @ xor_bytes old (put_le 4 ts))"

definition generateClientHelloRecord ::
  "(string \<Rightarrow> ClientHelloID \<Rightarrow> bytes option) \<Rightarrow> (bytes \<Rightarrow> bytes \<Rightarrow> bytes) \<Rightarrow> int
     \<Rightarrow> string \<Rightarrow> bytes \<Rightarrow> ClientHelloID \<Rightarrow> (hello_error, bytes) res" where
  "generateClientHelloRecord utls hmac now domain secret helloID =
     (case utls domain (if helloID = HelloZero then HelloChrome_Auto else helloID) of
        None \<Rightarrow> Err UtlsBuildFailed
      | Some hello \<Rightarrow>
          let rec = hello_record hello in
          if length rec < randomOffset + randomLength then Err HelloTooShort
          else Ok (put_random rec (client_random hmac now secret rec)))"

text \<open>\<open>BuildClientHello\<close>: the record with its fields read back; the caller has picked \<open>helloID\<close>.\<close>

definition BuildClientHello ::
  "(string \<Rightarrow> ClientHelloID \<Rightarrow> bytes option) \<Rightarrow> (bytes \<Rightarrow> bytes \<Rightarrow> bytes) \<Rightarrow> int
     \<Rightarrow> string \<Rightarrow> bytes \<Rightarrow> ClientHelloID \<Rightarrow> (hello_error, client_hello) res" where
  "BuildClientHello utls hmac now host key helloID =
     bind_res (generateClientHelloRecord utls hmac now host key helloID) (\<lambda>rec.
     bind_res (slice_range (slice_of rec) randomOffset (randomOffset + randomLength)) (\<lambda>rnd.
     bind_res (slice_from (slice_of rec) 5) (\<lambda>payload.
     if sl_len payload < 4 then Panic
     else let helloLen = hello_len (slice_bytes payload) in
     bind_res (slice_range payload 4 (4 + helloLen)) (\<lambda>hello.
     bind_res (slice_index hello 34) (\<lambda>sl.
     let sidLen = unat sl in
     bind_res (slice_range hello 35 (35 + sidLen)) (\<lambda>sid.
     let ch = \<lparr>ch_raw = slice_of rec, ch_random = slice_bytes rnd, ch_session = slice_bytes sid,
               ch_cipher = 0\<rparr> in
     if 35 + sidLen + 2 \<le> sl_len hello
     then bind_res (slice_u16 hello (35 + sidLen)) (\<lambda>csLen.
            if csLen \<ge> 2
            then bind_res (slice_u16 hello (35 + sidLen + 2)) (\<lambda>cs. Ok (ch\<lparr>ch_cipher := cs\<rparr>))
            else Ok ch)
     else Ok ch))))))"

section \<open>Facts about the parser\<close>

lemma slice_from_slice_of [simp]:
  "k \<le> length bs \<Longrightarrow>
     slice_from (slice_of bs) k = Ok \<lparr>sl_arr = drop k bs, sl_len = length bs - k\<rparr>"
  by (simp add: slice_from_def slice_range_def)

lemma hello_window [simp]:
  "n \<le> length (sl_arr s) \<Longrightarrow> slice_range s 0 n = Ok \<lparr>sl_arr = sl_arr s, sl_len = n\<rparr>"
  by (simp add: slice_range_def)

text \<open>A payload whose handshake body passes the length checks of the parser.\<close>

definition hello_checked :: "bytes \<Rightarrow> bool" where
  "hello_checked payload \<longleftrightarrow> 4 \<le> length payload \<and> payload ! 0 = 1
     \<and> 34 \<le> hello_len payload \<and> hello_len payload \<le> length payload - 4"

text \<open>The tail of the parser, on a payload that passed those checks.\<close>

lemma parse_hello_checked:
  assumes "hello_checked payload"
  shows "parse_hello_payload raw payload =
    (let hello = \<lparr>sl_arr = drop 4 payload, sl_len = hello_len payload\<rparr> in
     bind_res (slice_index hello 34) (\<lambda>sl.
     bind_res (slice_range hello 35 (35 + unat sl)) (\<lambda>sid.
     bind_res (slice_u16 hello (35 + unat sl)) (\<lambda>csLen.
     let ch = \<lparr>ch_raw = raw, ch_random = take 32 (drop 6 payload), ch_session = slice_bytes sid,
               ch_cipher = 0\<rparr> in
     if csLen \<ge> 2
     then bind_res (slice_u16 hello (37 + unat sl)) (\<lambda>cs. Ok (ch\<lparr>ch_cipher := cs\<rparr>))
     else Ok ch))))"
  using assms
  by (simp add: parse_hello_payload_def hello_checked_def slice_range_def slice_bytes_def Let_def
      add.commute cong: if_cong)

lemma parse_hello_unchecked:
  "\<not> hello_checked payload \<Longrightarrow>
     parse_hello_payload raw payload \<in> {Err ErrNotClientHello, Err HelloTruncated, Err HelloTooShort}"
  by (auto simp: parse_hello_payload_def hello_checked_def)

text \<open>The checked payloads whose variable-length fields run past the record.\<close>

definition hello_overruns :: "bytes \<Rightarrow> bool" where
  "hello_overruns payload \<longleftrightarrow> hello_checked payload \<and>
     (hello_len payload = 34
      \<or> (let sid = unat (payload ! 38) in
          length payload < 41 + sid
          \<or> 2 \<le> be_val (take 2 (drop (39 + sid) payload)) \<and> length payload < 43 + sid))"

lemma parse_hello_Panic_iff:
  "parse_hello_payload raw payload = Panic \<longleftrightarrow> hello_overruns payload"
proof (cases "hello_checked payload")
  case False
  then show ?thesis
    using parse_hello_unchecked [OF False, of raw] by (auto simp: hello_overruns_def)
next
  case True
  then have n: "4 \<le> length payload" "34 \<le> hello_len payload" "hello_len payload \<le> length payload - 4"
    by (auto simp: hello_checked_def)
  then have ix: "drop 4 payload ! 34 = payload ! 38" if "34 < hello_len payload"
    using that by simp
  show ?thesis
    using True n
    by (auto simp: parse_hello_checked hello_overruns_def Let_def res_simps slice_simps ix
        add.commute split: if_splits)
qed

lemma parse_hello_Ok_fields:
  assumes "parse_hello_payload raw payload = Ok ch"
  shows "ch_raw ch = raw" "ch_random ch = take 32 (drop 6 payload)" "38 \<le> length payload"
proof -
  have c: "hello_checked payload"
    using assms parse_hello_unchecked [of payload raw] by auto
  then show "38 \<le> length payload"
    by (auto simp: hello_checked_def)
  from assms c show "ch_raw ch = raw" "ch_random ch = take 32 (drop 6 payload)"
    by (auto simp: parse_hello_checked Let_def res_simps slice_simps split: if_splits)
qed

text \<open>\<open>parseClientHello\<close> by the record on the wire.\<close>

lemma parseClientHello_record:
  assumes "st_in s = header @ payload @ rest" "length header = 5" "header ! 0 = recordHandshake"
    "be_val (take 2 (drop 3 header)) = length payload" "length payload \<le> maxRecordPayload + 2048"
  shows "parseClientHello spare s =
    (parse_hello_payload (raw_record spare (header @ payload)) payload, s\<lparr>st_in := rest\<rparr>)"
  using assms by (simp add: parseClientHello_def Let_def)

lemma split_twice: "xs = take m xs @ take n (drop m xs) @ drop (n + m) xs"
  by (metis append_take_drop_id drop_drop)

lemma parseClientHello_OkD:
  assumes "parseClientHello spare s = (Ok ch, s')"
  obtains header payload where "st_in s = header @ payload @ st_in s'" "length header = 5"
    "header ! 0 = recordHandshake" "be_val (take 2 (drop 3 header)) = length payload"
    "length payload \<le> maxRecordPayload + 2048"
    "parse_hello_payload (raw_record spare (header @ payload)) payload = Ok ch"
    "st_end s' = st_end s"
proof -
  obtain header s1 where h: "read_full 5 s = (Inr header, s1)" "header ! 0 = recordHandshake"
    and le: "be_val (take 2 (drop 3 header)) \<le> maxRecordPayload + 2048"
    using assms by (auto simp: parseClientHello_def Let_def split: prod.splits sum.splits if_splits)
  with assms obtain payload where p: "read_full (be_val (take 2 (drop 3 header))) s1 = (Inr payload, s')"
    and ok: "parse_hello_payload (raw_record spare (header @ payload)) payload = Ok ch"
    by (auto simp: parseClientHello_def Let_def split: prod.splits sum.splits if_splits)
  show thesis
    by (rule that [of header payload])
      (use h p ok le in \<open>auto simp: read_full_Inr min_def split_twice\<close>)
qed

lemma raw_record_bytes [simp]: "slice_bytes (raw_record spare bs) = bs" "sl_len (raw_record spare bs) = length bs"
  "slice_wf (raw_record spare bs)"
  by (simp_all add: raw_record_def slice_bytes_def slice_wf_def)

section \<open>Facts about authentication\<close>

lemma length_xor_bytes [simp]: "length (xor_bytes xs ys) = min (length xs) (length ys)"
  by (simp add: xor_bytes_def)

lemma take_xor_bytes: "take n (xor_bytes xs ys) = xor_bytes (take n xs) (take n ys)"
  by (simp add: xor_bytes_def take_map take_zip)

lemma drop_xor_bytes: "drop n (xor_bytes xs ys) = xor_bytes (drop n xs) (drop n ys)"
  by (simp add: xor_bytes_def drop_map drop_zip)

lemma xor_bytes_append:
  "length xs = length ys \<Longrightarrow>
     xor_bytes (xs @ xs') (ys @ ys') = xor_bytes xs ys @ xor_bytes xs' ys'"
  by (simp add: xor_bytes_def)

lemma xor_bytes_self [simp]: "xor_bytes xs xs = replicate (length xs) 0"
  by (induction xs) (auto simp: xor_bytes_def)

lemma xor_byte_zero_iff: "Bit_Operations.xor x y = 0 \<longleftrightarrow> x = (y :: byte)"
  by (metis xor.assoc xor.right_neutral xor_self_eq)

lemma xor_bytes_zero_iff:
  "length xs = length ys \<Longrightarrow> xor_bytes xs ys = replicate (length xs) 0 \<longleftrightarrow> xs = ys"
  by (induction xs ys rule: list_induct2) (auto simp: xor_bytes_def xor_byte_zero_iff)

lemma xor_bytes_cancel: "length xs = length ys \<Longrightarrow> xor_bytes xs (xor_bytes xs ys) = ys"
  by (induction xs ys rule: list_induct2) (auto simp: xor_bytes_def xor.assoc [symmetric])

lemma xor_bytes_cancel_right: "length xs = length ys \<Longrightarrow> xor_bytes (xor_bytes xs ys) ys = xs"
  by (induction xs ys rule: list_induct2) (auto simp: xor_bytes_def ac_simps)

lemma zero_random_put_random:
  "length rnd = randomLength \<Longrightarrow> randomOffset + randomLength \<le> length rec \<Longrightarrow>
     zero_random (put_random rec rnd) = zero_random rec"
  by (simp add: zero_random_def put_random_def randomOffset_def randomLength_def)

lemma validateClientHello_Ok_iff:
  assumes "length (hmac secret (zero_random (slice_bytes (ch_raw ch)))) = 32"
    "length (ch_random ch) = 32"
  shows "validateClientHello hmac now ch secret = Ok () \<longleftrightarrow>
    (let mac = hmac secret (zero_random (slice_bytes (ch_raw ch))) in
     43 \<le> sl_len (ch_raw ch) \<and> take 28 (ch_random ch) = take 28 mac
     \<and> \<bar>now - int (le_val (xor_bytes (drop 28 mac) (drop 28 (ch_random ch))))\<bar> \<le> 120)"
proof -
  define mac where "mac = hmac secret (zero_random (slice_bytes (ch_raw ch)))"
  have "xor_bytes (take 28 mac) (take 28 (ch_random ch)) = replicate 28 0
      \<longleftrightarrow> take 28 mac = take 28 (ch_random ch)"
    using xor_bytes_zero_iff [of "take 28 mac" "take 28 (ch_random ch)"] assms
    by (simp add: mac_def)
  then show ?thesis
    by (auto simp: validateClientHello_def hello_consts Let_def take_xor_bytes drop_xor_bytes
        mac_def [symmetric])
qed

lemma length_client_random:
  "length (hmac secret (zero_random rec)) = 32 \<Longrightarrow> length (client_random hmac now secret rec) = 32"
  by (simp add: client_random_def Let_def randomLength_def)

lemma generate_validates:
  assumes len: "\<And>k m. length (hmac k m) = 32"
    and gen: "rec = put_random (hello_record hello) (client_random hmac now secret (hello_record hello))"
      "43 \<le> length (hello_record hello)"
    and raw: "slice_bytes (ch_raw ch) = rec" "sl_len (ch_raw ch) = length rec"
      "ch_random ch = take 32 (drop 11 rec)"
    and time: "0 \<le> now" "now < 4294967296" "\<bar>now' - now\<bar> \<le> 120"
  shows "validateClientHello hmac now' ch secret = Ok ()"
proof -
  let ?r = "hello_record hello"
  let ?rnd = "client_random hmac now secret ?r"
  have l: "43 \<le> length ?r" "rec = put_random ?r ?rnd"
    using gen by simp_all
  have rl: "length ?rnd = 32"
    using len by (simp add: length_client_random)
  have z: "zero_random rec = zero_random ?r"
    using l rl by (simp add: zero_random_put_random hello_consts)
  have r: "ch_random ch = ?rnd" "43 \<le> length rec"
    using l rl by (simp_all add: raw put_random_def hello_consts)
  let ?mac = "hmac secret (zero_random ?r)"
  have t: "take 28 ?rnd = take 28 ?mac" "drop 28 ?rnd = xor_bytes (drop 28 ?mac) (put_le 4 (uint32_of_int now))"
    using len by (simp_all add: client_random_def Let_def randomLength_def)
  have "xor_bytes (drop 28 ?mac) (drop 28 ?rnd) = put_le 4 (uint32_of_int now)"
    using len by (simp add: t xor_bytes_cancel)
  moreover have "int (uint32_of_int now) = now"
    using time by (simp add: uint32_of_int_nonneg)
  ultimately show ?thesis
    using len r rl t time by (subst validateClientHello_Ok_iff) (simp_all add: raw z Let_def codec_simps)
qed

section \<open>The wire format as a reference\<close>

text \<open>
  The ClientHello of RFC 8446, written as an encoder: what the parser and the extension walks have
  to understand. \<open>hs_comps\<close> are the compression methods.
\<close>

record hello_spec =
  hs_random :: bytes
  hs_session :: bytes
  hs_suites :: "nat list"
  hs_comps :: bytes
  hs_exts :: "(nat \<times> bytes) list"

fun enc_exts :: "(nat \<times> bytes) list \<Rightarrow> bytes" where
  "enc_exts [] = []"
| "enc_exts ((t, d) # es) = put_be 2 t @ put_be 2 (length d) @ d @ enc_exts es"

fun enc_suites :: "nat list \<Rightarrow> bytes" where
  "enc_suites [] = []"
| "enc_suites (c # cs) = put_be 2 c @ enc_suites cs"

definition enc_body :: "hello_spec \<Rightarrow> bytes" where
  "enc_body h = put_be 2 0x303 @ hs_random h @ [word_of_nat (length (hs_session h))] @ hs_session h
     @ put_be 2 (length (enc_suites (hs_suites h))) @ enc_suites (hs_suites h)
     @ [word_of_nat (length (hs_comps h))] @ hs_comps h
     @ put_be 2 (length (enc_exts (hs_exts h))) @ enc_exts (hs_exts h)"

definition enc_record :: "hello_spec \<Rightarrow> bytes" where
  "enc_record h = [recordHandshake, 3, 1] @ put_be 2 (length (enc_body h) + 4)
     @ [1] @ put_be 3 (length (enc_body h)) @ enc_body h"

definition hello_spec_wf :: "hello_spec \<Rightarrow> bool" where
  "hello_spec_wf h \<longleftrightarrow> length (hs_random h) = 32 \<and> length (hs_session h) < 256
     \<and> length (hs_comps h) < 256 \<and> length (enc_suites (hs_suites h)) < 65536
     \<and> list_all (\<lambda>c. c < 65536) (hs_suites h)
     \<and> list_all (\<lambda>(t, d). t < 65536 \<and> length d < 65536) (hs_exts h)
     \<and> length (enc_body h) + 4 \<le> maxRecordPayload"

definition sni_data :: "string \<Rightarrow> bytes" where
  "sni_data host = put_be 2 (length host + 3) @ [0] @ put_be 2 (length host) @ bytes_of_string host"

lemma length_enc_suites [simp]: "length (enc_suites cs) = 2 * length cs"
  by (induction cs) auto

lemma enc_exts_length: "length (enc_exts (hs_exts h)) \<le> length (enc_body h)"
  by (simp add: enc_body_def)

lemma byte_len [simp]: "n < 256 \<Longrightarrow> unat (word_of_nat n :: byte) = n"
  by simp

lemma ext_block_steps:
  assumes "slice_index s 34 = (Ok a :: ('e, byte) res)" "p = 35 + unat a" "p + 2 \<le> sl_len s"
    "slice_u16 s p = (Ok c :: ('e, nat) res)" "q = p + 2 + c" "q < sl_len s"
    "slice_index s q = (Ok k :: ('e, byte) res)" "r = q + 1 + unat k" "r + 2 \<le> sl_len s"
    "slice_u16 s r = (Ok e :: ('e, nat) res)" "slice_range s r' r'' = (Ok x :: ('e, goslice) res)"
    "r' = r + 2" "r'' = r + 2 + e"
  shows "ext_block s = (Ok (Some x) :: ('e, goslice option) res)"
  using assms by (simp add: ext_block_def Let_def)

text \<open>The extension block of an encoded body, whatever spare capacity follows it.\<close>

lemma ext_block_enc:
  assumes "hello_spec_wf h" "sl_arr s = enc_body h @ z" "sl_len s = length (enc_body h)"
  shows "ext_block s = Ok (Some \<lparr>sl_arr = enc_exts (hs_exts h) @ z,
                               sl_len = length (enc_exts (hs_exts h))\<rparr>)"
proof -
  let ?sid = "hs_session h" and ?cs = "enc_suites (hs_suites h)" and ?cm = "hs_comps h"
    and ?ex = "enc_exts (hs_exts h)" and ?ver = "put_be 2 0x303 @ hs_random h"
  let ?a = "?ver @ [word_of_nat (length ?sid)] @ ?sid"
  let ?b = "?a @ put_be 2 (length ?cs) @ ?cs"
  let ?c = "?b @ [word_of_nat (length ?cm)] @ ?cm"
  note wf = assms(1) [unfolded hello_spec_wf_def maxRecordPayload_def]
  have r: "length (hs_random h) = 32"
    using wf by simp
  have e: "length ?ex < 65536"
    using wf enc_exts_length [of h] by linarith
  have i1: "slice_index s 34 = Ok (word_of_nat (length ?sid))"
    by (rule slice_index_at [of _ ?ver])
      (use r assms(2,3) in \<open>simp_all add: enc_body_def\<close>)
  have i2: "slice_u16 s (35 + length ?sid) = Ok (length ?cs)"
    by (rule slice_u16_at [of _ ?a]) (use wf r assms(2) in \<open>simp_all add: enc_body_def\<close>)
  have i3: "slice_index s (37 + length ?sid + length ?cs) = Ok (word_of_nat (length ?cm))"
    by (rule slice_index_at [of _ ?b])
      (use r assms(2,3) in \<open>simp_all add: enc_body_def\<close>)
  have i4: "slice_u16 s (38 + length ?sid + length ?cs + length ?cm) = Ok (length ?ex)"
    by (rule slice_u16_at [of _ ?c]) (use e r assms(2) in \<open>simp_all add: enc_body_def\<close>)
  have i5: "slice_range s (40 + length ?sid + length ?cs + length ?cm)
      (40 + length ?sid + length ?cs + length ?cm + length ?ex)
      = Ok \<lparr>sl_arr = ?ex @ z, sl_len = length ?ex\<rparr>"
    by (rule slice_range_at [of _ "?c @ put_be 2 (length ?ex)"])
      (use r assms(2) in \<open>simp_all add: enc_body_def\<close>)
  have l: "sl_len s = 40 + length ?sid + length ?cs + length ?cm + length ?ex"
    using r assms(3) by (simp add: enc_body_def)
  show ?thesis
    by (rule ext_block_steps [OF i1 _ _ i2 _ _ i3 _ _ i4 i5]) (use wf l in simp_all)
qed

lemma hello_body_enc:
  assumes "hello_spec_wf h"
  shows "hello_body (raw_record spare (enc_record h)) =
    Ok (Some \<lparr>sl_arr = enc_body h @ replicate (spare (length (enc_record h))) 0,
              sl_len = length (enc_body h)\<rparr>)"
proof -
  have n: "length (enc_body h) < 256 ^ 3"
    using assms by (simp add: hello_spec_wf_def maxRecordPayload_def)
  have hl: "hello_len (take (4 + k) (1 # put_be 3 (length (enc_body h)) @ xs)) = length (enc_body h)"
    for k xs
    using n by (simp add: hello_len_def codec_simps drop_take)
  show ?thesis
    by (simp add: hello_body_def raw_record_def enc_record_def slice_from_def slice_range_def
        slice_index_def slice_bytes_def Let_def hl)
qed

lemma find_ext_enc:
  "list_all (\<lambda>(t, d). t < 65536 \<and> length d < 65536) es \<Longrightarrow>
     find_ext want (enc_exts es) \<longleftrightarrow> want \<in> fst ` set es"
proof (induction es)
  case Nil
  then show ?case by (simp add: find_ext.simps)
next
  case (Cons e es)
  obtain t d where e: "e = (t, d)" by force
  with Cons.prems have l: "t < 65536" "length d < 65536" by auto
  have "take 2 (enc_exts (e # es)) = put_be 2 t"
    "take 2 (drop 2 (enc_exts (e # es))) = put_be 2 (length d)"
    "drop (4 + length d) (enc_exts (e # es)) = enc_exts es" "\<not> length (enc_exts (e # es)) < 4"
    by (simp_all add: e)
  then show ?case
    using Cons l by (subst find_ext.simps) (auto simp: e codec_simps)
qed

lemma hasExtension_enc:
  assumes "hello_spec_wf h"
  shows "hasExtension (raw_record spare (enc_record h)) want = Ok (want \<in> fst ` set (hs_exts h))"
proof -
  have "list_all (\<lambda>(t, d). t < 65536 \<and> length d < 65536) (hs_exts h)" "\<not> length (enc_body h) < 34"
    using assms by (auto simp: hello_spec_wf_def enc_body_def)
  then show ?thesis
    by (simp add: hasExtension_def ext_block_enc [OF assms] hello_body_enc [OF assms]
        slice_bytes_def find_ext_enc)
qed

lemma sni_names_data: "length host < 65536 \<Longrightarrow> sni_names (drop 2 (sni_data host)) = Some host"
proof -
  assume "length host < 65536"
  then have "be_val (put_be 2 (length host)) = length host"
    by (simp add: codec_simps)
  moreover obtain a b where ab: "put_be 2 (length host) = [a, b]"
    by (simp add: numeral_2_eq_2)
  ultimately show ?thesis
    by (simp add: sni_data_def Let_def length_bytes_of_string)
qed

lemma parseSNI_enc:
  assumes "list_all (\<lambda>(t, d). t < 65536 \<and> length d < 65536) pre" "0 \<notin> fst ` set pre"
    "length host + 5 < 65536"
  shows "parseSNI (enc_exts (pre @ (0, sni_data host) # post)) = host"
  using assms(1,2)
proof (induction pre)
  case Nil
  have "length (sni_data host) = length host + 5"
    by (simp add: sni_data_def length_bytes_of_string)
  then show ?case
    using assms(3) by (subst parseSNI.simps) (simp add: codec_simps sni_names_data)
next
  case (Cons e es)
  obtain t d where e: "e = (t, d)" by force
  with Cons.prems have l: "t < 65536" "length d < 65536" "t \<noteq> 0" by auto
  then show ?case
    using Cons by (subst parseSNI.simps) (simp add: e codec_simps)
qed

lemma parse_hello_enc:
  assumes "hello_spec_wf h"
  shows "parse_hello_payload raw ([1] @ put_be 3 (length (enc_body h)) @ enc_body h) =
    Ok \<lparr>ch_raw = raw, ch_random = hs_random h, ch_session = hs_session h,
        ch_cipher = (case hs_suites h of [] \<Rightarrow> 0 | c # _ \<Rightarrow> c)\<rparr>"
proof -
  let ?payload = "[1] @ put_be 3 (length (enc_body h)) @ enc_body h"
  let ?s = "\<lparr>sl_arr = enc_body h, sl_len = length (enc_body h)\<rparr>"
  let ?sid = "hs_session h" and ?cs = "enc_suites (hs_suites h)"
  let ?a = "put_be 2 0x303 @ hs_random h @ [word_of_nat (length ?sid)]"
  let ?tail = "[word_of_nat (length (hs_comps h))] @ hs_comps h
     @ put_be 2 (length (enc_exts (hs_exts h))) @ enc_exts (hs_exts h)"
  note wf = assms [unfolded hello_spec_wf_def maxRecordPayload_def]
  have r: "length (hs_random h) = 32" and n: "length (enc_body h) < 256 ^ 3"
    using wf by simp_all
  have d: "hello_len ?payload = length (enc_body h)" "drop 4 ?payload = enc_body h"
    "take 32 (drop 6 ?payload) = hs_random h"
    using n r by (simp_all add: hello_len_def codec_simps, simp add: enc_body_def)
  have c: "hello_checked ?payload"
    unfolding hello_checked_def d using r by (simp add: enc_body_def)
  have i1: "slice_index ?s 34 = (Ok (word_of_nat (length ?sid)) :: (hello_error, byte) res)"
    by (rule slice_index_at [of _ "put_be 2 0x303 @ hs_random h"]) (use r in \<open>simp_all add: enc_body_def\<close>)
  have i2: "slice_range ?s 35 (35 + length ?sid) =
      (Ok \<lparr>sl_arr = ?sid @ put_be 2 (length ?cs) @ ?cs @ ?tail, sl_len = length ?sid\<rparr>
        :: (hello_error, goslice) res)"
    by (rule slice_range_at [of _ ?a]) (use r in \<open>simp_all add: enc_body_def\<close>)
  have i3: "slice_u16 ?s (35 + length ?sid) = (Ok (length ?cs) :: (hello_error, nat) res)"
    by (rule slice_u16_at [of _ "?a @ ?sid" _ "?cs @ ?tail"]) (use r wf in \<open>simp_all add: enc_body_def\<close>)
  have i4: "slice_u16 ?s (37 + length ?sid) = (Ok c :: (hello_error, nat) res)"
    if "hs_suites h = c # cs" for c cs
    by (rule slice_u16_at [of _ "?a @ ?sid @ put_be 2 (length ?cs)" _ "enc_suites cs @ ?tail"])
      (use r wf that in \<open>simp_all add: enc_body_def\<close>)
  have u: "unat (word_of_nat (length ?sid) :: byte) = length ?sid"
    using wf by simp
  show ?thesis
    unfolding parse_hello_checked [OF c] d Let_def i1 bind_res.simps u i2 i3
    by (cases "hs_suites h") (simp_all add: slice_bytes_def i4)
qed

lemma parse_record_enc:
  assumes "hello_spec_wf h" "st_in s = enc_record h @ rest"
  shows "parseClientHello spare s =
    (Ok \<lparr>ch_raw = raw_record spare (enc_record h), ch_random = hs_random h,
         ch_session = hs_session h, ch_cipher = (case hs_suites h of [] \<Rightarrow> 0 | c # _ \<Rightarrow> c)\<rparr>,
     s\<lparr>st_in := rest\<rparr>)"
proof -
  let ?hd = "[recordHandshake, 3, 1] @ put_be 2 (length (enc_body h) + 4)"
  let ?payload = "[1] @ put_be 3 (length (enc_body h)) @ enc_body h"
  have l: "length (enc_body h) + 4 \<le> 16384"
    using assms(1) by (simp add: hello_spec_wf_def maxRecordPayload_def)
  have e: "?hd @ ?payload = enc_record h"
    by (simp add: enc_record_def)
  have "parseClientHello spare s =
    (parse_hello_payload (raw_record spare (?hd @ ?payload)) ?payload, s\<lparr>st_in := rest\<rparr>)"
    by (rule parseClientHello_record) (use l assms(2) in \<open>simp_all add: enc_record_def codec_simps maxRecordPayload_def\<close>)
  then show ?thesis
    unfolding e by (simp only: parse_hello_enc [OF assms(1)])
qed

text \<open>The generator's record is the encoding of the same hello with the authenticated random.\<close>

lemma hello_record_enc:
  "hello_record (1 # put_be 3 (length (enc_body h)) @ enc_body h) = enc_record h"
  by (simp add: hello_record_def enc_record_def add.commute)

lemma put_random_enc:
  "length (hs_random h) = 32 \<Longrightarrow> length rnd = 32 \<Longrightarrow>
     put_random (enc_record h) rnd = enc_record (h\<lparr>hs_random := rnd\<rparr>)"
  by (simp add: put_random_def enc_record_def enc_body_def randomOffset_def randomLength_def)

lemma hello_spec_wf_random:
  "hello_spec_wf h \<Longrightarrow> length rnd = 32 \<Longrightarrow> hello_spec_wf (h\<lparr>hs_random := rnd\<rparr>)"
  by (simp add: hello_spec_wf_def enc_body_def)

lemma SNI_enc:
  assumes "hello_spec_wf h" "hs_exts h = pre @ (0, sni_data host) # post" "0 \<notin> fst ` set pre"
    "ch_raw ch = raw_record spare (enc_record h)"
  shows "SNI ch = Ok host"
proof -
  have "list_all (\<lambda>(t, d). t < 65536 \<and> length d < 65536) (hs_exts h)" "\<not> length (enc_body h) \<le> 34"
    using assms(1) by (auto simp: hello_spec_wf_def enc_body_def)
  then have "parseSNI (enc_exts (hs_exts h)) = host"
    unfolding assms(2) using assms(3) by (intro parseSNI_enc) (auto simp: sni_data_def)
  then show ?thesis
    using \<open>\<not> length (enc_body h) \<le> 34\<close>
    by (simp add: SNI_def assms(4) slice_bytes_def ext_block_enc [OF assms(1)]
        hello_body_enc [OF assms(1)])
qed

section \<open>Properties\<close>

text \<open>
  C34. A well-formed ClientHello in the format of RFC 8446 is parsed: random, session id and first
  cipher suite are read back, the whole record is kept, and the stream stands right after it.
\<close>

theorem parse_reads_wire_format:
  assumes "hello_spec_wf h" "st_in s = enc_record h @ rest"
  shows "parseClientHello spare s =
    (Ok \<lparr>ch_raw = raw_record spare (enc_record h), ch_random = hs_random h,
         ch_session = hs_session h, ch_cipher = (case hs_suites h of [] \<Rightarrow> 0 | c # _ \<Rightarrow> c)\<rparr>,
     s\<lparr>st_in := rest\<rparr>)"
  using assms by (rule parse_record_enc)

definition hello_example :: hello_spec where
  "hello_example = \<lparr>hs_random = replicate 32 9, hs_session = [1, 2], hs_suites = [0x1301],
     hs_comps = [0], hs_exts = [(43, [2, 3, 4]), (0, sni_data ''a.b'')]\<rparr>"

lemma hello_example_wf: "hello_spec_wf hello_example"
  by (simp add: hello_example_def hello_spec_wf_def enc_body_def sni_data_def maxRecordPayload_def)

definition stream_example :: stream where
  "stream_example = \<lparr>st_in = enc_record hello_example @ [7], st_end = EOF\<rparr>"

definition ch_example :: client_hello where
  "ch_example = \<lparr>ch_raw = raw_record (\<lambda>n. 3) (enc_record hello_example), ch_random = replicate 32 9,
     ch_session = [1, 2], ch_cipher = 0x1301\<rparr>"

lemma parse_example:
  "parseClientHello (\<lambda>n. 3) stream_example = (Ok ch_example, \<lparr>st_in = [7], st_end = EOF\<rparr>)"
  using parse_record_enc [OF hello_example_wf, of stream_example "[7]" "\<lambda>n. 3"]
  by (simp add: stream_example_def ch_example_def hello_example_def)

theorem parse_reads_wire_format_witness:
  "fst (parseClientHello (\<lambda>n. 3) stream_example) = Ok ch_example"
  using parse_reads_wire_format [OF hello_example_wf, of stream_example "[7]" "\<lambda>n. 3"]
  by (simp add: stream_example_def ch_example_def hello_example_def)

text \<open>
  Whatever record the parser accepts, it consumes exactly the bytes it keeps in the raw record,
  and the client random is the 32 bytes at offset 11 of that record: nothing is lost for the later
  HMAC check or for splicing the connection to the mask host.
\<close>

theorem parse_keeps_consumed_bytes:
  assumes "parseClientHello spare s = (Ok ch, s')"
  shows "slice_bytes (ch_raw ch) @ st_in s' = st_in s
    \<and> ch_random ch = take randomLength (drop randomOffset (slice_bytes (ch_raw ch)))
    \<and> length (ch_random ch) = randomLength"
  using assms
proof (rule parseClientHello_OkD)
  fix header payload
  assume a: "st_in s = header @ payload @ st_in s'" "length header = 5"
    "parse_hello_payload (raw_record spare (header @ payload)) payload = Ok ch"
  then show ?thesis
    using parse_hello_Ok_fields [OF a(3)] by (simp add: randomOffset_def randomLength_def)
qed

theorem parse_keeps_consumed_bytes_witness:
  "slice_bytes (ch_raw ch_example) @ [7] = st_in stream_example"
  using parse_keeps_consumed_bytes [OF parse_example] by simp

text \<open>
  C33. The parser panics exactly on the handshake bodies that pass its length checks but are 34 bytes
  long, or declare a session id or cipher list that runs past the record: those fields are
  indexed without a bounds check. Every other record is parsed or refused with an error.
\<close>

theorem parse_panics_iff_fields_overrun:
  assumes "st_in s = header @ payload @ rest" "length header = 5" "header ! 0 = recordHandshake"
    "be_val (take 2 (drop 3 header)) = length payload" "length payload \<le> maxRecordPayload + 2048"
  shows "fst (parseClientHello spare s) = Panic \<longleftrightarrow> hello_overruns payload"
  using parseClientHello_record [OF assms] by (simp add: parse_hello_Panic_iff)

theorem parse_panics_iff_fields_overrun_witness:
  "fst (parseClientHello (\<lambda>n. 0)
     \<lparr>st_in = [0x16, 3, 1, 0, 38] @ ([1, 0, 0, 34] @ replicate 34 0), st_end = EOF\<rparr>) = Panic"
proof -
  have "hello_overruns ([1, 0, 0, 34] @ replicate 34 0)"
    by (simp add: hello_overruns_def hello_checked_def hello_len_def)
  moreover have "fst (parseClientHello (\<lambda>n. 0)
     \<lparr>st_in = [0x16, 3, 1, 0, 38] @ ([1, 0, 0, 34] @ replicate 34 0) @ [], st_end = EOF\<rparr>) = Panic
     \<longleftrightarrow> hello_overruns ([1, 0, 0, 34] @ replicate 34 0)"
    by (rule parse_panics_iff_fields_overrun [of _ "[0x16, 3, 1, 0, 38]" _ "[]"])
      (simp_all add: recordHandshake_def maxRecordPayload_def)
  ultimately show ?thesis by simp
qed

text \<open>
  On a well-formed ClientHello the policy check refuses exactly when the policy is
  \<open>reject_fronting\<close> and the encrypted-client-hello extension is among the extensions; it never
  panics there.
\<close>

theorem policy_rejects_iff_ech:
  assumes "hello_spec_wf h" "ch_raw ch = raw_record spare (enc_record h)"
  shows "CheckClientHelloPolicy (Some ch) policy =
    (if policy = ''reject_fronting'' \<and> extECH \<in> fst ` set (hs_exts h)
     then Err RejectReasonECH else Ok ())"
proof -
  have "HasECH (Some ch) = (Ok (extECH \<in> fst ` set (hs_exts h)) :: (RejectReason, bool) res)"
    by (simp add: HasECH_def assms(2) hasExtension_enc [OF assms(1)])
  then show ?thesis
    by (auto simp: CheckClientHelloPolicy_def)
qed

theorem policy_rejects_iff_ech_witness:
  "CheckClientHelloPolicy (Some \<lparr>ch_raw = raw_record (\<lambda>n. 0)
       (enc_record (hello_example\<lparr>hs_exts := [(0xfe0d, [])]\<rparr>)),
     ch_random = [], ch_session = [], ch_cipher = 0\<rparr>) ''reject_fronting'' = Err RejectReasonECH"
proof -
  have "hello_spec_wf (hello_example\<lparr>hs_exts := [(0xfe0d, [])]\<rparr>)"
    by (simp add: hello_example_def hello_spec_wf_def enc_body_def maxRecordPayload_def)
  from policy_rejects_iff_ech [OF this, of "\<lparr>ch_raw = raw_record (\<lambda>n. 0)
       (enc_record (hello_example\<lparr>hs_exts := [(0xfe0d, [])]\<rparr>)),
     ch_random = [], ch_session = [], ch_cipher = 0\<rparr>" "\<lambda>n. 0" "''reject_fronting''"]
  show ?thesis by (simp add: extECH_def)
qed

text \<open>
  \<open>SNI\<close> finds the host of the first \<open>server_name\<close> extension of a well-formed ClientHello.
\<close>

theorem SNI_finds_server_name:
  assumes "hello_spec_wf h" "ch_raw ch = raw_record spare (enc_record h)"
    "hs_exts h = pre @ (0, sni_data host) # post" "0 \<notin> fst ` set pre"
  shows "SNI ch = Ok host"
  using assms(1,3,4,2) by (rule SNI_enc)

theorem SNI_finds_server_name_witness:
  "SNI \<lparr>ch_raw = raw_record (\<lambda>n. 11) (enc_record hello_example), ch_random = [], ch_session = [],
        ch_cipher = 0\<rparr> = (Ok ''a.b'' :: (hello_error, string) res)"
  by (rule SNI_finds_server_name [OF hello_example_wf, of _ "\<lambda>n. 11" "[(43, [2, 3, 4])]" "''a.b''" "[]"])
    (simp_all add: hello_example_def)

text \<open>
  C22. The check accepts exactly when the first 28 bytes of the client random are those of the HMAC of
  the record with its random zeroed, and the time stamp masked into the last four lies within
  two minutes of the clock.
\<close>

theorem validate_accepts_iff:
  assumes "\<And>k m. length (hmac k m) = 32" "parseClientHello spare s = (Ok ch, s')"
  shows "validateClientHello hmac now ch secret = Ok () \<longleftrightarrow>
    (let mac = hmac secret (zero_random (slice_bytes (ch_raw ch))) in
     take 28 (ch_random ch) = take 28 mac
     \<and> \<bar>now - int (le_val (xor_bytes (drop 28 mac) (drop 28 (ch_random ch))))\<bar> \<le> 120)"
  using assms(2)
proof (rule parseClientHello_OkD)
  fix header payload
  assume a: "length header = 5" "parse_hello_payload (raw_record spare (header @ payload)) payload = Ok ch"
  then show ?thesis
    using parse_hello_Ok_fields [OF a(2)] assms(1)
    by (subst validateClientHello_Ok_iff) (simp_all add: Let_def)
qed

theorem validate_accepts_iff_witness:
  "validateClientHello (\<lambda>k m. replicate 32 0) 5 ch_example [1] \<noteq> Ok ()"
  using validate_accepts_iff [OF _ parse_example, of "\<lambda>k m. replicate 32 0" 5 "[1]"]
  by (simp add: ch_example_def)

text \<open>
  C20. A client that holds the secret is let in: the record the generator makes from a well-formed
  \<open>utls\<close> handshake message naming the secret's host passes parsing, the SNI check and the HMAC
  check of a server whose clock is within two minutes of the client's.
\<close>

theorem generated_hello_is_accepted:
  assumes hmac: "\<And>k m. length (hmac k m) = 32"
    and utls: "utls host hid = Some ([1] @ put_be 3 (length (enc_body h)) @ enc_body h)"
      "hello_spec_wf h" "hs_exts h = pre @ (0, sni_data host) # post" "0 \<notin> fst ` set pre"
    and id: "hid \<noteq> HelloZero"
    and time: "0 \<le> now" "now < 4294967296" "\<bar>now' - now\<bar> \<le> 120"
  shows "\<exists>rec ch. generateClientHelloRecord utls hmac now host secret hid = Ok rec
    \<and> ReadClientHello spare hmac now' \<lparr>st_in = rec @ rest, st_end = e\<rparr> secret host
        = (Ok ch, \<lparr>st_in = rest, st_end = e\<rparr>)
    \<and> slice_bytes (ch_raw ch) = rec"
proof -
  let ?rnd = "client_random hmac now secret (enc_record h)"
  let ?h = "h\<lparr>hs_random := ?rnd\<rparr>"
  let ?ch = "\<lparr>ch_raw = raw_record spare (enc_record ?h), ch_random = hs_random ?h,
    ch_session = hs_session ?h, ch_cipher = (case hs_suites ?h of [] \<Rightarrow> 0 | c # _ \<Rightarrow> c)\<rparr>"
  have rl: "length ?rnd = 32"
    using hmac by (rule length_client_random)
  have r: "length (hs_random h) = 32"
    using utls(2) by (simp add: hello_spec_wf_def)
  let ?rec = "enc_record ?h"
  have n: "43 \<le> length (enc_record h)"
    using r by (simp add: enc_record_def enc_body_def)
  then have gen: "generateClientHelloRecord utls hmac now host secret hid = Ok ?rec"
    using r rl id utls(1) by (simp add: generateClientHelloRecord_def Let_def hello_record_enc
        put_random_enc hello_consts)
  have wf: "hello_spec_wf ?h"
    using utls(2) rl by (rule hello_spec_wf_random)
  have p: "parseClientHello spare \<lparr>st_in = ?rec @ rest, st_end = e\<rparr> =
      (Ok ?ch, \<lparr>st_in = rest, st_end = e\<rparr>)"
    using parse_record_enc [OF wf, of "\<lparr>st_in = ?rec @ rest, st_end = e\<rparr>" rest spare]
    by simp
  have "drop 11 (enc_record ?h) = ?rnd @ drop 43 (enc_record ?h)"
    using rl by (simp add: enc_record_def enc_body_def)
  then have "validateClientHello hmac now' ?ch secret = Ok ()"
    using rl n r by (intro generate_validates [OF hmac _ _ _ _ _ time,
          where hello = "1 # put_be 3 (length (enc_body h)) @ enc_body h" and rec = ?rec])
      (simp_all add: hello_record_enc put_random_enc)
  moreover have "SNI ?ch = (Ok host :: (hello_error, string) res)"
    using wf utls(3,4) by (intro SNI_enc [of ?h pre host post]) simp_all
  ultimately show ?thesis
    using gen by (intro exI [of _ ?rec] exI [of _ ?ch]) (simp add: ReadClientHello_def p ValidateClientHello_def)
qed

definition hmac_toy :: "bytes \<Rightarrow> bytes \<Rightarrow> bytes" where
  "hmac_toy k m = replicate 32 (word_of_nat (length m) + sum_list k)"

theorem generated_hello_is_accepted_witness:
  "\<exists>rec ch. generateClientHelloRecord
       (\<lambda>_ _. Some ([1] @ put_be 3 (length (enc_body hello_example)) @ enc_body hello_example))
       hmac_toy 1000 ''a.b'' [1, 2] HelloChrome_Auto = Ok rec
     \<and> ReadClientHello (\<lambda>n. 3) hmac_toy 1090 \<lparr>st_in = rec @ [8], st_end = EOF\<rparr> [1, 2] ''a.b''
         = (Ok ch, \<lparr>st_in = [8], st_end = EOF\<rparr>)
     \<and> slice_bytes (ch_raw ch) = rec"
  by (rule generated_hello_is_accepted [OF _ refl hello_example_wf, of _ "[(43, [2, 3, 4])]" _ "[]"])
    (simp_all add: hmac_toy_def hello_example_def)

end
