(* ===== verification/Readers.thy ===== *)
theory Readers
  imports GoBase
begin

text \<open>
  The \<open>io.Reader\<close> and \<open>io.Writer\<close> contracts between the connection layers. Every wrapper of the
  program (TLS records, obfuscated2, the relay frames, the prefix and recorder connections) reads
  from the layer below and is read by the layer above; the locale \<open>byte_reader\<close> states what a layer
  promises, \<open>io.ReadFull\<close> over any such layer is proved once inside it, and each layer interprets it.
\<close>

section \<open>Writing to a connection\<close>

text \<open>
  The writable side of a connection: the bytes written so far and, when it is going to fail, the
  number of bytes it still takes. A failing write may have sent a part of its bytes.
\<close>

record sink =
  sk_out :: bytes
  sk_room :: "nat option"

definition sink_write :: "bytes \<Rightarrow> sink \<Rightarrow> bool \<times> sink" where
  "sink_write bs sk =
     (case sk_room sk of
        None \<Rightarrow> (True, sk\<lparr>sk_out := sk_out sk @ bs\<rparr>)
      | Some n \<Rightarrow>
          (length bs \<le> n,
           sk\<lparr>sk_out := sk_out sk @ take n bs, sk_room := Some (n - length bs)\<rparr>))"

text \<open>A sink that still takes \<open>n\<close> bytes.\<close>

definition sink_takes :: "nat \<Rightarrow> sink \<Rightarrow> bool" where
  "sink_takes n sk \<longleftrightarrow> (case sk_room sk of None \<Rightarrow> True | Some m \<Rightarrow> n \<le> m)"

lemma sink_write_out:
  "sink_write bs sk = (ok, sk') \<Longrightarrow>
     \<exists>sent. sk_out sk' = sk_out sk @ sent \<and> (\<exists>rest. bs = sent @ rest) \<and> (ok \<longrightarrow> sent = bs)"
  by (auto simp: sink_write_def split: option.splits) (metis append_take_drop_id)+

lemma sink_write_takes:
  "sink_write bs sk = (ok, sk') \<Longrightarrow>
     (ok \<longleftrightarrow> sink_takes (length bs) sk) \<and> (ok \<longrightarrow> sink_takes n sk' = sink_takes (length bs + n) sk)"
  by (auto simp: sink_write_def sink_takes_def split: option.splits)

lemma sink_write_ok:
  "sink_write bs sk = (True, sk') \<Longrightarrow> sk_out sk' = sk_out sk @ bs"
  using sink_write_out by blast

section \<open>Reading exactly n bytes from a reader\<close>

text \<open>\<open>io.ReadFull(r, buf[:n])\<close>: \<open>None\<close> when the reader never delivers.\<close>

partial_function (option) io_read_full ::
  "(nat \<Rightarrow> 's \<Rightarrow> (io_error + bytes) \<times> 's) \<Rightarrow> nat \<Rightarrow> bytes \<Rightarrow> 's \<Rightarrow> ((io_error + bytes) \<times> 's) option"
where
  "io_read_full rd n acc s =
     (if n \<le> length acc then Some (Inr acc, s)
      else case rd (n - length acc) s of
             (Inl e, s') \<Rightarrow> Some (Inl (if e = EOF \<and> acc \<noteq> [] then UnexpectedEOF else e), s')
           | (Inr xs, s') \<Rightarrow> io_read_full rd n (acc @ xs) s')"

text \<open>
  What a layer promises: \<open>pending s\<close> are the bytes it will still deliver; a read of at most \<open>n\<close> bytes
  takes a prefix of them; and while some are pending it delivers, or at least uses up input
  from below (\<open>wait\<close> goes down).
\<close>

locale byte_reader =
  fixes rd :: "nat \<Rightarrow> 's \<Rightarrow> (io_error + bytes) \<times> 's"
    and pending :: "'s \<Rightarrow> bytes"
    and wait :: "'s \<Rightarrow> nat"
  assumes rd_prefix: "rd n s = (Inr xs, s') \<Longrightarrow> xs @ pending s' = pending s \<and> length xs \<le> n"
    and rd_progress: "pending s \<noteq> [] \<Longrightarrow> 0 < n \<Longrightarrow>
      \<exists>xs s'. rd n s = (Inr xs, s') \<and> (xs \<noteq> [] \<or> wait s' < wait s)"
begin

lemma io_read_full_delivers_acc:
  "n \<le> length acc + length (pending s) \<Longrightarrow> length acc \<le> n \<Longrightarrow>
     \<exists>s'. io_read_full rd n acc s = Some (Inr (acc @ take (n - length acc) (pending s)), s')
       \<and> pending s' = drop (n - length acc) (pending s)"
proof (induction "(n - length acc, wait s)" arbitrary: acc s
    rule: wf_induct_rule [OF wf_lex_prod [OF wf_less_than wf_less_than]])
  case 1
  note IH = 1(1)
  show ?case
  proof (cases "n \<le> length acc")
    case True
    with 1(3) show ?thesis by (simp add: io_read_full.simps)
  next
    case False
    with 1(2) have "pending s \<noteq> []" by auto
    with False obtain xs s1 where r: "rd (n - length acc) s = (Inr xs, s1)"
      and p: "xs \<noteq> [] \<or> wait s1 < wait s"
      using rd_progress [of s "n - length acc"] by auto
    from rd_prefix [OF r] have d: "pending s = xs @ pending s1" "length xs \<le> n - length acc"
      by auto
    have lt: "((n - length (acc @ xs), wait s1), n - length acc, wait s) \<in> less_than <*lex*> less_than"
      using p d False by (cases xs) auto
    have "\<exists>s'. io_read_full rd n (acc @ xs) s1
        = Some (Inr ((acc @ xs) @ take (n - length (acc @ xs)) (pending s1)), s')
      \<and> pending s' = drop (n - length (acc @ xs)) (pending s1)"
      using 1(2) False d by (intro IH [OF lt]) auto
    with d r False show ?thesis
      by (subst io_read_full.simps) (auto simp: take_append drop_append)
  qed
qed

lemma io_read_full_delivers:
  assumes "n \<le> length (pending s)"
  shows "\<exists>s'. io_read_full rd n [] s = Some (Inr (take n (pending s)), s')
    \<and> pending s' = drop n (pending s)"
  using io_read_full_delivers_acc [of n "[]" s] assms by simp

end

section \<open>The raw connection\<close>

text \<open>
  A read of a TCP connection returns some of the bytes that have arrived, at least one and at most
  \<open>n\<close>; \<open>sched\<close> says how many of the pending bytes have arrived.
\<close>

definition conn_read :: "(stream \<Rightarrow> nat) \<Rightarrow> nat \<Rightarrow> stream \<Rightarrow> (io_error + bytes) \<times> stream" where
  "conn_read sched n s =
     (if st_in s = [] then (Inl (st_end s), s)
      else let k = min n (Suc (sched s)) in
           (Inr (take k (st_in s)), s\<lparr>st_in := drop k (st_in s)\<rparr>))"

interpretation raw: byte_reader "conn_read sched" st_in "\<lambda>s. length (st_in s)" for sched
  by unfold_locales (auto simp: conn_read_def Let_def split: if_splits)

lemma io_read_full_raw_acc:
  "n \<le> length acc + length (st_in s) \<Longrightarrow> length acc \<le> n \<Longrightarrow>
     io_read_full (conn_read sched) n acc s =
       Some (Inr (acc @ take (n - length acc) (st_in s)), s\<lparr>st_in := drop (n - length acc) (st_in s)\<rparr>)"
proof (induction "length (st_in s)" arbitrary: acc s rule: less_induct)
  case less
  show ?case
  proof (cases "n \<le> length acc")
    case True
    with less.prems show ?thesis by (simp add: io_read_full.simps)
  next
    case False
    define k where "k = min (n - length acc) (Suc (sched s))"
    let ?s = "s\<lparr>st_in := drop k (st_in s)\<rparr>"
    have k: "0 < k" "k \<le> n - length acc" "k \<le> length (st_in s)" "st_in s \<noteq> []"
      using False less.prems by (auto simp: k_def)
    then have rd: "conn_read sched (n - length acc) s = (Inr (take k (st_in s)), ?s)"
      by (simp add: conn_read_def k_def Let_def)
    have "io_read_full (conn_read sched) n (acc @ take k (st_in s)) ?s =
        Some (Inr ((acc @ take k (st_in s)) @ take (n - length acc - k) (drop k (st_in s))),
              ?s\<lparr>st_in := drop (n - length acc - k) (drop k (st_in s))\<rparr>)"
      using k less.prems less.hyps [of ?s "acc @ take k (st_in s)"] by auto
    moreover have "take k (st_in s) @ take (n - length acc - k) (drop k (st_in s)) = take (n - length acc) (st_in s)"
      using k by (metis le_add_diff_inverse take_add)
    ultimately show ?thesis
      using False k by (subst io_read_full.simps) (simp add: rd)
  qed
qed

text \<open>On a raw connection \<open>io.ReadFull\<close> does not depend on how the bytes arrive in pieces.\<close>

lemma io_read_full_raw:
  "n \<le> length (st_in s) \<Longrightarrow> io_read_full (conn_read sched) n [] s = Some (read_full n s)"
  using io_read_full_raw_acc [of n "[]" s sched] by simp

end
