(* ===== verification/TlsRecord.thy ===== *)
theory TlsRecord
  imports ClientHello Readers
begin

text \<open>
  The TLS record layer, \<open>internal/faketls/record.go\<close>, \<open>rand.go\<close>, the record policy of \<open>client.go\<close> and
  the byte recorders of \<open>fronting.go\<close>. Random draws come from an explicit tape of naturals, one per
  call of \<open>rand.Int\<close>; an empty tape stands for a failing random source. The reader side interprets
  \<open>byte_reader\<close>; the writer lemmas say which records reach the wire, on success and on a failing
  connection.
\<close>

section \<open>Random numbers and the record policy\<close>

fun randInt :: "int \<Rightarrow> nat list \<Rightarrow> int \<times> nat list" where
  "randInt mx tape =
     (if mx \<le> 0 then (0, tape)
      else case tape of [] \<Rightarrow> (0, []) | v # vs \<Rightarrow> (int v mod mx, vs))"

record RecordPolicy =
  MinChunk :: int
  MaxChunk :: int
  EnableDRS :: bool
  EnableSplitTLS :: bool
  RecordJitterMs :: int
  DecoyPermille :: int

definition DefaultRecordPolicy :: RecordPolicy where
  "DefaultRecordPolicy = \<lparr>MinChunk = 512, MaxChunk = 4096, EnableDRS = False,
     EnableSplitTLS = False, RecordJitterMs = 0, DecoyPermille = 0\<rparr>"

definition Normalize :: "RecordPolicy \<Rightarrow> RecordPolicy" where
  "Normalize p =
     (let p = (if MinChunk p \<le> 0 then p\<lparr>MinChunk := 512\<rparr> else p);
          p = (if MaxChunk p \<le> 0 then p\<lparr>MaxChunk := 4096\<rparr> else p);
          p = (if MaxChunk p > int maxRecordPayload then p\<lparr>MaxChunk := int maxRecordPayload\<rparr> else p)
      in if MinChunk p > MaxChunk p then p\<lparr>MinChunk := MaxChunk p\<rparr> else p)"

definition chunkSize :: "RecordPolicy \<Rightarrow> int \<Rightarrow> nat list \<Rightarrow> int \<times> nat list" where
  "chunkSize p0 remaining tape =
     (let p = Normalize p0 in
      if remaining \<le> MinChunk p then (remaining, tape)
      else let span = MaxChunk p - MinChunk p + 1; (r, tape') = randInt span tape;
               size = MinChunk p + r;
               size = (if size > remaining then remaining else size);
               size = (if size > int maxRecordPayload then int maxRecordPayload else size)
           in (size, tape'))"

definition chunkSizeWithMax ::
  "RecordPolicy \<Rightarrow> int \<Rightarrow> int \<Rightarrow> nat list \<Rightarrow> int \<times> nat list" where
  "chunkSizeWithMax p0 remaining maxChunk tape =
     (let p = Normalize p0 in
      if remaining \<le> MinChunk p then (remaining, tape)
      else let (size, tape') = chunkSize p remaining tape
           in (if size > maxChunk then maxChunk else size, tape'))"

definition drsInitialChunk :: int where "drsInitialChunk = 1369"
definition drsRampRecords :: int where "drsRampRecords = 8"
definition drsRampBytes :: int where "drsRampBytes = 128 * 1024"

section \<open>The record connection\<close>

record RecordConn =
  rc_in :: stream
  rc_sink :: sink
  readBuf :: bytes
  Policy :: RecordPolicy
  recordsWritten :: int
  bytesWritten :: int
  splitDone :: bool

text \<open>The next application data record; records of other types are skipped.\<close>

function next_record :: "stream \<Rightarrow> (io_error + bytes) \<times> stream" where
  "next_record s =
     (case read_full 5 s of
        (Inl e, s1) \<Rightarrow> (Inl e, s1)
      | (Inr header, s1) \<Rightarrow>
          (case read_full (be_val (take 2 (drop 3 header))) s1 of
             (Inl e, s2) \<Rightarrow> (Inl e, s2)
           | (Inr payload, s2) \<Rightarrow>
               if header ! 0 \<noteq> recordApplicationData then next_record s2 else (Inr payload, s2)))"
  by pat_completeness auto
termination
  by (relation "measure (\<lambda>s. length (st_in s))") (auto simp: read_full_def split: if_splits)

declare next_record.simps [simp del]

definition rec_read :: "nat \<Rightarrow> RecordConn \<Rightarrow> (io_error + bytes) \<times> RecordConn" where
  "rec_read n c =
     (if readBuf c \<noteq> [] then (Inr (take n (readBuf c)), c\<lparr>readBuf := drop n (readBuf c)\<rparr>)
      else case next_record (rc_in c) of
             (Inl e, s) \<Rightarrow> (Inl e, c\<lparr>rc_in := s\<rparr>)
           | (Inr payload, s) \<Rightarrow> (Inr (take n payload), c\<lparr>rc_in := s, readBuf := drop n payload\<rparr>))"

datatype write_error = RecordPayloadTooBig nat | WriteFailed

definition outboundChunkSize ::
  "RecordConn \<Rightarrow> RecordPolicy \<Rightarrow> int \<Rightarrow> nat list \<Rightarrow> int \<times> nat list" where
  "outboundChunkSize c policy remaining tape =
     (if remaining \<le> MinChunk policy then (remaining, tape)
      else let maxChunk = MaxChunk policy;
               maxChunk = (if EnableDRS policy \<and> recordsWritten c < drsRampRecords
                              \<and> bytesWritten c < drsRampBytes \<and> maxChunk > drsInitialChunk
                           then drsInitialChunk else maxChunk)
           in chunkSizeWithMax policy remaining maxChunk tape)"

definition app_record :: "bytes \<Rightarrow> bytes" where
  "app_record chunk = [recordApplicationData, 3, 3] @ put_be 2 (length chunk) @ chunk"

definition writeRecordLocked ::
  "bytes \<Rightarrow> RecordConn \<Rightarrow> (write_error, nat) res \<times> RecordConn" where
  "writeRecordLocked chunk c =
     (if length chunk > maxRecordPayload then (Err (RecordPayloadTooBig (length chunk)), c)
      else case sink_write (app_record chunk) (rc_sink c) of
             (False, sk) \<Rightarrow> (Err WriteFailed, c\<lparr>rc_sink := sk\<rparr>)
           | (True, sk) \<Rightarrow> (Ok (length chunk),
               c\<lparr>rc_sink := sk, recordsWritten := recordsWritten c + 1,
                 bytesWritten := bytesWritten c + int (length chunk)\<rparr>))"

subsection \<open>Chunk sizes\<close>

lemma randInt_bounds: "randInt m tape = (r, tape') \<Longrightarrow> 0 < m \<Longrightarrow> 0 \<le> r \<and> r < m"
  by (auto split: list.splits)

declare randInt.simps [simp del]

lemma Normalize_MaxChunk:
  "MaxChunk (Normalize p) = (if MaxChunk p \<le> 0 then 4096 else min (MaxChunk p) 16384)"
  by (simp add: Normalize_def Let_def maxRecordPayload_def)

lemma Normalize_MinChunk:
  "MinChunk (Normalize p) =
     min (if MinChunk p \<le> 0 then 512 else MinChunk p) (MaxChunk (Normalize p))"
  unfolding Normalize_MaxChunk by (simp add: Normalize_def Let_def maxRecordPayload_def)

lemma Normalize_bounds:
  "1 \<le> MinChunk (Normalize p)" "MinChunk (Normalize p) \<le> MaxChunk (Normalize p)"
  "MaxChunk (Normalize p) \<le> 16384"
  by (simp_all add: Normalize_MinChunk Normalize_MaxChunk)

lemma Normalize_fix:
  "1 \<le> MinChunk p \<Longrightarrow> MinChunk p \<le> MaxChunk p \<Longrightarrow> MaxChunk p \<le> 16384 \<Longrightarrow> Normalize p = p"
  by (simp add: Normalize_def Let_def maxRecordPayload_def)

lemma Normalize_idem [simp]: "Normalize (Normalize p) = Normalize p"
  using Normalize_bounds [of p] by (rule Normalize_fix)

lemma Normalize_flags [simp]:
  "EnableDRS (Normalize p) = EnableDRS p" "EnableSplitTLS (Normalize p) = EnableSplitTLS p"
  "RecordJitterMs (Normalize p) = RecordJitterMs p"
  by (simp_all add: Normalize_def Let_def)

lemma chunkSize_bounds:
  assumes "chunkSize p remaining tape = (sz, tape')" "0 < remaining"
  shows "1 \<le> sz \<and> sz \<le> remaining \<and> sz \<le> 16384"
proof (cases "remaining \<le> MinChunk (Normalize p)")
  case True
  then show ?thesis
    using assms Normalize_bounds [of p] by (simp add: chunkSize_def)
next
  case False
  obtain r tape1 where r: "randInt (MaxChunk (Normalize p) - MinChunk (Normalize p) + 1) tape = (r, tape1)"
    by force
  have "0 \<le> r"
    using randInt_bounds [OF r] Normalize_bounds [of p] by simp
  moreover have "sz = min (min (MinChunk (Normalize p) + r) remaining) 16384"
    using False assms(1) by (auto simp: chunkSize_def r maxRecordPayload_def min_def Let_def split: if_splits)
  ultimately show ?thesis
    using assms(2) Normalize_bounds [of p] by simp
qed

lemma chunkSizeWithMax_bounds:
  assumes "chunkSizeWithMax p remaining m tape = (sz, tape')" "0 < remaining" "1 \<le> m"
  shows "1 \<le> sz \<and> sz \<le> remaining \<and> sz \<le> 16384"
proof -
  obtain z tape1 where z: "chunkSize (Normalize p) remaining tape = (z, tape1)"
    by force
  have b: "1 \<le> z \<and> z \<le> remaining \<and> z \<le> 16384"
    using z assms(2) by (rule chunkSize_bounds)
  show ?thesis
  proof (cases "remaining \<le> MinChunk (Normalize p)")
    case True
    then show ?thesis
      using assms Normalize_bounds [of p] by (simp add: chunkSizeWithMax_def)
  next
    case False
    then have "sz = min z m"
      using assms(1) by (auto simp: chunkSizeWithMax_def z min_def split: if_splits)
    then show ?thesis
      using b assms(3) by (auto simp: min_def)
  qed
qed

lemma chunkSizeWithMax_le:
  "chunkSizeWithMax p remaining m tape = (sz, tape') \<Longrightarrow> sz \<le> max m (MinChunk (Normalize p))"
  by (auto simp: chunkSizeWithMax_def Let_def split: if_splits prod.splits)

lemmas drs_consts = drsInitialChunk_def drsRampRecords_def drsRampBytes_def

lemma outboundChunkSize_bounds:
  assumes "outboundChunkSize c (Normalize p) remaining tape = (sz, tape')" "0 < remaining"
  shows "1 \<le> sz \<and> sz \<le> remaining \<and> sz \<le> 16384"
proof (cases "remaining \<le> MinChunk (Normalize p)")
  case True
  then show ?thesis
    using assms Normalize_bounds [of p] by (simp add: outboundChunkSize_def)
next
  case False
  have "1 \<le> MaxChunk (Normalize p)"
    using Normalize_bounds [of p] by linarith
  with False assms show ?thesis
    by (auto simp: outboundChunkSize_def drsInitialChunk_def Let_def dest!: chunkSizeWithMax_bounds
        split: if_splits)
qed

lemma outboundChunkSize_pos:
  "outboundChunkSize c (Normalize p) (int (length b)) tape = (sz, tape') \<Longrightarrow> b \<noteq> [] \<Longrightarrow>
     0 < nat sz \<and> nat sz \<le> length b \<and> nat sz \<le> maxRecordPayload"
  using outboundChunkSize_bounds [of c p "int (length b)" tape sz tape']
  by (cases b) (auto simp: maxRecordPayload_def)

subsection \<open>Writing\<close>

text \<open>The jitter draw only sets how long the writer sleeps.\<close>

definition jitter_draw :: "RecordPolicy \<Rightarrow> nat list \<Rightarrow> nat list" where
  "jitter_draw policy tape =
     (if RecordJitterMs policy > 0 then snd (randInt (RecordJitterMs policy + 1) tape) else tape)"

text \<open>The loop of \<open>Write\<close>: the bytes accepted so far, the error, the connection and the tape.\<close>

function write_loop ::
  "bytes \<Rightarrow> nat \<Rightarrow> RecordConn \<Rightarrow> nat list \<Rightarrow> nat \<times> write_error option \<times> RecordConn \<times> nat list"
where
  "write_loop b sent c tape =
     (if b = [] then (sent, None, c, tape)
      else let policy = Normalize (Policy c);
               (size, tape') = outboundChunkSize c policy (int (length b)) (jitter_draw policy tape)
           in (case writeRecordLocked (take (nat size) b) c of
                 (Ok n, c') \<Rightarrow> write_loop (drop (nat size) b) (sent + n) c' tape'
               | (Err e, c') \<Rightarrow> (sent, Some e, c', tape')
               | (Panic, c') \<Rightarrow> (sent, None, c', tape')))"
  by pat_completeness auto
termination
  by (relation "measure (\<lambda>(b, _). length b)")
    (auto dest!: outboundChunkSize_pos [OF sym])

declare write_loop.simps [simp del]

definition rec_write ::
  "bytes \<Rightarrow> RecordConn \<Rightarrow> nat list \<Rightarrow> nat \<times> write_error option \<times> RecordConn \<times> nat list" where
  "rec_write b c tape =
     (if EnableSplitTLS (Policy c) \<and> \<not> splitDone c \<and> b \<noteq> [] then
        (case writeRecordLocked (take 1 b) c of
           (Ok n, c') \<Rightarrow> write_loop (drop 1 b) n (c'\<lparr>splitDone := True\<rparr>) tape
         | (Err e, c') \<Rightarrow> (0, Some e, c', tape)
         | (Panic, c') \<Rightarrow> (0, None, c', tape))
      else write_loop b 0 c tape)"

section \<open>Recorders and prefixes\<close>

text \<open>\<open>ReadRecorder\<close>: a connection that keeps a copy of everything read through it.\<close>

record ReadRecorder =
  rr_conn :: stream
  rr_capture :: bytes
  rr_pending :: bytes

definition rr_read ::
  "(stream \<Rightarrow> nat) \<Rightarrow> nat \<Rightarrow> ReadRecorder \<Rightarrow> (io_error + bytes) \<times> ReadRecorder" where
  "rr_read sched n r =
     (if rr_pending r \<noteq> []
      then (Inr (take n (rr_pending r)), r\<lparr>rr_pending := drop n (rr_pending r)\<rparr>)
      else case conn_read sched n (rr_conn r) of
             (Inl e, s) \<Rightarrow> (Inl e, r\<lparr>rr_conn := s\<rparr>)
           | (Inr xs, s) \<Rightarrow> (Inr xs, r\<lparr>rr_conn := s, rr_capture := rr_capture r @ xs\<rparr>))"

definition Snapshot :: "ReadRecorder \<Rightarrow> bytes" where
  "Snapshot r = rr_capture r"

definition Prepend :: "bytes \<Rightarrow> ReadRecorder \<Rightarrow> ReadRecorder" where
  "Prepend b r =
     (if b = [] then r
      else r\<lparr>rr_pending := rr_pending r @ b, rr_capture := rr_capture r @ b\<rparr>)"

text \<open>\<open>PrefixConn\<close>: a connection with some bytes put back in front.\<close>

record PrefixConn =
  pc_conn :: stream
  Prefix :: bytes

definition pc_read ::
  "(stream \<Rightarrow> nat) \<Rightarrow> nat \<Rightarrow> PrefixConn \<Rightarrow> (io_error + bytes) \<times> PrefixConn" where
  "pc_read sched n c =
     (if Prefix c \<noteq> [] then (Inr (take n (Prefix c)), c\<lparr>Prefix := drop n (Prefix c)\<rparr>)
      else case conn_read sched n (pc_conn c) of (r, s) \<Rightarrow> (r, c\<lparr>pc_conn := s\<rparr>))"

definition IsHandshakeRecord :: "byte \<Rightarrow> bool" where
  "IsHandshakeRecord first = (first = recordHandshake)"

definition crlf :: string where
  "crlf = [char_of (13 :: nat), char_of (10 :: nat)]"

definition redirect_body :: "string \<Rightarrow> string" where
  "redirect_body domain = ''https://'' @ domain @ ''/'' @ crlf"

definition redirect_response :: "string \<Rightarrow> string" where
  "redirect_response domain =
     ''HTTP/1.1 302 Found'' @ crlf @ ''Connection: close'' @ crlf
     @ ''Content-Type: text/plain; charset=utf-8'' @ crlf
     @ ''Location: https://'' @ domain @ ''/'' @ crlf
     @ ''Content-Length: '' @ dec_nat (length (redirect_body domain)) @ crlf @ crlf
     @ redirect_body domain"

definition RedirectToDomain :: "string \<Rightarrow> sink \<Rightarrow> bool \<times> sink" where
  "RedirectToDomain domain sk = sink_write (bytes_of_string (redirect_response domain)) sk"

section \<open>What a record stream carries\<close>

text \<open>Specification: the payloads of the complete application data records at the head of a byte
  string, one after the other.\<close>

function payloads :: "bytes \<Rightarrow> bytes" where
  "payloads bs =
     (let n = be_val (take 2 (drop 3 bs)) in
      if length bs < 5 + n then []
      else (if bs ! 0 = recordApplicationData then take n (drop 5 bs) else [])
           @ payloads (drop (5 + n) bs))"
  by pat_completeness auto
termination
  by (relation "measure length") auto

declare payloads.simps [simp del]

lemma payloads_Nil [simp]: "payloads [] = []"
  by (simp add: payloads.simps)

lemma drop_length_append: "drop (length xs) (xs @ ys) = ys"
  by simp

lemma payloads_record:
  assumes "length p < 65536"
  shows "payloads (t # v # w # put_be 2 (length p) @ p @ bs) =
    (if t = recordApplicationData then p else []) @ payloads bs"
proof -
  have "5 + length p = length ((t # v # w # put_be 2 (length p)) @ p)"
    by simp
  then have d: "drop (5 + length p) (t # v # w # put_be 2 (length p) @ p @ bs) = bs"
    using drop_length_append [of "(t # v # w # put_be 2 (length p)) @ p" bs]
    by (simp only: append_Cons append.assoc)
  show ?thesis
    using assms by (subst payloads.simps) (simp add: codec_simps Let_def d)
qed

lemma payloads_app_records:
  "\<forall>p \<in> set ps. length p \<le> maxRecordPayload \<Longrightarrow>
     payloads (concat (map app_record ps) @ bs) = concat ps @ payloads bs"
  by (induction ps) (auto simp: app_record_def payloads_record maxRecordPayload_def)

lemma next_record_full:
  assumes "5 + be_val (take 2 (drop 3 (st_in s))) \<le> length (st_in s)"
  shows "next_record s =
    (let n = be_val (take 2 (drop 3 (st_in s))); s2 = s\<lparr>st_in := drop (5 + n) (st_in s)\<rparr>
     in if st_in s ! 0 \<noteq> recordApplicationData then next_record s2
        else (Inr (take n (drop 5 (st_in s))), s2))"
  using assms by (subst next_record.simps) (simp add: drop_take Let_def add.commute)

lemma next_record_short:
  assumes "length (st_in s) < 5 + be_val (take 2 (drop 3 (st_in s)))"
  shows "\<exists>e s'. next_record s = (Inl e, s')"
proof (cases "length (st_in s) < 5")
  case True
  then show ?thesis by (simp add: next_record.simps [of s] read_full_def)
next
  case False
  then have "\<not> be_val (take 2 (drop 3 (st_in s))) \<le> length (st_in s) - 5"
    using assms by linarith
  with False show ?thesis
    by (simp add: next_record.simps [of s] read_full_def drop_take)
qed

text \<open>A read of the next record takes one payload off the stream, or finds none left.\<close>

lemma next_record_payloads:
  "case next_record s of
     (Inr p, s') \<Rightarrow> payloads (st_in s) = p @ payloads (st_in s') \<and> length (st_in s') < length (st_in s)
   | (Inl e, s') \<Rightarrow> payloads (st_in s) = []"
proof (induction "length (st_in s)" arbitrary: s rule: less_induct)
  case less
  let ?n = "be_val (take 2 (drop 3 (st_in s)))"
  let ?s2 = "s\<lparr>st_in := drop (5 + ?n) (st_in s)\<rparr>"
  show ?case
  proof (cases "length (st_in s) < 5 + ?n")
    case True
    then show ?thesis
      using next_record_short [OF True] by (auto simp: payloads.simps [of "st_in s"])
  next
    case False
    then have len: "length (st_in ?s2) < length (st_in s)"
      by auto
    have p: "payloads (st_in s) = (if st_in s ! 0 = recordApplicationData
          then take ?n (drop 5 (st_in s)) else []) @ payloads (st_in ?s2)"
      using False by (subst payloads.simps) (simp add: Let_def)
    show ?thesis
    proof (cases "st_in s ! 0 = recordApplicationData")
      case True
      with False p len show ?thesis by (simp add: next_record_full Let_def)
    next
      case app: False
      then have "next_record s = next_record ?s2"
        using False by (simp add: next_record_full Let_def)
      with less.hyps [OF len] p len app show ?thesis
        by (auto split: prod.splits sum.splits)
    qed
  qed
qed

lemma next_record_Inr:
  "next_record s = (Inr p, s') \<Longrightarrow>
     payloads (st_in s) = p @ payloads (st_in s') \<and> length (st_in s') < length (st_in s)"
  using next_record_payloads [of s] by simp

lemma next_record_Inl: "next_record s = (Inl e, s') \<Longrightarrow> payloads (st_in s) = []"
  using next_record_payloads [of s] by simp

interpretation record_reader: byte_reader rec_read
  "\<lambda>c. readBuf c @ payloads (st_in (rc_in c))" "\<lambda>c. length (st_in (rc_in c))"
proof unfold_locales
  fix n c xs and c' :: RecordConn
  assume "rec_read n c = (Inr xs, c')"
  then show "xs @ readBuf c' @ payloads (st_in (rc_in c')) = readBuf c @ payloads (st_in (rc_in c))
      \<and> length xs \<le> n"
    by (auto simp: rec_read_def split: if_splits prod.splits sum.splits dest: next_record_Inr)
next
  fix n :: nat and c :: RecordConn
  assume "readBuf c @ payloads (st_in (rc_in c)) \<noteq> []" "0 < n"
  then show "\<exists>xs c'. rec_read n c = (Inr xs, c')
      \<and> (xs \<noteq> [] \<or> length (st_in (rc_in c')) < length (st_in (rc_in c)))"
    by (auto simp: rec_read_def split: prod.splits sum.splits dest: next_record_Inr next_record_Inl)
qed

interpretation prefix_reader: byte_reader "pc_read sched" "\<lambda>c. Prefix c @ st_in (pc_conn c)"
  "\<lambda>c. length (st_in (pc_conn c))" for sched
  by unfold_locales (auto simp: pc_read_def conn_read_def Let_def split: if_splits)

interpretation recorder_reader: byte_reader "rr_read sched" "\<lambda>r. rr_pending r @ st_in (rr_conn r)"
  "\<lambda>r. length (st_in (rr_conn r))" for sched
  by unfold_locales (auto simp: rr_read_def conn_read_def Let_def split: if_splits)

section \<open>What \<open>Write\<close> puts on the wire\<close>

lemma length_app_record [simp]: "length (app_record k) = 5 + length k"
  by (simp add: app_record_def)

lemma payloads_truncated_record:
  assumes "length k \<le> maxRecordPayload" "m < length (app_record k)"
  shows "payloads (take m (app_record k)) = []"
proof (cases "m < 5")
  case True
  then show ?thesis
    by (subst payloads.simps) (simp add: Let_def)
next
  case False
  have "take 2 (drop 3 (take m (app_record k))) = put_be 2 (length k)"
    using False by (simp add: drop_take app_record_def min_def)
  then show ?thesis
    using assms by (subst payloads.simps) (simp add: Let_def codec_simps maxRecordPayload_def)
qed

text \<open>The effect of one record write, when it succeeds and when the connection fails.\<close>

lemma writeRecordLocked_cases:
  assumes "length k \<le> maxRecordPayload"
  obtains (ok) c' where "writeRecordLocked k c = (Ok (length k), c')"
      "sk_out (rc_sink c') = sk_out (rc_sink c) @ app_record k" "Policy c' = Policy c"
      "sk_room (rc_sink c) = None \<Longrightarrow> sk_room (rc_sink c') = None"
    | (failed) m c' where "writeRecordLocked k c = (Err WriteFailed, c')" "m < length (app_record k)"
      "sk_out (rc_sink c') = sk_out (rc_sink c) @ take m (app_record k)"
      "sk_room (rc_sink c) \<noteq> None"
proof (cases "sink_write (app_record k) (rc_sink c)")
  case (Pair b sk)
  show thesis
  proof (cases b)
    case True
    with Pair assms show ?thesis
      by (intro ok [of "c\<lparr>rc_sink := sk, recordsWritten := recordsWritten c + 1,
                 bytesWritten := bytesWritten c + int (length k)\<rparr>"])
        (auto simp: writeRecordLocked_def dest: sink_write_ok simp: sink_write_def split: option.splits)
  next
    case False
    then obtain m where "sk_room (rc_sink c) = Some m" "m < length (app_record k)"
      "sk_out sk = sk_out (rc_sink c) @ take m (app_record k)"
      using Pair by (auto simp: sink_write_def split: option.splits)
    with Pair False assms show ?thesis
      by (intro failed [of "c\<lparr>rc_sink := sk\<rparr>" m]) (auto simp: writeRecordLocked_def)
  qed
qed

text \<open>
  Specification of a write of \<open>b\<close> that accepts \<open>n\<close> bytes: complete records for the accepted bytes,
  each of 1 to 16384 bytes, then nothing, or part of the record at which the connection failed.
\<close>

definition write_spec :: "bytes \<Rightarrow> nat \<Rightarrow> write_error option \<Rightarrow> bytes \<Rightarrow> bool" where
  "write_spec b n err wire \<longleftrightarrow>
     (\<exists>ks part. wire = concat (map app_record ks) @ part \<and> concat ks = take n b
       \<and> (\<forall>k \<in> set ks. k \<noteq> [] \<and> length k \<le> maxRecordPayload)
       \<and> (case err of
            None \<Rightarrow> n = length b \<and> part = []
          | Some e \<Rightarrow> e = WriteFailed \<and> n < length b \<and>
              (\<exists>k m. part = take m (app_record k) \<and> m < length (app_record k)
                 \<and> length k \<le> maxRecordPayload)))"

lemma write_spec_done: "write_spec [] 0 None []"
  unfolding write_spec_def by (intro exI [of _ "[]"]) simp

lemma write_spec_failed:
  "b \<noteq> [] \<Longrightarrow> length k \<le> maxRecordPayload \<Longrightarrow> m < length (app_record k) \<Longrightarrow>
     write_spec b 0 (Some WriteFailed) (take m (app_record k))"
  unfolding write_spec_def by (intro exI [of _ "[]"] exI [of _ "take m (app_record k)"]) auto

lemma write_spec_step:
  assumes "write_spec (drop j b) n err wire" "0 < j" "j \<le> length b" "j \<le> maxRecordPayload"
  shows "write_spec b (j + n) err (app_record (take j b) @ wire)"
proof -
  obtain ks part where ks: "wire = concat (map app_record ks) @ part" "concat ks = take n (drop j b)"
    "\<forall>k \<in> set ks. k \<noteq> [] \<and> length k \<le> maxRecordPayload"
    and part: "case err of None \<Rightarrow> n = length (drop j b) \<and> part = []
        | Some e \<Rightarrow> e = WriteFailed \<and> n < length (drop j b) \<and>
            (\<exists>k m. part = take m (app_record k) \<and> m < length (app_record k)
               \<and> length k \<le> maxRecordPayload)"
    using assms(1) unfolding write_spec_def by blast
  have "concat (take j b # ks) = take (j + n) b"
    using ks(2) by (simp add: take_add)
  moreover have "\<forall>k \<in> set (take j b # ks). k \<noteq> [] \<and> length k \<le> maxRecordPayload"
    using ks(3) assms by auto
  ultimately show ?thesis
    using ks(1) part assms(3) unfolding write_spec_def
    by (intro exI [of _ "take j b # ks"] exI [of _ part]) (auto split: option.splits)
qed

lemma write_loop_spec:
  "write_loop b sent c tape = (n, err, c', tape') \<Longrightarrow>
     sent \<le> n \<and> (\<exists>wire. sk_out (rc_sink c') = sk_out (rc_sink c) @ wire
       \<and> write_spec b (n - sent) err wire)
     \<and> (sk_room (rc_sink c) = None \<longrightarrow> err = None \<and> sk_room (rc_sink c') = None)"
proof (induction "length b" arbitrary: b sent c tape rule: less_induct)
  case less
  show ?case
  proof (cases "b = []")
    case True
    with less.prems show ?thesis
      by (auto simp: write_loop.simps [of "[]"] write_spec_done)
  next
    case False
    let ?p = "Normalize (Policy c)"
    obtain sz t1 where sz: "outboundChunkSize c ?p (int (length b)) (jitter_draw ?p tape) = (sz, t1)"
      by force
    define j where "j = nat sz"
    have j: "0 < j" "j \<le> length b" "j \<le> maxRecordPayload"
      using outboundChunkSize_pos [OF sz False] by (auto simp: j_def)
    then have jl: "length (take j b) = j" and jm: "length (take j b) \<le> maxRecordPayload"
      by auto
    from jm show ?thesis
    proof (cases rule: writeRecordLocked_cases [where c = c])
      case (ok c1)
      then have "write_loop b sent c tape = write_loop (drop j b) (sent + j) c1 t1"
        using False sz jl by (subst write_loop.simps) (simp add: j_def)
      with less.prems have "write_loop (drop j b) (sent + j) c1 t1 = (n, err, c', tape')"
        by simp
      moreover have "length (drop j b) < length b"
        using j by simp
      ultimately obtain wire where w: "sent + j \<le> n" "sk_out (rc_sink c') = sk_out (rc_sink c1) @ wire"
        "write_spec (drop j b) (n - (sent + j)) err wire" "sk_room (rc_sink c1) = None \<longrightarrow> err = None \<and> sk_room (rc_sink c') = None"
        using less.hyps by blast
      have "write_spec b (j + (n - (sent + j))) err (app_record (take j b) @ wire)"
        using w(3) j by (rule write_spec_step)
      then have "write_spec b (n - sent) err (app_record (take j b) @ wire)"
        using w(1) by simp
      with w ok show ?thesis by auto
    next
      case (failed m c1)
      then have "write_loop b sent c tape = (sent, Some WriteFailed, c1, t1)"
        using False sz by (subst write_loop.simps) (simp add: j_def)
      with less.prems failed False j jl show ?thesis
        by (auto intro: write_spec_failed)
    qed
  qed
qed

lemma rec_write_spec:
  assumes "rec_write b c tape = (n, err, c', tape')"
  shows "(\<exists>wire. sk_out (rc_sink c') = sk_out (rc_sink c) @ wire \<and> write_spec b n err wire)
    \<and> (sk_room (rc_sink c) = None \<longrightarrow> err = None \<and> sk_room (rc_sink c') = None)"
proof (cases "EnableSplitTLS (Policy c) \<and> \<not> splitDone c \<and> b \<noteq> []")
  case False
  with assms show ?thesis
    using write_loop_spec [of b 0 c tape n err c' tape'] unfolding rec_write_def by auto
next
  case True
  then have j: "length (take 1 b) = 1" "1 \<le> length b" "(1 :: nat) \<le> maxRecordPayload"
    by (cases b; simp add: maxRecordPayload_def)+
  then have "length (take 1 b) \<le> maxRecordPayload"
    by linarith
  then show ?thesis
  proof (cases rule: writeRecordLocked_cases [where c = c])
    case (ok c1)
    then have "write_loop (drop 1 b) 1 (c1\<lparr>splitDone := True\<rparr>) tape = (n, err, c', tape')"
      using assms True j by (simp add: rec_write_def)
    from write_loop_spec [OF this] obtain wire where w: "1 \<le> n"
      "sk_out (rc_sink c') = sk_out (rc_sink c1) @ wire" "write_spec (drop 1 b) (n - 1) err wire"
      "sk_room (rc_sink c1) = None \<longrightarrow> err = None \<and> sk_room (rc_sink c') = None"
      by auto
    have "write_spec b (1 + (n - 1)) err (app_record (take 1 b) @ wire)"
      using w(3) j by (intro write_spec_step) auto
    with w ok show ?thesis by auto
  next
    case (failed m c1)
    with assms True j show ?thesis
      by (auto simp: rec_write_def intro!: write_spec_failed)
  qed
qed

lemma write_spec_payloads: "write_spec b n err wire \<Longrightarrow> payloads wire = take n b"
  unfolding write_spec_def
  by (elim exE conjE)
    (auto simp: payloads_app_records payloads_truncated_record payloads_app_records [where bs = "[]", simplified]
      split: option.splits)

section \<open>Properties\<close>

definition rc_example :: RecordConn where
  "rc_example = \<lparr>rc_in = \<lparr>st_in = [], st_end = EOF\<rparr>, rc_sink = \<lparr>sk_out = [], sk_room = Some 10\<rparr>,
     readBuf = [], Policy = DefaultRecordPolicy\<lparr>EnableSplitTLS := True\<rparr>, recordsWritten = 0,
     bytesWritten = 0, splitDone = False\<rparr>"

lemmas write_eval = rec_write_def rc_example_def DefaultRecordPolicy_def Normalize_def
  writeRecordLocked_def maxRecordPayload_def sink_write_def write_loop.simps outboundChunkSize_def
  jitter_draw_def

text \<open>
  Whatever the policy and the random draws, \<open>Write\<close> puts on the wire complete application data
  records of 1 to 16384 bytes that carry exactly the bytes it reports as accepted, in order. It
  reports no error exactly when it accepted everything, and on a connection that does not fail it
  always does; a failing connection has received at most a part of one more record.
\<close>

lemma write_sends_records:
  assumes "rec_write b c tape = (n, err, c', tape')"
  shows "\<exists>wire. sk_out (rc_sink c') = sk_out (rc_sink c) @ wire \<and> write_spec b n err wire
      \<and> payloads wire = take n b \<and> n \<le> length b \<and> (err = None \<longleftrightarrow> n = length b)
      \<and> (sk_room (rc_sink c) = None \<longrightarrow> err = None)"
proof -
  obtain wire where w: "sk_out (rc_sink c') = sk_out (rc_sink c) @ wire" "write_spec b n err wire"
    "sk_room (rc_sink c) = None \<longrightarrow> err = None"
    using rec_write_spec [OF assms] by auto
  moreover have "n \<le> length b \<and> (err = None \<longleftrightarrow> n = length b)"
    using w(2) unfolding write_spec_def by (cases err) auto
  ultimately show ?thesis
    using write_spec_payloads [OF w(2)] by (intro exI [of _ wire]) simp
qed

text \<open>
  C25. A peer that reads through its own record connection gets back, with \<open>io.ReadFull\<close>, exactly
  the bytes that a successful \<open>Write\<close> accepted, and is left with what follows them on the wire.
\<close>

theorem write_read_roundtrip:
  assumes "rec_write b c tape = (n, None, c', tape')"
    and "sk_out (rc_sink c) = []" "readBuf r = []"
    and "st_in (rc_in r) = sk_out (rc_sink c') @ rest"
  shows "\<exists>r'. io_read_full rec_read (length b) [] r = Some (Inr b, r')
    \<and> readBuf r' @ payloads (st_in (rc_in r')) = payloads rest"
proof -
  obtain ks where ks: "sk_out (rc_sink c') = concat (map app_record ks)" "concat ks = b"
    "\<forall>k \<in> set ks. length k \<le> maxRecordPayload"
    using rec_write_spec [OF assms(1)] assms(2) by (auto simp: write_spec_def)
  have "readBuf r @ payloads (st_in (rc_in r)) = b @ payloads rest"
    using ks assms(3,4) by (simp add: payloads_app_records)
  then show ?thesis
    using record_reader.io_read_full_delivers [of "length b" r] by simp
qed

theorem write_read_roundtrip_witness:
  "\<exists>c' r'. rec_write [1, 2, 3] (rc_example\<lparr>rc_sink := \<lparr>sk_out = [], sk_room = None\<rparr>\<rparr>) [] = (3, None, c', [])
     \<and> io_read_full rec_read (length [1 :: byte, 2, 3]) [] (rc_example\<lparr>rc_in := \<lparr>st_in = sk_out (rc_sink c') @ [], st_end = EOF\<rparr>\<rparr>)
       = Some (Inr [1, 2, 3], r')"
proof -
  let ?r = "rec_write [1, 2, 3] (rc_example\<lparr>rc_sink := \<lparr>sk_out = [], sk_room = None\<rparr>\<rparr>) []"
  have "fst ?r = 3 \<and> fst (snd ?r) = None \<and> snd (snd (snd ?r)) = []"
    by (simp add: write_eval)
  then have r: "?r = (3, None, fst (snd (snd ?r)), [])"
    by (simp add: prod_eq_iff)
  have "\<exists>r'. io_read_full rec_read (length [1 :: byte, 2, 3]) []
      (rc_example\<lparr>rc_in := \<lparr>st_in = sk_out (rc_sink (fst (snd (snd ?r)))) @ [], st_end = EOF\<rparr>\<rparr>)
      = Some (Inr [1, 2, 3], r') \<and> readBuf r' @ payloads (st_in (rc_in r')) = payloads []"
    by (rule write_read_roundtrip [OF r]) (simp_all add: rc_example_def)
  with r show ?thesis by blast
qed

text \<open>
  Dynamic record sizing: while fewer than 8 records and 128 KiB have been written, no
  record is larger than the larger of 1369 bytes and the configured minimum, and every
  chunk is positive and fits what is left to send and the TLS limit, whatever the policy says.
\<close>

theorem drs_caps_early_records:
  assumes "outboundChunkSize c (Normalize p) remaining tape = (sz, tape')" "0 < remaining"
  shows "1 \<le> sz \<and> sz \<le> remaining \<and> sz \<le> 16384 \<and>
    (EnableDRS p \<and> recordsWritten c < 8 \<and> bytesWritten c < 131072 \<longrightarrow>
       sz \<le> max 1369 (MinChunk (Normalize p)))"
proof (intro conjI impI)
  show "1 \<le> sz" "sz \<le> remaining" "sz \<le> 16384"
    using outboundChunkSize_bounds [OF assms] by auto
  assume "EnableDRS p \<and> recordsWritten c < 8 \<and> bytesWritten c < 131072"
  then have "sz \<le> max (min 1369 (MaxChunk (Normalize p))) (MinChunk (Normalize p))"
    using assms(1) by (auto simp: outboundChunkSize_def drs_consts Let_def min_def
        dest!: chunkSizeWithMax_le split: if_splits)
  then show "sz \<le> max 1369 (MinChunk (Normalize p))"
    by (auto simp: max_def min_def split: if_splits)
qed

theorem drs_caps_early_records_witness:
  "\<exists>sz tape'. outboundChunkSize rc_example (Normalize (DefaultRecordPolicy\<lparr>EnableDRS := True\<rparr>)) 5000 [3000]
      = (sz, tape') \<and> sz \<le> 1369"
proof -
  obtain sz tape' where r: "outboundChunkSize rc_example
      (Normalize (DefaultRecordPolicy\<lparr>EnableDRS := True\<rparr>)) 5000 [3000] = (sz, tape')"
    by force
  have "recordsWritten rc_example < 8" "bytesWritten rc_example < 131072"
    "MinChunk (Normalize (DefaultRecordPolicy\<lparr>EnableDRS := True\<rparr>)) = 512"
    "EnableDRS (DefaultRecordPolicy\<lparr>EnableDRS := True\<rparr>)"
    by (simp_all add: rc_example_def Normalize_def DefaultRecordPolicy_def maxRecordPayload_def)
  with drs_caps_early_records [OF r] r show ?thesis by auto
qed

text \<open>A client of the recorder: reads of the given sizes until one fails; the bytes it got.\<close>

fun rr_run :: "(stream \<Rightarrow> nat) \<Rightarrow> nat list \<Rightarrow> ReadRecorder \<Rightarrow> bytes \<times> ReadRecorder" where
  "rr_run sched [] r = ([], r)"
| "rr_run sched (n # ns) r =
     (case rr_read sched n r of
        (Inl e, r') \<Rightarrow> ([], r')
      | (Inr xs, r') \<Rightarrow> (case rr_run sched ns r' of (ys, r'') \<Rightarrow> (xs @ ys, r'')))"

lemma rr_run_keeps:
  "rr_run sched ns r = (got, r') \<Longrightarrow> rr_capture r = done @ rr_pending r \<Longrightarrow>
     rr_capture r' @ st_in (rr_conn r') = rr_capture r @ st_in (rr_conn r)
     \<and> rr_capture r' = (done @ got) @ rr_pending r'"
proof (induction sched ns r arbitrary: got "done" rule: rr_run.induct)
  case (1 sched r)
  then show ?case by simp
next
  case (2 sched n ns r)
  show ?case
  proof (cases "rr_read sched n r")
    case (Pair x r1)
    show ?thesis
    proof (cases x)
      case (Inl e)
      with 2 Pair show ?thesis
        by (auto simp: rr_read_def conn_read_def Let_def split: if_splits)
    next
      case (Inr xs)
      have "rr_capture r1 @ st_in (rr_conn r1) = rr_capture r @ st_in (rr_conn r)"
        "rr_capture r1 = (done @ xs) @ rr_pending r1"
        using Pair Inr 2(3) by (auto simp: rr_read_def conn_read_def Let_def split: if_splits)
      with 2 Pair Inr show ?thesis
        by (fastforce split: prod.splits)
    qed
  qed
qed

text \<open>
  The recorder loses and repeats nothing: after any reads of any sizes, however the bytes
  arrive, the snapshot followed by what is still unread on the connection is the prepended byte
  followed by the connection's input, and the reader has seen the snapshot less what is pending.
\<close>

theorem recorder_keeps_every_byte:
  "let r0 = \<lparr>rr_conn = s, rr_capture = [], rr_pending = []\<rparr>;
       (got, r) = rr_run sched ns (Prepend b r0)
   in Snapshot r @ st_in (rr_conn r) = b @ st_in s \<and> Snapshot r = got @ rr_pending r"
proof -
  let ?r0 = "Prepend b \<lparr>rr_conn = s, rr_capture = [], rr_pending = []\<rparr>"
  have "rr_capture ?r0 = [] @ rr_pending ?r0" "rr_capture ?r0 @ st_in (rr_conn ?r0) = b @ st_in s"
    by (auto simp: Prepend_def)
  then show ?thesis
    using rr_run_keeps [of sched ns ?r0 _ _ "[]"] by (auto simp: Snapshot_def Let_def split: prod.splits)
qed

end
