(* ===== verification/Rotators.thy ===== *)
theory Rotators
  imports TlsRecord
begin

text \<open>
  The rotators of fingerprints, SNI names and ServerHello profiles: \<open>internal/faketls/pool.go\<close>,
  \<open>sni.go\<close> and the rotator of \<open>server_hello.go\<close>. Times are nanoseconds; every operation that reads
  the clock gets its reading as \<open>now\<close>. An index out of the pool and a division by an empty pool
  show as \<open>Panic\<close>. The locale \<open>rotating_pool\<close> states what a rotator promises its callers; each of the
  three rotators interprets it.
\<close>

section \<open>Pools and strategies\<close>

definition RotationPerConnection :: string where "RotationPerConnection = ''per_connection''"
definition RotationTimeBased :: string where "RotationTimeBased = ''time_based''"
definition RotationAdaptive :: string where "RotationAdaptive = ''adaptive''"

definition list_index :: "'a list \<Rightarrow> nat \<Rightarrow> ('e, 'a) res" where
  "list_index xs i = (if i < length xs then Ok (xs ! i) else Panic)"

definition seconds :: "int \<Rightarrow> int" where
  "seconds n = n * 1000000000"

definition DefaultFingerprintNames :: "string list" where
  "DefaultFingerprintNames = [''chrome_auto'', ''chrome_120'', ''chrome_120_pq'', ''firefox_auto'',
     ''firefox_120'', ''edge_auto'', ''safari_auto'']"

definition fingerprintRegistry :: "(string \<times> ClientHelloID) list" where
  "fingerprintRegistry =
     [(''chrome_auto'', HelloChrome_Auto), (''chrome_120'', HelloChrome_120),
      (''chrome_120_pq'', HelloChrome_120_PQ), (''chrome_115_pq'', HelloChrome_115_PQ),
      (''chrome_106_shuffle'', HelloChrome_106_Shuffle), (''firefox_auto'', HelloFirefox_Auto),
      (''firefox_120'', HelloFirefox_120), (''firefox_105'', HelloFirefox_105),
      (''edge_auto'', HelloEdge_Auto), (''edge_106'', HelloEdge_106),
      (''safari_auto'', HelloSafari_Auto), (''safari_16_0'', HelloSafari_16_0)]"

datatype fp_error = EmptyFingerprint | UnknownFingerprint string

definition ParseFingerprint :: "string \<Rightarrow> (fp_error, ClientHelloID) res" where
  "ParseFingerprint name =
     (let key = to_lower (trim_space name) in
      if key = [] then Err EmptyFingerprint
      else case map_of fingerprintRegistry key of
             Some fid \<Rightarrow> Ok fid
           | None \<Rightarrow> Err (UnknownFingerprint name))"

fun fingerprint_pool_loop ::
  "string list \<Rightarrow> ClientHelloID list \<Rightarrow> string list
     \<Rightarrow> (fp_error, ClientHelloID list \<times> string list) res" where
  "fingerprint_pool_loop [] ids validNames = Ok (ids, validNames)"
| "fingerprint_pool_loop (name # names) ids validNames =
     bind_res (ParseFingerprint name) (\<lambda>fid.
       fingerprint_pool_loop names (ids @ [fid]) (validNames @ [to_lower (trim_space name)]))"

definition ParseFingerprintPool ::
  "string list \<Rightarrow> (fp_error, ClientHelloID list \<times> string list) res" where
  "ParseFingerprintPool names =
     fingerprint_pool_loop (if names = [] then DefaultFingerprintNames else names) [] []"

section \<open>The fingerprint rotator\<close>

record FingerprintRotator =
  fr_pool :: "ClientHelloID list"
  fr_names :: "string list"
  fr_strategy :: string
  fr_interval :: int
  fr_adaptiveThreshold :: int
  fr_currentIdx :: nat
  fr_lastRotate :: int
  fr_failures :: int

definition NewFingerprintRotator ::
  "int \<Rightarrow> string list \<Rightarrow> string \<Rightarrow> int \<Rightarrow> int \<Rightarrow> (fp_error, FingerprintRotator) res" where
  "NewFingerprintRotator now names strategy intervalSec adaptiveThreshold =
     bind_res (ParseFingerprintPool names) (\<lambda>(ids, validNames).
     Ok \<lparr>fr_pool = ids, fr_names = validNames,
         fr_strategy = (if strategy = [] then RotationPerConnection else strategy),
         fr_interval = seconds (if intervalSec \<le> 0 then 300 else intervalSec),
         fr_adaptiveThreshold = (if adaptiveThreshold \<le> 0 then 20 else adaptiveThreshold),
         fr_currentIdx = 0, fr_lastRotate = now, fr_failures = 0\<rparr>)"

definition fr_rotate :: "int \<Rightarrow> FingerprintRotator \<Rightarrow> FingerprintRotator" where
  "fr_rotate now r =
     r\<lparr>fr_currentIdx := (fr_currentIdx r + 1) mod length (fr_pool r), fr_lastRotate := now\<rparr>"

definition fr_Pick ::
  "int \<Rightarrow> nat list \<Rightarrow> FingerprintRotator option
     \<Rightarrow> ('e, ClientHelloID) res \<times> FingerprintRotator option \<times> nat list" where
  "fr_Pick now tape ro =
     (case ro of
        None \<Rightarrow> (Ok HelloChrome_Auto, ro, tape)
      | Some r \<Rightarrow>
          if fr_pool r = [] then (Ok HelloChrome_Auto, ro, tape)
          else if fr_strategy r = RotationTimeBased then
            let r' = (if now - fr_lastRotate r \<ge> fr_interval r then fr_rotate now r else r)
            in (list_index (fr_pool r') (fr_currentIdx r'), Some r', tape)
          else if fr_strategy r = RotationAdaptive then
            (list_index (fr_pool r) (fr_currentIdx r), ro, tape)
          else let (idx, tape') = randInt (int (length (fr_pool r))) tape
               in (list_index (fr_pool r) (nat idx), ro, tape'))"

definition fr_CurrentName :: "FingerprintRotator option \<Rightarrow> ('e, string) res" where
  "fr_CurrentName ro =
     (case ro of
        None \<Rightarrow> Ok ''chrome_auto''
      | Some r \<Rightarrow> if fr_names r = [] then Ok ''chrome_auto''
                 else list_index (fr_names r) (fr_currentIdx r))"

definition fr_RecordFailure ::
  "int \<Rightarrow> FingerprintRotator option \<Rightarrow> ('e, FingerprintRotator option) res" where
  "fr_RecordFailure now ro =
     (case ro of
        None \<Rightarrow> Ok None
      | Some r \<Rightarrow>
          if fr_strategy r \<noteq> RotationAdaptive then Ok ro
          else let r = r\<lparr>fr_failures := fr_failures r + 1\<rparr> in
            if fr_failures r \<ge> fr_adaptiveThreshold r then
              if fr_pool r = [] then Panic
              else Ok (Some ((fr_rotate now r)\<lparr>fr_failures := 0\<rparr>))
            else Ok (Some r))"

definition fr_RecordSuccess :: "FingerprintRotator option \<Rightarrow> FingerprintRotator option" where
  "fr_RecordSuccess ro =
     (case ro of
        None \<Rightarrow> None
      | Some r \<Rightarrow> if fr_strategy r \<noteq> RotationAdaptive then ro else Some (r\<lparr>fr_failures := 0\<rparr>))"

section \<open>The SNI rotator\<close>

record SNIRotator =
  sr_pool :: "string list"
  sr_strategy :: string
  sr_interval :: int
  sr_currentIdx :: nat
  sr_lastRotate :: int

definition NewSNIRotator :: "int \<Rightarrow> string list \<Rightarrow> string \<Rightarrow> int \<Rightarrow> SNIRotator option" where
  "NewSNIRotator now pool strategy intervalSec =
     (let clean = filter (\<lambda>host. host \<noteq> []) (map trim_space pool) in
      if clean = [] then None
      else Some \<lparr>sr_pool = clean,
             sr_strategy = (if strategy = [] then RotationPerConnection else strategy),
             sr_interval = seconds (if intervalSec \<le> 0 then 300 else intervalSec),
             sr_currentIdx = 0, sr_lastRotate = now\<rparr>)"

definition sr_Pick ::
  "string \<Rightarrow> int \<Rightarrow> nat list \<Rightarrow> SNIRotator option
     \<Rightarrow> ('e, string) res \<times> SNIRotator option \<times> nat list" where
  "sr_Pick fallback now tape ro =
     (case ro of
        None \<Rightarrow> (Ok fallback, ro, tape)
      | Some r \<Rightarrow>
          if sr_pool r = [] then (Ok fallback, ro, tape)
          else if sr_strategy r = RotationTimeBased then
            let r' = (if now - sr_lastRotate r \<ge> sr_interval r
                      then r\<lparr>sr_currentIdx := (sr_currentIdx r + 1) mod length (sr_pool r),
                             sr_lastRotate := now\<rparr>
                      else r)
            in (list_index (sr_pool r') (sr_currentIdx r'), Some r', tape)
          else let (idx, tape') = randInt (int (length (sr_pool r))) tape
               in (list_index (sr_pool r) (nat idx), ro, tape'))"

section \<open>The ServerHello profile rotator\<close>

definition ServerProfileChrome :: string where "ServerProfileChrome = ''chrome''"
definition ServerProfileFirefox :: string where "ServerProfileFirefox = ''firefox''"
definition ServerProfileEdge :: string where "ServerProfileEdge = ''edge''"
definition ServerProfileSafari :: string where "ServerProfileSafari = ''safari''"

definition defaultServerHelloProfiles :: "string list" where
  "defaultServerHelloProfiles =
     [ServerProfileChrome, ServerProfileFirefox, ServerProfileEdge, ServerProfileSafari]"

record ServerHelloRotator =
  sh_profiles :: "string list"
  sh_strategy :: string
  sh_interval :: int
  sh_adaptiveThreshold :: int
  sh_currentIdx :: nat
  sh_lastRotate :: int
  sh_failures :: int

definition NewServerHelloRotator ::
  "int \<Rightarrow> string list \<Rightarrow> string \<Rightarrow> int \<Rightarrow> int \<Rightarrow> ServerHelloRotator" where
  "NewServerHelloRotator now names strategy intervalSec adaptiveThreshold =
     \<lparr>sh_profiles = (if names = [] then defaultServerHelloProfiles else names),
      sh_strategy = (if strategy = [] then RotationPerConnection else strategy),
      sh_interval = seconds (if intervalSec \<le> 0 then 300 else intervalSec),
      sh_adaptiveThreshold = (if adaptiveThreshold \<le> 0 then 20 else adaptiveThreshold),
      sh_currentIdx = 0, sh_lastRotate = now, sh_failures = 0\<rparr>"

definition sh_rotate :: "int \<Rightarrow> ServerHelloRotator \<Rightarrow> ServerHelloRotator" where
  "sh_rotate now r =
     r\<lparr>sh_currentIdx := (sh_currentIdx r + 1) mod length (sh_profiles r), sh_lastRotate := now\<rparr>"

definition sh_Pick ::
  "int \<Rightarrow> nat list \<Rightarrow> ServerHelloRotator option
     \<Rightarrow> ('e, string) res \<times> ServerHelloRotator option \<times> nat list" where
  "sh_Pick now tape ro =
     (case ro of
        None \<Rightarrow> (Ok ServerProfileChrome, ro, tape)
      | Some r \<Rightarrow>
          if sh_profiles r = [] then (Ok ServerProfileChrome, ro, tape)
          else if sh_strategy r = RotationTimeBased then
            let r' = (if now - sh_lastRotate r \<ge> sh_interval r then sh_rotate now r else r)
            in (list_index (sh_profiles r') (sh_currentIdx r'), Some r', tape)
          else if sh_strategy r = RotationAdaptive then
            (list_index (sh_profiles r) (sh_currentIdx r), ro, tape)
          else let (idx, tape') = randInt (int (length (sh_profiles r))) tape
               in (list_index (sh_profiles r) (nat idx), ro, tape'))"

definition sh_RecordFailure ::
  "int \<Rightarrow> ServerHelloRotator option \<Rightarrow> ('e, ServerHelloRotator option) res" where
  "sh_RecordFailure now ro =
     (case ro of
        None \<Rightarrow> Ok None
      | Some r \<Rightarrow>
          if sh_strategy r \<noteq> RotationAdaptive then Ok ro
          else let r = r\<lparr>sh_failures := sh_failures r + 1\<rparr> in
            if sh_failures r \<ge> sh_adaptiveThreshold r then
              if sh_profiles r = [] then Panic
              else Ok (Some ((sh_rotate now r)\<lparr>sh_failures := 0\<rparr>))
            else Ok (Some r))"

definition sh_RecordSuccess :: "ServerHelloRotator option \<Rightarrow> ServerHelloRotator option" where
  "sh_RecordSuccess ro =
     (case ro of
        None \<Rightarrow> None
      | Some r \<Rightarrow> if sh_strategy r \<noteq> RotationAdaptive then ro else Some (r\<lparr>sh_failures := 0\<rparr>))"

section \<open>What a rotator promises\<close>

text \<open>The calls a rotator gets: picks with a clock reading and random draws, failures, successes.\<close>

datatype rot_event = RotPick int "nat list" | RotFailure int | RotSuccess

text \<open>Specification: a sequence of calls, and the answers of its picks in order.\<close>

fun run_steps ::
  "(rot_event \<Rightarrow> 's \<Rightarrow> (unit, 'a option \<times> 's) res) \<Rightarrow> rot_event list \<Rightarrow> 's \<Rightarrow> (unit, 'a list \<times> 's) res"
where
  "run_steps step [] s = Ok ([], s)"
| "run_steps step (ev # evs) s =
     bind_res (step ev s) (\<lambda>(x, s'). bind_res (run_steps step evs s') (\<lambda>(ys, s'').
       Ok ((case x of None \<Rightarrow> [] | Some y \<Rightarrow> [y]) @ ys, s'')))"

text \<open>
  A rotator, seen by its callers: a state with a pool, a validity condition, and a step that either
  answers a pick or only changes the state. A valid rotator never panics, keeps its pool and
  answers with members of it.
\<close>

locale rotating_pool =
  fixes pool_of :: "'s \<Rightarrow> 'a set"
    and valid :: "'s \<Rightarrow> bool"
    and step :: "rot_event \<Rightarrow> 's \<Rightarrow> (unit, 'a option \<times> 's) res"
  assumes step_valid: "valid s \<Longrightarrow> \<exists>x s'. step ev s = Ok (x, s') \<and> valid s' \<and> pool_of s' = pool_of s
    \<and> set_option x \<subseteq> pool_of s"
begin

lemma run_picks_from_pool:
  "valid s \<Longrightarrow> \<exists>ys s'. run_steps step evs s = Ok (ys, s') \<and> valid s' \<and> set ys \<subseteq> pool_of s"
proof (induction evs arbitrary: s)
  case Nil
  then show ?case by simp
next
  case (Cons ev evs)
  obtain x s1 where s1: "step ev s = Ok (x, s1)" "valid s1" "pool_of s1 = pool_of s"
    "set_option x \<subseteq> pool_of s"
    using step_valid [OF Cons.prems] by blast
  obtain ys s2 where "run_steps step evs s1 = Ok (ys, s2)" "valid s2" "set ys \<subseteq> pool_of s1"
    using Cons.IH [OF s1(2)] by blast
  with s1 show ?case by (auto split: option.splits)
qed

end

definition pick_step ::
  "(int \<Rightarrow> nat list \<Rightarrow> 's \<Rightarrow> (unit, 'a) res \<times> 's \<times> nat list) \<Rightarrow> (int \<Rightarrow> 's \<Rightarrow> (unit, 's) res) \<Rightarrow> ('s \<Rightarrow> 's)
     \<Rightarrow> rot_event \<Rightarrow> 's \<Rightarrow> (unit, 'a option \<times> 's) res" where
  "pick_step pick failure success ev s =
     (case ev of
        RotPick now tape \<Rightarrow>
          (case pick now tape s of (r, s', _) \<Rightarrow> bind_res r (\<lambda>x. Ok (Some x, s')))
      | RotFailure now \<Rightarrow> bind_res (failure now s) (\<lambda>s'. Ok (None, s'))
      | RotSuccess \<Rightarrow> Ok (None, success s))"

text \<open>The same contract, call by call.\<close>

locale rotator_ops =
  fixes pool_of :: "'s \<Rightarrow> 'a set"
    and valid :: "'s \<Rightarrow> bool"
    and pick :: "int \<Rightarrow> nat list \<Rightarrow> 's \<Rightarrow> (unit, 'a) res \<times> 's \<times> nat list"
    and failure :: "int \<Rightarrow> 's \<Rightarrow> (unit, 's) res"
    and success :: "'s \<Rightarrow> 's"
  assumes pick_ok: "valid s \<Longrightarrow> \<exists>x s' tape'. pick now tape s = (Ok x, s', tape') \<and> x \<in> pool_of s
      \<and> valid s' \<and> pool_of s' = pool_of s"
    and failure_ok: "valid s \<Longrightarrow> \<exists>s'. failure now s = Ok s' \<and> valid s' \<and> pool_of s' = pool_of s"
    and success_ok: "valid s \<Longrightarrow> valid (success s) \<and> pool_of (success s) = pool_of s"

sublocale rotator_ops \<subseteq> rotating_pool pool_of valid "pick_step pick failure success"
proof unfold_locales
  fix s ev
  assume v: "valid s"
  show "\<exists>x s'. pick_step pick failure success ev s = Ok (x, s') \<and> valid s' \<and> pool_of s' = pool_of s
      \<and> set_option x \<subseteq> pool_of s"
  proof (cases ev)
    case (RotPick now tape)
    with pick_ok [OF v, of now tape] show ?thesis by (auto simp: pick_step_def)
  next
    case (RotFailure now)
    with failure_ok [OF v, of now] show ?thesis by (auto simp: pick_step_def)
  next
    case RotSuccess
    with success_ok [OF v] show ?thesis by (auto simp: pick_step_def)
  qed
qed

lemma list_index_Ok: "i < length xs \<Longrightarrow> list_index xs i = Ok (xs ! i) \<and> xs ! i \<in> set xs"
  by (simp add: list_index_def)

lemma randInt_index:
  "xs \<noteq> [] \<Longrightarrow> \<exists>r tape'. randInt (int (length xs)) tape = (r, tape') \<and> nat r < length xs"
  using randInt_bounds [of "int (length xs)" tape] by (cases "randInt (int (length xs)) tape") auto

definition fr_pool_of :: "FingerprintRotator option \<Rightarrow> ClientHelloID set" where
  "fr_pool_of ro = (case ro of None \<Rightarrow> {HelloChrome_Auto} | Some r \<Rightarrow> set (fr_pool r))"

definition fr_valid :: "FingerprintRotator option \<Rightarrow> bool" where
  "fr_valid ro = (case ro of None \<Rightarrow> True | Some r \<Rightarrow> fr_currentIdx r < length (fr_pool r))"

definition sr_pool_of :: "string \<Rightarrow> SNIRotator option \<Rightarrow> string set" where
  "sr_pool_of fallback ro = (case ro of None \<Rightarrow> {fallback} | Some r \<Rightarrow> set (sr_pool r))"

definition sr_valid :: "SNIRotator option \<Rightarrow> bool" where
  "sr_valid ro = (case ro of None \<Rightarrow> True | Some r \<Rightarrow> sr_currentIdx r < length (sr_pool r))"

definition sh_pool_of :: "ServerHelloRotator option \<Rightarrow> string set" where
  "sh_pool_of ro = (case ro of None \<Rightarrow> {ServerProfileChrome} | Some r \<Rightarrow> set (sh_profiles r))"

definition sh_valid :: "ServerHelloRotator option \<Rightarrow> bool" where
  "sh_valid ro = (case ro of None \<Rightarrow> True | Some r \<Rightarrow> sh_currentIdx r < length (sh_profiles r))"

lemmas fr_view = fr_pool_of_def fr_valid_def
lemmas sr_view = sr_pool_of_def sr_valid_def
lemmas sh_view = sh_pool_of_def sh_valid_def

lemma fr_Pick_valid:
  assumes "fr_valid ro"
  shows "\<exists>x ro' tape'. fr_Pick now tape ro = (Ok x, ro', tape') \<and> x \<in> fr_pool_of ro
    \<and> fr_valid ro' \<and> fr_pool_of ro' = fr_pool_of ro"
proof (cases ro)
  case None
  then show ?thesis by (simp add: fr_Pick_def fr_view)
next
  case (Some r)
  have ne: "fr_pool r \<noteq> []" and i: "fr_currentIdx r < length (fr_pool r)"
    using assms Some by (auto simp: fr_valid_def)
  then have i': "Suc (fr_currentIdx r) mod length (fr_pool r) < length (fr_pool r)"
    by auto
  obtain k tape' where "randInt (int (length (fr_pool r))) tape = (k, tape')" "nat k < length (fr_pool r)"
    using randInt_index [OF ne] by blast
  then show ?thesis
    using Some ne i list_index_Ok [OF i'] list_index_Ok [OF i]
    by (auto simp: fr_Pick_def fr_view fr_rotate_def list_index_def Let_def)
qed

lemma sr_Pick_valid:
  assumes "sr_valid ro"
  shows "\<exists>x ro' tape'. sr_Pick fallback now tape ro = (Ok x, ro', tape') \<and> x \<in> sr_pool_of fallback ro
    \<and> sr_valid ro' \<and> sr_pool_of fallback ro' = sr_pool_of fallback ro"
proof (cases ro)
  case None
  then show ?thesis by (simp add: sr_Pick_def sr_view)
next
  case (Some r)
  have ne: "sr_pool r \<noteq> []" and i: "sr_currentIdx r < length (sr_pool r)"
    using assms Some by (auto simp: sr_valid_def)
  then have i': "Suc (sr_currentIdx r) mod length (sr_pool r) < length (sr_pool r)"
    by auto
  obtain k tape' where "randInt (int (length (sr_pool r))) tape = (k, tape')" "nat k < length (sr_pool r)"
    using randInt_index [OF ne] by blast
  then show ?thesis
    using Some ne i list_index_Ok [OF i'] list_index_Ok [OF i]
    by (auto simp: sr_Pick_def sr_view list_index_def Let_def)
qed

lemma sh_Pick_valid:
  assumes "sh_valid ro"
  shows "\<exists>x ro' tape'. sh_Pick now tape ro = (Ok x, ro', tape') \<and> x \<in> sh_pool_of ro
    \<and> sh_valid ro' \<and> sh_pool_of ro' = sh_pool_of ro"
proof (cases ro)
  case None
  then show ?thesis by (simp add: sh_Pick_def sh_view)
next
  case (Some r)
  have ne: "sh_profiles r \<noteq> []" and i: "sh_currentIdx r < length (sh_profiles r)"
    using assms Some by (auto simp: sh_valid_def)
  then have i': "Suc (sh_currentIdx r) mod length (sh_profiles r) < length (sh_profiles r)"
    by auto
  obtain k tape' where "randInt (int (length (sh_profiles r))) tape = (k, tape')" "nat k < length (sh_profiles r)"
    using randInt_index [OF ne] by blast
  then show ?thesis
    using Some ne i list_index_Ok [OF i'] list_index_Ok [OF i]
    by (auto simp: sh_Pick_def sh_view sh_rotate_def list_index_def Let_def)
qed

lemma mod_less_pool: "i < length xs \<Longrightarrow> k mod length xs < length xs"
  by (cases xs) auto

lemma fr_feedback_valid:
  assumes "fr_valid ro"
  shows "\<exists>ro'. fr_RecordFailure now ro = Ok ro' \<and> fr_valid ro' \<and> fr_pool_of ro' = fr_pool_of ro"
    "fr_valid (fr_RecordSuccess ro) \<and> fr_pool_of (fr_RecordSuccess ro) = fr_pool_of ro"
  using assms by (auto simp: fr_RecordFailure_def fr_RecordSuccess_def fr_view fr_rotate_def Let_def
      intro: mod_less_pool split: option.splits)

lemma sh_feedback_valid:
  assumes "sh_valid ro"
  shows "\<exists>ro'. sh_RecordFailure now ro = Ok ro' \<and> sh_valid ro' \<and> sh_pool_of ro' = sh_pool_of ro"
    "sh_valid (sh_RecordSuccess ro) \<and> sh_pool_of (sh_RecordSuccess ro) = sh_pool_of ro"
  using assms by (auto simp: sh_RecordFailure_def sh_RecordSuccess_def sh_view sh_rotate_def Let_def
      intro: mod_less_pool split: option.splits)

interpretation fingerprints: rotator_ops fr_pool_of fr_valid fr_Pick fr_RecordFailure fr_RecordSuccess
  by unfold_locales (erule fr_Pick_valid fr_feedback_valid)+

interpretation sni_hosts: rotator_ops "sr_pool_of fallback" sr_valid "sr_Pick fallback" "\<lambda>now. Ok" "\<lambda>s. s"
  for fallback
  by unfold_locales (erule sr_Pick_valid, simp_all)

interpretation profiles: rotator_ops sh_pool_of sh_valid sh_Pick sh_RecordFailure sh_RecordSuccess
  by unfold_locales (erule sh_Pick_valid sh_feedback_valid)+

section \<open>Properties\<close>

lemma fingerprint_pool_loop_lengths:
  "fingerprint_pool_loop names ids vs = Ok (ids', vs') \<Longrightarrow>
     length ids' = length ids + length names \<and> length vs' = length vs + length names
     \<and> set ids' \<subseteq> set ids \<union> ran (map_of fingerprintRegistry)"
  by (induction names arbitrary: ids vs)
    (force simp: res_simps ParseFingerprint_def Let_def ran_def split: if_splits option.splits)+

lemma NewFingerprintRotator_pool:
  assumes "NewFingerprintRotator now names strategy i th = Ok r"
  shows "fr_pool r \<noteq> []" "fr_valid (Some r)" "length (fr_names r) = length (fr_pool r)"
    "set (fr_pool r) \<subseteq> ran (map_of fingerprintRegistry)" "0 < fr_adaptiveThreshold r" "fr_failures r = 0"
proof -
  obtain ids vs where p: "ParseFingerprintPool names = Ok (ids, vs)" "fr_pool r = ids" "fr_names r = vs"
    "fr_currentIdx r = 0"
    using assms by (auto simp: NewFingerprintRotator_def res_simps)
  have "fingerprint_pool_loop (if names = [] then DefaultFingerprintNames else names) [] [] = Ok (ids, vs)"
    using p(1) by (simp add: ParseFingerprintPool_def)
  from fingerprint_pool_loop_lengths [OF this] have l: "length ids = length vs" "ids \<noteq> []"
    "set ids \<subseteq> ran (map_of fingerprintRegistry)"
    by (auto simp: DefaultFingerprintNames_def split: if_splits)
  show "fr_pool r \<noteq> []" "fr_valid (Some r)" "length (fr_names r) = length (fr_pool r)"
    "set (fr_pool r) \<subseteq> ran (map_of fingerprintRegistry)"
    using p l by (auto simp: fr_valid_def)
  show "0 < fr_adaptiveThreshold r" "fr_failures r = 0"
    using assms by (auto simp: NewFingerprintRotator_def res_simps)
qed

text \<open>
  A fingerprint rotator that was built from a configured pool never panics, whatever
  sequence of picks, failures and successes it sees and whatever the clock and the random source
  deliver, and every fingerprint it hands out is one of its pool, hence one of the registry.
\<close>

theorem fingerprint_rotator_safe:
  assumes "NewFingerprintRotator now names strategy i th = Ok r"
  shows "\<exists>ys s'. run_steps (pick_step fr_Pick fr_RecordFailure fr_RecordSuccess) evs (Some r) = Ok (ys, s')
    \<and> set ys \<subseteq> set (fr_pool r) \<and> set ys \<subseteq> ran (map_of fingerprintRegistry)"
  using fingerprints.run_picks_from_pool [of "Some r" evs] NewFingerprintRotator_pool [OF assms]
  by (auto simp: fr_pool_of_def)

lemma rotator_example:
  "NewFingerprintRotator 0 [''edge_auto'', '' Chrome_120''] ''adaptive'' 0 2 =
     Ok \<lparr>fr_pool = [HelloEdge_Auto, HelloChrome_120], fr_names = [''edge_auto'', ''chrome_120''],
        fr_strategy = ''adaptive'', fr_interval = 300000000000, fr_adaptiveThreshold = 2,
        fr_currentIdx = 0, fr_lastRotate = 0, fr_failures = 0\<rparr>"
  by code_simp

theorem fingerprint_rotator_safe_witness:
  "\<exists>r ys s'. NewFingerprintRotator 0 [''edge_auto'', '' Chrome_120''] ''adaptive'' 0 2 = Ok r
     \<and> run_steps (pick_step fr_Pick fr_RecordFailure fr_RecordSuccess)
         [RotPick 1 [], RotFailure 2, RotFailure 3, RotPick 4 []] (Some r) = Ok (ys, s')
     \<and> set ys \<subseteq> {HelloEdge_Auto, HelloChrome_120}"
  using fingerprint_rotator_safe [OF rotator_example, of "[RotPick 1 [], RotFailure 2, RotFailure 3, RotPick 4 []]"]
    rotator_example by fastforce

fun fail_times :: "int \<Rightarrow> nat \<Rightarrow> FingerprintRotator option \<Rightarrow> (unit, FingerprintRotator option) res" where
  "fail_times now 0 ro = Ok ro"
| "fail_times now (Suc k) ro = bind_res (fail_times now k ro) (fr_RecordFailure now)"

lemma div_mod_Suc:
  fixes k m :: nat
  assumes "0 < m"
  shows "Suc k div m = (if Suc (k mod m) = m then Suc (k div m) else k div m)"
    "Suc k mod m = (if Suc (k mod m) = m then 0 else Suc (k mod m))"
  using assms by (auto simp: div_Suc mod_Suc)

lemma fail_times_counts:
  assumes "fr_strategy r = RotationAdaptive" "fr_pool r \<noteq> []" "fr_currentIdx r = 0" "fr_failures r = 0"
    and m: "fr_adaptiveThreshold r = int m" "0 < m"
  shows "\<exists>r'. fail_times t k (Some r) = Ok (Some r') \<and> fr_pool r' = fr_pool r
    \<and> fr_strategy r' = fr_strategy r \<and> fr_adaptiveThreshold r' = int m
    \<and> fr_currentIdx r' = (k div m) mod length (fr_pool r) \<and> fr_failures r' = int (k mod m)"
proof (induction k)
  case 0
  with assms show ?case by auto
next
  case (Suc k)
  then obtain r' where r': "fail_times t k (Some r) = Ok (Some r')" "fr_pool r' = fr_pool r"
    "fr_strategy r' = fr_strategy r" "fr_adaptiveThreshold r' = int m"
    "fr_currentIdx r' = (k div m) mod length (fr_pool r)" "fr_failures r' = int (k mod m)"
    by auto
  have "k mod m < m" using m(2) by simp
  then have "fr_adaptiveThreshold r' \<le> fr_failures r' + 1 \<longleftrightarrow> Suc (k mod m) = m"
    using r' by auto
  with r' assms show ?case
    by (auto simp: fr_RecordFailure_def fr_rotate_def Let_def div_mod_Suc [OF m(2)] mod_Suc_eq)
qed

text \<open>
  The adaptive strategy counts: after \<open>k\<close> failures in a row since the rotator was built, it has
  moved on once for every full threshold of failures, cyclically through the pool, and its failure
  counter holds the rest.
\<close>

theorem adaptive_rotates_per_threshold:
  assumes "NewFingerprintRotator now names RotationAdaptive i th = Ok r"
  shows "\<exists>r'. fail_times t k (Some r) = Ok (Some r') \<and> fr_pool r' = fr_pool r
    \<and> fr_currentIdx r' = (k div nat (fr_adaptiveThreshold r)) mod length (fr_pool r)
    \<and> fr_failures r' = int (k mod nat (fr_adaptiveThreshold r))"
proof -
  have "fr_strategy r = RotationAdaptive" "fr_currentIdx r = 0"
    using assms by (auto simp: NewFingerprintRotator_def res_simps RotationAdaptive_def)
  then show ?thesis
    using fail_times_counts [of r "nat (fr_adaptiveThreshold r)" t k] NewFingerprintRotator_pool [OF assms]
    by auto
qed

theorem adaptive_rotates_per_threshold_witness:
  "\<exists>r r'. NewFingerprintRotator 0 [''edge_auto'', '' Chrome_120''] RotationAdaptive 0 2 = Ok r
     \<and> fail_times 9 3 (Some r) = Ok (Some r') \<and> fr_currentIdx r' = 1 \<and> fr_failures r' = 1"
  using adaptive_rotates_per_threshold [OF rotator_example [folded RotationAdaptive_def], of 9 3]
    rotator_example by (fastforce simp: RotationAdaptive_def)

text \<open>
  The SNI rotator of a pool with at least one non-blank name never panics and only
  answers with trimmed names of that pool; when every name is blank there is no rotator, and
  each pick answers with the host of the secret.
\<close>

theorem sni_rotator_safe:
  "\<exists>ys s'. run_steps (pick_step (sr_Pick fallback) (\<lambda>now. Ok) (\<lambda>s. s)) evs
       (NewSNIRotator now names strategy i) = Ok (ys, s')
     \<and> set ys \<subseteq> (if \<exists>n \<in> set names. trim_space n \<noteq> []
                   then {trim_space n | n. n \<in> set names \<and> trim_space n \<noteq> []} else {fallback})"
proof -
  let ?s = "NewSNIRotator now names strategy i"
  have "sr_valid ?s"
    by (simp add: NewSNIRotator_def sr_valid_def Let_def filter_map)
  moreover have "sr_pool_of fallback ?s \<subseteq> (if \<exists>n \<in> set names. trim_space n \<noteq> []
      then {trim_space n | n. n \<in> set names \<and> trim_space n \<noteq> []} else {fallback})"
    by (auto simp: NewSNIRotator_def sr_pool_of_def Let_def filter_empty_conv)
  ultimately show ?thesis
    using sni_hosts.run_picks_from_pool [of ?s fallback evs] by blast
qed

theorem sni_rotator_safe_witness:
  "\<exists>ys s'. run_steps (pick_step (sr_Pick ''a.org'') (\<lambda>now. Ok) (\<lambda>s. s)) [RotPick 5 [7]]
     (NewSNIRotator 0 ['' b.org ''] [] 0) = Ok (ys, s')"
  using sni_rotator_safe [of "''a.org''" "[RotPick 5 [7]]" 0 "['' b.org '']" "[]" 0] by blast

end
