(* ===== verification/ServerHello.thy ===== *)
theory ServerHello
  imports Rotators
begin

text \<open>
  The server's half of the Fake TLS handshake: the synthetic ServerHello of
  \<open>internal/faketls/server_hello.go\<close>, the packet that \<open>WriteServerHelloWithNoise\<close> of \<open>client.go\<close> sends
  (ServerHello, ChangeCipherSpec, random padding as application data, with an HMAC in the server
  random) and the client's \<open>ReadServerHandshake\<close>. Random bytes come from the tape \<open>ent\<close>; bytes missing
  from it are those a failing \<open>rand.Read\<close> leaves zero.
\<close>

section \<open>Records and random bytes\<close>

text \<open>\<open>writeRecord\<close>: the length field is \<open>uint16(len(payload))\<close>.\<close>

definition tls_record :: "byte \<Rightarrow> bytes \<Rightarrow> bytes" where
  "tls_record recType payload = [recType, 3, 3] @ put_be 2 (length payload) @ payload"

definition rand_fill :: "nat \<Rightarrow> bytes \<Rightarrow> bytes \<times> bytes" where
  "rand_fill n ent = (take n (ent @ replicate n 0), drop n ent)"

section \<open>The ServerHello message\<close>

definition writeKeyShare :: "bytes \<Rightarrow> bytes \<times> bytes" where
  "writeKeyShare ent =
     (let (pubKey, ent') = rand_fill 32 ent; keyShare = [0x00, 0x1d, 0x00, 0x20] @ pubKey
      in ([0x00, 0x33] @ put_be 2 (length keyShare) @ keyShare, ent'))"

definition finalizeServerHello :: "client_hello \<Rightarrow> bytes \<Rightarrow> bytes \<Rightarrow> bytes" where
  "finalizeServerHello ch extPayload ent =
     (let (serverRandom, _) = rand_fill 32 ent;
          body = [0x03, 0x03] @ serverRandom @ [word_of_nat (length (ch_session ch))] @ ch_session ch
                 @ put_be 2 (ch_cipher ch) @ [0x00] @ put_be 2 (length extPayload) @ extPayload
      in [0x02] @ put_be 3 (length body) @ body)"

definition supported_versions :: bytes where
  "supported_versions = [0x00, 0x2b, 0x00, 0x02, 0x03, 0x04]"

definition buildServerHelloChrome :: "client_hello \<Rightarrow> bytes \<Rightarrow> bytes" where
  "buildServerHelloChrome ch ent =
     (let (ks, ent') = writeKeyShare ent in finalizeServerHello ch (supported_versions @ ks) ent')"

definition buildServerHelloFirefox :: "client_hello \<Rightarrow> bytes \<Rightarrow> bytes" where
  "buildServerHelloFirefox ch ent =
     (let (ks, ent') = writeKeyShare ent
      in finalizeServerHello ch (ks @ supported_versions @ [0x00, 0x2d, 0x00, 0x02, 0x01, 0x01]) ent')"

definition buildServerHelloEdge :: "client_hello \<Rightarrow> bytes \<Rightarrow> bytes" where
  "buildServerHelloEdge ch ent =
     (let (ks, ent') = writeKeyShare ent
      in finalizeServerHello ch (supported_versions @ [0xff, 0x01, 0x00, 0x01, 0x00] @ ks) ent')"

definition buildServerHelloSafari :: "client_hello \<Rightarrow> bytes \<Rightarrow> bytes" where
  "buildServerHelloSafari ch ent =
     (let (ks, ent') = writeKeyShare ent
      in finalizeServerHello ch (supported_versions @ ks @ [0x00, 0x0b, 0x00, 0x02, 0x01, 0x00]) ent')"

definition buildServerHello :: "client_hello \<Rightarrow> string \<Rightarrow> bytes \<Rightarrow> bytes" where
  "buildServerHello ch profile ent =
     (if profile = ServerProfileFirefox then buildServerHelloFirefox ch ent
      else if profile = ServerProfileEdge then buildServerHelloEdge ch ent
      else if profile = ServerProfileSafari then buildServerHelloSafari ch ent
      else buildServerHelloChrome ch ent)"

section \<open>The server's packet\<close>

record NoiseParams =
  Mean :: int
  Jitter :: int

definition paddingLen :: "NoiseParams \<Rightarrow> nat list \<Rightarrow> int \<times> nat list" where
  "paddingLen n tape =
     (if Mean n \<le> 0 then (let (r, tape') = randInt 3072 tape in (1024 + r, tape'))
      else let jitter = (if Jitter n \<le> 0 then 512 else Jitter n);
               (r, tape') = randInt (2 * jitter) tape;
               sz = Mean n - jitter + r
           in (if sz < 1000 then 1000 else sz, tape'))"

text \<open>The three records, before the HMAC is written into the server random.\<close>

definition handshake_packet :: "bytes \<Rightarrow> bytes \<Rightarrow> bytes" where
  "handshake_packet hello pad =
     zero_random (tls_record recordHandshake hello @ tls_record recordChangeCipher [0x01]
       @ tls_record recordApplicationData pad)"

text \<open>\<open>copy(packet[11:43], mac)\<close>\<close>

definition seal_packet :: "(bytes \<Rightarrow> bytes \<Rightarrow> bytes) \<Rightarrow> bytes \<Rightarrow> bytes \<Rightarrow> bytes \<Rightarrow> bytes" where
  "seal_packet hmac secret rnd packet =
     (let mac = take randomLength (hmac secret (rnd @ packet))
      in take randomOffset packet @ mac @ drop (randomOffset + length mac) packet)"

datatype server_hello_error = PaddingRandFailed | ServerHelloWriteFailed

definition WriteServerHelloWithNoise ::
  "(bytes \<Rightarrow> bytes \<Rightarrow> bytes) \<Rightarrow> int \<Rightarrow> nat list \<Rightarrow> bytes \<Rightarrow> bytes \<Rightarrow> client_hello \<Rightarrow> bytes \<Rightarrow> NoiseParams
     \<Rightarrow> ServerHelloRotator option \<Rightarrow> sink
     \<Rightarrow> (server_hello_error, unit) res \<times> ServerHelloRotator option \<times> sink" where
  "WriteServerHelloWithNoise hmac now tape ent pads ch secret noise helloRotator conn =
     (case sh_Pick now tape helloRotator of
        (Ok profile, rot, tape1) \<Rightarrow>
          let hello = buildServerHello ch profile ent;
              (padLen, _) = paddingLen noise tape1
          in if length pads < nat padLen then (Err PaddingRandFailed, rot, conn)
             else (case sink_write (seal_packet hmac secret (ch_random ch)
                            (handshake_packet hello (take (nat padLen) pads))) conn of
                     (True, conn') \<Rightarrow> (Ok (), rot, conn')
                   | (False, conn') \<Rightarrow> (Err ServerHelloWriteFailed, rot, conn'))
      | (Err e, rot, _) \<Rightarrow> (Err e, rot, conn)
      | (Panic, rot, _) \<Rightarrow> (Panic, rot, conn))"

section \<open>The client's side\<close>

datatype server_handshake_error =
  ServerHelloRead io_error | ChangeCipherRead io_error | AppDataRead io_error

definition read_tls_record :: "stream \<Rightarrow> (io_error + unit) \<times> stream" where
  "read_tls_record s =
     (case read_full 5 s of
        (Inl e, s1) \<Rightarrow> (Inl e, s1)
      | (Inr header, s1) \<Rightarrow>
          (case read_full (be_val (take 2 (drop 3 header))) s1 of
             (Inl e, s2) \<Rightarrow> (Inl e, s2)
           | (Inr _, s2) \<Rightarrow> (Inr (), s2)))"

definition ReadServerHandshake :: "stream \<Rightarrow> (server_handshake_error, unit) res \<times> stream" where
  "ReadServerHandshake s =
     (case read_tls_record s of
        (Inl e, s1) \<Rightarrow> (Err (ServerHelloRead e), s1)
      | (Inr _, s1) \<Rightarrow>
          (case read_tls_record s1 of
             (Inl e, s2) \<Rightarrow> (Err (ChangeCipherRead e), s2)
           | (Inr _, s2) \<Rightarrow>
               (case read_tls_record s2 of
                  (Inl e, s3) \<Rightarrow> (Err (AppDataRead e), s3)
                | (Inr _, s3) \<Rightarrow> (Ok (), s3))))"

section \<open>Facts\<close>

lemma length_rand_fill [simp]: "rand_fill n ent = (bs, ent') \<Longrightarrow> length bs = n"
  by (auto simp: rand_fill_def)

lemma writeKeyShare_length: "writeKeyShare ent = (ks, ent') \<Longrightarrow> length ks = 40"
  by (auto simp: writeKeyShare_def split: prod.splits)

lemma finalizeServerHello_length:
  "length (finalizeServerHello ch ext ent) = 44 + length (ch_session ch) + length ext"
  by (auto simp: finalizeServerHello_def Let_def split: prod.splits)

lemma buildServerHello_length:
  "90 + length (ch_session ch) \<le> length (buildServerHello ch profile ent)"
  "length (buildServerHello ch profile ent) \<le> 96 + length (ch_session ch)"
  by (auto simp: buildServerHello_def buildServerHelloChrome_def buildServerHelloFirefox_def
      buildServerHelloEdge_def buildServerHelloSafari_def supported_versions_def
      finalizeServerHello_length dest: writeKeyShare_length split: prod.splits)

lemma read_tls_record_spec:
  "st_in s = tls_record t p @ rest \<Longrightarrow> 
     read_tls_record s = (Inr (), s\<lparr>st_in := drop (length p mod 65536) (p @ rest)\<rparr>)"
  by (simp add: read_tls_record_def tls_record_def read_full_def codec_simps mod_less_eq_dividend trans_le_add1)

lemma tls_record_length [simp]: "length (tls_record t p) = 5 + length p"
  by (simp add: tls_record_def)

text \<open>Zeroing and filling the server random stay inside the first record.\<close>

definition rec_hdr :: "byte \<Rightarrow> nat \<Rightarrow> bytes" where
  "rec_hdr t n = [t, 3, 3] @ put_be 2 n"

lemma length_rec_hdr [simp]: "length (rec_hdr t n) = 5"
  by (simp add: rec_hdr_def)

lemma tls_record_hdr: "tls_record t p = rec_hdr t (length p) @ p"
  by (simp add: tls_record_def rec_hdr_def)

lemma zero_random_record:
  assumes "38 \<le> length hello"
  shows "zero_random (tls_record t hello @ tail) =
    tls_record t (take 6 hello @ replicate 32 0 @ drop 38 hello) @ tail"
  using assms by (simp add: zero_random_def tls_record_hdr randomOffset_def randomLength_def)

lemma seal_packet_record:
  assumes "38 \<le> length hello" and mac: "mac = take 32 (hmac secret (rnd @ tls_record t hello @ tail))"
  shows "seal_packet hmac secret rnd (tls_record t hello @ tail) =
    tls_record t (take 6 hello @ mac @ drop (6 + length mac) hello) @ tail"
proof -
  have "length mac \<le> 32" by (simp add: mac)
  with assms(1) show ?thesis
    unfolding seal_packet_def Let_def randomLength_def mac [symmetric]
    by (simp add: tls_record_hdr randomOffset_def)
qed

lemma sealed_handshake:
  assumes "38 \<le> length hello"
  shows "\<exists>hello'. length hello' = length hello \<and>
    seal_packet hmac secret rnd (handshake_packet hello pad) =
      tls_record recordHandshake hello' @ tls_record recordChangeCipher [0x01]
      @ tls_record recordApplicationData pad"
proof -
  let ?z = "take 6 hello @ replicate 32 0 @ drop 38 hello"
  let ?tail = "tls_record recordChangeCipher [0x01] @ tls_record recordApplicationData pad"
  define mac where "mac = take 32 (hmac secret (rnd @ tls_record recordHandshake ?z @ ?tail))"
  have z: "38 \<le> length ?z" using assms by simp
  have "handshake_packet hello pad = tls_record recordHandshake ?z @ ?tail"
    unfolding handshake_packet_def using assms by (rule zero_random_record)
  then have "seal_packet hmac secret rnd (handshake_packet hello pad) =
      tls_record recordHandshake (take 6 ?z @ mac @ drop (6 + length mac) ?z) @ ?tail"
    using seal_packet_record [where hmac = hmac, OF z mac_def] by simp
  moreover have "length mac \<le> 32" by (simp add: mac_def)
  then have "length (take 6 ?z @ mac @ drop (6 + length mac) ?z) = length hello"
    using assms by simp
  ultimately show ?thesis by blast
qed

lemma ReadServerHandshake_records:
  assumes "st_in s = tls_record t1 p1 @ tls_record t2 p2 @ tls_record t3 p3 @ rest"
    and "length p1 < 65536" "length p2 < 65536"
  shows "ReadServerHandshake s = (Ok (), s\<lparr>st_in := drop (length p3 mod 65536) (p3 @ rest)\<rparr>)"
proof -
  let ?s1 = "s\<lparr>st_in := tls_record t2 p2 @ tls_record t3 p3 @ rest\<rparr>"
  let ?s2 = "s\<lparr>st_in := tls_record t3 p3 @ rest\<rparr>"
  have "read_tls_record s = (Inr (), ?s1)"
    using assms by (subst read_tls_record_spec [OF assms(1)]) simp
  moreover have "read_tls_record ?s1 = (Inr (), ?s2)"
    using assms by (subst read_tls_record_spec [of ?s1 t2 p2 "tls_record t3 p3 @ rest"]) simp_all
  moreover have "read_tls_record ?s2 = (Inr (), s\<lparr>st_in := drop (length p3 mod 65536) (p3 @ rest)\<rparr>)"
    by (subst read_tls_record_spec [of ?s2 t3 p3 rest]) simp_all
  ultimately show ?thesis by (simp add: ReadServerHandshake_def)
qed

text \<open>What a successful write leaves on the wire.\<close>

lemma WriteServerHello_wire:
  assumes "WriteServerHelloWithNoise hmac now tape ent pads ch secret noise rot conn = (Ok (), rot', conn')"
  obtains profile tape1 padLen tape2 where
    "paddingLen noise tape1 = (padLen, tape2)"
    "nat padLen \<le> length pads"
    "sk_out conn' = sk_out conn @ seal_packet hmac secret (ch_random ch)
       (handshake_packet (buildServerHello ch profile ent) (take (nat padLen) pads))"
  using assms
  by (auto simp: WriteServerHelloWithNoise_def Let_def dest!: sink_write_ok
      split: prod.splits res.splits if_splits bool.splits)

lemma paddingLen_bounds:
  assumes "paddingLen n tape = (p, tape')"
  shows "1000 \<le> p"
    "Mean n \<le> 0 \<Longrightarrow> 1024 \<le> p \<and> p < 4096"
    "0 < Mean n \<Longrightarrow> p \<le> max 1000 (Mean n + (if Jitter n \<le> 0 then 512 else Jitter n) - 1)
       \<and> Mean n - (if Jitter n \<le> 0 then 512 else Jitter n) \<le> p"
proof -
  have r0: "0 \<le> r \<and> r < m" if "randInt m tape = (r, t)" "0 < m" for m r t
    using randInt_bounds [OF that] .
  show "Mean n \<le> 0 \<Longrightarrow> 1024 \<le> p \<and> p < 4096"
    using assms by (auto simp: paddingLen_def dest!: r0 split: prod.splits)
  show hi: "0 < Mean n \<Longrightarrow> p \<le> max 1000 (Mean n + (if Jitter n \<le> 0 then 512 else Jitter n) - 1)
       \<and> Mean n - (if Jitter n \<le> 0 then 512 else Jitter n) \<le> p"
    using assms by (cases "Jitter n \<le> 0") (auto simp: paddingLen_def Let_def dest!: r0 split: prod.splits if_splits)
  show "1000 \<le> p"
    using assms by (cases "Mean n \<le> 0") (auto simp: paddingLen_def Let_def dest!: r0 split: prod.splits if_splits)
qed

section \<open>Properties\<close>

lemma server_packet_read:
  assumes w: "WriteServerHelloWithNoise hmac now tape ent pads ch secret noise rot conn = (Ok (), rot', conn')"
    and "sk_out conn = []" "length (ch_session ch) < 256" "st_in s = sk_out conn' @ rest"
  obtains pad tape1 padLen tape2 where "pad = take (nat padLen) pads" "length pad = nat padLen"
    "paddingLen noise tape1 = (padLen, tape2)"
    "ReadServerHandshake s = (Ok (), s\<lparr>st_in := drop (length pad mod 65536) (pad @ rest)\<rparr>)"
proof -
  obtain profile tape1 padLen tape2 where p: "paddingLen noise tape1 = (padLen, tape2)"
    "nat padLen \<le> length pads" "sk_out conn' = sk_out conn @ seal_packet hmac secret (ch_random ch)
       (handshake_packet (buildServerHello ch profile ent) (take (nat padLen) pads))"
    by (rule WriteServerHello_wire [OF w])
  let ?hello = "buildServerHello ch profile ent"
  let ?pad = "take (nat padLen) pads"
  have "38 \<le> length ?hello"
    using buildServerHello_length(1) [of ch profile ent] by simp
  from sealed_handshake [OF this] obtain hello' where h: "length hello' = length ?hello"
    "seal_packet hmac secret (ch_random ch) (handshake_packet ?hello ?pad) =
      tls_record recordHandshake hello' @ tls_record recordChangeCipher [0x01] @ tls_record recordApplicationData ?pad"
    by blast
  have "length hello' < 65536"
    using h(1) buildServerHello_length(2) [of ch profile ent] assms(3) by simp
  then have "ReadServerHandshake s = (Ok (), s\<lparr>st_in := drop (length ?pad mod 65536) (?pad @ rest)\<rparr>)"
    using assms(2,4) p(3) h(2)
    by (intro ReadServerHandshake_records [of s recordHandshake hello' recordChangeCipher "[0x01]"
          recordApplicationData]) simp_all
  moreover have "length ?pad = nat padLen"
    using p(2) by simp
  ultimately show thesis
    using p(1) by (intro that [of "take (nat padLen) pads" padLen tape1 tape2]) simp_all
qed

text \<open>
  C26. The client accepts what the server sends: \<open>ReadServerHandshake\<close> reads the packet of
  \<open>WriteServerHelloWithNoise\<close> without error and stops right behind it, for every profile, clock and
  random source, when the configured padding fits a record.
\<close>

theorem server_handshake_roundtrip:
  assumes "WriteServerHelloWithNoise hmac now tape ent pads ch secret noise rot conn = (Ok (), rot', conn')"
    and "sk_out conn = []" "length (ch_session ch) < 256" "st_in s = sk_out conn' @ rest"
    and "Mean noise + (if Jitter noise \<le> 0 then 512 else Jitter noise) \<le> 65536"
  shows "ReadServerHandshake s = (Ok (), s\<lparr>st_in := rest\<rparr>)"
proof (rule server_packet_read [OF assms(1-4)])
  fix pad :: bytes and tape1 padLen tape2
  assume p: "length pad = nat padLen" "paddingLen noise tape1 = (padLen, tape2)"
    "ReadServerHandshake s = (Ok (), s\<lparr>st_in := drop (length pad mod 65536) (pad @ rest)\<rparr>)"
  have "padLen < 65536"
    using paddingLen_bounds [OF p(2)] assms(5) by (cases "Mean noise \<le> 0") auto
  with p show ?thesis by simp
qed

definition sh_example where
  "sh_example mean = WriteServerHelloWithNoise (\<lambda>k m. replicate 32 7) 0 [] [] (replicate (nat mean) 9)
     ch_example [] \<lparr>Mean = mean, Jitter = 1\<rparr> None \<lparr>sk_out = [], sk_room = None\<rparr>"

lemma sh_example_Ok: "1000 \<le> mean \<Longrightarrow> \<exists>conn'. sh_example mean = (Ok (), None, conn')"
  by (simp add: sh_example_def WriteServerHelloWithNoise_def sh_Pick_def paddingLen_def randInt.simps
      sink_write_def Let_def)

lemma ch_example_session: "length (ch_session ch_example) < 256"
  by (simp add: ch_example_def hello_example_def)

theorem server_handshake_roundtrip_witness:
  "\<exists>conn'. sh_example 1500 = (Ok (), None, conn')
     \<and> ReadServerHandshake \<lparr>st_in = sk_out conn' @ [1, 2], st_end = EOF\<rparr> = (Ok (), \<lparr>st_in = [1, 2], st_end = EOF\<rparr>)"
proof -
  obtain conn' where c: "sh_example 1500 = (Ok (), None, conn')"
    using sh_example_Ok [of 1500] by auto
  have "ReadServerHandshake \<lparr>st_in = sk_out conn' @ [1, 2], st_end = EOF\<rparr> =
      (Ok (), \<lparr>st_in = sk_out conn' @ [1, 2], st_end = EOF\<rparr>\<lparr>st_in := [1, 2]\<rparr>)"
    by (rule server_handshake_roundtrip [OF c [unfolded sh_example_def]])
      (simp_all add: ch_example_session)
  with c show ?thesis by simp
qed

text \<open>
  The server random authenticates the packet: zeroing it and taking the HMAC, under the
  shared secret, of the client random followed by the zeroed packet gives back the server random
  that was sent.
\<close>

theorem server_random_is_hmac:
  assumes "WriteServerHelloWithNoise hmac now tape ent pads ch secret noise rot conn = (Ok (), rot', conn')"
    and "sk_out conn = []" "\<And>k m. length (hmac k m) = 32"
  shows "take randomLength (drop randomOffset (sk_out conn'))
    = hmac secret (ch_random ch @ zero_random (sk_out conn'))"
proof (rule WriteServerHello_wire [OF assms(1)])
  fix profile tape1 padLen tape2
  let ?hello = "buildServerHello ch profile ent"
  let ?pk = "handshake_packet ?hello (take (nat padLen) pads)"
  assume out: "sk_out conn' = sk_out conn @ seal_packet hmac secret (ch_random ch) ?pk"
  define mac where "mac = hmac secret (ch_random ch @ ?pk)"
  have l: "length mac = 32" by (simp add: mac_def assms(3))
  have "90 \<le> length ?hello"
    using buildServerHello_length(1) [of ch profile ent] by simp
  then have len: "43 \<le> length ?pk"
    by (simp add: handshake_packet_def zero_random_def randomOffset_def randomLength_def)
  have z: "zero_random ?pk = ?pk"
    using \<open>90 \<le> length ?hello\<close>
    by (simp add: handshake_packet_def zero_random_def randomOffset_def randomLength_def)
  have "sk_out conn' = take 11 ?pk @ mac @ drop 43 ?pk"
    using out assms(2) l unfolding seal_packet_def mac_def [symmetric]
    by (simp add: randomOffset_def randomLength_def)
  moreover from this have "zero_random (sk_out conn') = zero_random ?pk"
    using l len by (simp add: zero_random_def randomOffset_def randomLength_def)
  ultimately show ?thesis
    using z l len by (simp add: randomOffset_def randomLength_def mac_def)
qed

theorem server_random_is_hmac_witness:
  "\<exists>conn'. sh_example 1500 = (Ok (), None, conn')
     \<and> take randomLength (drop randomOffset (sk_out conn')) = replicate 32 7"
proof -
  obtain conn' where c: "sh_example 1500 = (Ok (), None, conn')"
    using sh_example_Ok [of 1500] by auto
  from server_random_is_hmac [OF c [unfolded sh_example_def]] have
    "take randomLength (drop randomOffset (sk_out conn')) = replicate 32 7"
    by simp
  with c show ?thesis by blast
qed

text \<open>
  A padding of 65536 bytes or more does not fit the 16-bit length field of its record: the
  client stops inside the padding and takes the rest of it for application data. No configured
  mean is refused, so a large \<open>noise_mean\<close> breaks every handshake.
\<close>

theorem oversized_padding_breaks_handshake:
  assumes "WriteServerHelloWithNoise hmac now tape ent pads ch secret noise rot conn = (Ok (), rot', conn')"
    and "sk_out conn = []" "length (ch_session ch) < 256" "st_in s = sk_out conn' @ rest"
    and "65536 + (if Jitter noise \<le> 0 then 512 else Jitter noise) \<le> Mean noise"
  shows "\<exists>junk s'. ReadServerHandshake s = (Ok (), s') \<and> st_in s' = junk @ rest \<and> 65536 \<le> length junk"
proof (rule server_packet_read [OF assms(1-4)])
  fix pad :: bytes and tape1 padLen tape2
  assume p: "length pad = nat padLen" "paddingLen noise tape1 = (padLen, tape2)"
    "ReadServerHandshake s = (Ok (), s\<lparr>st_in := drop (length pad mod 65536) (pad @ rest)\<rparr>)"
  have "65536 \<le> padLen"
    using paddingLen_bounds(3) [OF p(2)] assms(5) by (auto split: if_splits)
  then have "65536 \<le> length pad" using p(1) by linarith
  then have "65536 \<le> length pad - length pad mod 65536"
    by (metis div_greater_zero_iff minus_mod_eq_div_mult mult_le_mono1 mult_1 Suc_leI One_nat_def zero_less_numeral)
  then show ?thesis
    using p(3) by (intro exI [of _ "drop (length pad mod 65536) pad"]) simp
qed

theorem oversized_padding_breaks_handshake_witness:
  "\<exists>conn' junk s'. sh_example 70000 = (Ok (), None, conn')
     \<and> ReadServerHandshake \<lparr>st_in = sk_out conn' @ [1, 2], st_end = EOF\<rparr> = (Ok (), s')
     \<and> st_in s' = junk @ [1, 2] \<and> 65536 \<le> length junk"
proof -
  obtain conn' where c: "sh_example 70000 = (Ok (), None, conn')"
    using sh_example_Ok [of 70000] by auto
  have "\<exists>junk s'. ReadServerHandshake \<lparr>st_in = sk_out conn' @ [1, 2], st_end = EOF\<rparr> = (Ok (), s')
      \<and> st_in s' = junk @ [1, 2] \<and> 65536 \<le> length junk"
    by (rule oversized_padding_breaks_handshake [OF c [unfolded sh_example_def]])
      (simp_all add: ch_example_session)
  with c show ?thesis by blast
qed

end
