(* ===== verification/Replay.thy ===== *)
theory Replay
  imports ClientHello
begin

text \<open>
  The anti-replay cache, \<open>internal/faketls/replay.go\<close>. The map of seen ClientHello keys is an
  association list with distinct keys. SHA-256 is the argument \<open>sha\<close>; \<open>victim\<close> stands for the
  unspecified order of Go's map iteration, which decides the entry that makes room when the cache
  is over its limit. Times are nanoseconds.
\<close>

section \<open>The cache\<close>

record ReplayCache =
  rp_entries :: "(string \<times> int) list"
  rp_max :: nat
  rp_ttl :: int
  rp_hits :: "64 word"

definition NewReplayCache :: "int \<Rightarrow> int \<Rightarrow> ReplayCache" where
  "NewReplayCache maxEntries ttl =
     \<lparr>rp_entries = [], rp_max = (if maxEntries \<le> 0 then 10000 else nat maxEntries),
      rp_ttl = (if ttl \<le> 0 then 120000000000 else ttl), rp_hits = 0\<rparr>"

definition replayKey :: "(bytes \<Rightarrow> bytes) \<Rightarrow> client_hello \<Rightarrow> string" where
  "replayKey sha ch = hex_encode (sha (ch_random ch))"

definition remove_nth :: "nat \<Rightarrow> 'a list \<Rightarrow> 'a list" where
  "remove_nth i xs = take i xs @ drop (Suc i) xs"

function evict_over :: "((string \<times> int) list \<Rightarrow> nat) \<Rightarrow> nat \<Rightarrow> (string \<times> int) list \<Rightarrow> (string \<times> int) list" where
  "evict_over victim mx es =
     (if length es > mx then evict_over victim mx (remove_nth (victim es mod length es) es) else es)"
  by pat_completeness auto
termination
proof (relation "measure (\<lambda>(victim, mx, es). length es)")
  fix victim :: "(string \<times> int) list \<Rightarrow> nat" and mx es
  assume "mx < length (es :: (string \<times> int) list)"
  then have "victim es mod length es < length es" by (intro mod_less_divisor) linarith
  then show "((victim, mx, remove_nth (victim es mod length es) es), victim, mx, es)
      \<in> measure (\<lambda>(victim, mx, es). length es)"
    by (simp add: remove_nth_def)
qed simp

declare evict_over.simps [simp del]

definition evict :: "((string \<times> int) list \<Rightarrow> nat) \<Rightarrow> int \<Rightarrow> ReplayCache \<Rightarrow> ReplayCache" where
  "evict victim now c =
     c\<lparr>rp_entries := evict_over victim (rp_max c)
         (filter (\<lambda>(k, t). \<not> now - t > rp_ttl c) (rp_entries c))\<rparr>"

definition Check ::
  "(bytes \<Rightarrow> bytes) \<Rightarrow> ((string \<times> int) list \<Rightarrow> nat) \<Rightarrow> int \<Rightarrow> client_hello option \<Rightarrow> ReplayCache
     \<Rightarrow> bool \<times> ReplayCache" where
  "Check sha victim now cho c =
     (case cho of
        None \<Rightarrow> (False, c)
      | Some ch \<Rightarrow>
          let key = replayKey sha ch; c = evict victim now c in
          if map_of (rp_entries c) key \<noteq> None then (True, c\<lparr>rp_hits := rp_hits c + 1\<rparr>)
          else (False, c\<lparr>rp_entries := (key, now) # rp_entries c\<rparr>))"

definition Hits :: "ReplayCache \<Rightarrow> 64 word" where
  "Hits c = rp_hits c"

text \<open>A sequence of checks, each with its clock reading, and their answers.\<close>

fun run_checks ::
  "(bytes \<Rightarrow> bytes) \<Rightarrow> ((string \<times> int) list \<Rightarrow> nat) \<Rightarrow> (int \<times> client_hello) list \<Rightarrow> ReplayCache
     \<Rightarrow> bool list \<times> ReplayCache" where
  "run_checks sha victim [] c = ([], c)"
| "run_checks sha victim ((now, ch) # evs) c =
     (let (b, c1) = Check sha victim now (Some ch) c; (bs, c2) = run_checks sha victim evs c1
      in (b # bs, c2))"

section \<open>Facts\<close>

lemma set_remove_nth: "set (remove_nth i xs) \<subseteq> set xs"
  by (auto simp: remove_nth_def dest: in_set_takeD in_set_dropD)

lemma evict_over_subset: "set (evict_over victim mx es) \<subseteq> set es"
proof (induction victim mx es rule: evict_over.induct)
  case (1 victim mx es)
  then show ?case
    using set_remove_nth [of "victim es mod length es" es] by (subst evict_over.simps) auto
qed

lemma evict_over_length: "length (evict_over victim mx es) \<le> mx"
proof (induction victim mx es rule: evict_over.induct)
  case (1 victim mx es)
  then show ?case by (subst evict_over.simps) auto
qed

lemma evict_over_small [simp]: "length es \<le> mx \<Longrightarrow> evict_over victim mx es = es"
  by (simp add: evict_over.simps)

lemma distinct_remove_nth: "distinct (map f xs) \<Longrightarrow> distinct (map f (remove_nth i xs))"
proof -
  assume d: "distinct (map f xs)"
  have "set (take i xs) \<inter> set (drop (Suc i) xs) = {}"
    using d set_take_disj_set_drop_if_distinct [of xs i "Suc i"] by (simp add: distinct_map)
  then show ?thesis
    using d by (auto simp: remove_nth_def distinct_map inj_on_def dest: in_set_takeD in_set_dropD)
qed

lemma evict_over_distinct: "distinct (map fst es) \<Longrightarrow> distinct (map fst (evict_over victim mx es))"
proof (induction victim mx es rule: evict_over.induct)
  case (1 victim mx es)
  then show ?case
    by (subst evict_over.simps) (auto intro: distinct_remove_nth)
qed

lemma evict_fields [simp]: "rp_max (evict victim now c) = rp_max c" "rp_ttl (evict victim now c) = rp_ttl c"
  "rp_hits (evict victim now c) = rp_hits c"
  by (simp_all add: evict_def)

lemma evict_entries:
  "(k, t) \<in> set (rp_entries (evict victim now c)) \<Longrightarrow> (k, t) \<in> set (rp_entries c) \<and> now - t \<le> rp_ttl c"
  using evict_over_subset by (fastforce simp: evict_def)

lemma evict_keeps:
  "(k, t) \<in> set (rp_entries c) \<Longrightarrow> now - t \<le> rp_ttl c \<Longrightarrow> length (rp_entries c) \<le> rp_max c \<Longrightarrow>
     (k, t) \<in> set (rp_entries (evict victim now c))"
proof -
  assume a: "(k, t) \<in> set (rp_entries c)" "now - t \<le> rp_ttl c" "length (rp_entries c) \<le> rp_max c"
  have "length (filter (\<lambda>(k, t). \<not> now - t > rp_ttl c) (rp_entries c)) \<le> rp_max c"
    using a(3) length_filter_le order.trans by blast
  with a show ?thesis by (auto simp: evict_def)
qed

lemma evict_length:
  "length (rp_entries (evict victim now c)) \<le> rp_max c"
  "length (rp_entries c) \<le> rp_max c \<Longrightarrow> length (rp_entries (evict victim now c)) \<le> length (rp_entries c)"
proof -
  show "length (rp_entries (evict victim now c)) \<le> rp_max c"
    by (simp add: evict_def evict_over_length)
  assume "length (rp_entries c) \<le> rp_max c"
  then have "length (filter (\<lambda>(k, t). \<not> now - t > rp_ttl c) (rp_entries c)) \<le> rp_max c"
    using length_filter_le order.trans by blast
  then show "length (rp_entries (evict victim now c)) \<le> length (rp_entries c)"
    by (simp add: evict_def)
qed

lemma map_of_Some_in: "map_of xs k \<noteq> None \<longleftrightarrow> k \<in> fst ` set xs"
  by (simp add: map_of_eq_None_iff)

lemma hex_encode_inject: "hex_encode xs = hex_encode ys \<longleftrightarrow> xs = ys"
  by (metis hex_decode_encode option.inject)

lemma Check_fields:
  "Check sha victim now cho c = (b, c') \<Longrightarrow> rp_max c' = rp_max c \<and> rp_ttl c' = rp_ttl c
     \<and> rp_hits c' = rp_hits c + of_bool b"
  by (auto simp: Check_def Let_def split: option.splits if_splits)

lemma run_checks_ConsE:
  assumes "run_checks sha victim ((now, ch) # evs) c = (bs, c')"
  obtains b bs1 c1 where "Check sha victim now (Some ch) c = (b, c1)"
    "run_checks sha victim evs c1 = (bs1, c')" "bs = b # bs1"
  using assms by (auto simp: Let_def split: prod.splits)

section \<open>Properties\<close>

text \<open>An entry survives any checks that come before it expires, as long as they all fit the cache.\<close>

lemma run_checks_keeps:
  assumes "run_checks sha victim evs c = (bs, c')" "(k, t) \<in> set (rp_entries c)"
    and "\<forall>(now, ch) \<in> set evs. now - t \<le> rp_ttl c" "length (rp_entries c) + length evs \<le> rp_max c"
  shows "(k, t) \<in> set (rp_entries c') \<and> rp_ttl c' = rp_ttl c \<and> rp_max c' = rp_max c
    \<and> length (rp_entries c') \<le> rp_max c"
  using assms
proof (induction sha victim evs c arbitrary: bs rule: run_checks.induct)
  case (1 sha victim c)
  then show ?case by simp
next
  case (2 sha victim now ch evs c)
  obtain b bs1 c1 where c1: "Check sha victim now (Some ch) c = (b, c1)"
    and r: "run_checks sha victim evs c1 = (bs1, c')"
    using run_checks_ConsE [OF 2(2)] by metis
  have f: "rp_max c1 = rp_max c" "rp_ttl c1 = rp_ttl c"
    using Check_fields [OF c1] by auto
  have "(k, t) \<in> set (rp_entries (evict victim now c))"
    using 2(3-5) by (intro evict_keeps) auto
  moreover have "length (rp_entries (evict victim now c)) \<le> length (rp_entries c)"
    using 2(5) by (intro evict_length) auto
  ultimately have "(k, t) \<in> set (rp_entries c1)" "length (rp_entries c1) \<le> Suc (length (rp_entries c))"
    using c1 by (auto simp: Check_def Let_def split: if_splits)
  with 2(1) [OF refl c1 [symmetric] r] 2(4,5) f show ?case by auto
qed

text \<open>
  C23. A replayed ClientHello is caught: once a check has let a ClientHello through, a check of the
  same client random within the time to live reports a replay, whatever other checks come
  between, in any order of map iteration, as long as the cache does not overflow.
\<close>

theorem replay_is_detected:
  assumes "Check sha victim now (Some ch) c = (False, c1)"
    and "run_checks sha victim evs c1 = (bs, c2)"
    and "\<forall>(t, ch') \<in> set evs. t - now \<le> rp_ttl c" "t' - now \<le> rp_ttl c"
    and "length (rp_entries c1) + length evs \<le> rp_max c" "ch_random ch' = ch_random ch"
  shows "fst (Check sha victim t' (Some ch') c2)"
proof -
  have f: "rp_max c1 = rp_max c" "rp_ttl c1 = rp_ttl c"
    using Check_fields [OF assms(1)] by auto
  have "(replayKey sha ch, now) \<in> set (rp_entries c1)"
    using assms(1) by (auto simp: Check_def Let_def split: if_splits)
  then have k: "(replayKey sha ch, now) \<in> set (rp_entries c2)" "rp_ttl c2 = rp_ttl c"
    "rp_max c2 = rp_max c" "length (rp_entries c2) \<le> rp_max c"
    using run_checks_keeps [OF assms(2)] assms(3,5) f by auto
  then have "(replayKey sha ch, now) \<in> set (rp_entries (evict victim t' c2))"
    using assms(4) by (intro evict_keeps) auto
  moreover have "replayKey sha ch' = replayKey sha ch"
    by (simp add: replayKey_def assms(6))
  ultimately show ?thesis
    by (force simp: Check_def Let_def map_of_Some_in simp del: not_None_eq)
qed

definition hello_of :: "byte \<Rightarrow> client_hello" where
  "hello_of b = \<lparr>ch_raw = slice_of [], ch_random = [b], ch_session = [], ch_cipher = 0\<rparr>"

theorem replay_is_detected_witness:
  "fst (Check (\<lambda>bs. bs) (\<lambda>es. 0) 60 (Some (hello_of 1))
     (snd (run_checks (\<lambda>bs. bs) (\<lambda>es. 0) [(10, hello_of 2), (20, hello_of 3)]
       (snd (Check (\<lambda>bs. bs) (\<lambda>es. 0) 5 (Some (hello_of 1)) (NewReplayCache 4 100))))))"
proof -
  let ?c1 = "snd (Check (\<lambda>bs. bs) (\<lambda>es. 0) 5 (Some (hello_of 1)) (NewReplayCache 4 100))"
  let ?r = "run_checks (\<lambda>bs. bs) (\<lambda>es. 0) [(10, hello_of 2), (20, hello_of 3)] ?c1"
  have c1: "Check (\<lambda>bs. bs) (\<lambda>es. 0) 5 (Some (hello_of 1)) (NewReplayCache 4 100) = (False, ?c1)"
    by (simp add: Check_def NewReplayCache_def evict_def Let_def)
  have r: "?r = (fst ?r, snd ?r)" by simp
  have "length (rp_entries ?c1) = 1"
    by (simp add: Check_def NewReplayCache_def evict_def Let_def)
  then show ?thesis
    by (intro replay_is_detected [OF c1 r]) (simp_all add: NewReplayCache_def)
qed

text \<open>Every entry of the cache comes from an earlier check of the trace.\<close>

lemma run_checks_origin:
  assumes "run_checks sha victim evs c = (bs, c')" "(k, t) \<in> set (rp_entries c')"
  shows "(k, t) \<in> set (rp_entries c) \<or> (\<exists>ch. (t, ch) \<in> set evs \<and> k = replayKey sha ch)"
  using assms
proof (induction sha victim evs c arbitrary: bs rule: run_checks.induct)
  case (1 sha victim c)
  then show ?case by simp
next
  case (2 sha victim now ch evs c)
  obtain b bs1 c1 where c1: "Check sha victim now (Some ch) c = (b, c1)"
    and r: "run_checks sha victim evs c1 = (bs1, c')"
    using run_checks_ConsE [OF 2(2)] by metis
  have "(k, t) \<in> set (rp_entries c1) \<Longrightarrow> (k, t) \<in> set (rp_entries c) \<or> t = now \<and> k = replayKey sha ch"
    using c1 by (auto simp: Check_def Let_def dest: evict_entries split: if_splits)
  with 2(1) [OF refl c1 [symmetric] r] 2(3) show ?case by auto
qed

lemma run_checks_fields:
  "run_checks sha victim evs c = (bs, c') \<Longrightarrow> rp_max c' = rp_max c \<and> rp_ttl c' = rp_ttl c
     \<and> rp_hits c' = rp_hits c + of_nat (length (filter (\<lambda>b. b) bs))"
proof (induction sha victim evs c arbitrary: bs rule: run_checks.induct)
  case (1 sha victim c)
  then show ?case by simp
next
  case (2 sha victim now ch evs c)
  obtain b bs1 c1 where c1: "Check sha victim now (Some ch) c = (b, c1)"
    and r: "run_checks sha victim evs c1 = (bs1, c')" "bs = b # bs1"
    using run_checks_ConsE [OF 2(2)] by metis
  with 2(1) [OF refl c1 [symmetric] r(1)] Check_fields [OF c1] show ?case by auto
qed

text \<open>
  No false alarm: a check reports a replay only if an earlier check of the trace, not older
  than the time to live, had a client random with the same digest.
\<close>

theorem replay_has_cause:
  assumes "run_checks sha victim evs (NewReplayCache n ttl) = (bs, c)"
    and "fst (Check sha victim now (Some ch) c)"
  shows "\<exists>t ch'. (t, ch') \<in> set evs \<and> sha (ch_random ch') = sha (ch_random ch) \<and> now - t \<le> rp_ttl c"
proof -
  obtain t where "(replayKey sha ch, t) \<in> set (rp_entries (evict victim now c))"
    using assms(2) by (auto simp: Check_def Let_def dest: map_of_SomeD split: if_splits)
  then have "(replayKey sha ch, t) \<in> set (rp_entries c)" "now - t \<le> rp_ttl c"
    by (auto dest: evict_entries)
  moreover from this obtain ch' where "(t, ch') \<in> set evs" "replayKey sha ch = replayKey sha ch'"
    using run_checks_origin [OF assms(1)] by (auto simp: NewReplayCache_def)
  ultimately show ?thesis
    by (auto simp: replayKey_def hex_encode_inject)
qed

theorem replay_has_cause_witness:
  "\<exists>t ch'. (t, ch') \<in> set [(5 :: int, hello_of 1)] \<and> ch_random ch' = ch_random (hello_of 1)"
proof -
  let ?r = "run_checks (\<lambda>bs. bs) (\<lambda>es. 0) [(5, hello_of 1)] (NewReplayCache 4 100)"
  have r: "?r = (fst ?r, snd ?r)" by simp
  have "fst (Check (\<lambda>bs. bs) (\<lambda>es. 0) 7 (Some (hello_of 1)) (snd ?r))"
    by (simp add: Check_def NewReplayCache_def evict_def Let_def)
  from replay_has_cause [OF r this] show ?thesis by blast
qed

lemma Check_shape:
  assumes "Check sha victim now cho c = (b, c')" "length (rp_entries c) \<le> Suc (rp_max c)"
    "distinct (map fst (rp_entries c))"
  shows "length (rp_entries c') \<le> Suc (rp_max c)" "distinct (map fst (rp_entries c'))"
proof -
  have "distinct (map fst (rp_entries (evict victim now c)))"
    using assms(3) by (auto simp: evict_def distinct_map_filter intro: evict_over_distinct)
  then show "distinct (map fst (rp_entries c'))" "length (rp_entries c') \<le> Suc (rp_max c)"
    using assms evict_length(1) [of victim now c]
    by (auto simp: Check_def Let_def map_of_eq_None_iff split: option.splits if_splits)
qed

lemma run_checks_shape:
  "run_checks sha victim evs c = (bs, c') \<Longrightarrow> length (rp_entries c) \<le> Suc (rp_max c) \<Longrightarrow>
     distinct (map fst (rp_entries c)) \<Longrightarrow>
     length (rp_entries c') \<le> Suc (rp_max c) \<and> distinct (map fst (rp_entries c'))"
proof (induction sha victim evs c arbitrary: bs rule: run_checks.induct)
  case (1 sha victim c)
  then show ?case by simp
next
  case (2 sha victim now ch evs c)
  obtain b bs1 c1 where c1: "Check sha victim now (Some ch) c = (b, c1)"
    and r: "run_checks sha victim evs c1 = (bs1, c')"
    using run_checks_ConsE [OF 2(2)] by metis
  show ?case
    using 2(1) [OF refl c1 [symmetric] r] Check_shape [OF c1 2(3,4)] Check_fields [OF c1] by auto
qed

text \<open>
  C40. The cache stays bounded and counts its hits: after any sequence of checks it has distinct
  keys, at most one entry more than its limit (the eviction runs before the insertion), and its hit
  counter is the number of replays reported, modulo the width of the counter.
\<close>

theorem replay_cache_bounded:
  assumes "run_checks sha victim evs (NewReplayCache n ttl) = (bs, c)"
  shows "length (rp_entries c) \<le> Suc (rp_max c) \<and> distinct (map fst (rp_entries c))
    \<and> Hits c = of_nat (length (filter (\<lambda>b. b) bs))"
  using run_checks_shape [OF assms] run_checks_fields [OF assms]
  by (simp add: NewReplayCache_def Hits_def)

theorem replay_cache_bounded_witness:
  "\<exists>bs c. run_checks (\<lambda>bs. bs) (\<lambda>es. 0) [(5, hello_of 1), (6, hello_of 2)] (NewReplayCache 1 100) = (bs, c)
     \<and> length (rp_entries c) = 2 \<and> rp_max c = 1 \<and> Hits c = 0 \<and> length (rp_entries c) \<le> Suc (rp_max c)"
proof -
  let ?r = "run_checks (\<lambda>bs. bs) (\<lambda>es. 0) [(5, hello_of 1), (6, hello_of 2)] (NewReplayCache 1 100)"
  have r: "?r = (fst ?r, snd ?r)" by simp
  have "length (rp_entries (snd ?r)) = 2" "rp_max (snd ?r) = 1" "fst ?r = [False, False]"
    by (simp_all add: Check_def NewReplayCache_def evict_def Let_def replayKey_def hello_of_def hex_digit_def)
  with replay_cache_bounded [OF r] show ?thesis
    by (intro exI [of _ "fst ?r"] exI [of _ "snd ?r"]) (simp add: prod_eq_iff del: run_checks.simps)
qed

end
