(* ===== verification/Limiter.thy ===== *)
theory Limiter
  imports Readers
begin

text \<open>
  The per-address connection limit, \<open>internal/limit/connlimit.go\<close>. A connection is modelled by its
  remote address text; \<open>None\<close> is a nil connection or one without a remote address. \<open>SplitHostPort\<close>
  of the \<open>net\<close> package is modelled here, for this component and for the blacklist.
\<close>

section \<open>Addresses\<close>

text \<open>\<open>net.SplitHostPort\<close>: the host part, \<open>None\<close> where Go returns an error.\<close>

definition last_colon :: "string \<Rightarrow> nat option" where
  "last_colon s =
     (if CHR '':'' \<in> set s
      then Some (length s - Suc (length (takeWhile (\<lambda>c. c \<noteq> CHR '':'') (rev s)))) else None)"

definition SplitHostPort :: "string \<Rightarrow> (string \<times> string) option" where
  "SplitHostPort hostport =
     (case last_colon hostport of
        None \<Rightarrow> None
      | Some i \<Rightarrow>
          if take 1 hostport = ''['' then
            (let e = length (takeWhile (\<lambda>c. c \<noteq> CHR '']'') hostport) in
             if e \<ge> length hostport \<or> e + 1 = length hostport \<or> e + 1 \<noteq> i then None
             else let host = take (e - 1) (drop 1 hostport); port = drop (i + 1) hostport in
               if CHR ''['' \<in> set (drop 1 hostport) \<or> CHR '']'' \<in> set (drop (e + 1) hostport)
               then None else Some (host, port))
          else let host = take i hostport; port = drop (i + 1) hostport in
            if CHR '':'' \<in> set host then None
            else if CHR ''['' \<in> set hostport \<or> CHR '']'' \<in> set hostport then None
            else Some (host, port))"

definition clientIP :: "string option \<Rightarrow> string" where
  "clientIP conn =
     (case conn of
        None \<Rightarrow> []
      | Some addr \<Rightarrow> (case SplitHostPort addr of Some (host, _) \<Rightarrow> host | None \<Rightarrow> addr))"

section \<open>The limiter\<close>

record ConnLimiter =
  cl_max :: int
  cl_counts :: "string \<rightharpoonup> int"

definition NewConnLimiter :: "int \<Rightarrow> ConnLimiter" where
  "NewConnLimiter mx = \<lparr>cl_max = mx, cl_counts = Map.empty\<rparr>"

definition count_of :: "(string \<rightharpoonup> int) \<Rightarrow> string \<Rightarrow> int" where
  "count_of m ip = (case m ip of Some n \<Rightarrow> n | None \<Rightarrow> 0)"

definition Acquire :: "string option \<Rightarrow> ConnLimiter option \<Rightarrow> bool \<times> ConnLimiter option" where
  "Acquire conn lo =
     (case lo of
        None \<Rightarrow> (True, None)
      | Some l \<Rightarrow>
          if cl_max l \<le> 0 then (True, lo)
          else let ip = clientIP conn in
            if ip = [] then (True, lo)
            else if count_of (cl_counts l) ip \<ge> cl_max l then (False, lo)
            else (True, Some (l\<lparr>cl_counts := (cl_counts l)(ip \<mapsto> count_of (cl_counts l) ip + 1)\<rparr>)))"

definition Release :: "string option \<Rightarrow> ConnLimiter option \<Rightarrow> ConnLimiter option" where
  "Release conn lo =
     (case lo of
        None \<Rightarrow> None
      | Some l \<Rightarrow>
          if cl_max l \<le> 0 then lo
          else let ip = clientIP conn in
            if ip = [] then lo
            else if count_of (cl_counts l) ip \<le> 1 then Some (l\<lparr>cl_counts := (cl_counts l)(ip := None)\<rparr>)
            else Some (l\<lparr>cl_counts := (cl_counts l)(ip \<mapsto> count_of (cl_counts l) ip - 1)\<rparr>))"

section \<open>The server's use of it\<close>

text \<open>
  Connections come and go: an accepted connection is acquired and, when it ends, released once
  (\<open>handleConnection\<close> defers the release); a refused one is closed at once.
\<close>

inductive lim_reach :: "int \<Rightarrow> ConnLimiter option \<Rightarrow> string option list \<Rightarrow> bool" for mx where
  start: "lim_reach mx (Some (NewConnLimiter mx)) []"
| accept: "lim_reach mx l live \<Longrightarrow> Acquire conn l = (True, l') \<Longrightarrow> lim_reach mx l' (conn # live)"
| refuse: "lim_reach mx l live \<Longrightarrow> Acquire conn l = (False, l') \<Longrightarrow> lim_reach mx l' live"
| finish: "lim_reach mx l live \<Longrightarrow> conn \<in> set live \<Longrightarrow> lim_reach mx (Release conn l) (remove1 conn live)"

definition live_from :: "string \<Rightarrow> string option list \<Rightarrow> nat" where
  "live_from ip live = length (filter (\<lambda>c. clientIP c = ip) live)"

lemma live_from_Cons [simp]:
  "live_from ip (c # live) = (if clientIP c = ip then Suc (live_from ip live) else live_from ip live)"
  by (simp add: live_from_def)

lemma live_from_pos: "c \<in> set live \<Longrightarrow> 0 < live_from (clientIP c) live"
  by (auto simp: live_from_def filter_empty_conv)

lemma live_from_remove1:
  "c \<in> set live \<Longrightarrow> live_from ip (remove1 c live) =
     (if clientIP c = ip then live_from ip live - 1 else live_from ip live)"
  by (simp add: live_from_def filter_remove1 length_remove1)

text \<open>Specification: the counter of an address is the number of its live connections, and absent
  at zero and for connections without an address.\<close>

definition live_counts :: "string option list \<Rightarrow> string \<rightharpoonup> int" where
  "live_counts live = (\<lambda>ip. if ip = [] \<or> live_from ip live = 0 then None else Some (int (live_from ip live)))"

lemma count_of_live: "ip \<noteq> [] \<Longrightarrow> count_of (live_counts live) ip = int (live_from ip live)"
  by (simp add: count_of_def live_counts_def)

lemma live_counts_Nil: "live_counts [] = Map.empty"
  by (simp add: live_counts_def live_from_def)

lemma live_counts_Cons:
  "live_counts (c # live) = (if clientIP c = [] then live_counts live
     else (live_counts live)(clientIP c \<mapsto> int (live_from (clientIP c) live) + 1))"
  by (auto simp: live_counts_def)

lemma live_counts_remove1:
  "c \<in> set live \<Longrightarrow> live_counts (remove1 c live) = (if clientIP c = [] then live_counts live
     else (live_counts live)(clientIP c := if live_from (clientIP c) live \<le> 1 then None
            else Some (int (live_from (clientIP c) live) - 1)))"
  by (auto simp: live_counts_def live_from_remove1)

definition lim_inv :: "int \<Rightarrow> ConnLimiter option \<Rightarrow> string option list \<Rightarrow> bool" where
  "lim_inv mx lo live \<longleftrightarrow>
     (\<exists>l. lo = Some l \<and> cl_max l = mx \<and>
       (0 < mx \<longrightarrow> cl_counts l = live_counts live \<and> (\<forall>ip. ip \<noteq> [] \<longrightarrow> int (live_from ip live) \<le> mx)))"

lemma limiter_off:
  assumes "cl_max l \<le> 0 \<or> clientIP conn = []"
  shows "Acquire conn (Some l) = (True, Some l)" "Release conn (Some l) = Some l"
  using assms by (auto simp: Acquire_def Release_def Let_def)

lemma limiter_on:
  assumes "0 < cl_max l" "clientIP conn \<noteq> []" "cl_counts l = live_counts live"
  shows "Acquire conn (Some l) = (if int (live_from (clientIP conn) live) \<ge> cl_max l then (False, Some l)
      else (True, Some (l\<lparr>cl_counts := live_counts (conn # live)\<rparr>)))"
    "conn \<in> set live \<Longrightarrow> Release conn (Some l) = Some (l\<lparr>cl_counts := live_counts (remove1 conn live)\<rparr>)"
  using assms by (simp_all add: Acquire_def Release_def Let_def count_of_live live_counts_Cons live_counts_remove1)

lemma live_from_remove1_le: "c \<in> set live \<Longrightarrow> int (live_from ip (remove1 c live)) \<le> int (live_from ip live)"
  by (simp add: live_from_remove1)

lemma lim_inv_Acquire:
  assumes "lim_inv mx lo live" "Acquire conn lo = (b, lo')"
  shows "lim_inv mx lo' (if b then conn # live else live)"
proof -
  obtain l where l: "lo = Some l" "cl_max l = mx"
    "0 < mx \<longrightarrow> cl_counts l = live_counts live \<and> (\<forall>ip. ip \<noteq> [] \<longrightarrow> int (live_from ip live) \<le> mx)"
    using assms(1) by (auto simp: lim_inv_def)
  show ?thesis
  proof (cases "mx \<le> 0 \<or> clientIP conn = []")
    case True
    with l assms(2) limiter_off(1) [of l conn] show ?thesis
      by (auto simp: lim_inv_def live_counts_Cons)
  next
    case False
    with l assms(2) limiter_on(1) [of l conn live] show ?thesis
      by (auto simp: lim_inv_def split: if_splits)
  qed
qed

lemma lim_inv_Release:
  assumes "lim_inv mx lo live" "conn \<in> set live"
  shows "lim_inv mx (Release conn lo) (remove1 conn live)"
proof -
  obtain l where l: "lo = Some l" "cl_max l = mx"
    "0 < mx \<longrightarrow> cl_counts l = live_counts live \<and> (\<forall>ip. ip \<noteq> [] \<longrightarrow> int (live_from ip live) \<le> mx)"
    using assms(1) by (auto simp: lim_inv_def)
  then have le: "0 < mx \<longrightarrow> (\<forall>ip. ip \<noteq> [] \<longrightarrow> int (live_from ip (remove1 conn live)) \<le> mx)"
    using live_from_remove1_le [OF assms(2)] order.trans by blast
  show ?thesis
  proof (cases "mx \<le> 0 \<or> clientIP conn = []")
    case True
    with l le limiter_off(2) [of l conn] assms(2) show ?thesis
      by (auto simp: lim_inv_def live_counts_remove1)
  next
    case False
    with l le limiter_on(2) [of l conn live] assms(2) show ?thesis
      by (auto simp: lim_inv_def)
  qed
qed

lemma lim_reach_inv: "lim_reach mx lo live \<Longrightarrow> lim_inv mx lo live"
proof (induction rule: lim_reach.induct)
  case start
  then show ?case by (simp add: lim_inv_def NewConnLimiter_def live_counts_Nil live_from_def)
next
  case (accept l live conn l')
  then show ?case using lim_inv_Acquire [of mx l live conn True l'] by simp
next
  case (refuse l live conn l')
  then show ?case using lim_inv_Acquire [of mx l live conn False l'] by simp
next
  case (finish l live conn)
  then show ?case by (intro lim_inv_Release)
qed

section \<open>Properties\<close>

text \<open>
  In every reachable state the counters are exactly the numbers of live connections per
  address, with no entry for an address without one, and with a positive limit no address ever
  has more live connections than the limit.
\<close>

theorem limiter_counts_live_connections:
  assumes "lim_reach mx lo live" "0 < mx"
  shows "\<exists>l. lo = Some l \<and> cl_counts l = live_counts live
    \<and> (\<forall>ip. ip \<noteq> [] \<longrightarrow> int (live_from ip live) \<le> mx)"
  using lim_reach_inv [OF assms(1)] assms(2) by (auto simp: lim_inv_def)

lemma lim_reach_example: "lim_reach 1 (snd (Acquire (Some ''10.0.0.1:5000'') (Some (NewConnLimiter 1)))) [Some ''10.0.0.1:5000'']"
proof -
  have "Acquire (Some ''10.0.0.1:5000'') (Some (NewConnLimiter 1)) =
      (True, snd (Acquire (Some ''10.0.0.1:5000'') (Some (NewConnLimiter 1))))"
    by (simp add: prod_eq_iff Acquire_def NewConnLimiter_def clientIP_def SplitHostPort_def last_colon_def
        count_of_def Let_def)
  with lim_reach.start show ?thesis by (rule lim_reach.accept)
qed

theorem limiter_counts_live_connections_witness:
  "\<exists>l. snd (Acquire (Some ''10.0.0.1:5000'') (Some (NewConnLimiter 1))) = Some l
     \<and> cl_counts l = live_counts [Some ''10.0.0.1:5000''] \<and> (\<forall>ip. ip \<noteq> [] \<longrightarrow> int (live_from ip [Some ''10.0.0.1:5000'']) \<le> 1)"
  using limiter_counts_live_connections [OF lim_reach_example] by simp

text \<open>
  A connection is refused exactly when its address is already at the limit; an address below
  it, a connection without an address and a limiter that is off are always let in.
\<close>

theorem acquire_refuses_iff_full:
  assumes "lim_reach mx lo live"
  shows "\<not> fst (Acquire conn lo) \<longleftrightarrow>
    0 < mx \<and> clientIP conn \<noteq> [] \<and> int (live_from (clientIP conn) live) = mx"
proof -
  obtain l where l: "lo = Some l" "cl_max l = mx"
    "0 < mx \<longrightarrow> cl_counts l = live_counts live \<and> (\<forall>ip. ip \<noteq> [] \<longrightarrow> int (live_from ip live) \<le> mx)"
    using lim_reach_inv [OF assms] by (auto simp: lim_inv_def)
  show ?thesis
  proof (cases "mx \<le> 0 \<or> clientIP conn = []")
    case True
    with l limiter_off(1) [of l conn] show ?thesis by auto
  next
    case False
    with l limiter_on(1) [of l conn live] show ?thesis by (auto intro: antisym)
  qed
qed

theorem acquire_refuses_iff_full_witness:
  "\<not> fst (Acquire (Some ''10.0.0.1:5001'') (snd (Acquire (Some ''10.0.0.1:5000'') (Some (NewConnLimiter 1)))))"
  using acquire_refuses_iff_full [OF lim_reach_example, of "Some ''10.0.0.1:5001''"]
  by (simp add: clientIP_def SplitHostPort_def last_colon_def live_from_def)

end
