(* ===== verification/Blacklist.thy ===== *)
theory Blacklist
  imports Limiter
begin

text \<open>
  The blacklist of probing addresses, \<open>internal/probe/blacklist.go\<close>: a sliding window of probe times
  per address and a table of blocked addresses. Times are nanoseconds and each call reads the clock
  once, as \<open>now\<close>.
\<close>

section \<open>The blacklist\<close>

record Blacklist =
  bl_threshold :: nat
  bl_duration :: int
  bl_window :: int
  bl_counts :: "string \<rightharpoonup> int list"
  bl_blocked :: "string \<rightharpoonup> int"

definition NewBlacklist :: "int \<Rightarrow> int \<Rightarrow> int \<Rightarrow> Blacklist option" where
  "NewBlacklist threshold durationSec windowSec =
     (if threshold \<le> 0 then None
      else Some \<lparr>bl_threshold = nat threshold,
             bl_duration = (if durationSec \<le> 0 then 3600 else durationSec) * 1000000000,
             bl_window = (if windowSec \<le> 0 then 600 else windowSec) * 1000000000,
             bl_counts = Map.empty, bl_blocked = Map.empty\<rparr>)"

definition expired :: "int \<Rightarrow> Blacklist \<Rightarrow> string \<Rightarrow> bool" where
  "expired now b ip = (case bl_blocked b ip of None \<Rightarrow> False | Some until \<Rightarrow> now > until)"

definition purgeExpiredLocked :: "int \<Rightarrow> Blacklist \<Rightarrow> Blacklist" where
  "purgeExpiredLocked now b =
     b\<lparr>bl_blocked := (\<lambda>ip. if expired now b ip then None else bl_blocked b ip),
       bl_counts := (\<lambda>ip. if expired now b ip then None else bl_counts b ip)\<rparr>"

definition IsBlocked :: "int \<Rightarrow> string \<Rightarrow> Blacklist option \<Rightarrow> bool \<times> Blacklist option" where
  "IsBlocked now ip bo =
     (case bo of
        None \<Rightarrow> (False, None)
      | Some b \<Rightarrow>
          if ip = [] then (False, bo)
          else let b = purgeExpiredLocked now b in
            case bl_blocked b ip of
              Some until \<Rightarrow>
                if now < until then (True, Some b)
                else (False, Some (b\<lparr>bl_blocked := (bl_blocked b)(ip := None),
                                    bl_counts := (bl_counts b)(ip := None)\<rparr>))
            | None \<Rightarrow> (False, Some b))"

definition prune :: "int \<Rightarrow> Blacklist \<Rightarrow> string \<Rightarrow> int list" where
  "prune now b ip =
     filter (\<lambda>t. t > now - bl_window b) (case bl_counts b ip of None \<Rightarrow> [] | Some ts \<Rightarrow> ts) @ [now]"

definition RecordProbe :: "int \<Rightarrow> string \<Rightarrow> Blacklist option \<Rightarrow> bool \<times> Blacklist option" where
  "RecordProbe now ip bo =
     (case bo of
        None \<Rightarrow> (False, None)
      | Some b \<Rightarrow>
          if ip = [] then (False, bo)
          else let b = purgeExpiredLocked now b in
            if (case bl_blocked b ip of Some until \<Rightarrow> now < until | None \<Rightarrow> False) then (True, Some b)
            else let pruned = prune now b ip; b = b\<lparr>bl_counts := (bl_counts b)(ip \<mapsto> pruned)\<rparr> in
              if length pruned \<ge> bl_threshold b
              then (True, Some (b\<lparr>bl_blocked := (bl_blocked b)(ip \<mapsto> now + bl_duration b),
                                 bl_counts := (bl_counts b)(ip := None)\<rparr>))
              else (False, Some b))"

definition ClientIP :: "string option \<Rightarrow> string" where
  "ClientIP conn =
     (case conn of
        None \<Rightarrow> []
      | Some addr \<Rightarrow> (case SplitHostPort addr of Some (host, _) \<Rightarrow> host | None \<Rightarrow> addr))"

section \<open>Sequences of calls\<close>

datatype bl_event = IsBlockedAt int string | ProbeAt int string

fun bl_time :: "bl_event \<Rightarrow> int" where
  "bl_time (IsBlockedAt now ip) = now"
| "bl_time (ProbeAt now ip) = now"

fun bl_step :: "bl_event \<Rightarrow> Blacklist option \<Rightarrow> bool \<times> Blacklist option" where
  "bl_step (IsBlockedAt now ip) b = IsBlocked now ip b"
| "bl_step (ProbeAt now ip) b = RecordProbe now ip b"

fun bl_run :: "bl_event list \<Rightarrow> Blacklist option \<Rightarrow> Blacklist option" where
  "bl_run [] b = b"
| "bl_run (ev # evs) b = bl_run evs (snd (bl_step ev b))"

section \<open>Facts\<close>

lemma purge_fields [simp]:
  "bl_threshold (purgeExpiredLocked now b) = bl_threshold b"
  "bl_duration (purgeExpiredLocked now b) = bl_duration b"
  "bl_window (purgeExpiredLocked now b) = bl_window b"
  by (simp_all add: purgeExpiredLocked_def)

lemma purge_blocked:
  "bl_blocked (purgeExpiredLocked now b) ip = Some u \<longleftrightarrow> bl_blocked b ip = Some u \<and> now \<le> u"
  by (auto simp: purgeExpiredLocked_def expired_def)

lemma purge_counts:
  "bl_counts (purgeExpiredLocked now b) ip = Some ts \<Longrightarrow> bl_counts b ip = Some ts"
  by (auto simp: purgeExpiredLocked_def split: if_splits)

lemmas bl_step_defs = IsBlocked_def RecordProbe_def Let_def

text \<open>Within its term a block survives every call.\<close>

lemma bl_step_keeps_block:
  assumes "bl_blocked b ip = Some u" "bl_time ev < u"
  shows "\<exists>b'. snd (bl_step ev (Some b)) = Some b' \<and> bl_blocked b' ip = Some u"
proof -
  have p: "bl_blocked (purgeExpiredLocked (bl_time ev) b) ip = Some u"
    using assms by (simp add: purge_blocked)
  show ?thesis
  proof (cases ev)
    case (IsBlockedAt now ip')
    with p assms show ?thesis
      by (cases "ip' = ip") (auto simp: bl_step_defs split: option.splits)
  next
    case (ProbeAt now ip')
    with p assms show ?thesis
      by (cases "ip' = ip") (auto simp: bl_step_defs split: option.splits)
  qed
qed

lemma bl_run_keeps_block:
  "bl_blocked b ip = Some u \<Longrightarrow> \<forall>ev \<in> set evs. bl_time ev < u \<Longrightarrow>
     \<exists>b'. bl_run evs (Some b) = Some b' \<and> bl_blocked b' ip = Some u"
proof (induction evs arbitrary: b)
  case Nil
  then show ?case by simp
next
  case (Cons ev evs)
  then obtain b1 where "snd (bl_step ev (Some b)) = Some b1" "bl_blocked b1 ip = Some u"
    using bl_step_keeps_block [of b ip u ev] by auto
  with Cons show ?case by auto
qed

definition bl_inv :: "Blacklist \<Rightarrow> bool" where
  "bl_inv b \<longleftrightarrow> 0 < bl_threshold b \<and> (\<forall>ip ts. bl_counts b ip = Some ts \<longrightarrow> length ts < bl_threshold b)
     \<and> bl_counts b [] = None \<and> bl_blocked b [] = None"

lemma bl_step_inv:
  assumes "bl_inv b"
  shows "\<exists>b'. snd (bl_step ev (Some b)) = Some b' \<and> bl_inv b' \<and> bl_threshold b' = bl_threshold b"
proof -
  have p: "bl_inv (purgeExpiredLocked now b)" for now
    using assms by (auto simp: bl_inv_def purgeExpiredLocked_def)
  show ?thesis
  proof (cases ev)
    case (IsBlockedAt now ip)
    with assms p [of now] show ?thesis
      by (cases "ip = []") (auto simp: bl_step_defs bl_inv_def split: option.splits)
  next
    case (ProbeAt now ip)
    with assms p [of now] show ?thesis
      by (cases "ip = []") (auto simp: bl_step_defs bl_inv_def split: option.splits)
  qed
qed

lemma bl_run_inv: "bl_inv b \<Longrightarrow> \<exists>b'. bl_run evs (Some b) = Some b' \<and> bl_inv b' \<and> bl_threshold b' = bl_threshold b"
proof (induction evs arbitrary: b)
  case Nil
  then show ?case by simp
next
  case (Cons ev evs)
  obtain b1 where "snd (bl_step ev (Some b)) = Some b1" "bl_inv b1" "bl_threshold b1 = bl_threshold b"
    using bl_step_inv [OF Cons.prems] by blast
  with Cons.IH [of b1] show ?case by auto
qed

lemma NewBlacklist_inv: "NewBlacklist threshold d w = Some b \<Longrightarrow> bl_inv b"
  by (auto simp: NewBlacklist_def bl_inv_def split: if_splits)

section \<open>Properties\<close>

text \<open>
  C35. A block holds for its whole term: an address that \<open>RecordProbe\<close> has just put on the list is
  reported as blocked, by both calls, at every time before \<open>now + duration\<close>, whatever calls about
  whatever addresses come between.
\<close>

theorem block_holds_for_its_term:
  assumes "RecordProbe now ip (Some b) = (True, Some b1)" "bl_blocked b ip = None"
    and "\<forall>ev \<in> set evs. bl_time ev < now + bl_duration b" "t < now + bl_duration b"
  shows "fst (IsBlocked t ip (bl_run evs (Some b1))) \<and> fst (RecordProbe t ip (bl_run evs (Some b1)))"
proof -
  have ip: "ip \<noteq> []" and u: "bl_blocked b1 ip = Some (now + bl_duration b)"
    using assms(1,2) by (auto simp: bl_step_defs purge_blocked split: if_splits option.splits)
  obtain b2 where b2: "bl_run evs (Some b1) = Some b2" "bl_blocked b2 ip = Some (now + bl_duration b)"
    using bl_run_keeps_block [OF u assms(3)] by blast
  then have "bl_blocked (purgeExpiredLocked t b2) ip = Some (now + bl_duration b)"
    using assms(4) by (simp add: purge_blocked)
  with b2 ip assms(4) show ?thesis
    by (simp add: bl_step_defs)
qed

definition bl_example :: Blacklist where
  "bl_example = \<lparr>bl_threshold = 2, bl_duration = 50, bl_window = 10, bl_counts = [''a'' \<mapsto> [1, 7]],
     bl_blocked = [''b'' \<mapsto> 9]\<rparr>"

theorem block_holds_for_its_term_witness:
  "\<exists>b1. RecordProbe 12 ''a'' (Some bl_example) = (True, Some b1)
     \<and> fst (IsBlocked 61 ''a'' (bl_run [ProbeAt 20 ''b'', IsBlockedAt 55 ''a''] (Some b1)))"
proof -
  let ?b = "bl_example\<lparr>bl_blocked := [''a'' \<mapsto> 62], bl_counts := Map.empty\<rparr>"
  have r: "RecordProbe 12 ''a'' (Some bl_example) = (True, Some ?b)"
    by (auto simp: bl_step_defs prune_def purgeExpiredLocked_def expired_def bl_example_def fun_eq_iff)
  have "fst (IsBlocked 61 ''a'' (bl_run [ProbeAt 20 ''b'', IsBlockedAt 55 ''a''] (Some ?b)))
      \<and> fst (RecordProbe 61 ''a'' (bl_run [ProbeAt 20 ''b'', IsBlockedAt 55 ''a''] (Some ?b)))"
    by (rule block_holds_for_its_term [OF r]) (simp_all add: bl_example_def)
  with r show ?thesis by blast
qed

text \<open>
  A probe blocks exactly when it should: on a live list, \<open>RecordProbe\<close> answers true exactly
  when the address is already under an unexpired block or this probe, together with the earlier
  ones inside the sliding window, reaches the threshold.
\<close>

lemma probe_blocks_iff_threshold:
  assumes "ip \<noteq> []"
  shows "fst (RecordProbe now ip (Some b)) \<longleftrightarrow>
    (\<exists>until. bl_blocked b ip = Some until \<and> now < until) \<or>
    bl_threshold b \<le> Suc (length (filter (\<lambda>t. t > now - bl_window b)
      (if expired now b ip then [] else case bl_counts b ip of None \<Rightarrow> [] | Some ts \<Rightarrow> ts)))"
proof -
  have "length (prune now (purgeExpiredLocked now b) ip) =
    Suc (length (filter (\<lambda>t. t > now - bl_window b)
      (if expired now b ip then [] else case bl_counts b ip of None \<Rightarrow> [] | Some ts \<Rightarrow> ts)))"
    by (simp add: prune_def purgeExpiredLocked_def)
  moreover have "(case bl_blocked (purgeExpiredLocked now b) ip of Some until \<Rightarrow> now < until | None \<Rightarrow> False)
      \<longleftrightarrow> (\<exists>until. bl_blocked b ip = Some until \<and> now < until)"
    by (auto simp: purgeExpiredLocked_def expired_def split: option.splits)
  ultimately show ?thesis
    using assms by (simp add: RecordProbe_def Let_def)
qed

text \<open>
  Memory and pardon: in every reachable state the window of an address holds fewer probes than
  the threshold, and once the term is over \<open>IsBlocked\<close> answers false and has forgotten both the block
  and the probes of the address.
\<close>

theorem window_stays_below_threshold:
  assumes "NewBlacklist threshold d w = Some b0"
  shows "\<exists>b. bl_run evs (Some b0) = Some b
    \<and> (\<forall>ip ts. bl_counts b ip = Some ts \<longrightarrow> int (length ts) < threshold)
    \<and> (\<forall>ip until t. bl_blocked b ip = Some until \<longrightarrow> until \<le> t \<longrightarrow>
        (\<exists>b'. IsBlocked t ip (Some b) = (False, Some b') \<and> bl_blocked b' ip = None \<and> bl_counts b' ip = None))"
proof -
  have th: "int (bl_threshold b0) = threshold"
    using assms by (auto simp: NewBlacklist_def split: if_splits)
  obtain b where b: "bl_run evs (Some b0) = Some b" "bl_inv b" "bl_threshold b = bl_threshold b0"
    using bl_run_inv [OF NewBlacklist_inv [OF assms]] by blast
  have "\<exists>b'. IsBlocked t ip (Some b) = (False, Some b') \<and> bl_blocked b' ip = None \<and> bl_counts b' ip = None"
    if "bl_blocked b ip = Some until" "until \<le> t" for ip until t
    using that b(2) by (cases "ip = []")
      (auto simp: bl_inv_def bl_step_defs purgeExpiredLocked_def expired_def split: option.splits)
  with b th show ?thesis by (auto simp: bl_inv_def)
qed

theorem window_stays_below_threshold_witness:
  "\<exists>b0 b. NewBlacklist 2 50 10 = Some b0 \<and> bl_run [ProbeAt 5 ''a''] (Some b0) = Some b
     \<and> (\<forall>ip ts. bl_counts b ip = Some ts \<longrightarrow> int (length ts) < 2)"
proof -
  have "NewBlacklist 2 50 10 = Some \<lparr>bl_threshold = 2, bl_duration = 50000000000, bl_window = 10000000000,
      bl_counts = Map.empty, bl_blocked = Map.empty\<rparr>"
    by (simp add: NewBlacklist_def)
  from window_stays_below_threshold [OF this, of "[ProbeAt 5 ''a'']"] this show ?thesis by blast
qed

end
