(* ===== verification/Stats.thy ===== *)
theory Stats
  imports GoBase
begin

text \<open>
  Traffic statistics, \<open>internal/stats/tracker.go\<close>. Counters are 64-bit integers that wrap. The map of
  users is an association list with distinct names; \<open>Snapshot\<close> gets the order in which Go iterates
  over it as an argument. Each method of the tracker is one step.
\<close>

section \<open>The tracker\<close>

record UserStats =
  us_Name :: string
  us_ActiveConnections :: "64 word"
  us_TotalConnections :: "64 word"
  us_UploadBytes :: "64 word"
  us_DownloadBytes :: "64 word"

record StatsSnapshot =
  ss_ActiveConnections :: "64 word"
  ss_TotalConnections :: "64 word"
  ss_UploadBytes :: "64 word"
  ss_DownloadBytes :: "64 word"
  ss_Users :: "UserStats list"

record userCounters =
  uc_active :: "64 word"
  uc_total :: "64 word"
  uc_upload :: "64 word"
  uc_download :: "64 word"

type_synonym Tracker = "(string \<times> userCounters) list"

definition zero_counters :: userCounters where
  "zero_counters = \<lparr>uc_active = 0, uc_total = 0, uc_upload = 0, uc_download = 0\<rparr>"

definition New :: Tracker where
  "New = []"

text \<open>\<open>counters\<close>: the counters of a user, created at first use.\<close>

definition counters :: "string \<Rightarrow> Tracker \<Rightarrow> userCounters \<times> Tracker" where
  "counters name t =
     (case map_of t name of
        Some c \<Rightarrow> (c, t)
      | None \<Rightarrow> (zero_counters, t @ [(name, zero_counters)]))"

definition store_counters :: "string \<Rightarrow> userCounters \<Rightarrow> Tracker \<Rightarrow> Tracker" where
  "store_counters name c t = map (\<lambda>(n, d). (n, if n = name then c else d)) t"

definition OnConnect :: "string \<Rightarrow> Tracker \<Rightarrow> Tracker" where
  "OnConnect name t =
     (let (c, t) = counters name t
      in store_counters name (c\<lparr>uc_active := uc_active c + 1, uc_total := uc_total c + 1\<rparr>) t)"

definition OnDisconnect :: "string \<Rightarrow> Tracker \<Rightarrow> Tracker" where
  "OnDisconnect name t =
     (let (c, t) = counters name t in store_counters name (c\<lparr>uc_active := uc_active c - 1\<rparr>) t)"

definition AddTraffic :: "string \<Rightarrow> int \<Rightarrow> int \<Rightarrow> Tracker \<Rightarrow> Tracker" where
  "AddTraffic name upload download t =
     (let (c, t) = counters name t;
          c = (if upload > 0 then c\<lparr>uc_upload := uc_upload c + of_int upload\<rparr> else c);
          c = (if download > 0 then c\<lparr>uc_download := uc_download c + of_int download\<rparr> else c)
      in store_counters name c t)"

definition user_stats :: "string \<Rightarrow> userCounters \<Rightarrow> UserStats" where
  "user_stats name c =
     \<lparr>us_Name = name, us_ActiveConnections = uc_active c, us_TotalConnections = uc_total c,
      us_UploadBytes = uc_upload c, us_DownloadBytes = uc_download c\<rparr>"

fun snapshot_loop :: "string list \<Rightarrow> Tracker \<Rightarrow> StatsSnapshot \<Rightarrow> (unit, StatsSnapshot) res" where
  "snapshot_loop [] t snap = Ok snap"
| "snapshot_loop (name # names) t snap =
     (case map_of t name of
        None \<Rightarrow> Panic
      | Some c \<Rightarrow>
          let us = user_stats name c in
          snapshot_loop names t (snap\<lparr>ss_Users := ss_Users snap @ [us],
            ss_ActiveConnections := ss_ActiveConnections snap + us_ActiveConnections us,
            ss_TotalConnections := ss_TotalConnections snap + us_TotalConnections us,
            ss_UploadBytes := ss_UploadBytes snap + us_UploadBytes us,
            ss_DownloadBytes := ss_DownloadBytes snap + us_DownloadBytes us\<rparr>))"

definition Snapshot_stats :: "string list \<Rightarrow> Tracker \<Rightarrow> (unit, StatsSnapshot) res" where
  "Snapshot_stats order t = snapshot_loop order t
     \<lparr>ss_ActiveConnections = 0, ss_TotalConnections = 0, ss_UploadBytes = 0, ss_DownloadBytes = 0,
      ss_Users = []\<rparr>"

definition User_stats :: "string \<Rightarrow> Tracker \<Rightarrow> UserStats option" where
  "User_stats name t = map_option (user_stats name) (map_of t name)"

section \<open>Traces of calls\<close>

datatype stats_event = Connected string | Disconnected string | Traffic string int int

fun stats_step :: "stats_event \<Rightarrow> Tracker \<Rightarrow> Tracker" where
  "stats_step (Connected n) t = OnConnect n t"
| "stats_step (Disconnected n) t = OnDisconnect n t"
| "stats_step (Traffic n up down) t = AddTraffic n up down t"

fun ev_name :: "stats_event \<Rightarrow> string" where
  "ev_name (Connected n) = n"
| "ev_name (Disconnected n) = n"
| "ev_name (Traffic n up down) = n"

text \<open>Specification: what one event adds to each of the four counters of its user.\<close>

fun ev_delta :: "stats_event \<Rightarrow> int \<times> int \<times> int \<times> int" where
  "ev_delta (Connected n) = (1, 1, 0, 0)"
| "ev_delta (Disconnected n) = (- 1, 0, 0, 0)"
| "ev_delta (Traffic n up down) = (0, 0, max 0 up, max 0 down)"

definition add_delta :: "int \<times> int \<times> int \<times> int \<Rightarrow> userCounters \<Rightarrow> userCounters" where
  "add_delta d c = (case d of (a, n, u, v) \<Rightarrow>
     \<lparr>uc_active = uc_active c + of_int a, uc_total = uc_total c + of_int n,
      uc_upload = uc_upload c + of_int u, uc_download = uc_download c + of_int v\<rparr>)"

definition counters_of :: "string \<Rightarrow> Tracker \<Rightarrow> userCounters" where
  "counters_of name t = (case map_of t name of None \<Rightarrow> zero_counters | Some c \<Rightarrow> c)"

definition total_of :: "(int \<times> int \<times> int \<times> int \<Rightarrow> int) \<Rightarrow> stats_event list \<Rightarrow> 64 word" where
  "total_of f evs = of_int (sum_list (map (f \<circ> ev_delta) evs))"

lemma map_of_store [simp]:
  "map_of (store_counters name c t) n =
     (if n = name then map_option (\<lambda>_. c) (map_of t name) else map_of t n)"
  by (induction t) (auto simp: store_counters_def)

lemma fst_store [simp]: "map fst (store_counters name c t) = map fst t"
  by (auto simp: store_counters_def)

lemma map_of_counters:
  "counters name t = (c, t') \<Longrightarrow> c = counters_of name t \<and> map_of t' name = Some c
     \<and> (\<forall>n. n \<noteq> name \<longrightarrow> map_of t' n = map_of t n)"
  by (auto simp: counters_def counters_of_def map_add_def split: option.splits)

text \<open>One call adds the event's amounts to its user and touches no other user.\<close>

lemma stats_step_counts:
  "map_of (stats_step ev t) n =
     (if n = ev_name ev then Some (add_delta (ev_delta ev) (counters_of n t)) else map_of t n)"
  using map_of_counters [of "ev_name ev" t]
  by (cases ev) (auto simp: OnConnect_def OnDisconnect_def AddTraffic_def Let_def add_delta_def max_def
      split: prod.splits)

lemma stats_step_store:
  "\<exists>c. stats_step ev t = store_counters (ev_name ev) c (snd (counters (ev_name ev) t))"
  by (cases ev) (auto simp: OnConnect_def OnDisconnect_def AddTraffic_def Let_def split: prod.splits)

lemma stats_step_distinct:
  assumes "distinct (map fst t)"
  shows "distinct (map fst (stats_step ev t)) \<and> set (map fst (stats_step ev t)) = insert (ev_name ev) (set (map fst t))"
proof -
  have "distinct (map fst (snd (counters n t))) \<and> set (map fst (snd (counters n t))) = insert n (set (map fst t))" for n
    using assms by (auto simp: counters_def map_of_eq_None_iff split: option.splits
        dest: map_of_SomeD intro: rev_image_eqI)
  moreover obtain c where "stats_step ev t = store_counters (ev_name ev) c (snd (counters (ev_name ev) t))"
    using stats_step_store by blast
  ultimately show ?thesis by (simp only: fst_store)
qed

definition events_of :: "string \<Rightarrow> stats_event list \<Rightarrow> stats_event list" where
  "events_of n evs = filter (\<lambda>e. ev_name e = n) evs"

definition trace_counters :: "stats_event list \<Rightarrow> userCounters" where
  "trace_counters evs =
     \<lparr>uc_active = total_of (\<lambda>(a, n, u, v). a) evs, uc_total = total_of (\<lambda>(a, n, u, v). n) evs,
      uc_upload = total_of (\<lambda>(a, n, u, v). u) evs, uc_download = total_of (\<lambda>(a, n, u, v). v) evs\<rparr>"

lemma trace_counters_Nil: "trace_counters [] = zero_counters"
  by (simp add: trace_counters_def total_of_def zero_counters_def)

lemma trace_counters_snoc: "trace_counters (evs @ [e]) = add_delta (ev_delta e) (trace_counters evs)"
  by (simp add: trace_counters_def total_of_def add_delta_def split: prod.splits)

lemma trace_exact:
  fixes evs :: "stats_event list"
  defines "t \<equiv> fold stats_step evs New"
  shows "distinct (map fst t) \<and> set (map fst t) = ev_name ` set evs
    \<and> (\<forall>n. map_of t n = (if n \<in> ev_name ` set evs then Some (trace_counters (events_of n evs)) else None))"
  unfolding t_def
proof (induction evs rule: rev_induct)
  case Nil
  then show ?case by (simp add: New_def)
next
  case (snoc e evs)
  let ?t = "fold stats_step evs New"
  have "counters_of n ?t = trace_counters (events_of n evs)" for n
  proof (cases "n \<in> ev_name ` set evs")
    case False
    then have "events_of n evs = []"
      by (auto simp: events_of_def filter_empty_conv)
    with snoc False show ?thesis by (simp add: counters_of_def trace_counters_Nil)
  qed (use snoc in \<open>simp add: counters_of_def\<close>)
  then have "map_of (stats_step e ?t) n =
      (if n \<in> ev_name ` set (evs @ [e]) then Some (trace_counters (events_of n (evs @ [e]))) else None)" for n
    using snoc by (auto simp: stats_step_counts events_of_def trace_counters_snoc)
  with snoc stats_step_distinct [of ?t e] show ?case by auto
qed

lemma sum_over_names:
  assumes "distinct names" "ev_name ` set evs \<subseteq> set names"
  shows "sum_list (map (\<lambda>n. total_of f (events_of n evs)) names) = total_of f evs"
  using assms(2)
proof (induction evs)
  case Nil
  then show ?case by (simp add: events_of_def total_of_def)
next
  case (Cons e evs)
  have "total_of f (events_of n (e # evs)) = (if n = ev_name e then of_int (f (ev_delta e)) else 0)
      + total_of f (events_of n evs)" for n
    by (simp add: events_of_def total_of_def)
  then have "sum_list (map (\<lambda>n. total_of f (events_of n (e # evs))) names) =
      sum_list (map (\<lambda>n. if n = ev_name e then of_int (f (ev_delta e)) else 0) names)
      + sum_list (map (\<lambda>n. total_of f (events_of n evs)) names)"
    by (simp add: sum_list_addf)
  also have "sum_list (map (\<lambda>n. if n = ev_name e then of_int (f (ev_delta e)) else 0) names) = (of_int (f (ev_delta e)) :: 64 word)"
    using assms(1) Cons.prems by (simp add: sum_list_distinct_conv_sum_set sum.delta)
  finally show ?case
    using Cons by (simp add: total_of_def)
qed

lemma snapshot_loop_sums:
  "set names \<subseteq> dom (map_of t) \<Longrightarrow> snapshot_loop names t snap = Ok
    \<lparr>ss_ActiveConnections = ss_ActiveConnections snap + sum_list (map (\<lambda>n. uc_active (counters_of n t)) names),
     ss_TotalConnections = ss_TotalConnections snap + sum_list (map (\<lambda>n. uc_total (counters_of n t)) names),
     ss_UploadBytes = ss_UploadBytes snap + sum_list (map (\<lambda>n. uc_upload (counters_of n t)) names),
     ss_DownloadBytes = ss_DownloadBytes snap + sum_list (map (\<lambda>n. uc_download (counters_of n t)) names),
     ss_Users = ss_Users snap @ map (\<lambda>n. user_stats n (counters_of n t)) names\<rparr>"
proof (induction names arbitrary: snap)
  case Nil
  then show ?case by simp
next
  case (Cons n names)
  then have "map_of t n = Some (counters_of n t)"
    by (auto simp: counters_of_def split: option.splits)
  with Cons show ?case
    by (simp add: Let_def user_stats_def add.assoc)
qed

section \<open>Properties\<close>

text \<open>
  The statistics are exact: after any interleaving of connects, disconnects and traffic, a
  user that occurred has as counters the number of its connects less its disconnects, the number of
  its connects, and the sums of its positive upload and download amounts, modulo the counter width;
  a user that did not occur has none.
\<close>

lemma user_statistics_exact:
  "User_stats n (fold stats_step evs New) =
     (if n \<in> ev_name ` set evs then Some (user_stats n (trace_counters (events_of n evs))) else None)"
  using trace_exact [of evs] by (simp add: User_stats_def)

text \<open>
  The snapshot adds up: in whatever order the map is iterated, the snapshot lists each
  user once and its totals are those of the whole trace.
\<close>

theorem snapshot_totals_exact:
  assumes "mset order = mset (map fst (fold stats_step evs New))"
  shows "\<exists>s. Snapshot_stats order (fold stats_step evs New) = Ok s
    \<and> map us_Name (ss_Users s) = order
    \<and> ss_ActiveConnections s = total_of (\<lambda>(a, n, u, v). a) evs
    \<and> ss_TotalConnections s = total_of (\<lambda>(a, n, u, v). n) evs
    \<and> ss_UploadBytes s = total_of (\<lambda>(a, n, u, v). u) evs
    \<and> ss_DownloadBytes s = total_of (\<lambda>(a, n, u, v). v) evs"
proof -
  let ?t = "fold stats_step evs New"
  have d: "distinct order" "set order = ev_name ` set evs"
    using trace_exact [of evs] mset_eq_setD [OF assms] mset_eq_imp_distinct_iff [OF assms] by auto
  have c: "counters_of n ?t = trace_counters (events_of n evs)" if "n \<in> set order" for n
    using trace_exact [of evs] that d(2) by (simp add: counters_of_def)
  have "set order \<subseteq> dom (map_of ?t)"
    using trace_exact [of evs] d(2) by (auto simp: domIff)
  note snapshot_loop_sums [OF this, of "\<lparr>ss_ActiveConnections = 0, ss_TotalConnections = 0, ss_UploadBytes = 0,
      ss_DownloadBytes = 0, ss_Users = []\<rparr>"]
  moreover have "sum_list (map (\<lambda>n. g (counters_of n ?t)) order) = total_of f evs"
    if "\<And>es. g (trace_counters es) = total_of f es" for f g
  proof -
    have "map (\<lambda>n. g (counters_of n ?t)) order = map (\<lambda>n. total_of f (events_of n evs)) order"
      using c that by simp
    moreover have "sum_list (map (\<lambda>n. total_of f (events_of n evs)) order) = total_of f evs"
      using d by (intro sum_over_names) auto
    ultimately show ?thesis by (simp only:)
  qed
  ultimately show ?thesis
    unfolding Snapshot_stats_def by (auto simp: trace_counters_def user_stats_def comp_def)
qed

theorem snapshot_totals_exact_witness:
  "\<exists>s. Snapshot_stats [''b'', ''a''] (fold stats_step [Connected ''a'', Traffic ''b'' 5 (- 1), Disconnected ''a''] New) = Ok s
     \<and> ss_TotalConnections s = 1 \<and> ss_ActiveConnections s = 0 \<and> ss_UploadBytes s = 5"
  using snapshot_totals_exact [of "[''b'', ''a'']" "[Connected ''a'', Traffic ''b'' 5 (- 1), Disconnected ''a'']"]
  by (fastforce simp: New_def OnConnect_def OnDisconnect_def AddTraffic_def counters_def store_counters_def
      total_of_def zero_counters_def)

end
