(* ===== verification/Obfuscated2.thy ===== *)
theory Obfuscated2
  imports TlsRecord
begin

text \<open>
  The obfuscated2 transport, \<open>internal/obfuscated2\<close>: the 64-byte header that starts a connection, its
  parser on the proxy's side, its generator on the client's and the proxy's outgoing side, and the
  connection that encrypts with AES-CTR in both directions. The AES-CTR key stream is the argument
  \<open>ks\<close> (key, initial vector, position) and SHA-256 the argument \<open>sha\<close>. Keys are \<open>[32]byte\<close> arrays and
  initial vectors 16-byte slices in the source, so \<open>aes.NewCipher\<close> and \<open>cipher.NewCTR\<close> do not fail.
\<close>

section \<open>Key streams\<close>

type_synonym keystream = "bytes \<Rightarrow> bytes \<Rightarrow> nat \<Rightarrow> byte"

record ctr =
  ctr_key :: bytes
  ctr_iv :: bytes
  ctr_pos :: nat

definition newCTR :: "bytes \<Rightarrow> bytes \<Rightarrow> ctr" where
  "newCTR key iv = \<lparr>ctr_key = key, ctr_iv = iv, ctr_pos = 0\<rparr>"

definition key_bytes :: "keystream \<Rightarrow> ctr \<Rightarrow> nat \<Rightarrow> bytes" where
  "key_bytes ks st n = map (\<lambda>i. ks (ctr_key st) (ctr_iv st) (ctr_pos st + i)) [0..<n]"

definition XORKeyStream :: "keystream \<Rightarrow> ctr \<Rightarrow> bytes \<Rightarrow> bytes \<times> ctr" where
  "XORKeyStream ks st src =
     (xor_bytes src (key_bytes ks st (length src)), st\<lparr>ctr_pos := ctr_pos st + length src\<rparr>)"

definition deriveKey :: "(bytes \<Rightarrow> bytes) \<Rightarrow> bytes \<Rightarrow> bytes \<Rightarrow> bytes" where
  "deriveKey sha headerKey secret = sha (headerKey @ secret)"

section \<open>The header\<close>

definition connTypePaddedIntermediate :: nat where
  "connTypePaddedIntermediate = 0xdddddddd"

definition hdr_key :: "bytes \<Rightarrow> bytes" where
  "hdr_key header = take 32 (drop 8 header)"

definition hdr_iv :: "bytes \<Rightarrow> bytes" where
  "hdr_iv header = take 16 (drop 40 header)"

datatype obf_error = ObfIO io_error | BadConnType nat | BadHeader | ObfRandFailed

record obf_conn =
  oc_enc :: ctr
  oc_dec :: ctr

text \<open>The key of one direction; \<open>secret\<close> is \<open>None\<close> when the source has nil.\<close>

definition direction_key :: "(bytes \<Rightarrow> bytes) \<Rightarrow> bytes \<Rightarrow> bytes option \<Rightarrow> bytes" where
  "direction_key sha header secret =
     (case secret of Some s \<Rightarrow> deriveKey sha (hdr_key header) s | None \<Rightarrow> hdr_key header)"

definition accept_header ::
  "keystream \<Rightarrow> (bytes \<Rightarrow> bytes) \<Rightarrow> bytes \<Rightarrow> bytes option \<Rightarrow> (obf_error, obf_conn \<times> int) res" where
  "accept_header ks sha header secret =
     (let reversed = rev header;
          dec = newCTR (direction_key sha header secret) (hdr_iv header);
          enc = newCTR (direction_key sha reversed secret) (hdr_iv reversed);
          (decrypted, dec') = XORKeyStream ks dec header;
          connType = le_val (take 4 (drop 56 decrypted))
      in if connType \<noteq> connTypePaddedIntermediate then Err (BadConnType connType)
         else Ok (\<lparr>oc_enc = enc, oc_dec = dec'\<rparr>, int16_of (le_val (take 2 (drop 60 decrypted)))))"

text \<open>\<open>Handshake\<close> over any reader; \<open>None\<close> when the reader never delivers.\<close>

definition Handshake ::
  "keystream \<Rightarrow> (bytes \<Rightarrow> bytes) \<Rightarrow> (nat \<Rightarrow> 's \<Rightarrow> (io_error + bytes) \<times> 's) \<Rightarrow> 's \<Rightarrow> bytes option
     \<Rightarrow> ((obf_error, obf_conn \<times> int) res \<times> 's) option" where
  "Handshake ks sha rd s secret =
     (case io_read_full rd 64 [] s of
        None \<Rightarrow> None
      | Some (Inl e, s') \<Rightarrow> Some (Err (ObfIO e), s')
      | Some (Inr header, s') \<Rightarrow> Some (accept_header ks sha header secret, s'))"

definition TryParseHeader :: "keystream \<Rightarrow> (bytes \<Rightarrow> bytes) \<Rightarrow> bytes \<Rightarrow> bytes \<Rightarrow> int option" where
  "TryParseHeader ks sha header secret =
     (if length header \<noteq> 64 \<or> length secret = 0 then None
      else let dec = newCTR (deriveKey sha (hdr_key header) secret) (hdr_iv header);
               (decrypted, _) = XORKeyStream ks dec header;
               connType = le_val (take 4 (drop 56 decrypted))
           in if connType \<noteq> connTypePaddedIntermediate then None
              else Some (int16_of (le_val (take 2 (drop 60 decrypted)))))"

definition ConnFromHeader ::
  "keystream \<Rightarrow> (bytes \<Rightarrow> bytes) \<Rightarrow> bytes \<Rightarrow> bytes \<Rightarrow> (obf_error, obf_conn \<times> int) res" where
  "ConnFromHeader ks sha header secret =
     (case TryParseHeader ks sha header secret of
        None \<Rightarrow> Err BadHeader
      | Some dcID \<Rightarrow>
          let reversed = rev header;
              enc = newCTR (deriveKey sha (hdr_key reversed) secret) (hdr_iv reversed);
              dec = newCTR (deriveKey sha (hdr_key header) secret) (hdr_iv header)
          in Ok (\<lparr>oc_enc = enc, oc_dec = dec\<rparr>, dcID))"

section \<open>The generator\<close>

text \<open>Random blocks that would look like another protocol are drawn again.\<close>

definition header_reserved :: "bytes \<Rightarrow> bool" where
  "header_reserved h \<longleftrightarrow> h ! 0 \<in> {0xef, 0x48, 0x50, 0x47, 0x16, 0x14}
     \<or> (h ! 4 = 0 \<and> h ! 5 = 0 \<and> h ! 6 = 0 \<and> h ! 7 = 0)"

text \<open>The random source delivers 64-byte blocks; an exhausted list stands for its failure.\<close>

fun draw_header :: "bytes list \<Rightarrow> bytes option" where
  "draw_header [] = None"
| "draw_header (h # hs) = (if header_reserved h then draw_header hs else Some h)"

definition plain_header :: "bytes \<Rightarrow> int \<Rightarrow> bytes" where
  "plain_header h dcID =
     take 56 h @ put_le 4 connTypePaddedIntermediate @ put_le 2 (uint16_of_int dcID) @ drop 62 h"

definition outgoingHeader ::
  "keystream \<Rightarrow> (bytes \<Rightarrow> bytes) \<Rightarrow> bytes list \<Rightarrow> int \<Rightarrow> bytes
     \<Rightarrow> (obf_error, bytes \<times> ctr \<times> ctr) res" where
  "outgoingHeader ks sha ent dcID secret =
     (case draw_header ent of
        None \<Rightarrow> Err ObfRandFailed
      | Some h \<Rightarrow>
          let header = plain_header h dcID;
              reversed = rev header;
              encKey = (if length secret > 0 then deriveKey sha (hdr_key header) secret else hdr_key header);
              decKey = (if length secret > 0 then deriveKey sha (hdr_key reversed) secret else hdr_key reversed);
              enc = newCTR encKey (hdr_iv header);
              dec = newCTR decKey (hdr_iv reversed);
              (encrypted, enc') = XORKeyStream ks enc header
          in Ok (take 56 header @ take 8 (drop 56 encrypted), enc', dec))"

definition OutgoingHeader where
  "OutgoingHeader ks sha ent dcID = outgoingHeader ks sha ent dcID []"

definition OutgoingHeaderWithSecret where
  "OutgoingHeaderWithSecret ks sha ent dcID secret = outgoingHeader ks sha ent dcID secret"

definition ClientHeader :: "keystream \<Rightarrow> (bytes \<Rightarrow> bytes) \<Rightarrow> bytes list \<Rightarrow> int \<Rightarrow> (obf_error, bytes) res" where
  "ClientHeader ks sha ent dcID =
     bind_res (OutgoingHeader ks sha ent dcID) (\<lambda>(header, _, _). Ok header)"

section \<open>The connection\<close>

text \<open>\<open>Conn\<close> and \<open>OutgoingConn\<close> over the layer below with state \<open>'s\<close>.\<close>

definition obf_read ::
  "keystream \<Rightarrow> (nat \<Rightarrow> 's \<Rightarrow> (io_error + bytes) \<times> 's) \<Rightarrow> nat \<Rightarrow> obf_conn \<times> 's
     \<Rightarrow> (io_error + bytes) \<times> obf_conn \<times> 's" where
  "obf_read ks rd n cs =
     (case cs of (c, s) \<Rightarrow>
        (case rd n s of
           (Inl e, s') \<Rightarrow> (Inl e, c, s')
         | (Inr xs, s') \<Rightarrow>
             (case XORKeyStream ks (oc_dec c) xs of (ys, dec') \<Rightarrow> (Inr ys, c\<lparr>oc_dec := dec'\<rparr>, s'))))"

definition obf_write ::
  "keystream \<Rightarrow> (bytes \<Rightarrow> 's \<Rightarrow> 'r \<times> 's) \<Rightarrow> bytes \<Rightarrow> obf_conn \<times> 's \<Rightarrow> 'r \<times> obf_conn \<times> 's" where
  "obf_write ks wr b cs =
     (case cs of (c, s) \<Rightarrow>
        (case XORKeyStream ks (oc_enc c) b of (buf, enc') \<Rightarrow>
          (case wr buf s of (r, s') \<Rightarrow> (r, c\<lparr>oc_enc := enc'\<rparr>, s'))))"

section \<open>Facts\<close>

lemma length_key_bytes [simp]: "length (key_bytes ks st n) = n"
  by (simp add: key_bytes_def)

lemma key_bytes_add:
  "key_bytes ks st (m + n) = key_bytes ks st m @ key_bytes ks (st\<lparr>ctr_pos := ctr_pos st + m\<rparr>) n"
  by (rule nth_equalityI) (auto simp: key_bytes_def nth_append)

lemma take_key_bytes: "m \<le> n \<Longrightarrow> take m (key_bytes ks st n) = key_bytes ks st m"
  by (simp add: key_bytes_def take_map take_upt)

lemma XORKeyStream_append:
  "XORKeyStream ks st (xs @ ys) =
     (let (us, st1) = XORKeyStream ks st xs; (vs, st2) = XORKeyStream ks st1 ys in (us @ vs, st2))"
  by (simp add: XORKeyStream_def Let_def key_bytes_add xor_bytes_append add.assoc)

lemma XORKeyStream_length: "length (fst (XORKeyStream ks st xs)) = length xs"
  by (simp add: XORKeyStream_def)

text \<open>Decrypting with the same key, vector and position undoes an encryption.\<close>

lemma XORKeyStream_inverse:
  "XORKeyStream ks st (fst (XORKeyStream ks st xs)) = (xs, snd (XORKeyStream ks st xs))"
  by (simp add: XORKeyStream_def xor_bytes_cancel_right)

text \<open>A CTR layer on a byte reader is a byte reader that delivers the decrypted bytes.\<close>

context byte_reader
begin

lemma ctr_layer:
  "byte_reader (obf_read ks rd) (\<lambda>(c, s). fst (XORKeyStream ks (oc_dec c) (pending s))) (\<lambda>(c, s). wait s)"
proof unfold_locales
  fix n xs and cs :: "obf_conn \<times> 's" and cs'
  assume r: "obf_read ks rd n cs = (Inr xs, cs')"
  obtain c s where cs: "cs = (c, s)" by force
  then obtain us s' where u: "rd n s = (Inr us, s')" "XORKeyStream ks (oc_dec c) us = (xs, oc_dec (fst cs'))" "snd cs' = s'"
    using r by (auto simp: obf_read_def split: prod.splits sum.splits)
  have "us @ pending s' = pending s" "length us \<le> n"
    using rd_prefix [OF u(1)] by auto
  then have "fst (XORKeyStream ks (oc_dec c) (pending s)) = xs @ fst (XORKeyStream ks (oc_dec (fst cs')) (pending s'))"
    using XORKeyStream_append [of ks "oc_dec c" us "pending s'"] u(2) by (simp split: prod.splits)
  moreover have "length xs = length us"
    using u(2) XORKeyStream_length [of ks "oc_dec c" us] by simp
  ultimately show "xs @ (case cs' of (c, s) \<Rightarrow> fst (XORKeyStream ks (oc_dec c) (pending s))) =
      (case cs of (c, s) \<Rightarrow> fst (XORKeyStream ks (oc_dec c) (pending s))) \<and> length xs \<le> n"
    using cs u(3) \<open>length us \<le> n\<close> by (cases cs') simp
next
  fix n :: nat and cs :: "obf_conn \<times> 's"
  assume p: "(case cs of (c, s) \<Rightarrow> fst (XORKeyStream ks (oc_dec c) (pending s))) \<noteq> []" and n: "0 < n"
  obtain c s where cs: "cs = (c, s)" by force
  have "pending s \<noteq> []"
    using p cs XORKeyStream_length [of ks "oc_dec c" "pending s"] by auto
  then obtain us s' where u: "rd n s = (Inr us, s')" "us \<noteq> [] \<or> wait s' < wait s"
    using rd_progress n by blast
  have "fst (XORKeyStream ks (oc_dec c) us) \<noteq> [] \<or> us = []"
    using XORKeyStream_length [of ks "oc_dec c" us] by auto
  with u cs show "\<exists>xs cs'. obf_read ks rd n cs = (Inr xs, cs')
      \<and> (xs \<noteq> [] \<or> (case cs' of (c, s) \<Rightarrow> wait s) < (case cs of (c, s) \<Rightarrow> wait s))"
    by (auto simp: obf_read_def split: prod.splits)
qed

end

interpretation obf_tls: byte_reader "obf_read ks rec_read"
  "\<lambda>(c, s). fst (XORKeyStream ks (oc_dec c) (readBuf s @ payloads (st_in (rc_in s))))"
  "\<lambda>(c, s). length (st_in (rc_in s))" for ks
  by (rule record_reader.ctr_layer)

interpretation obf_raw: byte_reader "obf_read ks (conn_read sched)"
  "\<lambda>(c, s). fst (XORKeyStream ks (oc_dec c) (st_in s))" "\<lambda>(c, s). length (st_in s)" for ks sched
  by (rule raw.ctr_layer)

subsection \<open>Headers\<close>

text \<open>The key and vector of both directions lie in the first 56 bytes, which stay in clear.\<close>

lemma rev_window:
  assumes "length h = 64" "8 \<le> i" "i + n \<le> 64"
  shows "take n (drop i (rev h)) = rev (take n (drop (64 - i - n) h))"
  using assms by (simp add: drop_rev take_rev drop_take)

lemma hdr_window_eq:
  assumes "length h = 64" "length h' = 64" "take 56 h = take 56 h'"
  shows "hdr_key h = hdr_key h'" "hdr_iv h = hdr_iv h'"
    "hdr_key (rev h) = hdr_key (rev h')" "hdr_iv (rev h) = hdr_iv (rev h')"
proof -
  have w: "take n (drop i h) = take n (drop i h')" if "i + n \<le> 56" for i n
  proof -
    have "take n (drop i h) = take n (drop i (take 56 h))" "take n (drop i h') = take n (drop i (take 56 h'))"
      using that by (simp_all add: drop_take min_def)
    with assms(3) show ?thesis by simp
  qed
  show "hdr_key h = hdr_key h'" "hdr_iv h = hdr_iv h'"
    by (simp_all add: hdr_key_def hdr_iv_def w)
  show "hdr_key (rev h) = hdr_key (rev h')" "hdr_iv (rev h) = hdr_iv (rev h')"
    using assms(1,2) by (simp_all add: hdr_key_def hdr_iv_def rev_window w)
qed

definition secret_opt :: "bytes \<Rightarrow> bytes option" where
  "secret_opt secret = (if length secret > 0 then Some secret else None)"

lemma direction_key_opt:
  "direction_key sha h (secret_opt secret) =
     (if length secret > 0 then deriveKey sha (hdr_key h) secret else hdr_key h)"
  by (simp add: direction_key_def secret_opt_def)

lemma draw_header_Some:
  "draw_header ent = Some h \<Longrightarrow> h \<in> set ent \<and> \<not> header_reserved h"
  by (induction ent) (auto split: if_splits)

lemma draw_header_None: "draw_header ent = None \<longleftrightarrow> (\<forall>h \<in> set ent. header_reserved h)"
  by (induction ent) auto

text \<open>The shape of a generated header: the clear part, the encrypted type and data centre.\<close>

lemma outgoingHeader_shape:
  assumes "outgoingHeader ks sha ent dcID secret = Ok (h, enc, dec)" "\<forall>b \<in> set ent. length b = 64"
  obtains plain where "length plain = 64" "length h = 64" "take 56 h = take 56 plain" "\<not> header_reserved h"
    "drop 56 h = drop 56 (fst (XORKeyStream ks
       (newCTR (direction_key sha h (secret_opt secret)) (hdr_iv h)) plain))"
    "take 6 (drop 56 plain) = put_le 4 connTypePaddedIntermediate @ put_le 2 (uint16_of_int dcID)"
    "enc = (newCTR (direction_key sha h (secret_opt secret)) (hdr_iv h))\<lparr>ctr_pos := 64\<rparr>"
    "dec = newCTR (direction_key sha (rev h) (secret_opt secret)) (hdr_iv (rev h))"
proof -
  obtain b where b: "draw_header ent = Some b"
    using assms(1) by (auto simp: outgoingHeader_def split: option.splits)
  have lb: "length b = 64" "\<not> header_reserved b"
    using draw_header_Some [OF b] assms(2) by auto
  define plain where "plain = plain_header b dcID"
  let ?key = "\<lambda>h. direction_key sha h (secret_opt secret)"
  let ?st = "newCTR (?key plain) (hdr_iv plain)"
  have lp: "length plain = 64" by (simp add: plain_def plain_header_def lb)
  have o: "h = take 56 plain @ take 8 (drop 56 (fst (XORKeyStream ks ?st plain)))"
    "enc = snd (XORKeyStream ks ?st plain)" "dec = newCTR (?key (rev plain)) (hdr_iv (rev plain))"
    using assms(1) b
    by (auto simp: outgoingHeader_def Let_def direction_key_opt plain_def split: prod.splits)
  have lx: "length (fst (XORKeyStream ks ?st plain)) = 64"
    using lp by (simp add: XORKeyStream_length)
  then have d: "drop 56 h = drop 56 (fst (XORKeyStream ks ?st plain))"
    using o(1) lp by simp
  have lh: "length h = 64" "take 56 h = take 56 plain"
    using o(1) lp lx by simp_all
  note w = hdr_window_eq [OF lh(1) lp lh(2)]
  have kk: "?key h = ?key plain" "?key (rev h) = ?key (rev plain)"
    using w by (simp_all add: direction_key_opt)
  have "h ! i = b ! i" if "i < 56" for i
    using lh lb that by (simp add: o(1) plain_def plain_header_def nth_append)
  then have res: "\<not> header_reserved h"
    using lb(2) by (simp add: header_reserved_def)
  have t6: "take 6 (drop 56 plain) = put_le 4 connTypePaddedIntermediate @ put_le 2 (uint16_of_int dcID)"
    by (simp add: plain_def plain_header_def lb)
  have "enc = (newCTR (?key h) (hdr_iv h))\<lparr>ctr_pos := 64\<rparr>"
    using o(2) kk w lp by (simp add: XORKeyStream_def newCTR_def)
  then show thesis
    using that [OF lp lh(1,2) res _ t6] d o(3) kk w by simp
qed

lemma XORKeyStream_drop:
  "drop n (fst (XORKeyStream ks st xs)) = xor_bytes (drop n xs) (drop n (key_bytes ks st (length xs)))"
  by (simp add: XORKeyStream_def drop_xor_bytes)

text \<open>The receiver recovers the encrypted part of the header.\<close>

lemma header_decrypts:
  assumes "length plain = 64" "length h = 64" "drop 56 h = drop 56 (fst (XORKeyStream ks st plain))"
  shows "drop 56 (fst (XORKeyStream ks st h)) = drop 56 plain"
  using assms by (simp add: XORKeyStream_drop xor_bytes_cancel_right)

lemma header_fields:
  assumes "take 6 d = put_le 4 connTypePaddedIntermediate @ put_le 2 (uint16_of_int dcID)"
    and "- 32768 \<le> dcID" "dcID < 32768"
  shows "le_val (take 4 d) = connTypePaddedIntermediate" "int16_of (le_val (take 2 (drop 4 d))) = dcID"
proof -
  have "take 4 d = take 4 (take 6 d)" "take 2 (drop 4 d) = drop 4 (take 6 d)"
    by (simp_all add: drop_take)
  with assms show "le_val (take 4 d) = connTypePaddedIntermediate" "int16_of (le_val (take 2 (drop 4 d))) = dcID"
    by (simp_all add: codec_simps connTypePaddedIntermediate_def)
qed

lemma header_accepted:
  assumes "outgoingHeader ks sha ent dcID secret = Ok (h, enc, dec)" "\<forall>b \<in> set ent. length b = 64"
    and "- 32768 \<le> dcID" "dcID < 32768"
  shows "accept_header ks sha h (secret_opt secret) = Ok (\<lparr>oc_enc = dec, oc_dec = enc\<rparr>, dcID)"
    "secret \<noteq> [] \<Longrightarrow> TryParseHeader ks sha h secret = Some dcID" "length h = 64"
proof (atomize (full), rule outgoingHeader_shape [OF assms(1,2)])
  fix plain
  let ?st = "newCTR (direction_key sha h (secret_opt secret)) (hdr_iv h)"
  assume p: "length plain = 64" "length h = 64"
    "drop 56 h = drop 56 (fst (XORKeyStream ks ?st plain))"
    "take 6 (drop 56 plain) = put_le 4 connTypePaddedIntermediate @ put_le 2 (uint16_of_int dcID)"
    "enc = ?st\<lparr>ctr_pos := 64\<rparr>"
    "dec = newCTR (direction_key sha (rev h) (secret_opt secret)) (hdr_iv (rev h))"
  have d: "drop 56 (fst (XORKeyStream ks ?st h)) = drop 56 plain"
    by (rule header_decrypts [OF p(1-3)])
  have d60: "drop 60 (fst (XORKeyStream ks ?st h)) = drop 60 plain"
    using arg_cong [OF d, of "drop 4"] by simp
  have f: "le_val (take 4 (drop 56 (fst (XORKeyStream ks ?st h)))) = connTypePaddedIntermediate"
    "int16_of (le_val (take 2 (drop 60 (fst (XORKeyStream ks ?st h))))) = dcID"
    using header_fields [OF p(4) assms(3,4)] by (simp_all add: d d60)
  have "snd (XORKeyStream ks ?st h) = enc"
    using p(2,5) by (simp add: XORKeyStream_def newCTR_def)
  with f p(2,6) have acc: "accept_header ks sha h (secret_opt secret) = Ok (\<lparr>oc_enc = dec, oc_dec = enc\<rparr>, dcID)"
    by (simp add: accept_header_def Let_def case_prod_beta)
  have "TryParseHeader ks sha h secret = Some dcID" if "secret \<noteq> []"
  proof -
    have "direction_key sha h (secret_opt secret) = deriveKey sha (hdr_key h) secret"
      using that by (simp add: direction_key_opt)
    with f p(2) that show ?thesis
      by (simp add: TryParseHeader_def Let_def case_prod_beta)
  qed
  with acc p(2) show "accept_header ks sha h (secret_opt secret) = Ok (\<lparr>oc_enc = dec, oc_dec = enc\<rparr>, dcID)
      \<and> (secret \<noteq> [] \<longrightarrow> TryParseHeader ks sha h secret = Some dcID) \<and> length h = 64"
    by blast
qed

section \<open>Properties\<close>

text \<open>Writing to the record layer with its random tape as part of the state.\<close>

definition tls_write ::
  "bytes \<Rightarrow> RecordConn \<times> nat list \<Rightarrow> (nat \<times> write_error option) \<times> RecordConn \<times> nat list" where
  "tls_write b s = (case s of (c, tape) \<Rightarrow>
     (case rec_write b c tape of (n, err, c', tape') \<Rightarrow> ((n, err), c', tape')))"

lemma rec_write_records:
  assumes "rec_write b c tape = (n, None, c', tape')"
  obtains wire where "sk_out (rc_sink c') = sk_out (rc_sink c) @ wire"
    "\<And>rest. payloads (wire @ rest) = b @ payloads rest"
proof -
  obtain ks where "sk_out (rc_sink c') = sk_out (rc_sink c) @ concat (map app_record ks)" "concat ks = b"
    "\<forall>k \<in> set ks. length k \<le> maxRecordPayload"
    using rec_write_spec [OF assms] by (auto simp: write_spec_def)
  then show thesis using that payloads_app_records by blast
qed

lemma Handshake_tls:
  assumes "readBuf s @ payloads (st_in (rc_in s)) = h @ rest" "length h = 64"
  shows "\<exists>s'. Handshake ks sha rec_read s secret = Some (accept_header ks sha h secret, s')
    \<and> readBuf s' @ payloads (st_in (rc_in s')) = rest"
  using record_reader.io_read_full_delivers [of 64 s] assms by (auto simp: Handshake_def)

text \<open>
  C24. The obfuscated2 layer end to end: a client that sends a generated header and then data
  through its TLS records is understood by the proxy. \<open>Handshake\<close> on the proxy's record connection
  accepts the header, recovers the data centre number (negative ones included) and leaves the
  connection in step with the client, so that reading through it gives exactly the client's bytes.
\<close>

theorem obfuscated_tls_roundtrip:
  assumes "outgoingHeader ks sha ent dcID secret = Ok (h, enc, dec)" "\<forall>b \<in> set ent. length b = 64"
    and "- 32768 \<le> dcID" "dcID < 32768"
    and "rec_write h c tape = (n, None, c1, tape1)" "sk_out (rc_sink c) = []"
    and "obf_write ks tls_write b (\<lparr>oc_enc = enc, oc_dec = dec\<rparr>, c1, tape1) = ((m, None), conn, c2, tape2)"
    and "readBuf s = []" "st_in (rc_in s) = sk_out (rc_sink c2) @ rest"
  shows "\<exists>proxy s1 s2. Handshake ks sha rec_read s (secret_opt secret) = Some (Ok (proxy, dcID), s1)
    \<and> proxy = \<lparr>oc_enc = dec, oc_dec = enc\<rparr>
    \<and> io_read_full (obf_read ks rec_read) (length b) [] (proxy, s1) = Some (Inr b, s2)"
proof -
  note h = header_accepted [OF assms(1-4)]
  obtain w1 where w1: "sk_out (rc_sink c1) = w1" "\<And>rest. payloads (w1 @ rest) = h @ payloads rest"
    using rec_write_records [OF assms(5)] assms(6) by (metis append_Nil)
  have "rec_write (fst (XORKeyStream ks enc b)) c1 tape1 = (m, None, c2, tape2)"
    using assms(7) by (auto simp: obf_write_def tls_write_def split: prod.splits)
  then obtain w2 where w2: "sk_out (rc_sink c2) = w1 @ w2"
    "\<And>rest. payloads (w2 @ rest) = fst (XORKeyStream ks enc b) @ payloads rest"
    using rec_write_records w1(1) by metis
  have "readBuf s @ payloads (st_in (rc_in s)) = h @ fst (XORKeyStream ks enc b) @ payloads rest"
    using assms(8,9) w1(2) w2 by simp
  from Handshake_tls [OF this h(3)] obtain s1 where s1:
    "Handshake ks sha rec_read s (secret_opt secret) = Some (Ok (\<lparr>oc_enc = dec, oc_dec = enc\<rparr>, dcID), s1)"
    "readBuf s1 @ payloads (st_in (rc_in s1)) = fst (XORKeyStream ks enc b) @ payloads rest"
    using h(1) by metis
  let ?p = "\<lparr>oc_enc = dec, oc_dec = enc\<rparr>"
  have "fst (XORKeyStream ks enc (fst (XORKeyStream ks enc b) @ payloads rest)) =
      b @ fst (XORKeyStream ks (snd (XORKeyStream ks enc b)) (payloads rest))"
    using XORKeyStream_append [of ks enc "fst (XORKeyStream ks enc b)" "payloads rest"]
    by (simp add: XORKeyStream_inverse split: prod.splits)
  then have "\<exists>s2. io_read_full (obf_read ks rec_read) (length b) [] (?p, s1) = Some (Inr b, s2)"
    using obf_tls.io_read_full_delivers [of "length b" ks "(?p, s1)"] s1(2) by auto
  with s1(1) show ?thesis by blast
qed

text \<open>A key stream and blocks for the witnesses.\<close>

definition ks_example :: keystream where
  "ks_example key iv i = word_of_nat (i + 1)"

definition block_example :: bytes where
  "block_example = map word_of_nat [1..<65]"

lemma block_example_ok: "length block_example = 64" "\<not> header_reserved block_example"
  by (simp_all add: block_example_def header_reserved_def)

lemma outgoing_example:
  "\<exists>h enc dec. outgoingHeader ks_example (\<lambda>m. take 32 m) [block_example] (- 2) secret = Ok (h, enc, dec)"
  by (auto simp: outgoingHeader_def block_example_ok Let_def split: prod.splits)

definition rc_fresh :: RecordConn where
  "rc_fresh = \<lparr>rc_in = \<lparr>st_in = [], st_end = EOF\<rparr>, rc_sink = \<lparr>sk_out = [], sk_room = None\<rparr>,
     readBuf = [], Policy = DefaultRecordPolicy, recordsWritten = 0, bytesWritten = 0, splitDone = False\<rparr>"

lemma rec_write_open:
  assumes "sk_room (rc_sink c) = None"
  obtains c' tape' where "rec_write b c tape = (length b, None, c', tape')" "sk_room (rc_sink c') = None"
proof -
  obtain n err c' tape' where r: "rec_write b c tape = (n, err, c', tape')"
    by (cases "rec_write b c tape") auto
  then have "err = None" "sk_room (rc_sink c') = None" "n = length b"
    using rec_write_spec [OF r] assms by (auto simp: write_spec_def split: option.splits)
  with r show thesis using that by blast
qed

theorem obfuscated_tls_roundtrip_witness:
  "\<exists>h enc dec s proxy s1 s2.
     outgoingHeader ks_example (\<lambda>m. take 32 m) [block_example] (- 2) [5] = Ok (h, enc, dec)
     \<and> Handshake ks_example (\<lambda>m. take 32 m) rec_read s (secret_opt [5]) = Some (Ok (proxy, - 2), s1)
     \<and> io_read_full (obf_read ks_example rec_read) (length [7 :: byte, 8]) [] (proxy, s1) = Some (Inr [7, 8], s2)"
proof -
  obtain h enc dec where h: "outgoingHeader ks_example (\<lambda>m. take 32 m) [block_example] (- 2) [5] = Ok (h, enc, dec)"
    using outgoing_example by blast
  obtain c1 tape1 where c1: "rec_write h rc_fresh [] = (length h, None, c1, tape1)" "sk_room (rc_sink c1) = None"
    using rec_write_open [of rc_fresh h "[]"] by (auto simp: rc_fresh_def)
  obtain c2 tape2 where c2: "rec_write (fst (XORKeyStream ks_example enc [7, 8])) c1 tape1
      = (length (fst (XORKeyStream ks_example enc [7, 8])), None, c2, tape2)"
    using rec_write_open [OF c1(2)] by blast
  have w: "obf_write ks_example tls_write [7, 8] (\<lparr>oc_enc = enc, oc_dec = dec\<rparr>, c1, tape1) =
      ((2, None), \<lparr>oc_enc = enc, oc_dec = dec\<rparr>\<lparr>oc_enc := snd (XORKeyStream ks_example enc [7, 8])\<rparr>, c2, tape2)"
    using c2 by (simp add: obf_write_def tls_write_def XORKeyStream_length case_prod_beta)
  let ?s = "rc_fresh\<lparr>rc_in := \<lparr>st_in = sk_out (rc_sink c2) @ [], st_end = EOF\<rparr>\<rparr>"
  have "\<exists>proxy s1 s2. Handshake ks_example (\<lambda>m. take 32 m) rec_read ?s (secret_opt [5]) = Some (Ok (proxy, - 2), s1)
      \<and> proxy = \<lparr>oc_enc = dec, oc_dec = enc\<rparr>
      \<and> io_read_full (obf_read ks_example rec_read) (length [7 :: byte, 8]) [] (proxy, s1) = Some (Inr [7, 8], s2)"
    by (rule obfuscated_tls_roundtrip [OF h _ _ _ c1(1) _ w, where rest = "[]"])
      (simp_all add: block_example_ok(1) rc_fresh_def)
  with h show ?thesis by blast
qed

text \<open>
  The plain obfuscated2 mode is out of step: \<open>ConnFromHeader\<close> recognises the header of a
  client and its data centre, but decrypts with a fresh key stream, while the client has already
  used the first 64 key stream bytes for the header. What the proxy reads of the client's data is
  the data itself only where the key stream repeats itself after 64 bytes.
\<close>

lemma secure_mode_desynchronised:
  assumes "outgoingHeader ks sha ent dcID secret = Ok (h, enc, dec)" "\<forall>b \<in> set ent. length b = 64"
    and "- 32768 \<le> dcID" "dcID < 32768" "secret \<noteq> []"
  shows "\<exists>proxy. ConnFromHeader ks sha h secret = Ok (proxy, dcID) \<and> ctr_pos enc = 64
    \<and> ctr_pos (oc_dec proxy) = 0
    \<and> (fst (XORKeyStream ks (oc_dec proxy) (fst (XORKeyStream ks enc b))) = b \<longleftrightarrow>
        (\<forall>i < length b. ks (ctr_key enc) (ctr_iv enc) (64 + i) = ks (ctr_key enc) (ctr_iv enc) i))"
proof (rule outgoingHeader_shape [OF assms(1,2)])
  let ?st = "newCTR (deriveKey sha (hdr_key h) secret) (hdr_iv h)"
  assume "enc = (newCTR (direction_key sha h (secret_opt secret)) (hdr_iv h))\<lparr>ctr_pos := 64\<rparr>"
  then have e: "enc = ?st\<lparr>ctr_pos := 64\<rparr>"
    using assms(5) by (simp add: direction_key_opt)
  have "xor_bytes (xor_bytes b ks1) ks2 = b \<longleftrightarrow> ks1 = ks2"
    if "length ks1 = length b" "length ks2 = length b" for ks1 ks2
    using that xor_bytes_cancel_right [of b ks2] xor_bytes_cancel_right [of b ks1]
    by (metis length_xor_bytes min.idem xor_bytes_cancel)
  then have "fst (XORKeyStream ks ?st (fst (XORKeyStream ks enc b))) = b \<longleftrightarrow>
      key_bytes ks enc (length b) = key_bytes ks ?st (length b)"
    by (simp add: XORKeyStream_def)
  also have "\<dots> \<longleftrightarrow> (\<forall>i < length b. ks (ctr_key enc) (ctr_iv enc) (64 + i) = ks (ctr_key enc) (ctr_iv enc) i)"
    by (auto simp: key_bytes_def e newCTR_def)
  finally show ?thesis
    using header_accepted(2) [OF assms(1-4)] assms(5) e
    by (simp add: ConnFromHeader_def Let_def newCTR_def)
qed

text \<open>
  A generated header never looks like another protocol: its first byte is none of the
  reserved ones and its second word is not zero; and one that fits is found as soon as the
  random source delivers an acceptable block.
\<close>

theorem outgoing_header_unreserved:
  assumes "\<forall>b \<in> set ent. length b = 64"
  shows "case outgoingHeader ks sha ent dcID secret of
      Ok (h, enc, dec) \<Rightarrow> length h = 64 \<and> \<not> header_reserved h
    | Err e \<Rightarrow> e = ObfRandFailed \<and> (\<forall>b \<in> set ent. header_reserved b)
    | Panic \<Rightarrow> False"
proof (cases "draw_header ent")
  case None
  then show ?thesis
    using draw_header_None [of ent] by (simp add: outgoingHeader_def)
next
  case (Some b)
  then obtain h enc dec where h: "outgoingHeader ks sha ent dcID secret = Ok (h, enc, dec)"
    by (auto simp: outgoingHeader_def Let_def case_prod_beta)
  show ?thesis
    by (rule outgoingHeader_shape [OF h assms]) (simp add: h)
qed

theorem outgoing_header_unreserved_witness:
  "\<exists>h enc dec. outgoingHeader ks_example (\<lambda>m. take 32 m) [replicate 64 0, block_example] 2 [] = Ok (h, enc, dec)
     \<and> length h = 64 \<and> \<not> header_reserved h"
proof -
  have "\<exists>h enc dec. outgoingHeader ks_example (\<lambda>m. take 32 m) [replicate 64 0, block_example] 2 [] = Ok (h, enc, dec)"
    using block_example_ok(2) by (auto simp: outgoingHeader_def Let_def case_prod_beta)
  with outgoing_header_unreserved [of "[replicate 64 0, block_example]" ks_example "\<lambda>m. take 32 m" 2 "[]"]
  show ?thesis by (auto simp: block_example_ok(1))
qed

end
