(* ===== verification/Fingerprints.thy ===== *)
theory Fingerprints
  imports ClientHello
begin

text \<open>
  JA3 and JA4 fingerprints of a ClientHello, \<open>internal/faketls/fingerprint.go\<close>. MD5 and SHA-256 are the
  arguments \<open>md5\<close> and \<open>sha\<close>; \<open>lower\<close> is \<open>strings.ToLower\<close>, whose Unicode tables are not modelled.
  The slices keep Go's bounds: a list length inside an extension is checked against the capacity of
  the record buffer only.
\<close>

section \<open>Lists and extensions\<close>

definition extSupportedGroups :: nat where "extSupportedGroups = 0x000a"
definition extECPointFormats :: nat where "extECPointFormats = 0x000b"
definition extALPN :: nat where "extALPN = 0x0010"
definition extSupportedVersions :: nat where "extSupportedVersions = 0x002b"

fun parseUint16List :: "bytes \<Rightarrow> nat list" where
  "parseUint16List (a # b # bs) = be_val [a, b] # parseUint16List bs"
| "parseUint16List _ = []"

text \<open>One extension: what its data adds to the curves and the point formats.\<close>

definition ext_lists ::
  "nat \<Rightarrow> goslice \<Rightarrow> nat list \<Rightarrow> bytes \<Rightarrow> ('e, nat list \<times> bytes) res" where
  "ext_lists extType extData curves pointFormats =
     (if extType = extSupportedGroups then
        if sl_len extData \<ge> 2 then
          bind_res (slice_u16 extData 0) (\<lambda>listLen.
          bind_res (slice_range extData 2 (2 + listLen)) (\<lambda>l.
          Ok (parseUint16List (slice_bytes l), pointFormats)))
        else Ok (curves, pointFormats)
      else if extType = extECPointFormats then
        if sl_len extData \<ge> 1 then
          bind_res (slice_index extData 0) (\<lambda>listLen.
          bind_res (slice_range extData 1 (1 + unat listLen)) (\<lambda>l.
          Ok (curves, pointFormats @ slice_bytes l)))
        else Ok (curves, pointFormats)
      else Ok (curves, pointFormats))"

text \<open>\<open>parseExtensions\<close>, with the data as the slice from the current position on.\<close>

function parse_exts_loop ::
  "goslice \<Rightarrow> nat list \<Rightarrow> nat list \<Rightarrow> bytes \<Rightarrow> ('e, nat list \<times> nat list \<times> bytes) res" where
  "parse_exts_loop data extensions curves pointFormats =
     (if sl_len data < 4 then Ok (extensions, curves, pointFormats)
      else let extType = be_val (take 2 (sl_arr data)); extLen = be_val (take 2 (drop 2 (sl_arr data))) in
        if 4 + extLen > sl_len data then Ok (extensions, curves, pointFormats)
        else bind_res (ext_lists extType \<lparr>sl_arr = drop 4 (sl_arr data), sl_len = extLen\<rparr> curves pointFormats)
               (\<lambda>(curves', pointFormats').
                  parse_exts_loop \<lparr>sl_arr = drop (4 + extLen) (sl_arr data), sl_len = sl_len data - (4 + extLen)\<rparr>
                    (extensions @ [extType]) curves' pointFormats'))"
  by pat_completeness auto
termination
  by (relation "measure (\<lambda>(data, _). sl_len data)") auto

declare parse_exts_loop.simps [simp del]

definition parseExtensions :: "goslice \<Rightarrow> ('e, nat list \<times> nat list \<times> bytes) res" where
  "parseExtensions data = parse_exts_loop data [] [] []"

fun join :: "string \<Rightarrow> string list \<Rightarrow> string" where
  "join sep [] = []"
| "join sep [x] = x"
| "join sep (x # y # xs) = x @ sep @ join sep (y # xs)"

definition joinUint16 :: "nat list \<Rightarrow> string" where
  "joinUint16 values = (if values = [] then [] else join ''-'' (map dec_nat values))"

definition joinUint8 :: "bytes \<Rightarrow> string" where
  "joinUint8 values = (if values = [] then [] else join ''-'' (map (\<lambda>b. dec_nat (unat b)) values))"

section \<open>JA3\<close>

text \<open>
  The walk that \<open>JA3\<close> and \<open>JA4\<close> share: legacy version, cipher suites and extension data of a record,
  \<open>None\<close> where they return the empty string.
\<close>

definition ja_fields :: "goslice \<Rightarrow> ('e, (goslice \<times> nat \<times> nat list \<times> goslice option) option) res" where
  "ja_fields record =
     bind_res (hello_body record) (\<lambda>b. case b of
       None \<Rightarrow> Ok None
     | Some hello \<Rightarrow>
         if sl_len hello < 34 then Ok None
         else bind_res (slice_u16 hello 0) (\<lambda>version.
           bind_res (slice_index hello 34) (\<lambda>sidLen.
           let pos = 35 + unat sidLen in
           if pos + 2 > sl_len hello then Ok None
           else bind_res (slice_u16 hello pos) (\<lambda>csLen.
             let pos = pos + 2 in
             bind_res (slice_range hello pos (pos + csLen)) (\<lambda>cs.
             let ciphers = parseUint16List (slice_bytes cs); pos = pos + csLen in
             if pos \<ge> sl_len hello then Ok None
             else bind_res (slice_index hello pos) (\<lambda>compLen.
               let pos = pos + 1 + unat compLen in
               if pos + 2 \<le> sl_len hello then
                 bind_res (slice_u16 hello pos) (\<lambda>extLen.
                 bind_res (slice_range hello (pos + 2) (pos + 2 + extLen)) (\<lambda>ext.
                 Ok (Some (hello, version, ciphers, Some ext))))
               else Ok (Some (hello, version, ciphers, None))))))))"

definition JA3 :: "(bytes \<Rightarrow> bytes) \<Rightarrow> goslice \<Rightarrow> ('e, string) res" where
  "JA3 md5 record =
     bind_res (ja_fields record) (\<lambda>f. case f of
       None \<Rightarrow> Ok []
     | Some (hello, version, ciphers, ext) \<Rightarrow>
         bind_res (case ext of None \<Rightarrow> Ok ([], [], []) | Some extData \<Rightarrow> parseExtensions extData)
           (\<lambda>(extensions, curves, pointFormats).
           let parts = [dec_nat version, joinUint16 ciphers, joinUint16 extensions, joinUint16 curves,
                        joinUint8 pointFormats]
           in Ok (hex_encode (md5 (bytes_of_string (join '','' parts))))))"

section \<open>JA4\<close>

function extractALPN :: "bytes \<Rightarrow> string" where
  "extractALPN extensions =
     (if length extensions < 4 then []
      else let extType = be_val (take 2 extensions); extLen = be_val (take 2 (drop 2 extensions));
               rest = drop 4 extensions in
        if extLen > length rest then []
        else if extType = extALPN then
          let data = take extLen rest in
          if length data < 2 then []
          else let listLen = be_val (take 2 data); data = drop 2 data in
            if length data < listLen \<or> listLen = 0 then []
            else let nameLen = unat (data ! 0) in
              if 1 + nameLen > length data then []
              else string_of_bytes (take nameLen (drop 1 data))
        else extractALPN (drop extLen rest))"
  by pat_completeness auto
termination
  by (relation "measure length") auto

declare extractALPN.simps [simp del]

definition ja4VersionToken :: "nat \<Rightarrow> nat list \<Rightarrow> string" where
  "ja4VersionToken version extensions =
     (if extSupportedVersions \<in> set extensions then ''13''
      else if version = 0x0304 then ''13'' else if version = 0x0303 then ''12'' else ''00'')"

definition sha256Hex12 :: "(bytes \<Rightarrow> bytes) \<Rightarrow> string \<Rightarrow> string" where
  "sha256Hex12 sha s = hex_encode (take 6 (sha (bytes_of_string s)))"

definition ja4SortedHashUint16 :: "(bytes \<Rightarrow> bytes) \<Rightarrow> nat list \<Rightarrow> string" where
  "ja4SortedHashUint16 sha values =
     (if values = [] then ''000000000000'' else sha256Hex12 sha (join '','' (map dec_nat (sort values))))"

text \<open>\<open>fmt.Sprintf("%02d", min(n, 99))\<close>\<close>

definition count2 :: "nat \<Rightarrow> string" where
  "count2 n = (let m = min n 99 in if m < 10 then ''0'' @ dec_nat m else dec_nat m)"

definition extractSNI :: "goslice \<Rightarrow> ('e, string) res" where
  "extractSNI hello = bind_res (ext_block hello) (\<lambda>e. case e of
       None \<Rightarrow> Ok [] | Some ext \<Rightarrow> Ok (parseSNI (slice_bytes ext)))"

definition JA4 :: "(bytes \<Rightarrow> bytes) \<Rightarrow> (string \<Rightarrow> string) \<Rightarrow> goslice \<Rightarrow> ('e, string) res" where
  "JA4 sha lower record =
     bind_res (hello_body record) (\<lambda>b. case b of
       None \<Rightarrow> Ok []
     | Some hello \<Rightarrow>
         if sl_len hello < 34 then Ok []
         else bind_res (extractSNI hello) (\<lambda>sni.
           bind_res (ja_fields record) (\<lambda>f. case f of
             None \<Rightarrow> Ok []
           | Some (_, version, ciphers, ext) \<Rightarrow>
               bind_res (case ext of None \<Rightarrow> Ok ([], [], []) | Some extData \<Rightarrow> parseExtensions extData)
                 (\<lambda>(extensions, _, _).
                 let alpn = (case ext of None \<Rightarrow> [] | Some extData \<Rightarrow> extractALPN (slice_bytes extData));
                     proto = (if alpn = ''h2'' then ''h2'' else ''t'');
                     sniHash = (if sni \<noteq> [] then sha256Hex12 sha (lower sni) else ''00000000'')
                 in Ok (proto @ ja4VersionToken version extensions @ count2 (length ciphers)
                        @ count2 (length extensions) @ ''_'' @ ja4SortedHashUint16 sha ciphers @ ''_''
                        @ ja4SortedHashUint16 sha extensions @ ''_'' @ sniHash)))))"

section \<open>Well-formed hellos\<close>

text \<open>Specification: the curves and point formats that the extensions of a hello carry, the last
  group list and all format lists; the lists fit their extensions.\<close>

definition ext_fits :: "nat \<times> bytes \<Rightarrow> bool" where
  "ext_fits e = (case e of (t, d) \<Rightarrow>
     (t = extSupportedGroups \<and> 2 \<le> length d \<longrightarrow> 2 + be_val (take 2 d) \<le> length d)
     \<and> (t = extECPointFormats \<and> 1 \<le> length d \<longrightarrow> 1 + unat (d ! 0) \<le> length d))"

fun spec_lists :: "(nat \<times> bytes) list \<Rightarrow> nat list \<Rightarrow> bytes \<Rightarrow> nat list \<times> bytes" where
  "spec_lists [] curves formats = (curves, formats)"
| "spec_lists ((t, d) # es) curves formats =
     (if t = extSupportedGroups \<and> 2 \<le> length d
      then spec_lists es (parseUint16List (take (be_val (take 2 d)) (drop 2 d))) formats
      else if t = extECPointFormats \<and> 1 \<le> length d
      then spec_lists es curves (formats @ take (unat (d ! 0)) (drop 1 d))
      else spec_lists es curves formats)"

lemma parseUint16List_enc: "list_all (\<lambda>c. c < 65536) cs \<Longrightarrow> parseUint16List (enc_suites cs) = cs"
proof (induction cs)
  case Nil
  then show ?case by simp
next
  case (Cons c cs)
  obtain a b where ab: "put_be 2 c = [a, b]"
    by (simp add: numeral_2_eq_2)
  have "be_val [a, b] = c"
    using be_val_put_be [of 2 c] Cons.prems unfolding ab by simp
  with Cons show ?case by (simp add: ab)
qed

lemma ext_types_distinct: "extSupportedGroups \<noteq> extECPointFormats"
  by (simp add: extSupportedGroups_def extECPointFormats_def)

lemma ext_lists_fit:
  assumes "ext_fits (t, d)"
  shows "ext_lists t \<lparr>sl_arr = d @ z, sl_len = length d\<rparr> curves formats =
    (Ok (spec_lists [(t, d)] curves formats) :: ('e, nat list \<times> bytes) res)"
proof -
  consider "t = extSupportedGroups" "2 \<le> length d" "2 + be_val (take 2 d) \<le> length d"
    | "t = extECPointFormats" "1 \<le> length d" "1 + unat (d ! 0) \<le> length d"
    | "\<not> (t = extSupportedGroups \<and> 2 \<le> length d)" "\<not> (t = extECPointFormats \<and> 1 \<le> length d)"
    using assms by (auto simp: ext_fits_def)
  then show ?thesis
  proof cases
    case 1
    let ?s = "\<lparr>sl_arr = d @ z, sl_len = length d\<rparr>" and ?n = "be_val (take 2 d)"
    have "slice_u16 ?s 0 = (Ok ?n :: ('e, nat) res)"
      using 1(2) by (simp add: slice_u16_Ok)
    moreover have "slice_range ?s 2 (2 + ?n) = (Ok \<lparr>sl_arr = drop 2 (d @ z), sl_len = ?n\<rparr> :: ('e, goslice) res)"
      using 1(3) unfolding slice_range_Ok by simp
    moreover have "take ?n (drop 2 (d @ z)) = take ?n (drop 2 d)"
      using 1(3) by simp
    ultimately show ?thesis
      using 1 by (simp add: ext_lists_def slice_bytes_def)
  next
    case 2
    then have "(d @ z) ! 0 = d ! 0" "d \<noteq> []" by (auto simp: nth_append)
    with 2 ext_types_distinct show ?thesis
      by (simp add: ext_lists_def slice_index_def slice_range_def slice_bytes_def)
  next
    case 3
    then show ?thesis by (auto simp: ext_lists_def)
  qed
qed

lemma spec_lists_Cons:
  "spec_lists (e # es) curves formats = (case spec_lists [e] curves formats of (c, f) \<Rightarrow> spec_lists es c f)"
  by (cases e) auto

lemma parse_exts_enc:
  assumes "list_all (\<lambda>(t, d). t < 65536 \<and> length d < 65536) es" "list_all ext_fits es"
  shows "parse_exts_loop \<lparr>sl_arr = enc_exts es @ z, sl_len = length (enc_exts es)\<rparr> exts curves formats =
    (case spec_lists es curves formats of (c, f) \<Rightarrow>
       (Ok (exts @ map fst es, c, f) :: ('e, nat list \<times> nat list \<times> bytes) res))"
  using assms
proof (induction es arbitrary: exts curves formats)
  case Nil
  then show ?case by (simp add: parse_exts_loop.simps)
next
  case (Cons e es)
  obtain t d where e: "e = (t, d)" by force
  with Cons.prems have l: "t < 65536" "length d < 65536" "ext_fits (t, d)" by auto
  have w: "take 2 (enc_exts (e # es)) = put_be 2 t" "take 2 (drop 2 (enc_exts (e # es))) = put_be 2 (length d)"
    "drop 4 (enc_exts (e # es)) = d @ enc_exts es" "drop (4 + length d) (enc_exts (e # es)) = enc_exts es"
    "length (enc_exts (e # es)) = 4 + length d + length (enc_exts es)"
    by (simp_all add: e)
  obtain c f where cf: "spec_lists [(t, d)] curves formats = (c, f)" by force
  have "(parse_exts_loop \<lparr>sl_arr = enc_exts (e # es) @ z, sl_len = length (enc_exts (e # es))\<rparr> exts curves formats
        :: ('e, nat list \<times> nat list \<times> bytes) res) =
      parse_exts_loop \<lparr>sl_arr = enc_exts es @ z, sl_len = length (enc_exts es)\<rparr> (exts @ [t]) c f"
    using l by (subst parse_exts_loop.simps) (simp add: w codec_simps Let_def ext_lists_fit [OF l(3)] cf del: enc_exts.simps spec_lists.simps)
  also have "\<dots> = (case spec_lists es c f of (c, f) \<Rightarrow> Ok ((exts @ [t]) @ map fst es, c, f))"
    using Cons by simp
  finally show ?case
    by (simp add: spec_lists_Cons [of "(t, d)" es] e cf del: spec_lists.simps)
qed

lemma ja_steps:
  assumes "hello_body record = (Ok (Some s) :: ('e, goslice option) res)" "34 \<le> sl_len s"
    "slice_u16 s 0 = (Ok v :: ('e, nat) res)" "slice_index s 34 = (Ok a :: ('e, byte) res)" "p = 35 + unat a" "p + 2 \<le> sl_len s"
    "slice_u16 s p = (Ok c :: ('e, nat) res)" "slice_range s p' q = (Ok l :: ('e, goslice) res)" "p' = p + 2"
    "q = p + 2 + c" "q < sl_len s"
    "slice_index s q = (Ok k :: ('e, byte) res)" "r = q + 1 + unat k" "r + 2 \<le> sl_len s"
    "slice_u16 s r = (Ok e :: ('e, nat) res)" "slice_range s r' r'' = (Ok x :: ('e, goslice) res)"
    "r' = r + 2" "r'' = r + 2 + e"
  shows "ja_fields record = (Ok (Some (s, v, parseUint16List (slice_bytes l), Some x))
    :: ('e, (goslice \<times> nat \<times> nat list \<times> goslice option) option) res)"
  using assms by (simp add: ja_fields_def Let_def)

lemma ja_fields_enc:
  assumes "hello_spec_wf h" and z: "z = replicate (spare (length (enc_record h))) 0"
  shows "ja_fields (raw_record spare (enc_record h)) =
    Ok (Some (\<lparr>sl_arr = enc_body h @ z, sl_len = length (enc_body h)\<rparr>, 0x303, hs_suites h,
      Some \<lparr>sl_arr = enc_exts (hs_exts h) @ z, sl_len = length (enc_exts (hs_exts h))\<rparr>))"
proof -
  let ?s = "\<lparr>sl_arr = enc_body h @ z, sl_len = length (enc_body h)\<rparr>"
  let ?sid = "hs_session h" and ?cs = "enc_suites (hs_suites h)" and ?cm = "hs_comps h"
    and ?ex = "enc_exts (hs_exts h)" and ?ver = "put_be 2 0x303 @ hs_random h"
  let ?a = "?ver @ [word_of_nat (length ?sid)] @ ?sid"
  let ?b = "?a @ put_be 2 (length ?cs) @ ?cs"
  let ?c = "?b @ [word_of_nat (length ?cm)] @ ?cm"
  note wf = assms(1) [unfolded hello_spec_wf_def maxRecordPayload_def]
  have r: "length (hs_random h) = 32"
    using wf by simp
  have e: "length ?ex < 65536"
    using wf enc_exts_length [of h] by linarith
  have i0: "slice_u16 ?s 0 = Ok 0x303"
    by (rule slice_u16_at [of _ "[]"]) (simp_all add: enc_body_def)
  have i1: "slice_index ?s 34 = Ok (word_of_nat (length ?sid))"
    by (rule slice_index_at [of _ ?ver]) (use r in \<open>simp_all add: enc_body_def\<close>)
  have i2: "slice_u16 ?s (35 + length ?sid) = Ok (length ?cs)"
    by (rule slice_u16_at [of _ ?a]) (use wf r in \<open>simp_all add: enc_body_def\<close>)
  have ic: "slice_range ?s (37 + length ?sid) (37 + length ?sid + length ?cs) =
      Ok \<lparr>sl_arr = ?cs @ [word_of_nat (length ?cm)] @ ?cm @ put_be 2 (length ?ex) @ ?ex @ z, sl_len = length ?cs\<rparr>"
    by (rule slice_range_at [of _ "?a @ put_be 2 (length ?cs)"]) (use r in \<open>simp_all add: enc_body_def\<close>)
  have i3: "slice_index ?s (37 + length ?sid + length ?cs) = Ok (word_of_nat (length ?cm))"
    by (rule slice_index_at [of _ ?b]) (use r in \<open>simp_all add: enc_body_def\<close>)
  have i4: "slice_u16 ?s (38 + length ?sid + length ?cs + length ?cm) = Ok (length ?ex)"
    by (rule slice_u16_at [of _ ?c]) (use e r in \<open>simp_all add: enc_body_def\<close>)
  have i5: "slice_range ?s (40 + length ?sid + length ?cs + length ?cm)
      (40 + length ?sid + length ?cs + length ?cm + length ?ex)
      = Ok \<lparr>sl_arr = ?ex @ z, sl_len = length ?ex\<rparr>"
    by (rule slice_range_at [of _ "?c @ put_be 2 (length ?ex)"]) (use r in \<open>simp_all add: enc_body_def\<close>)
  have l: "length (enc_body h) = 40 + length ?sid + length ?cs + length ?cm + length ?ex"
    using r by (simp add: enc_body_def)
  have "ja_fields (raw_record spare (enc_record h)) = Ok (Some (?s, 0x303,
      parseUint16List (slice_bytes \<lparr>sl_arr = ?cs @ [word_of_nat (length ?cm)] @ ?cm @ put_be 2 (length ?ex) @ ?ex @ z,
        sl_len = length ?cs\<rparr>), Some \<lparr>sl_arr = ?ex @ z, sl_len = length ?ex\<rparr>))"
    by (rule ja_steps [OF _ _ i0 i1 _ _ i2 ic _ _ _ i3 _ _ i4 i5])
      (use wf l in \<open>simp_all add: z hello_body_enc [OF assms(1)] del: length_enc_suites\<close>)
  then show ?thesis
    using wf by (simp add: slice_bytes_def parseUint16List_enc)
qed

section \<open>Properties\<close>

definition ja3_text :: "hello_spec \<Rightarrow> string" where
  "ja3_text h = (case spec_lists (hs_exts h) [] [] of (curves, formats) \<Rightarrow>
     join '','' [dec_nat 0x303, joinUint16 (hs_suites h), joinUint16 (map fst (hs_exts h)),
                joinUint16 curves, joinUint8 formats])"

lemma JA3_enc:
  assumes "hello_spec_wf h" "list_all ext_fits (hs_exts h)"
  shows "JA3 md5 (raw_record spare (enc_record h)) = Ok (hex_encode (md5 (bytes_of_string (ja3_text h))))"
proof -
  have l: "list_all (\<lambda>(t, d). t < 65536 \<and> length d < 65536) (hs_exts h)"
    using assms(1) by (simp add: hello_spec_wf_def)
  show ?thesis
    by (simp add: JA3_def ja_fields_enc [OF assms(1) refl] parseExtensions_def parse_exts_enc [OF l assms(2)]
        ja3_text_def Let_def split: prod.splits)
qed

text \<open>
  On a well-formed ClientHello, \<open>JA3\<close> is the MD5 digest, in hexadecimal, of the legacy version, the
  cipher suites, the extension types, the last group list and the point formats, in wire order; no
  bounds are exceeded, whatever spare capacity the record buffer has.
\<close>

theorem JA3_of_wire_format:
  assumes "hello_spec_wf h" "list_all ext_fits (hs_exts h)"
  shows "JA3 md5 (raw_record spare (enc_record h)) = Ok (hex_encode (md5 (bytes_of_string (ja3_text h))))"
  using JA3_enc [OF assms] .

definition hello_curves :: hello_spec where
  "hello_curves = hello_example\<lparr>hs_exts := [(10, [0, 4, 0, 29, 0, 23]), (11, [1, 0]), (43, [2, 3, 4])]\<rparr>"

lemma hello_curves_wf: "hello_spec_wf hello_curves" "list_all ext_fits (hs_exts hello_curves)"
  by (simp_all add: hello_curves_def hello_example_def hello_spec_wf_def enc_body_def maxRecordPayload_def
      ext_fits_def extSupportedGroups_def extECPointFormats_def)

lemma dec_digits:
  "dec_digit 0 = CHR ''0''" "dec_digit (Suc 0) = CHR ''1''" "dec_digit 3 = CHR ''3''" "dec_digit 4 = CHR ''4''"
  "dec_digit 5 = CHR ''5''" "dec_digit 6 = CHR ''6''" "dec_digit 7 = CHR ''7''" "dec_digit 8 = CHR ''8''"
  by code_simp+

theorem JA3_of_wire_format_witness:
  "JA3 (\<lambda>m. take 16 m) (raw_record (\<lambda>n. 5) (enc_record hello_curves)) =
     (Ok (hex_encode (bytes_of_string ''771,4865,10-11-4'')) :: (unit, string) res)"
proof -
  have d: "dec_nat 0x303 = ''771''" "dec_nat 4865 = ''4865''" "dec_nat 10 = ''10''" "dec_nat 11 = ''11''" "dec_nat 43 = ''43''"
    by (simp_all add: dec_nat.simps dec_digits)
  have "take 16 (ja3_text hello_curves) = ''771,4865,10-11-4''"
    by (simp add: ja3_text_def hello_curves_def hello_example_def joinUint16_def joinUint8_def d
        extSupportedGroups_def extECPointFormats_def)
  then have "take 16 (bytes_of_string (ja3_text hello_curves)) = bytes_of_string ''771,4865,10-11-4''"
    by (metis bytes_of_string_def take_map)
  then show ?thesis
    using JA3_of_wire_format [OF hello_curves_wf, of "\<lambda>m. take 16 m" "\<lambda>n. 5"] by simp
qed

lemma JA4_enc:
  assumes "hello_spec_wf h" "list_all ext_fits (hs_exts h)"
  defines "sni \<equiv> parseSNI (enc_exts (hs_exts h))"
  shows "JA4 sha lower (raw_record spare (enc_record h)) = Ok
    ((if extractALPN (enc_exts (hs_exts h)) = ''h2'' then ''h2'' else ''t'')
     @ ja4VersionToken 0x303 (map fst (hs_exts h)) @ count2 (length (hs_suites h)) @ count2 (length (hs_exts h))
     @ ''_'' @ ja4SortedHashUint16 sha (hs_suites h) @ ''_'' @ ja4SortedHashUint16 sha (map fst (hs_exts h))
     @ ''_'' @ (if sni \<noteq> [] then sha256Hex12 sha (lower sni) else ''00000000''))"
proof -
  have l: "list_all (\<lambda>(t, d). t < 65536 \<and> length d < 65536) (hs_exts h)" "\<not> length (enc_body h) < 34"
    using assms(1) by (auto simp: hello_spec_wf_def enc_body_def)
  show ?thesis
    using l(2) by (simp add: JA4_def hello_body_enc [OF assms(1)] extractSNI_def ext_block_enc [OF assms(1)]
        ja_fields_enc [OF assms(1) refl] parseExtensions_def parse_exts_enc [OF l(1) assms(2)] slice_bytes_def
        sni_def Let_def split: prod.splits)
qed

text \<open>
  \<open>JA4\<close> does not see the order of cipher suites and extensions: two well-formed hellos with the
  same suites and the same extension types up to order, and the same server name and first
  protocol, have the same fingerprint, so a client that shuffles its extensions is still
  recognised by the white list.
\<close>

lemma JA4_ignores_order:
  assumes "hello_spec_wf h" "list_all ext_fits (hs_exts h)" "hello_spec_wf h'" "list_all ext_fits (hs_exts h')"
    and "mset (hs_suites h) = mset (hs_suites h')"
      "mset (map fst (hs_exts h)) = mset (map fst (hs_exts h'))"
    and "parseSNI (enc_exts (hs_exts h)) = parseSNI (enc_exts (hs_exts h'))"
      "extractALPN (enc_exts (hs_exts h)) = extractALPN (enc_exts (hs_exts h'))"
  shows "(JA4 sha lower (raw_record spare (enc_record h)) :: ('e, string) res) =
    JA4 sha lower (raw_record spare' (enc_record h'))"
proof -
  have "ja4SortedHashUint16 sha xs = ja4SortedHashUint16 sha ys" if "mset xs = mset ys" for xs ys
  proof -
    have "sort xs = sort ys"
      by (rule properties_for_sort) (simp_all add: that)
    moreover have "xs = [] \<longleftrightarrow> ys = []"
      using mset_eq_length [OF that] by auto
    ultimately show ?thesis by (simp add: ja4SortedHashUint16_def)
  qed
  note hash = this [OF assms(5)] this [OF assms(6)]
  have "set (map fst (hs_exts h)) = set (map fst (hs_exts h'))"
    using assms(6) by (rule mset_eq_setD)
  then have version: "ja4VersionToken 0x303 (map fst (hs_exts h)) = ja4VersionToken 0x303 (map fst (hs_exts h'))"
    unfolding ja4VersionToken_def by (simp only:)
  have len: "length (hs_exts h) = length (hs_exts h')" "length (hs_suites h) = length (hs_suites h')"
    using mset_eq_length [OF assms(6)] mset_eq_length [OF assms(5)] by simp_all
  show ?thesis
    unfolding JA4_enc [OF assms(1,2)] JA4_enc [OF assms(3,4)] hash version len assms(7,8) ..
qed

end
