(* ===== verification/UserManager.thy ===== *)
theory UserManager
  imports Secret Fingerprints Obfuscated2
begin

text \<open>
  The user manager, \<open>internal/user/manager.go\<close>: the list of users, the mask host, the fingerprint white
  lists, the matching of a ClientHello or a plain obfuscated2 header to a user, and the operations
  of the management API. Every method takes the manager's lock, so each is one step. A white list
  is the list of its non-empty entries.
\<close>

section \<open>The manager\<close>

record User =
  u_Name :: string
  u_Secret :: secret
  u_Enabled :: bool

record Manager =
  m_users :: "User list"
  m_maskHost :: string
  m_ja3Allow :: "string list"
  m_ja4Allow :: "string list"

datatype user_error =
    NeedUser
  | NoActiveUsers
  | JA3NotAllowed string
  | JA4NotAllowed string
  | SecretNotFound
  | SecureNotFound
  | UserExists string
  | UserNotFound string
  | LastUser
  | UserRandFailed

definition nonempty :: "string list \<Rightarrow> string list" where
  "nonempty allowed = filter (\<lambda>fp. fp \<noteq> []) allowed"

definition replaceUsers :: "User list \<Rightarrow> Manager \<Rightarrow> (user_error, unit) res \<times> Manager" where
  "replaceUsers users m =
     (if filter u_Enabled users = [] then (Err NoActiveUsers, m)
      else let m = m\<lparr>m_users := users\<rparr>;
               m = (case find (\<lambda>u. u_Enabled u \<and> s_host (u_Secret u) \<noteq> []) users of
                      Some u \<Rightarrow> m\<lparr>m_maskHost := s_host (u_Secret u)\<rparr> | None \<Rightarrow> m);
               m = (if m_maskHost m = [] \<and> filter u_Enabled users \<noteq> []
                    then m\<lparr>m_maskHost := ''www.google.com''\<rparr> else m)
           in (Ok (), m))"

definition NewManager :: "User list \<Rightarrow> string list \<Rightarrow> string list \<Rightarrow> (user_error, Manager) res" where
  "NewManager users allowedJA3 allowedJA4 =
     (if users = [] then Err NeedUser
      else case replaceUsers users \<lparr>m_users = [], m_maskHost = [], m_ja3Allow = nonempty allowedJA3,
                  m_ja4Allow = nonempty allowedJA4\<rparr> of
             (r, m) \<Rightarrow> bind_res r (\<lambda>_. Ok m))"

definition MaskHost :: "Manager \<Rightarrow> string" where
  "MaskHost m = m_maskHost m"

definition Users :: "Manager \<Rightarrow> User list" where
  "Users m = m_users m"

section \<open>Views\<close>

record UserView =
  v_Name :: string
  v_Secret :: string
  v_Host :: string
  v_Enabled :: bool
  v_TGLink :: string

definition toView :: "User \<Rightarrow> string \<Rightarrow> int \<Rightarrow> UserView" where
  "toView u server port =
     (let secret = EncodeHex (u_Secret u) in
      \<lparr>v_Name = u_Name u, v_Secret = secret, v_Host = s_host (u_Secret u), v_Enabled = u_Enabled u,
       v_TGLink = (if server \<noteq> [] \<and> port > 0
         then ''tg://proxy?server='' @ server @ ''&port='' @ dec_int port @ ''&secret='' @ secret else [])\<rparr>)"

definition ListViews :: "Manager \<Rightarrow> string \<Rightarrow> int \<Rightarrow> UserView list" where
  "ListViews m server port = map (\<lambda>u. toView u server port) (m_users m)"

definition GetView :: "string \<Rightarrow> string \<Rightarrow> int \<Rightarrow> Manager \<Rightarrow> UserView option" where
  "GetView name server port m =
     map_option (\<lambda>u. toView u server port) (find (\<lambda>u. u_Name u = name) (m_users m))"

section \<open>Matching\<close>

text \<open>The primitives the matching needs: HMAC, MD5, SHA-256, lower case and the key stream.\<close>

record prims =
  pr_hmac :: "bytes \<Rightarrow> bytes \<Rightarrow> bytes"
  pr_md5 :: "bytes \<Rightarrow> bytes"
  pr_sha :: "bytes \<Rightarrow> bytes"
  pr_lower :: "string \<Rightarrow> string"
  pr_ks :: keystream

definition checkFingerprints :: "prims \<Rightarrow> client_hello \<Rightarrow> Manager \<Rightarrow> (user_error, unit) res" where
  "checkFingerprints p ch m =
     bind_res
       (if m_ja3Allow m \<noteq> [] then
          bind_res (JA3 (pr_md5 p) (ch_raw ch)) (\<lambda>ja3.
            guard_res (ja3 \<in> set (m_ja3Allow m)) (JA3NotAllowed ja3))
        else Ok ())
     (\<lambda>_. if m_ja4Allow m \<noteq> [] then
            bind_res (JA4 (pr_sha p) (pr_lower p) (ch_raw ch)) (\<lambda>ja4.
              guard_res (ja4 \<in> set (m_ja4Allow m)) (JA4NotAllowed ja4))
          else Ok ())"

fun match_hello_loop ::
  "prims \<Rightarrow> int \<Rightarrow> client_hello \<Rightarrow> User list \<Rightarrow> (user_error, User) res" where
  "match_hello_loop p now ch [] = Err SecretNotFound"
| "match_hello_loop p now ch (u # us) =
     (if \<not> u_Enabled u \<or> \<not> IsFakeTLS (u_Secret u) then match_hello_loop p now ch us
      else case ValidateClientHello (pr_hmac p) now ch (s_key (u_Secret u)) (s_host (u_Secret u)) of
             Ok _ \<Rightarrow> Ok u
           | Err _ \<Rightarrow> match_hello_loop p now ch us
           | Panic \<Rightarrow> Panic)"

definition MatchClientHello :: "prims \<Rightarrow> int \<Rightarrow> client_hello \<Rightarrow> Manager \<Rightarrow> (user_error, User) res" where
  "MatchClientHello p now ch m =
     bind_res (checkFingerprints p ch m) (\<lambda>_. match_hello_loop p now ch (m_users m))"

fun match_secure_loop :: "prims \<Rightarrow> bytes \<Rightarrow> User list \<Rightarrow> (user_error, User \<times> int) res" where
  "match_secure_loop p header [] = Err SecureNotFound"
| "match_secure_loop p header (u # us) =
     (if \<not> u_Enabled u \<or> \<not> IsSecure (u_Secret u) then match_secure_loop p header us
      else case TryParseHeader (pr_ks p) (pr_sha p) header (s_key (u_Secret u)) of
             Some dcID \<Rightarrow> Ok (u, dcID)
           | None \<Rightarrow> match_secure_loop p header us)"

definition MatchSecureHeader :: "prims \<Rightarrow> bytes \<Rightarrow> Manager \<Rightarrow> (user_error, User \<times> int) res" where
  "MatchSecureHeader p header m = match_secure_loop p header (m_users m)"

section \<open>Changing the users\<close>

definition AddUser :: "User \<Rightarrow> Manager \<Rightarrow> (user_error, unit) res \<times> Manager" where
  "AddUser u m =
     (if u_Name u \<in> u_Name ` set (m_users m) then (Err (UserExists (u_Name u)), m)
      else let m = m\<lparr>m_users := m_users m @ [u]\<rparr> in
        (Ok (), if u_Enabled u \<and> s_host (u_Secret u) \<noteq> []
                then m\<lparr>m_maskHost := s_host (u_Secret u)\<rparr> else m))"

text \<open>The mask host that the loop leaves: the last enabled user's host that is not empty.\<close>

fun last_host :: "User list \<Rightarrow> string \<Rightarrow> string" where
  "last_host [] h = h"
| "last_host (u # us) h =
     last_host us (if u_Enabled u \<and> s_host (u_Secret u) \<noteq> [] then s_host (u_Secret u) else h)"

definition refreshMaskHost :: "Manager \<Rightarrow> (user_error, unit) res \<times> Manager" where
  "refreshMaskHost m =
     (let m = m\<lparr>m_maskHost := last_host (m_users m) []\<rparr> in
      if filter u_Enabled (m_users m) = [] then (Err NoActiveUsers, m)
      else if m_maskHost m = [] then (Ok (), m\<lparr>m_maskHost := ''www.google.com''\<rparr>)
      else (Ok (), m))"

fun index_of :: "string \<Rightarrow> User list \<Rightarrow> nat option" where
  "index_of name [] = None"
| "index_of name (u # us) = (if u_Name u = name then Some 0 else map_option Suc (index_of name us))"

definition UpdateUser ::
  "string \<Rightarrow> secret option \<Rightarrow> bool option \<Rightarrow> Manager \<Rightarrow> (user_error, User) res \<times> Manager" where
  "UpdateUser name secret enabled m =
     (case index_of name (m_users m) of
        None \<Rightarrow> (Err (UserNotFound name), m)
      | Some i \<Rightarrow>
          let u = m_users m ! i;
              u = (case secret of Some s \<Rightarrow> u\<lparr>u_Secret := s\<rparr> | None \<Rightarrow> u);
              u = (case enabled of Some e \<Rightarrow> u\<lparr>u_Enabled := e\<rparr> | None \<Rightarrow> u)
          in (case refreshMaskHost (m\<lparr>m_users := (m_users m)[i := u]\<rparr>) of
                (r, m') \<Rightarrow> (bind_res r (\<lambda>_. Ok u), m')))"

definition RemoveUser :: "string \<Rightarrow> Manager \<Rightarrow> (user_error, unit) res \<times> Manager" where
  "RemoveUser name m =
     (if length (m_users m) \<le> 1 then (Err LastUser, m)
      else case index_of name (m_users m) of
             None \<Rightarrow> (Err (UserNotFound name), m)
           | Some i \<Rightarrow>
               refreshMaskHost (m\<lparr>m_users := take i (m_users m) @ drop (Suc i) (m_users m)\<rparr>))"

definition Reload :: "User list \<Rightarrow> Manager \<Rightarrow> (user_error, unit) res \<times> Manager" where
  "Reload users m = replaceUsers users m"

definition SetAllowedJA3 :: "string list \<Rightarrow> Manager \<Rightarrow> Manager" where
  "SetAllowedJA3 allowed m = m\<lparr>m_ja3Allow := nonempty allowed\<rparr>"

definition SetAllowedJA4 :: "string list \<Rightarrow> Manager \<Rightarrow> Manager" where
  "SetAllowedJA4 allowed m = m\<lparr>m_ja4Allow := nonempty allowed\<rparr>"

definition SetFingerprints :: "string list \<Rightarrow> string list \<Rightarrow> Manager \<Rightarrow> Manager" where
  "SetFingerprints ja3 ja4 m = SetAllowedJA4 ja4 (SetAllowedJA3 ja3 m)"

text \<open>Fresh secrets; \<open>rnd\<close> are the 16 bytes of the random source, \<open>None\<close> when it fails.\<close>

definition GenerateSecret :: "bytes option \<Rightarrow> string \<Rightarrow> (user_error, secret \<times> string) res" where
  "GenerateSecret rnd host =
     (case rnd of
        None \<Rightarrow> Err UserRandFailed
      | Some key \<Rightarrow>
          let s = \<lparr>s_key = key, s_host = (if host = [] then ''storage.googleapis.com'' else host),
                   s_mode = FakeTLSPrefix\<rparr>
          in Ok (s, EncodeHex s))"

definition GenerateSecureSecret :: "bytes option \<Rightarrow> (user_error, secret \<times> string) res" where
  "GenerateSecureSecret rnd =
     (case rnd of
        None \<Rightarrow> Err UserRandFailed
      | Some key \<Rightarrow>
          let s = \<lparr>s_key = key, s_host = [], s_mode = SecurePrefix\<rparr> in Ok (s, EncodeHex s))"

section \<open>Facts\<close>

definition hello_valid :: "prims \<Rightarrow> int \<Rightarrow> client_hello \<Rightarrow> User \<Rightarrow> bool" where
  "hello_valid p now ch u \<longleftrightarrow> u_Enabled u \<and> IsFakeTLS (u_Secret u)
     \<and> ValidateClientHello (pr_hmac p) now ch (s_key (u_Secret u)) (s_host (u_Secret u)) = Ok ()"

definition hello_refused :: "prims \<Rightarrow> int \<Rightarrow> client_hello \<Rightarrow> User \<Rightarrow> bool" where
  "hello_refused p now ch u \<longleftrightarrow> \<not> u_Enabled u \<or> \<not> IsFakeTLS (u_Secret u)
     \<or> (\<exists>e. ValidateClientHello (pr_hmac p) now ch (s_key (u_Secret u)) (s_host (u_Secret u)) = Err e)"

lemma match_hello_loop_Ok:
  "match_hello_loop p now ch us = Ok u \<longleftrightarrow>
     (\<exists>pre post. us = pre @ u # post \<and> (\<forall>v \<in> set pre. hello_refused p now ch v) \<and> hello_valid p now ch u)"
proof (induction us)
  case Nil
  then show ?case by simp
next
  case (Cons v us)
  have split: "(\<exists>pre post. v # us = pre @ u # post \<and> (\<forall>w \<in> set pre. hello_refused p now ch w) \<and> hello_valid p now ch u)
      \<longleftrightarrow> v = u \<and> hello_valid p now ch u \<or> hello_refused p now ch v
        \<and> (\<exists>pre post. us = pre @ u # post \<and> (\<forall>w \<in> set pre. hello_refused p now ch w) \<and> hello_valid p now ch u)"
    by (auto simp: Cons_eq_append_conv) (metis set_ConsD)+
  show ?case
    unfolding split
    using Cons by (auto simp: hello_refused_def hello_valid_def split: res.splits)
qed

lemma last_host_no_active: "filter u_Enabled us = [] \<Longrightarrow> last_host us h = h"
  by (induction us arbitrary: h) (auto split: if_splits)

lemma index_of_Some:
  "index_of name us = Some i \<Longrightarrow> i < length us \<and> u_Name (us ! i) = name"
  by (induction us arbitrary: i) (auto split: if_splits)

lemma refreshMaskHost_cases:
  "refreshMaskHost m = (r, m') \<Longrightarrow>
     m_users m' = m_users m \<and>
     (r = Err NoActiveUsers \<and> filter u_Enabled (m_users m) = [] \<and> m_maskHost m' = []
      \<or> r = Ok () \<and> filter u_Enabled (m_users m) \<noteq> [] \<and> m_maskHost m' \<noteq> [])"
  by (auto simp: refreshMaskHost_def Let_def last_host_no_active split: if_splits)

text \<open>The operations of the management API, and the manager after each.\<close>

datatype mgr_op =
    OpAdd User
  | OpUpdate string "secret option" "bool option"
  | OpRemove string
  | OpReload "User list"
  | OpFingerprints "string list" "string list"

fun mgr_apply :: "mgr_op \<Rightarrow> Manager \<Rightarrow> (user_error, unit) res \<times> Manager" where
  "mgr_apply (OpAdd u) m = AddUser u m"
| "mgr_apply (OpUpdate name s e) m =
     (case UpdateUser name s e m of (r, m') \<Rightarrow> (bind_res r (\<lambda>_. Ok ()), m'))"
| "mgr_apply (OpRemove name) m = RemoveUser name m"
| "mgr_apply (OpReload us) m = Reload us m"
| "mgr_apply (OpFingerprints ja3 ja4) m = (Ok (), SetFingerprints ja3 ja4 m)"

text \<open>A usable manager: distinct names, an enabled user, a mask host, no empty fingerprint.\<close>

definition mgr_inv :: "Manager \<Rightarrow> bool" where
  "mgr_inv m \<longleftrightarrow> distinct (map u_Name (m_users m)) \<and> filter u_Enabled (m_users m) \<noteq> []
     \<and> m_maskHost m \<noteq> [] \<and> [] \<notin> set (m_ja3Allow m) \<and> [] \<notin> set (m_ja4Allow m)"

lemma replaceUsers_inv:
  assumes "replaceUsers users m = (Ok (), m')" "distinct (map u_Name users)"
    "[] \<notin> set (m_ja3Allow m)" "[] \<notin> set (m_ja4Allow m)"
  shows "mgr_inv m'"
  using assms by (auto simp: replaceUsers_def mgr_inv_def Let_def find_None_iff find_Some_iff
      split: if_splits option.splits)

lemma refresh_inv:
  assumes "refreshMaskHost m = (Ok (), m')" "distinct (map u_Name (m_users m))"
    "[] \<notin> set (m_ja3Allow m)" "[] \<notin> set (m_ja4Allow m)"
  shows "mgr_inv m'"
proof -
  have "m_ja3Allow m' = m_ja3Allow m" "m_ja4Allow m' = m_ja4Allow m"
    using assms(1) by (auto simp: refreshMaskHost_def Let_def split: if_splits)
  with refreshMaskHost_cases [OF assms(1)] assms(2-4) show ?thesis
    by (auto simp: mgr_inv_def)
qed

lemma map_update_same: "f y = f (xs ! i) \<Longrightarrow> i < length xs \<Longrightarrow> map f (xs[i := y]) = map f xs"
  by (simp add: map_update list_update_same_conv)

lemma mgr_apply_inv:
  assumes "mgr_inv m" "mgr_apply op m = (r, m')" "\<And>us. op = OpReload us \<Longrightarrow> distinct (map u_Name us)"
  shows "mgr_inv m' \<or> r = Err NoActiveUsers \<and> filter u_Enabled (m_users m') = [] \<and> m_maskHost m' = []"
proof (cases op)
  case (OpAdd u)
  with assms(1,2) show ?thesis
    by (auto simp: AddUser_def mgr_inv_def Let_def split: if_splits)
next
  case (OpUpdate name s e)
  show ?thesis
  proof (cases "index_of name (m_users m)")
    case None
    with OpUpdate assms show ?thesis by (simp add: UpdateUser_def)
  next
    case (Some i)
    define u where "u = (case e of Some b \<Rightarrow> (case s of Some s \<Rightarrow> (m_users m ! i)\<lparr>u_Secret := s\<rparr> | None \<Rightarrow> m_users m ! i)\<lparr>u_Enabled := b\<rparr>
      | None \<Rightarrow> (case s of Some s \<Rightarrow> (m_users m ! i)\<lparr>u_Secret := s\<rparr> | None \<Rightarrow> m_users m ! i))"
    let ?m = "m\<lparr>m_users := (m_users m)[i := u]\<rparr>"
    have "u_Name u = u_Name (m_users m ! i)"
      by (simp add: u_def split: option.splits)
    then have d: "distinct (map u_Name (m_users ?m))"
      using index_of_Some [OF Some] assms(1) by (simp add: mgr_inv_def map_update_same)
    obtain r1 where r1: "refreshMaskHost ?m = (r1, m')" "r = bind_res r1 (\<lambda>_. Ok ())"
      using assms(2) OpUpdate Some by (auto simp: UpdateUser_def u_def bind_res_assoc Let_def split: prod.splits)
    show ?thesis
      using refreshMaskHost_cases [OF r1(1)] r1 refresh_inv [OF _ d, of m'] assms(1)
      by (auto simp: mgr_inv_def)
  qed
next
  case (OpRemove name)
  show ?thesis
  proof (cases "length (m_users m) \<le> 1 \<or> index_of name (m_users m) = None")
    case True
    with OpRemove assms show ?thesis by (auto simp: RemoveUser_def split: if_splits)
  next
    case False
    then obtain i where i: "index_of name (m_users m) = Some i" "\<not> length (m_users m) \<le> 1"
      by auto
    let ?m = "m\<lparr>m_users := take i (m_users m) @ drop (Suc i) (m_users m)\<rparr>"
    have r: "refreshMaskHost ?m = (r, m')"
      using assms(2) OpRemove i by (simp add: RemoveUser_def)
    have "set (take i (map u_Name (m_users m))) \<inter> set (drop (Suc i) (map u_Name (m_users m))) = {}"
      using assms(1) by (intro set_take_disj_set_drop_if_distinct) (auto simp: mgr_inv_def)
    then have d: "distinct (map u_Name (m_users ?m))"
      using assms(1) by (simp add: mgr_inv_def take_map drop_map)
        (metis distinct_drop distinct_take drop_map take_map)
    show ?thesis
      using refreshMaskHost_cases [OF r] refresh_inv [OF _ d, of m'] r assms(1)
      by (auto simp: mgr_inv_def)
  qed
next
  case (OpReload us)
  with assms have "r = Ok () \<Longrightarrow> mgr_inv m'"
    using replaceUsers_inv [of us m m'] by (auto simp: Reload_def mgr_inv_def [of m])
  moreover have "r \<noteq> Ok () \<Longrightarrow> m' = m"
    using assms(2) OpReload by (auto simp: Reload_def replaceUsers_def Let_def split: if_splits)
  ultimately show ?thesis using assms(1) by blast
next
  case (OpFingerprints ja3 ja4)
  with assms show ?thesis
    by (auto simp: SetFingerprints_def SetAllowedJA3_def SetAllowedJA4_def mgr_inv_def nonempty_def)
qed

section \<open>Properties\<close>

text \<open>
  C21. \<open>MatchClientHello\<close> returns a user exactly when the white lists admit the ClientHello and that
  user is the first one in the list that is enabled, has a Fake TLS secret and whose key and host
  validate it, all users before it having been disabled, of the other kind, or refused. So a
  disabled user never gets in, and no user is matched without a valid HMAC.
\<close>

theorem match_returns_first_valid_user:
  "MatchClientHello p now ch m = Ok u \<longleftrightarrow> checkFingerprints p ch m = Ok () \<and>
     (\<exists>pre post. m_users m = pre @ u # post \<and> (\<forall>v \<in> set pre. hello_refused p now ch v)
       \<and> hello_valid p now ch u)"
  by (auto simp: MatchClientHello_def bind_res_Ok_iff match_hello_loop_Ok)

definition user_example :: "string \<Rightarrow> bool \<Rightarrow> User" where
  "user_example name e = \<lparr>u_Name = name, u_Secret = \<lparr>s_key = replicate 16 1, s_host = ''a.b'', s_mode = FakeTLSPrefix\<rparr>,
     u_Enabled = e\<rparr>"

definition prims_example :: prims where
  "prims_example = \<lparr>pr_hmac = \<lambda>k m. replicate 32 9, pr_md5 = \<lambda>m. take 16 m, pr_sha = \<lambda>m. take 32 m,
     pr_lower = to_lower, pr_ks = ks_example\<rparr>"

definition mgr_example :: Manager where
  "mgr_example = \<lparr>m_users = [user_example ''a'' False, user_example ''b'' True], m_maskHost = ''a.b'',
     m_ja3Allow = [], m_ja4Allow = []\<rparr>"

lemma be_val_zeros: "be_val (replicate n 0) = 0"
  by (induction n) auto

lemma hello_valid_example: "hello_valid prims_example 0 ch_example (user_example name True)"
proof -
  have "SNI ch_example = (Ok ''a.b'' :: (hello_error, string) res)"
    by (rule SNI_enc [OF hello_example_wf, of "[(43, [2, 3, 4])]" _ "[]" _ "\<lambda>n. 3"])
      (simp_all add: hello_example_def ch_example_def)
  moreover have "validateClientHello (\<lambda>k m. replicate 32 9) 0 ch_example (replicate 16 1) = Ok ()"
    by (simp add: validateClientHello_def ch_example_def raw_record_def enc_record_def
        enc_body_def hello_example_def randomOffset_def randomLength_def timestampSkewSeconds_def xor_bytes_def
        le_val_def be_val_zeros Let_def)
  ultimately have "ValidateClientHello (\<lambda>k m. replicate 32 9) 0 ch_example (replicate 16 1) ''a.b'' = Ok ()"
    by (simp add: ValidateClientHello_def)
  then show ?thesis
    by (simp add: hello_valid_def user_example_def prims_example_def IsFakeTLS_def)
qed

theorem match_returns_first_valid_user_witness:
  "MatchClientHello prims_example 0 ch_example mgr_example = Ok (user_example ''b'' True)"
proof -
  have v: "hello_valid prims_example 0 ch_example (user_example ''b'' True)"
    by (rule hello_valid_example)
  have f: "checkFingerprints prims_example ch_example mgr_example = Ok ()"
    by (simp add: checkFingerprints_def mgr_example_def)
  have "m_users mgr_example = [user_example ''a'' False] @ user_example ''b'' True # []"
    by (simp add: mgr_example_def)
  moreover have "\<forall>w \<in> set [user_example ''a'' False]. hello_refused prims_example 0 ch_example w"
    by (simp add: hello_refused_def user_example_def)
  ultimately show ?thesis
    using v f by (intro match_returns_first_valid_user [THEN iffD2] conjI exI [of _ "[user_example ''a'' False]"]
        exI [of _ "[]"])
qed



text \<open>
  What the API shows of a user can be used: the secret text of its view parses back to the
  user's secret, for every well-formed secret, and freshly generated secrets are well-formed, with
  the requested host or the default one.
\<close>

theorem view_secret_parses:
  "(secret_wf (u_Secret u) \<longrightarrow> ParseSecret (v_Secret (toView u server port)) = Ok (u_Secret u))
   \<and> (length key = KeyLength \<longrightarrow>
      (\<exists>s. GenerateSecret (Some key) host = Ok (s, EncodeHex s) \<and> secret_wf s \<and> ParseSecret (EncodeHex s) = Ok s
         \<and> s_host s = (if host = [] then ''storage.googleapis.com'' else host))
      \<and> (\<exists>s. GenerateSecureSecret (Some key) = Ok (s, EncodeHex s) \<and> secret_wf s
         \<and> ParseSecret (EncodeHex s) = Ok s))"
proof (intro conjI impI)
  show "secret_wf (u_Secret u) \<Longrightarrow> ParseSecret (v_Secret (toView u server port)) = Ok (u_Secret u)"
    by (simp add: toView_def Let_def ParseSecret_EncodeHex)
next
  assume l: "length key = KeyLength"
  show "\<exists>s. GenerateSecret (Some key) host = Ok (s, EncodeHex s) \<and> secret_wf s \<and> ParseSecret (EncodeHex s) = Ok s
      \<and> s_host s = (if host = [] then ''storage.googleapis.com'' else host)"
    using l by (auto simp: GenerateSecret_def Let_def secret_wf_def intro!: ParseSecret_EncodeHex)
  show "\<exists>s. GenerateSecureSecret (Some key) = Ok (s, EncodeHex s) \<and> secret_wf s \<and> ParseSecret (EncodeHex s) = Ok s"
    using l by (auto simp: GenerateSecureSecret_def Let_def secret_wf_def intro!: ParseSecret_EncodeHex)
qed

theorem view_secret_parses_witness:
  "ParseSecret (v_Secret (toView (user_example ''b'' True) [] 0)) = Ok (u_Secret (user_example ''b'' True))"
  using view_secret_parses [of "user_example ''b'' True" "[]" 0] 
  by (simp add: secret_wf_def user_example_def KeyLength_def)

text \<open>
  The mask host after a reload: the host of the first enabled user that has one; if none
  has, the previous mask host stays, even though its user is gone; only a manager that never had one
  falls back to the built-in name.
\<close>

theorem reload_mask_host:
  assumes "Reload users m = (Ok (), m')"
  shows "m_users m' = users \<and> MaskHost m' =
    (case find (\<lambda>u. u_Enabled u \<and> s_host (u_Secret u) \<noteq> []) users of
       Some u \<Rightarrow> s_host (u_Secret u)
     | None \<Rightarrow> if MaskHost m = [] then ''www.google.com'' else MaskHost m)"
proof (cases "find (\<lambda>u. u_Enabled u \<and> s_host (u_Secret u) \<noteq> []) users")
  case None
  with assms show ?thesis
    by (auto simp: Reload_def replaceUsers_def MaskHost_def Let_def split: if_splits)
next
  case (Some u)
  then have "s_host (u_Secret u) \<noteq> []"
    by (auto simp: find_Some_iff)
  with Some assms show ?thesis
    by (auto simp: Reload_def replaceUsers_def MaskHost_def Let_def split: if_splits)
qed

definition user_dd :: User where
  "user_dd = \<lparr>u_Name = ''dd'', u_Secret = \<lparr>s_key = replicate 16 1, s_host = [], s_mode = SecurePrefix\<rparr>, u_Enabled = True\<rparr>"

theorem reload_mask_host_witness:
  "\<exists>m'. Reload [user_dd] mgr_example = (Ok (), m') \<and> m_users m' = [user_dd] \<and> MaskHost m' = ''a.b''"
proof -
  have r: "Reload [user_dd] mgr_example = (Ok (), mgr_example\<lparr>m_users := [user_dd]\<rparr>)"
    by (simp add: Reload_def replaceUsers_def user_dd_def mgr_example_def Let_def)
  from reload_mask_host [OF r] r show ?thesis
    by (simp add: user_dd_def mgr_example_def MaskHost_def)
qed

end
