(* ===== verification/RelayTunnel.thy ===== *)
theory RelayTunnel
  imports Limiter
begin

text \<open>
  The encrypted tunnel between a front and a back proxy, \<open>internal/relay/tunnel.go\<close>: the PHRP
  handshake, and the connection that carries AES-GCM frames. HMAC-SHA256 is the argument \<open>hmac\<close>
  (key, message); \<open>seal\<close> and \<open>unseal\<close> are AES-GCM (key, nonce, text). \<open>to4\<close> is \<open>net.ParseIP(s).To4()\<close>.
  What the proofs use of them: \<open>unseal\<close> undoes \<open>seal\<close>, \<open>seal\<close> adds a 16-byte tag, the HMAC has 32
  bytes and an IPv4 address has four. The derived key has 32 bytes, so \<open>aes.NewCipher\<close> accepts it.
\<close>

section \<open>The handshake\<close>

definition phrp_magic :: bytes where "phrp_magic = bytes_of_string ''PHRP''"
definition handshakeBaseLen :: nat where "handshakeBaseLen = 4 + 16 + 32 + 2"
definition handshakeLen :: nat where "handshakeLen = handshakeBaseLen + 4 + 2"
definition maxFrameLen :: nat where "maxFrameLen = 64 * 1024"

datatype relay_error = PskRequired | RelayDialFailed | RelayRandFailed | RelayWriteFailed
  | RelayIO io_error | ErrBadMagic | ErrBadAuth

record Meta =
  me_DCID :: int
  me_ClientIP :: string
  me_ClientPort :: int

record frameConn =
  fc_in :: stream
  fc_sink :: sink
  fc_key :: bytes
  fc_rbuf :: bytes
  fc_nonce :: "64 word"

definition deriveRelayKey :: "(bytes \<Rightarrow> bytes \<Rightarrow> bytes) \<Rightarrow> bytes \<Rightarrow> bytes \<Rightarrow> bytes" where
  "deriveRelayKey hmac psk nonce = hmac psk (bytes_of_string ''phantom-relay-v1'' @ nonce)"

fun leading_digits :: "string \<Rightarrow> int \<Rightarrow> int" where
  "leading_digits [] p = p"
| "leading_digits (c # cs) p =
     (let n = (of_char c :: int) in
      if n < 48 \<or> n > 57 then p else leading_digits cs (p * 10 + (n - 48)))"

definition parseClientAddr :: "string \<Rightarrow> string \<times> int" where
  "parseClientAddr remote =
     (if remote = [] then ([], 0)
      else case SplitHostPort remote of
             None \<Rightarrow> (remote, 0)
           | Some (host, portStr) \<Rightarrow> (host, leading_digits portStr 0))"

definition phrp_handshake ::
  "(bytes \<Rightarrow> bytes \<Rightarrow> bytes) \<Rightarrow> (string \<Rightarrow> bytes option) \<Rightarrow> bytes \<Rightarrow> bytes \<Rightarrow> int \<Rightarrow> string \<Rightarrow> bytes" where
  "phrp_handshake hmac to4 psk nonce dcID clientAddr =
     (let tag = hmac psk nonce; (clientIP, clientPort) = parseClientAddr clientAddr
      in phrp_magic @ nonce @ tag @ put_be 2 (uint16_of_int dcID)
         @ (case to4 clientIP of Some ip4 \<Rightarrow> ip4 | None \<Rightarrow> [0, 0, 0, 0])
         @ put_be 2 (uint16_of_int clientPort))"

text \<open>\<open>DialFront\<close>; \<open>conn\<close> is what dialling gives, \<open>rnd\<close> the 16 bytes of the random source.\<close>

definition DialFront ::
  "(bytes \<Rightarrow> bytes \<Rightarrow> bytes) \<Rightarrow> (string \<Rightarrow> bytes option) \<Rightarrow> (stream \<times> sink) option \<Rightarrow> bytes option
     \<Rightarrow> bytes \<Rightarrow> int \<Rightarrow> string \<Rightarrow> (relay_error, frameConn) res" where
  "DialFront hmac to4 conn rnd psk dcID clientAddr =
     (if psk = [] then Err PskRequired
      else case conn of
        None \<Rightarrow> Err RelayDialFailed
      | Some (s, sk) \<Rightarrow>
          (case rnd of
             None \<Rightarrow> Err RelayRandFailed
           | Some nonce \<Rightarrow>
               (case sink_write (phrp_handshake hmac to4 psk nonce dcID clientAddr) sk of
                  (False, _) \<Rightarrow> Err RelayWriteFailed
                | (True, sk') \<Rightarrow>
                    Ok \<lparr>fc_in = s, fc_sink = sk', fc_key = deriveRelayKey hmac psk nonce, fc_rbuf = [],
                        fc_nonce = 0\<rparr>)))"

definition ip4_string :: "bytes \<Rightarrow> string" where
  "ip4_string bs = dec_nat (unat (bs ! 0)) @ ''.'' @ dec_nat (unat (bs ! 1)) @ ''.''
     @ dec_nat (unat (bs ! 2)) @ ''.'' @ dec_nat (unat (bs ! 3))"

text \<open>
  \<open>acceptBack\<close>. The six bytes with the client's address are read under a deadline of 200 ms:
  \<open>arrived\<close> is how many of the bytes after the base handshake arrive in that time, and those that do
  are consumed even when they are fewer than six.
\<close>

definition acceptBack ::
  "(bytes \<Rightarrow> bytes \<Rightarrow> bytes) \<Rightarrow> nat \<Rightarrow> stream \<Rightarrow> sink \<Rightarrow> bytes
     \<Rightarrow> (relay_error, int \<times> frameConn \<times> Meta) res" where
  "acceptBack hmac arrived s sk psk =
     (case read_full handshakeBaseLen s of
        (Inl e, _) \<Rightarrow> Err (RelayIO e)
      | (Inr hdr, s1) \<Rightarrow>
          if take 4 hdr \<noteq> phrp_magic then Err ErrBadMagic
          else let nonce = take 16 (drop 4 hdr); tag = take 32 (drop 20 hdr) in
            if tag \<noteq> hmac psk nonce then Err ErrBadAuth
            else let dcID = int16_of (be_val (take 2 (drop 52 hdr)));
                     n = min arrived (handshakeLen - handshakeBaseLen);
                     extra = take n (st_in s1);
                     s2 = s1\<lparr>st_in := drop n (st_in s1)\<rparr>;
                     meta = (if length extra = handshakeLen - handshakeBaseLen
                             then \<lparr>me_DCID = 0, me_ClientIP = ip4_string (take 4 extra),
                                   me_ClientPort = int (be_val (drop 4 extra))\<rparr>
                             else \<lparr>me_DCID = 0, me_ClientIP = [], me_ClientPort = 0\<rparr>)
                 in Ok (dcID, \<lparr>fc_in = s2, fc_sink = sk, fc_key = deriveRelayKey hmac psk nonce,
                               fc_rbuf = [], fc_nonce = 0\<rparr>, meta))"

text \<open>
  What \<open>ServeBack\<close> does with one accepted connection; \<open>handler\<close> gets the metadata, with the data
  centre set, and the framed connection, and gives the value its session ends with.
\<close>

definition ServeBack_conn ::
  "(bytes \<Rightarrow> bytes \<Rightarrow> bytes) \<Rightarrow> (Meta \<Rightarrow> frameConn \<Rightarrow> 'a) \<Rightarrow> nat \<Rightarrow> stream \<Rightarrow> sink \<Rightarrow> bytes
     \<Rightarrow> (relay_error, 'a) res" where
  "ServeBack_conn hmac handler arrived s sk psk =
     (if psk = [] then Err PskRequired
      else case acceptBack hmac arrived s sk psk of
             Err e \<Rightarrow> Err e
           | Panic \<Rightarrow> Panic
           | Ok (dcID, framed, meta) \<Rightarrow> Ok (handler (meta\<lparr>me_DCID := dcID\<rparr>) framed))"

section \<open>Frames\<close>

definition frame_nonce :: "64 word \<Rightarrow> bytes" where
  "frame_nonce n = replicate 4 0 @ put_be 8 (unat n)"

definition frame_of ::
  "(bytes \<Rightarrow> bytes \<Rightarrow> bytes \<Rightarrow> bytes) \<Rightarrow> bytes \<Rightarrow> 64 word \<Rightarrow> bytes \<Rightarrow> bytes" where
  "frame_of seal key n payload =
     (let sealed = frame_nonce n @ seal key (frame_nonce n) payload
      in put_be 4 (length sealed) @ sealed)"

definition writeFrameLocked ::
  "(bytes \<Rightarrow> bytes \<Rightarrow> bytes \<Rightarrow> bytes) \<Rightarrow> bytes \<Rightarrow> frameConn \<Rightarrow> bool \<times> frameConn" where
  "writeFrameLocked seal payload c =
     (let c = c\<lparr>fc_nonce := fc_nonce c + 1\<rparr> in
      case sink_write (frame_of seal (fc_key c) (fc_nonce c) payload) (fc_sink c) of
        (ok, sk) \<Rightarrow> (ok, c\<lparr>fc_sink := sk\<rparr>))"

text \<open>\<open>Write\<close>: the bytes accepted and whether a frame failed.\<close>

function frame_write ::
  "(bytes \<Rightarrow> bytes \<Rightarrow> bytes \<Rightarrow> bytes) \<Rightarrow> bytes \<Rightarrow> nat \<Rightarrow> frameConn \<Rightarrow> nat \<times> bool \<times> frameConn" where
  "frame_write seal b sent c =
     (if b = [] then (sent, True, c)
      else let chunk = (if length b > maxFrameLen - 32 then take (maxFrameLen - 32) b else b) in
        case writeFrameLocked seal chunk c of
          (False, c') \<Rightarrow> (sent, False, c')
        | (True, c') \<Rightarrow> frame_write seal (drop (length chunk) b) (sent + length chunk) c')"
  by pat_completeness auto
termination
  by (relation "measure (\<lambda>(seal, b, _). length b)") (auto simp: maxFrameLen_def)

declare frame_write.simps [simp del]

definition read_frame ::
  "(bytes \<Rightarrow> bytes \<Rightarrow> bytes \<Rightarrow> bytes option) \<Rightarrow> bytes \<Rightarrow> stream \<Rightarrow> (io_error + bytes) \<times> stream" where
  "read_frame unseal key s =
     (case read_full 4 s of
        (Inl e, s1) \<Rightarrow> (Inl e, s1)
      | (Inr hdr, s1) \<Rightarrow>
          let n = be_val hdr in
          if n = 0 \<or> n > maxFrameLen then (Inl BadFrameSize, s1)
          else (case read_full n s1 of
                  (Inl e, s2) \<Rightarrow> (Inl e, s2)
                | (Inr frame, s2) \<Rightarrow>
                    if length frame < 12 then (Inl BadFrameSize, s2)
                    else (case unseal key (take 12 frame) (drop 12 frame) of
                            None \<Rightarrow> (Inl BadFrameAuth, s2)
                          | Some plain \<Rightarrow> (Inr plain, s2))))"

lemma read_frame_shrinks: "read_frame unseal key s = (Inr p, s') \<Longrightarrow> length (st_in s') < length (st_in s)"
  by (auto simp: read_frame_def read_full_def Let_def split: if_splits option.splits)

text \<open>Frames with an empty text are skipped.\<close>

function next_frame ::
  "(bytes \<Rightarrow> bytes \<Rightarrow> bytes \<Rightarrow> bytes option) \<Rightarrow> bytes \<Rightarrow> stream \<Rightarrow> (io_error + bytes) \<times> stream" where
  "next_frame unseal key s =
     (case read_frame unseal key s of
        (Inl e, s') \<Rightarrow> (Inl e, s')
      | (Inr plain, s') \<Rightarrow> if plain = [] then next_frame unseal key s' else (Inr plain, s'))"
  by pat_completeness auto
termination
  by (relation "measure (\<lambda>(unseal, key, s). length (st_in s))") (auto dest: read_frame_shrinks [OF sym])

declare next_frame.simps [simp del]

definition frame_read ::
  "(bytes \<Rightarrow> bytes \<Rightarrow> bytes \<Rightarrow> bytes option) \<Rightarrow> nat \<Rightarrow> frameConn \<Rightarrow> (io_error + bytes) \<times> frameConn" where
  "frame_read unseal n c =
     (if fc_rbuf c \<noteq> [] then (Inr (take n (fc_rbuf c)), c\<lparr>fc_rbuf := drop n (fc_rbuf c)\<rparr>)
      else case next_frame unseal (fc_key c) (fc_in c) of
             (Inl e, s) \<Rightarrow> (Inl e, c\<lparr>fc_in := s\<rparr>)
           | (Inr plain, s) \<Rightarrow> (Inr (take n plain), c\<lparr>fc_in := s, fc_rbuf := drop n plain\<rparr>))"

section \<open>What a frame stream carries\<close>

text \<open>Specification: the texts of the good frames at the head of a stream.\<close>

function frames_plain :: "(bytes \<Rightarrow> bytes \<Rightarrow> bytes \<Rightarrow> bytes option) \<Rightarrow> bytes \<Rightarrow> stream \<Rightarrow> bytes" where
  "frames_plain unseal key s =
     (case read_frame unseal key s of
        (Inl e, s') \<Rightarrow> []
      | (Inr plain, s') \<Rightarrow> plain @ frames_plain unseal key s')"
  by pat_completeness auto
termination
  by (relation "measure (\<lambda>(unseal, key, s). length (st_in s))") (auto dest: read_frame_shrinks [OF sym])

declare frames_plain.simps [simp del]

lemma next_frame_plain:
  "case next_frame unseal key s of
     (Inr p, s') \<Rightarrow> frames_plain unseal key s = p @ frames_plain unseal key s' \<and> p \<noteq> []
   | (Inl e, s') \<Rightarrow> frames_plain unseal key s = []"
proof (induction unseal key s rule: next_frame.induct)
  case (1 unseal key s)
  show ?case
  proof (cases "read_frame unseal key s")
    case (Pair r s')
    show ?thesis
    proof (cases r)
      case (Inl e)
      with Pair show ?thesis
        by (simp add: next_frame.simps [of unseal key s] frames_plain.simps [of unseal key s])
    next
      case (Inr plain)
      with Pair have f: "frames_plain unseal key s = plain @ frames_plain unseal key s'"
        "next_frame unseal key s = (if plain = [] then next_frame unseal key s' else (Inr plain, s'))"
        by (simp_all add: frames_plain.simps [of unseal key s] next_frame.simps [of unseal key s])
      with 1 [OF Pair [symmetric] Inr] show ?thesis
        by (cases "plain = []") (auto split: prod.splits sum.splits)
    qed
  qed
qed

interpretation frame_reader: byte_reader "frame_read unseal"
  "\<lambda>c. fc_rbuf c @ frames_plain unseal (fc_key c) (fc_in c)" "\<lambda>c. length (st_in (fc_in c))" for unseal
proof unfold_locales
  fix n c xs and c' :: frameConn
  assume "frame_read unseal n c = (Inr xs, c')"
  then show "xs @ fc_rbuf c' @ frames_plain unseal (fc_key c') (fc_in c') =
      fc_rbuf c @ frames_plain unseal (fc_key c) (fc_in c) \<and> length xs \<le> n"
    using next_frame_plain [of unseal "fc_key c" "fc_in c"]
    by (auto simp: frame_read_def split: if_splits prod.splits sum.splits)
next
  fix n :: nat and c :: frameConn
  assume "fc_rbuf c @ frames_plain unseal (fc_key c) (fc_in c) \<noteq> []" "0 < n"
  then show "\<exists>xs c'. frame_read unseal n c = (Inr xs, c')
      \<and> (xs \<noteq> [] \<or> length (st_in (fc_in c')) < length (st_in (fc_in c)))"
    using next_frame_plain [of unseal "fc_key c" "fc_in c"]
    by (auto simp: frame_read_def split: prod.splits sum.splits)
qed

lemma frame_nonce_length [simp]: "length (frame_nonce n) = 12"
  by (simp add: frame_nonce_def)

text \<open>A written frame is read back, whatever follows it.\<close>

lemma read_frame_of:
  assumes "\<And>k n p. unseal k n (seal k n p) = Some p" "\<And>k n p. length (seal k n p) = length p + 16"
    and "length p \<le> maxFrameLen - 32" "st_in s = frame_of seal key n p @ rest"
  shows "read_frame unseal key s = (Inr p, s\<lparr>st_in := rest\<rparr>)"
proof -
  let ?sealed = "frame_nonce n @ seal key (frame_nonce n) p"
  have l: "length ?sealed = 28 + length p" "28 + length p \<le> 65536" "28 + length p < 4294967296"
    using assms(2,3) by (simp_all add: maxFrameLen_def)
  have h: "read_full 4 s = (Inr (put_be 4 (length ?sealed)), s\<lparr>st_in := ?sealed @ rest\<rparr>)"
    using assms(4) by (intro read_full_append) (simp_all add: frame_of_def Let_def)
  have b: "be_val (put_be 4 (length ?sealed)) = length ?sealed"
    using l by (simp add: codec_simps)
  have f: "read_full (length ?sealed) (s\<lparr>st_in := ?sealed @ rest\<rparr>) = (Inr ?sealed, s\<lparr>st_in := rest\<rparr>)"
    using read_full_append [of ?sealed "length ?sealed" "s\<lparr>st_in := ?sealed @ rest\<rparr>" rest] by simp
  show ?thesis
    unfolding read_frame_def h Let_def prod.case sum.case b f
    using l by (simp add: assms(1) maxFrameLen_def)
qed

text \<open>Specification: the frames of a list of texts, numbered upwards from \<open>n + 1\<close>.\<close>

fun frame_list :: "(bytes \<Rightarrow> bytes \<Rightarrow> bytes \<Rightarrow> bytes) \<Rightarrow> bytes \<Rightarrow> 64 word \<Rightarrow> bytes list \<Rightarrow> bytes" where
  "frame_list seal key n [] = []"
| "frame_list seal key n (p # ps) = frame_of seal key (n + 1) p @ frame_list seal key (n + 1) ps"

lemma frames_plain_list:
  assumes "\<And>k n p. unseal k n (seal k n p) = Some p" "\<And>k n p. length (seal k n p) = length p + 16"
    and "\<forall>p \<in> set ps. length p \<le> maxFrameLen - 32" "st_in s = frame_list seal key n ps @ rest"
  shows "frames_plain unseal key s = concat ps @ frames_plain unseal key (s\<lparr>st_in := rest\<rparr>)"
  using assms(3,4)
proof (induction ps arbitrary: n s)
  case Nil
  then have "s = s\<lparr>st_in := rest\<rparr>" by simp
  then show ?case by simp
next
  case (Cons p ps)
  have "read_frame unseal key s = (Inr p, s\<lparr>st_in := frame_list seal key (n + 1) ps @ rest\<rparr>)"
    using Cons.prems by (intro read_frame_of [OF assms(1,2), where n = "n + 1"]) simp_all
  then have "frames_plain unseal key s = p @ frames_plain unseal key (s\<lparr>st_in := frame_list seal key (n + 1) ps @ rest\<rparr>)"
    by (simp add: frames_plain.simps [of unseal key s])
  with Cons.IH [of "s\<lparr>st_in := frame_list seal key (n + 1) ps @ rest\<rparr>" "n + 1"] Cons.prems(1) show ?case
    by simp
qed

text \<open>
  Specification of a write: numbered frames for the accepted bytes, and on failure a part of
  the next frame.
\<close>

lemma frame_write_spec:
  "frame_write seal b sent c = (n, ok, c') \<Longrightarrow>
     \<exists>ps part. sk_out (fc_sink c') = sk_out (fc_sink c) @ frame_list seal (fc_key c) (fc_nonce c) ps @ part
       \<and> concat ps = take (n - sent) b \<and> sent \<le> n \<and> n \<le> sent + length b
       \<and> (\<forall>p \<in> set ps. p \<noteq> [] \<and> length p \<le> maxFrameLen - 32)
       \<and> (ok \<longleftrightarrow> n = sent + length b) \<and> (ok \<longrightarrow> part = []) \<and> fc_key c' = fc_key c
       \<and> (sk_room (fc_sink c) = None \<longrightarrow> ok)"
proof (induction seal b sent c rule: frame_write.induct)
  case (1 seal b sent c)
  show ?case
  proof (cases "b = []")
    case True
    with 1(2) show ?thesis
      by (intro exI [of _ "[]"]) (simp add: frame_write.simps [of seal "[]"])
  next
    case False
    define chunk where "chunk = (if length b > maxFrameLen - 32 then take (maxFrameLen - 32) b else b)"
    have ck: "chunk \<noteq> []" "length chunk \<le> maxFrameLen - 32" "length chunk \<le> length b" "take (length chunk) b = chunk"
      using False by (auto simp: chunk_def maxFrameLen_def)
    let ?f = "frame_of seal (fc_key c) (fc_nonce c + 1) chunk"
    obtain ok1 sk where w: "sink_write ?f (fc_sink c) = (ok1, sk)" by force
    define c1 where "c1 = c\<lparr>fc_nonce := fc_nonce c + 1, fc_sink := sk\<rparr>"
    have c1: "fc_sink c1 = sk" "fc_nonce c1 = fc_nonce c + 1" "fc_key c1 = fc_key c"
      by (simp_all add: c1_def)
    have wl: "writeFrameLocked seal chunk c = (ok1, c1)"
      using w by (simp add: writeFrameLocked_def c1_def Let_def)
    show ?thesis
    proof (cases ok1)
      case ok: False
      then have "frame_write seal b sent c = (sent, False, c1)"
        using False wl by (subst frame_write.simps) (simp add: chunk_def [symmetric] Let_def)
      moreover have "sk_room (fc_sink c) \<noteq> None"
        using w ok by (auto simp: sink_write_def split: option.splits)
      moreover obtain part where "sk_out sk = sk_out (fc_sink c) @ part"
        using sink_write_out [OF w] by blast
      ultimately show ?thesis
        using 1(2) False c1 by (intro exI [of _ "[]"] exI [of _ part]) auto
    next
      case ok: True
      then have fw: "frame_write seal b sent c = frame_write seal (drop (length chunk) b) (sent + length chunk) c1"
        using False wl by (subst frame_write.simps) (simp add: chunk_def [symmetric] Let_def)
      have out: "sk_out sk = sk_out (fc_sink c) @ ?f" and room: "sk_room (fc_sink c) = None \<Longrightarrow> sk_room sk = None"
        using w ok by (auto dest: sink_write_ok simp: sink_write_def split: option.splits)
      obtain ps part where p: "sk_out (fc_sink c') = sk_out sk @ frame_list seal (fc_key c) (fc_nonce c + 1) ps @ part"
        "concat ps = take (n - (sent + length chunk)) (drop (length chunk) b)" "sent + length chunk \<le> n"
        "n \<le> sent + length chunk + length (drop (length chunk) b)"
        "\<forall>p \<in> set ps. p \<noteq> [] \<and> length p \<le> maxFrameLen - 32"
        "ok \<longleftrightarrow> n = sent + length chunk + length (drop (length chunk) b)" "ok \<longrightarrow> part = []"
        "fc_key c' = fc_key c" "sk_room sk = None \<longrightarrow> ok"
        using 1(1) [OF False chunk_def wl [symmetric] eqTrueI [OF ok] 1(2) [unfolded fw]] unfolding c1
        by (elim exE conjE) (rule that; assumption)
      have "concat (chunk # ps) = take (n - sent) b"
        using p(2,3) ck(4) take_add [of "length chunk" "n - (sent + length chunk)" b] by simp
      then show ?thesis
        using p ck out room by (intro exI [of _ "chunk # ps"] exI [of _ part]) auto
    qed
  qed
qed

section \<open>The two ends\<close>

lemma dial_front_ok:
  assumes "DialFront hmac to4 conn rnd psk dcID addr = Ok front"
  obtains s sk nonce sk' where "conn = Some (s, sk)" "rnd = Some nonce" "psk \<noteq> []"
    "sink_write (phrp_handshake hmac to4 psk nonce dcID addr) sk = (True, sk')"
    "front = \<lparr>fc_in = s, fc_sink = sk', fc_key = deriveRelayKey hmac psk nonce, fc_rbuf = [], fc_nonce = 0\<rparr>"
proof -
  from assms obtain s sk nonce where c: "conn = Some (s, sk)" "rnd = Some nonce" "psk \<noteq> []"
    by (auto simp: DialFront_def split: option.splits if_splits)
  obtain w sk' where w: "sink_write (phrp_handshake hmac to4 psk nonce dcID addr) sk = (w, sk')"
    by force
  with assms c that [OF c] show ?thesis
    by (cases w) (auto simp: DialFront_def)
qed

definition handshake_ip :: "(string \<Rightarrow> bytes option) \<Rightarrow> string \<Rightarrow> bytes" where
  "handshake_ip to4 addr = (case to4 (fst (parseClientAddr addr)) of Some ip4 \<Rightarrow> ip4 | None \<Rightarrow> [0, 0, 0, 0])"

lemma handshake_ip_length [simp]:
  "(\<And>h ip. to4 h = Some ip \<Longrightarrow> length ip = 4) \<Longrightarrow> length (handshake_ip to4 addr) = 4"
  by (simp add: handshake_ip_def split: option.splits)

lemma phrp_handshake_parts:
  "phrp_handshake hmac to4 psk nonce dcID addr =
     (phrp_magic @ nonce @ hmac psk nonce @ put_be 2 (uint16_of_int dcID))
     @ (handshake_ip to4 addr @ put_be 2 (uint16_of_int (snd (parseClientAddr addr))))"
  by (simp add: phrp_handshake_def handshake_ip_def Let_def case_prod_beta)

lemma phrp_magic_length [simp]: "length phrp_magic = 4"
  by (simp add: phrp_magic_def bytes_of_string_def)

lemma accept_handshake:
  assumes "length nonce = 16" "length (hmac psk nonce) = 32" "length ip = 4" "arrived \<ge> 6"
    and "- 32768 \<le> dcID" "dcID < 32768" "port < 65536"
    and "st_in s = (phrp_magic @ nonce @ hmac psk nonce @ put_be 2 (uint16_of_int dcID)) @ (ip @ put_be 2 port) @ rest"
  shows "acceptBack hmac arrived s sk psk =
    Ok (dcID, \<lparr>fc_in = s\<lparr>st_in := rest\<rparr>, fc_sink = sk, fc_key = deriveRelayKey hmac psk nonce, fc_rbuf = [],
               fc_nonce = 0\<rparr>, \<lparr>me_DCID = 0, me_ClientIP = ip4_string ip, me_ClientPort = int port\<rparr>)"
proof -
  let ?base = "phrp_magic @ nonce @ hmac psk nonce @ put_be 2 (uint16_of_int dcID)"
  have h: "read_full handshakeBaseLen s = (Inr ?base, s\<lparr>st_in := (ip @ put_be 2 port) @ rest\<rparr>)"
    using assms by (intro read_full_append) (simp_all add: handshakeBaseLen_def)
  have f: "take 4 ?base = phrp_magic" "take 16 (drop 4 ?base) = nonce" "take 32 (drop 20 ?base) = hmac psk nonce"
    "take 2 (drop 52 ?base) = put_be 2 (uint16_of_int dcID)"
    using assms(1,2) by simp_all
  have d: "int16_of (be_val (put_be 2 (uint16_of_int dcID))) = dcID"
    using assms(5,6) by (simp add: codec_simps)
  have x: "take 6 ((ip @ put_be 2 port) @ rest) = ip @ put_be 2 port" "drop 6 ((ip @ put_be 2 port) @ rest) = rest"
    "take 4 (ip @ put_be 2 port) = ip" "drop 4 (ip @ put_be 2 port) = put_be 2 port"
    using assms(3) by simp_all
  have n: "min arrived 6 = 6" "handshakeLen - handshakeBaseLen = 6"
    using assms(4) by (simp_all add: handshakeLen_def)
  have p: "be_val (put_be 2 port) = port"
    using assms(7) by (simp add: codec_simps)
  show ?thesis
    unfolding acceptBack_def h prod.case sum.case f n Let_def d
    using assms(3) by (simp add: x p del: append_assoc)
qed


definition seal_toy :: "bytes \<Rightarrow> bytes \<Rightarrow> bytes \<Rightarrow> bytes" where
  "seal_toy k n p = p @ replicate 16 (sum_list k + sum_list n)"

definition unseal_toy :: "bytes \<Rightarrow> bytes \<Rightarrow> bytes \<Rightarrow> bytes option" where
  "unseal_toy k n c =
     (if drop (length c - 16) c = replicate 16 (sum_list k + sum_list n) then Some (take (length c - 16) c) else None)"

definition hmac_relay :: "bytes \<Rightarrow> bytes \<Rightarrow> bytes" where
  "hmac_relay k m = replicate 32 (sum_list k + sum_list m)"

definition to4_example :: "string \<Rightarrow> bytes option" where
  "to4_example h = (if h = ''1.2.3.4'' then Some [1, 2, 3, 4] else None)"

lemma relay_examples:
  "unseal_toy k n (seal_toy k n p) = Some p" "length (seal_toy k n p) = length p + 16"
  "length (hmac_relay k m) = 32" "to4_example h = Some ip \<Longrightarrow> length ip = 4"
  by (auto simp: unseal_toy_def seal_toy_def hmac_relay_def to4_example_def split: if_splits)

lemma relay_address_example:
  "parseClientAddr ''1.2.3.4:443'' = (''1.2.3.4'', 443)"
  by (simp add: parseClientAddr_def SplitHostPort_def last_colon_def Let_def)

lemma dial_example:
  "\<exists>front. DialFront hmac_relay to4_example (Some (\<lparr>st_in = [], st_end = EOF\<rparr>, \<lparr>sk_out = [], sk_room = None\<rparr>))
       (Some (replicate 16 5)) [1, 2] (- 2) ''1.2.3.4:443'' = Ok front
     \<and> sk_room (fc_sink front) = None
     \<and> sk_out (fc_sink front) = phrp_handshake hmac_relay to4_example [1, 2] (replicate 16 5) (- 2) ''1.2.3.4:443''"
  by (simp add: DialFront_def sink_write_def)


definition back_example :: frameConn where
  "back_example = \<lparr>fc_in = \<lparr>st_in = [], st_end = EOF\<rparr>, fc_sink = \<lparr>sk_out = [], sk_room = None\<rparr>,
     fc_key = deriveRelayKey hmac_relay [1, 2] (replicate 16 5), fc_rbuf = [], fc_nonce = 0\<rparr>"

definition meta_example :: Meta where
  "meta_example = \<lparr>me_DCID = 0, me_ClientIP = ip4_string (handshake_ip to4_example ''1.2.3.4:443''), me_ClientPort = 443\<rparr>"

lemma accept_example:
  "acceptBack hmac_relay 6
      \<lparr>st_in = phrp_handshake hmac_relay to4_example [1, 2] (replicate 16 5) (- 2) ''1.2.3.4:443'', st_end = EOF\<rparr>
      \<lparr>sk_out = [], sk_room = None\<rparr> [1, 2] = Ok (- 2, back_example, meta_example)"
proof -
  have "uint16_of_int 443 = 443" by (simp add: uint16_of_int_def)
  then show ?thesis
    using accept_handshake [of "replicate 16 5" hmac_relay "[1, 2]" "handshake_ip to4_example ''1.2.3.4:443''" 6 "- 2" 443
        "\<lparr>st_in = phrp_handshake hmac_relay to4_example [1, 2] (replicate 16 5) (- 2) ''1.2.3.4:443'', st_end = EOF\<rparr>" "[]"]
    by (simp add: relay_examples phrp_handshake_parts relay_address_example back_example_def meta_example_def)
qed

text \<open>
  C37. Only a peer that can compute the HMAC of the shared key gets a framed connection: whatever
  arrives, when \<open>acceptBack\<close> succeeds the first 52 bytes are the magic, a 16-byte nonce and the tag
  of that nonce under the shared key, and the frame key is derived from the same nonce.
\<close>

theorem relay_requires_psk:
  assumes "acceptBack hmac arrived s sk psk = Ok (dcID, bkc, meta)"
  shows "\<exists>nonce dc rest. length nonce = 16 \<and> length dc = 2
     \<and> st_in s = phrp_magic @ nonce @ hmac psk nonce @ dc @ rest
     \<and> dcID = int16_of (be_val dc) \<and> fc_key bkc = deriveRelayKey hmac psk nonce
     \<and> (\<exists>k \<le> 6. st_in (fc_in bkc) = drop k rest)"
proof -
  from assms obtain hdr s1 where r: "read_full handshakeBaseLen s = (Inr hdr, s1)"
    by (auto simp: acceptBack_def split: prod.splits sum.splits)
  then have l: "length hdr = 54" "st_in s = hdr @ st_in s1"
    by (auto simp: read_full_def handshakeBaseLen_def split: if_splits)
  have t: "take 4 hdr = phrp_magic" "take 32 (drop 20 hdr) = hmac psk (take 16 (drop 4 hdr))"
    and res: "dcID = int16_of (be_val (take 2 (drop 52 hdr)))"
      "fc_key bkc = deriveRelayKey hmac psk (take 16 (drop 4 hdr))"
      "st_in (fc_in bkc) = drop (min arrived 6) (st_in s1)"
    using assms r by (auto simp: acceptBack_def Let_def handshakeLen_def split: if_splits)
  have "hdr = take 4 hdr @ take 16 (drop 4 hdr) @ take 32 (drop 20 hdr) @ take 2 (drop 52 hdr)"
    using l(1) append_take_drop_id [of 4 hdr] append_take_drop_id [of 16 "drop 4 hdr"]
      append_take_drop_id [of 32 "drop 20 hdr"] by simp
  then have "st_in s = phrp_magic @ take 16 (drop 4 hdr) @ hmac psk (take 16 (drop 4 hdr)) @ take 2 (drop 52 hdr) @ st_in s1"
    using l(2) t by (metis append.assoc)
  moreover have "\<exists>k \<le> 6. st_in (fc_in bkc) = drop k (st_in s1)"
    using res(3) by (intro exI [of _ "min arrived 6"]) simp
  moreover have "length (take 16 (drop 4 hdr)) = 16" "length (take 2 (drop 52 hdr)) = 2"
    using l(1) by simp_all
  ultimately show ?thesis
    using res(1,2) by blast
qed

theorem relay_requires_psk_witness:
  "\<exists>nonce. acceptBack hmac_relay 6
       \<lparr>st_in = phrp_handshake hmac_relay to4_example [1, 2] (replicate 16 5) (- 2) ''1.2.3.4:443'', st_end = EOF\<rparr>
       \<lparr>sk_out = [], sk_room = None\<rparr> [1, 2] = Ok (- 2, back_example, meta_example)
     \<and> fc_key back_example = deriveRelayKey hmac_relay [1, 2] nonce \<and> length nonce = 16"
  using relay_requires_psk [OF accept_example] accept_example by blast

text \<open>
  The two directions of a tunnel share their key and both count their frames from one: the
  first frame of the front and the first frame of the back are sealed under the same AES-GCM key
  with the same nonce, so the counter does not keep nonces apart.
\<close>

lemma relay_reuses_nonce:
  assumes "\<And>k m. length (hmac k m) = 32" "\<And>h ip. to4 h = Some ip \<Longrightarrow> length ip = 4" "length nonce = 16"
    and "- 32768 \<le> dcID" "dcID < 32768" "arrived \<ge> 6"
    and "DialFront hmac to4 (Some (fs, fsk)) (Some nonce) psk dcID addr = Ok front" "sk_out fsk = []"
    and "st_in s = sk_out (fc_sink front) @ rest" "acceptBack hmac arrived s bsk psk = Ok (dc, bkc, meta)"
    and "writeFrameLocked seal p front = (True, front')" "writeFrameLocked seal q bkc = (True, bkc')"
  shows "\<exists>key n. sk_out (fc_sink front') = sk_out (fc_sink front) @ frame_of seal key n p
     \<and> sk_out (fc_sink bkc') = sk_out (fc_sink bkc) @ frame_of seal key n q"
proof -
  obtain sk' where d: "sink_write (phrp_handshake hmac to4 psk nonce dcID addr) fsk = (True, sk')"
    and front: "front = \<lparr>fc_in = fs, fc_sink = sk', fc_key = deriveRelayKey hmac psk nonce, fc_rbuf = [], fc_nonce = 0\<rparr>"
    using dial_front_ok [OF assms(7)] by (metis option.inject prod.inject)
  have "st_in s = phrp_handshake hmac to4 psk nonce dcID addr @ rest"
    using sink_write_ok [OF d] assms(8,9) front by simp
  then have "fc_key bkc = fc_key front \<and> fc_nonce bkc = fc_nonce front"
    using accept_handshake [of nonce hmac psk "handshake_ip to4 addr" arrived dcID
        "uint16_of_int (snd (parseClientAddr addr))" s rest bsk] assms(1-6,10)
    by (simp add: phrp_handshake_parts front)
  moreover have "sk_out (fc_sink c') = sk_out (fc_sink c) @ frame_of seal (fc_key c) (fc_nonce c + 1) x"
    if "writeFrameLocked seal x c = (True, c')" for x c c'
    using that by (auto simp: writeFrameLocked_def Let_def dest: sink_write_ok split: prod.splits)
  ultimately show ?thesis
    using assms(11,12) by metis
qed

end
