(* ===== verification/MiddleCrypto.thy ===== *)
theory MiddleCrypto
  imports Readers ClientHello
begin

unbundle bit_operations_syntax

text \<open>
  The wire format towards Telegram's middle proxies, \<open>internal/middleproxy/crypto.go\<close>: key
  derivation, the AES-CBC connection, and numbered frames with check sum and padding. MD5, SHA-1 and
  the two directions of the AES block cipher (\<open>E\<close> and \<open>D\<close>: key, block) are arguments. What the
  proofs use of the cipher: \<open>D\<close> undoes \<open>E\<close> on blocks, and both keep the block length of 16.
\<close>

section \<open>Reading exactly n bytes\<close>

text \<open>
  \<open>readFull\<close>, the package's own loop: unlike \<open>io.ReadFull\<close> it passes on the reader's error unchanged.
\<close>

partial_function (option) mp_readFull ::
  "(nat \<Rightarrow> 's \<Rightarrow> (io_error + bytes) \<times> 's) \<Rightarrow> nat \<Rightarrow> bytes \<Rightarrow> 's \<Rightarrow> ((io_error + bytes) \<times> 's) option"
where
  "mp_readFull rd n acc s =
     (if n \<le> length acc then Some (Inr acc, s)
      else case rd (n - length acc) s of
             (Inl e, s') \<Rightarrow> Some (Inl e, s')
           | (Inr xs, s') \<Rightarrow> mp_readFull rd n (acc @ xs) s')"

text \<open>What the loop does on a raw connection.\<close>

definition raw_readFull :: "nat \<Rightarrow> stream \<Rightarrow> (io_error + bytes) \<times> stream" where
  "raw_readFull n s =
     (if n \<le> length (st_in s) then (Inr (take n (st_in s)), s\<lparr>st_in := drop n (st_in s)\<rparr>)
      else (Inl (st_end s), s\<lparr>st_in := []\<rparr>))"

lemma mp_readFull_raw_acc:
  "length acc \<le> n \<Longrightarrow> mp_readFull (conn_read sched) n acc s =
     Some (case raw_readFull (n - length acc) s of (Inl e, s') \<Rightarrow> (Inl e, s') | (Inr xs, s') \<Rightarrow> (Inr (acc @ xs), s'))"
proof (induction "length (st_in s)" arbitrary: acc s rule: less_induct)
  case less
  show ?case
  proof (cases "n = length acc \<or> st_in s = []")
    case True
    with less.prems show ?thesis
      by (auto simp: mp_readFull.simps [of _ n acc] raw_readFull_def conn_read_def)
  next
    case False
    define k where "k = min (n - length acc) (Suc (sched s))"
    let ?s = "s\<lparr>st_in := drop k (st_in s)\<rparr>"
    have k: "0 < k" "k \<le> n - length acc" "length acc < n"
      using False less.prems by (auto simp: k_def)
    then have rd: "conn_read sched (n - length acc) s = (Inr (take k (st_in s)), ?s)"
      using False by (simp add: conn_read_def k_def Let_def)
    have le: "length (acc @ take k (st_in s)) \<le> n" "length (st_in ?s) < length (st_in s)"
      using k False by (auto simp: min_def)
    have step: "mp_readFull (conn_read sched) n acc s = mp_readFull (conn_read sched) n (acc @ take k (st_in s)) ?s"
      using k by (subst mp_readFull.simps) (simp add: rd)
    show ?thesis
    proof (cases "k \<le> length (st_in s)")
      case True
      have "take k (st_in s) @ take (n - length acc - k) (drop k (st_in s)) = take (n - length acc) (st_in s)"
        using k by (metis le_add_diff_inverse take_add)
      then show ?thesis
        using less.hyps [OF le(2,1)] step k True by (auto simp: raw_readFull_def)
    next
      case short: False
      then show ?thesis
        using less.hyps [OF le(2,1)] step k by (auto simp: raw_readFull_def)
    qed
  qed
qed

text \<open>However the bytes arrive in pieces, the loop gets exactly the next \<open>n\<close> bytes or the error.\<close>

lemma mp_readFull_raw: "mp_readFull (conn_read sched) n [] s = Some (raw_readFull n s)"
  using mp_readFull_raw_acc [of "[]" n sched s] by (auto split: prod.splits sum.splits)

section \<open>Key derivation and the CBC connection\<close>

definition cbcBlockSize :: nat where "cbcBlockSize = 16"

definition mp_deriveKeys ::
  "(bytes \<Rightarrow> bytes) \<Rightarrow> (bytes \<Rightarrow> bytes) \<Rightarrow> bytes \<Rightarrow> bytes \<Rightarrow> bytes \<Rightarrow> bytes \<Rightarrow> bytes \<Rightarrow> bytes \<Rightarrow> bytes
     \<Rightarrow> bytes \<Rightarrow> bytes \<Rightarrow> bytes \<times> bytes" where
  "mp_deriveKeys md5 sha1 nonceSrv nonceClt cltTS srvIP cltPort purpose cltIP srvPort secret =
     (let emptyIP = [0, 0, 0, 0];
          cltIP = (if cltIP = [] then emptyIP else cltIP);
          srvIP = (if srvIP = [] then emptyIP else srvIP);
          s = nonceSrv @ nonceClt @ cltTS @ srvIP @ cltPort @ purpose @ cltIP @ srvPort @ secret @ nonceSrv @ nonceClt
      in (take 12 (md5 (drop 1 s)) @ take 20 (sha1 s), md5 (drop 2 s)))"

text \<open>\<open>CryptBlocks\<close> of the two block modes: the output and the next initialisation vector.\<close>

function cbc_enc :: "(bytes \<Rightarrow> bytes) \<Rightarrow> bytes \<Rightarrow> bytes \<Rightarrow> bytes \<times> bytes" where
  "cbc_enc e iv p =
     (if length p < cbcBlockSize then ([], iv)
      else let c = e (xor_bytes (take cbcBlockSize p) iv); (cs, iv') = cbc_enc e c (drop cbcBlockSize p)
           in (c @ cs, iv'))"
  by pat_completeness auto
termination
  by (relation "measure (\<lambda>(e, iv, p). length p)") (auto simp: cbcBlockSize_def)

function cbc_dec :: "(bytes \<Rightarrow> bytes) \<Rightarrow> bytes \<Rightarrow> bytes \<Rightarrow> bytes \<times> bytes" where
  "cbc_dec d iv c =
     (if length c < cbcBlockSize then ([], iv)
      else let p = xor_bytes (d (take cbcBlockSize c)) iv;
               (ps, iv') = cbc_dec d (take cbcBlockSize c) (drop cbcBlockSize c)
           in (p @ ps, iv'))"
  by pat_completeness auto
termination
  by (relation "measure (\<lambda>(d, iv, c). length c)") (auto simp: cbcBlockSize_def)

declare cbc_enc.simps [simp del] cbc_dec.simps [simp del]

record cbcConn =
  cb_in :: stream
  cb_sink :: sink
  cb_ekey :: bytes
  cb_eiv :: bytes
  cb_dkey :: bytes
  cb_div :: bytes
  cb_buf :: bytes

definition newCBCConn :: "stream \<Rightarrow> sink \<Rightarrow> bytes \<Rightarrow> bytes \<Rightarrow> bytes \<Rightarrow> bytes \<Rightarrow> cbcConn" where
  "newCBCConn s sk encKey encIV decKey decIV =
     \<lparr>cb_in = s, cb_sink = sk, cb_ekey = encKey, cb_eiv = encIV, cb_dkey = decKey, cb_div = decIV, cb_buf = []\<rparr>"

datatype mp_error = CbcUnaligned | MpWriteFailed | MpIO io_error | UnexpectedSeqNo | BadFrameLen
  | PayloadUnaligned | ShortProxyAns | BadIntermediateLen | NonceAnsLen | NonceMismatch | NotIPv4
  | HandshakeAnsLen | HandshakeTypeMismatch | MpRandFailed | NoMiddleProxy | MpDialFailed | NoLocalIP

text \<open>\<open>Write\<close>: \<open>None\<close> when all of \<open>p\<close> was written.\<close>

definition cbc_write ::
  "(bytes \<Rightarrow> bytes \<Rightarrow> bytes) \<Rightarrow> bytes \<Rightarrow> cbcConn \<Rightarrow> mp_error option \<times> cbcConn" where
  "cbc_write E p c =
     (if length p mod cbcBlockSize \<noteq> 0 then (Some CbcUnaligned, c)
      else let (out, iv) = cbc_enc (E (cb_ekey c)) (cb_eiv c) p; (ok, sk) = sink_write out (cb_sink c);
               c' = c\<lparr>cb_eiv := iv, cb_sink := sk\<rparr>
           in (if ok then None else Some MpWriteFailed, c'))"

definition alignedCipherReadSize :: "nat \<Rightarrow> nat" where
  "alignedCipherReadSize need =
     (if need = 0 then cbcBlockSize
      else let r = need mod cbcBlockSize in if r \<noteq> 0 then need + (cbcBlockSize - r) else need)"

lemma alignedCipherReadSize_blocks:
  "\<exists>k. alignedCipherReadSize n = 16 * Suc k \<and> n \<le> 16 * Suc k \<and> (0 < n \<longrightarrow> 16 * k < n)"
proof -
  obtain q r where n: "n = 16 * q + r" "r < 16"
    by (metis mod_less_divisor mult_div_mod_eq zero_less_numeral)
  then have m: "n mod 16 = r" by simp
  show ?thesis
  proof (cases "r = 0")
    case True
    with n m show ?thesis
      by (cases q) (auto simp: alignedCipherReadSize_def cbcBlockSize_def)
  next
    case False
    with n(1) m have "alignedCipherReadSize n = n + (16 - r)"
      by (simp add: alignedCipherReadSize_def cbcBlockSize_def Let_def)
    with n False show ?thesis
      by (intro exI [of _ q]) simp
  qed
qed

lemma alignedCipherReadSize_spec:
  "0 < alignedCipherReadSize n" "n \<le> alignedCipherReadSize n" "alignedCipherReadSize n mod 16 = 0"
  "0 < n \<Longrightarrow> n \<le> 16 * k \<Longrightarrow> alignedCipherReadSize n \<le> 16 * k"
proof -
  obtain j where j: "alignedCipherReadSize n = 16 * Suc j" "n \<le> 16 * Suc j" "0 < n \<Longrightarrow> 16 * j < n"
    using alignedCipherReadSize_blocks [of n] by blast
  then show "0 < alignedCipherReadSize n" "n \<le> alignedCipherReadSize n" "alignedCipherReadSize n mod 16 = 0"
    by simp_all
  assume "0 < n" "n \<le> 16 * k"
  with j(3) have "j < k" by linarith
  with j(1) show "alignedCipherReadSize n \<le> 16 * k" by simp
qed

lemma aligned_read_shrinks: "alignedCipherReadSize n \<le> l \<Longrightarrow> l - alignedCipherReadSize n < l"
  using alignedCipherReadSize_spec(1) [of n] by linarith

function ensurePlain ::
  "(bytes \<Rightarrow> bytes \<Rightarrow> bytes) \<Rightarrow> nat \<Rightarrow> cbcConn \<Rightarrow> io_error option \<times> cbcConn" where
  "ensurePlain D n c =
     (if n \<le> length (cb_buf c) then (None, c)
      else let cipherLen = alignedCipherReadSize (n - length (cb_buf c)) in
        case raw_readFull cipherLen (cb_in c) of
          (Inl e, s) \<Rightarrow> (Some e, c\<lparr>cb_in := s\<rparr>)
        | (Inr ciphertext, s) \<Rightarrow>
            let (plaintext, iv) = cbc_dec (D (cb_dkey c)) (cb_div c) ciphertext
            in ensurePlain D n (c\<lparr>cb_in := s, cb_div := iv, cb_buf := cb_buf c @ plaintext\<rparr>))"
  by pat_completeness auto
termination
  by (relation "measure (\<lambda>(D, n, c). length (st_in (cb_in c)))")
    (auto simp: raw_readFull_def aligned_read_shrinks split: if_splits)

declare ensurePlain.simps [simp del]

definition cbc_read ::
  "(bytes \<Rightarrow> bytes \<Rightarrow> bytes) \<Rightarrow> nat \<Rightarrow> cbcConn \<Rightarrow> (io_error + bytes) \<times> cbcConn" where
  "cbc_read D n c =
     (if n = 0 then (Inr [], c)
      else case ensurePlain D n c of
             (Some e, c') \<Rightarrow> (Inl e, c')
           | (None, c') \<Rightarrow> (Inr (take n (cb_buf c')), c'\<lparr>cb_buf := drop n (cb_buf c')\<rparr>))"

section \<open>Frames\<close>

definition crc_bit :: "32 word \<Rightarrow> 32 word" where
  "crc_bit crc = (if crc AND 1 \<noteq> 0 then drop_bit 1 crc XOR 0xedb88320 else drop_bit 1 crc)"

definition crc32IEEE :: "bytes \<Rightarrow> 32 word" where
  "crc32IEEE bs = NOT (foldl (\<lambda>crc b. (crc_bit ^^ 8) (crc XOR ucast b)) 0xffffffff bs)"

definition filler :: bytes where "filler = [4, 0, 0, 0]"

definition framePadding :: "nat \<Rightarrow> bytes" where
  "framePadding n =
     (if n mod cbcBlockSize = 0 then []
      else take (cbcBlockSize - n mod cbcBlockSize) (filler @ filler @ filler @ filler))"

definition frame_core :: "32 word \<Rightarrow> bytes \<Rightarrow> bytes" where
  "frame_core seqNo msg =
     (let body = put_le 4 (length msg + 12) @ put_le 4 (unat seqNo) @ msg
      in body @ put_le 4 (unat (crc32IEEE body)))"

definition writeFrame :: "(bytes \<Rightarrow> 's \<Rightarrow> mp_error option \<times> 's) \<Rightarrow> 32 word \<Rightarrow> bytes \<Rightarrow> 's \<Rightarrow> mp_error option \<times> 's" where
  "writeFrame wr seqNo msg w =
     (let full = frame_core seqNo msg in wr (full @ framePadding (length full)) w)"

text \<open>
  \<open>readFrame\<close>: the message, the sequence number that is expected next and the reader. The check sum
  is read and not compared. The loop that skips frames of length 4 may run as long as such
  frames arrive.
\<close>

definition frame_rest ::
  "(nat \<Rightarrow> 's \<Rightarrow> (io_error + bytes) \<times> 's) \<Rightarrow> int \<Rightarrow> 32 word \<Rightarrow> 's
     \<Rightarrow> ((mp_error + bytes) \<times> 32 word \<times> 's) option" where
  "frame_rest rd msgLen seqNo s =
     Option.bind (mp_readFull rd 4 [] s) (\<lambda>(r, s).
       case r of Inl e \<Rightarrow> Some (Inl (MpIO e), seqNo, s)
       | Inr seqBytes \<Rightarrow>
           if (word_of_nat (le_val seqBytes) :: 32 word) \<noteq> seqNo then Some (Inl UnexpectedSeqNo, seqNo, s)
           else if msgLen - 12 < 0 then Some (Inl BadFrameLen, seqNo + 1, s)
           else Option.bind (mp_readFull rd (nat (msgLen - 12)) [] s) (\<lambda>(r, s).
             case r of Inl e \<Rightarrow> Some (Inl (MpIO e), seqNo + 1, s)
             | Inr data \<Rightarrow>
                 Option.bind (mp_readFull rd 4 [] s) (\<lambda>(r, s).
                   case r of Inl e \<Rightarrow> Some (Inl (MpIO e), seqNo + 1, s)
                   | Inr checksum \<Rightarrow> Some (Inr data, seqNo + 1, s))))"

partial_function (option) readFrame ::
  "(nat \<Rightarrow> 's \<Rightarrow> (io_error + bytes) \<times> 's) \<Rightarrow> 32 word \<Rightarrow> 's \<Rightarrow> ((mp_error + bytes) \<times> 32 word \<times> 's) option"
where
  "readFrame rd seqNo s =
     Option.bind (mp_readFull rd 4 [] s) (\<lambda>(r, s).
       case r of Inl e \<Rightarrow> Some (Inl (MpIO e), seqNo, s)
       | Inr lenBytes \<Rightarrow>
           let msgLen = int32_of (le_val lenBytes) in
           if msgLen = 4 then readFrame rd seqNo s else frame_rest rd msgLen seqNo s)"

lemma int32_of_nat: "n < 2147483648 \<Longrightarrow> int32_of n = int n"
  by (simp add: int32_of_def signed_of_nat signed_take_bit_int_eq_self)

section \<open>The cipher block chain\<close>

definition block_fun :: "(bytes \<Rightarrow> bytes) \<Rightarrow> bool" where
  "block_fun f \<longleftrightarrow> (\<forall>b. length b = 16 \<longrightarrow> length (f b) = 16)"

lemma cbc_dec_append:
  "length xs mod 16 = 0 \<Longrightarrow> cbc_dec d iv (xs @ ys) =
     (fst (cbc_dec d iv xs) @ fst (cbc_dec d (snd (cbc_dec d iv xs)) ys), snd (cbc_dec d (snd (cbc_dec d iv xs)) ys))"
proof (induction d iv xs rule: cbc_dec.induct)
  case (1 d iv xs)
  show ?case
  proof (cases "length xs < 16")
    case True
    with 1(2) have "xs = []" by simp
    then show ?thesis by (simp add: cbc_dec.simps [of d iv "[]"] cbcBlockSize_def)
  next
    case False
    with 1(2) have "length (drop 16 xs) mod 16 = 0" by (simp add: le_mod_geq)
    with False 1(1) [OF _ refl] show ?thesis
      by (simp add: cbc_dec.simps [of d iv "xs @ ys"] cbc_dec.simps [of d iv xs] cbcBlockSize_def Let_def case_prod_beta)
  qed
qed

lemma cbc_dec_length:
  "block_fun d \<Longrightarrow> length iv = 16 \<Longrightarrow>
     length (fst (cbc_dec d iv c)) = 16 * (length c div 16) \<and> length (snd (cbc_dec d iv c)) = 16"
proof (induction d iv c rule: cbc_dec.induct)
  case (1 d iv c)
  show ?case
  proof (cases "length c < 16")
    case True
    with 1(3) show ?thesis by (simp add: cbc_dec.simps [of d iv c] cbcBlockSize_def)
  next
    case False
    moreover have "length (d (take 16 c)) = 16"
      using False 1(2) by (simp add: block_fun_def)
    moreover have "length c div 16 = Suc ((length c - 16) div 16)"
      using False by (simp add: le_div_geq)
    ultimately show ?thesis
      using 1 by (simp add: cbc_dec.simps [of d iv c] cbcBlockSize_def Let_def case_prod_beta)
  qed
qed

text \<open>Decrypting undoes encrypting, and leaves both sides with the same vector.\<close>

lemma cbc_dec_enc:
  "block_fun e \<Longrightarrow> (\<And>b. length b = 16 \<Longrightarrow> d (e b) = b) \<Longrightarrow> length iv = 16 \<Longrightarrow> length p mod 16 = 0 \<Longrightarrow>
     cbc_dec d iv (fst (cbc_enc e iv p)) = (p, snd (cbc_enc e iv p))
     \<and> length (fst (cbc_enc e iv p)) = length p \<and> length (snd (cbc_enc e iv p)) = 16"
proof (induction e iv p rule: cbc_enc.induct)
  case (1 e iv p)
  show ?case
  proof (cases "length p < 16")
    case True
    with 1(5) have "p = []" by simp
    with 1(4) show ?thesis by (simp add: cbc_enc.simps [of e iv "[]"] cbc_dec.simps [of d iv "[]"] cbcBlockSize_def)
  next
    case False
    let ?x = "xor_bytes (take 16 p) iv" and ?q = "drop 16 p"
    have x: "length ?x = 16" using False 1(4) by simp
    have c: "length (e ?x) = 16" using x 1(2) by (simp add: block_fun_def)
    have q: "length ?q mod 16 = 0" using False 1(5) by (simp add: le_mod_geq)
    have enc: "cbc_enc e iv p = (e ?x @ fst (cbc_enc e (e ?x) ?q), snd (cbc_enc e (e ?x) ?q))"
      using False by (simp add: cbc_enc.simps [of e iv p] cbcBlockSize_def Let_def case_prod_beta)
    have ih: "cbc_dec d (e ?x) (fst (cbc_enc e (e ?x) ?q)) = (?q, snd (cbc_enc e (e ?x) ?q))
      \<and> length (fst (cbc_enc e (e ?x) ?q)) = length ?q \<and> length (snd (cbc_enc e (e ?x) ?q)) = 16"
      using 1(1) [of "e ?x"] False 1(2,3) c q by (simp add: cbcBlockSize_def)
    have "xor_bytes (d (e ?x)) iv = take 16 p"
      using 1(3) [OF x] False 1(4) by (simp add: xor_bytes_cancel_right)
    then show ?thesis
      using ih c False by (simp add: enc cbc_dec.simps [of d iv "e ?x @ _"] cbcBlockSize_def Let_def)
  qed
qed

lemma cbc_enc_append:
  "length xs mod 16 = 0 \<Longrightarrow> cbc_enc e iv (xs @ ys) =
     (fst (cbc_enc e iv xs) @ fst (cbc_enc e (snd (cbc_enc e iv xs)) ys), snd (cbc_enc e (snd (cbc_enc e iv xs)) ys))"
proof (induction e iv xs rule: cbc_enc.induct)
  case (1 e iv xs)
  show ?case
  proof (cases "length xs < 16")
    case True
    with 1(2) have "xs = []" by simp
    then show ?thesis by (simp add: cbc_enc.simps [of e iv "[]"] cbcBlockSize_def)
  next
    case False
    with 1(2) have "length (drop 16 xs) mod 16 = 0" by (simp add: le_mod_geq)
    with False 1(1) [OF _ refl] show ?thesis
      by (simp add: cbc_enc.simps [of e iv "xs @ ys"] cbc_enc.simps [of e iv xs] cbcBlockSize_def Let_def case_prod_beta)
  qed
qed

section \<open>Streams of frames\<close>

text \<open>Specification: the plain text of a sequence of frames numbered upwards from \<open>n\<close>.\<close>

fun frame_stream :: "32 word \<Rightarrow> bytes list \<Rightarrow> bytes" where
  "frame_stream n [] = []"
| "frame_stream n (m # ms) = frame_core n m @ framePadding (length (frame_core n m)) @ frame_stream (n + 1) ms"

fun write_frames ::
  "(bytes \<Rightarrow> 's \<Rightarrow> mp_error option \<times> 's) \<Rightarrow> 32 word \<Rightarrow> bytes list \<Rightarrow> 's \<Rightarrow> mp_error option \<times> 's" where
  "write_frames wr n [] w = (None, w)"
| "write_frames wr n (m # ms) w =
     (case writeFrame wr n m w of (None, w') \<Rightarrow> write_frames wr (n + 1) ms w' | (Some e, w') \<Rightarrow> (Some e, w'))"

fun read_frames ::
  "(nat \<Rightarrow> 's \<Rightarrow> (io_error + bytes) \<times> 's) \<Rightarrow> nat \<Rightarrow> 32 word \<Rightarrow> 's
     \<Rightarrow> ((mp_error + bytes list) \<times> 32 word \<times> 's) option" where
  "read_frames rd 0 n s = Some (Inr [], n, s)"
| "read_frames rd (Suc k) n s =
     Option.bind (readFrame rd n s) (\<lambda>(r, n', s').
       case r of Inl e \<Rightarrow> Some (Inl e, n', s')
       | Inr m \<Rightarrow> Option.bind (read_frames rd k n' s') (\<lambda>(q, n'', s'').
           Some (case q of Inl e \<Rightarrow> Inl e | Inr ms \<Rightarrow> Inr (m # ms), n'', s'')))"

definition frame_fits :: "bytes \<Rightarrow> bool" where
  "frame_fits m \<longleftrightarrow> length m mod 4 = 0 \<and> length m + 12 < 2147483648"

lemma length_frame_core [simp]: "length (frame_core n m) = length m + 12"
  by (simp add: frame_core_def Let_def)

lemma frame_fits_core: "frame_fits m \<Longrightarrow> length (frame_core n m) mod 4 = 0"
  using mod_add_right_eq [of "length m" 12 4] by (simp add: frame_fits_def)

lemma framePadding_fillers: "n mod 4 = 0 \<Longrightarrow> \<exists>k. framePadding n = concat (replicate k filler)"
proof -
  assume n: "n mod 4 = 0"
  then obtain j where "n = 4 * j" by (metis mult_div_mod_eq add_0_right)
  then have m: "n mod 16 = 4 * (j mod 4)"
    using mult_mod_right [of 4 j 4] by simp
  have "j mod 4 < 4" by simp
  then consider "j mod 4 = 0" | "j mod 4 = 1" | "j mod 4 = 2" | "j mod 4 = 3" by linarith
  then consider "n mod 16 = 0" | "n mod 16 = 4" | "n mod 16 = 8" | "n mod 16 = 12"
    using m by cases simp_all
  then show ?thesis
  proof cases
    case 1
    then show ?thesis by (intro exI [of _ 0]) (simp add: framePadding_def cbcBlockSize_def)
  next
    case 2
    then show ?thesis
      by (intro exI [of _ 3]) (simp add: framePadding_def cbcBlockSize_def filler_def numeral_3_eq_3)
  next
    case 3
    then show ?thesis
      by (intro exI [of _ 2]) (simp add: framePadding_def cbcBlockSize_def filler_def numeral_2_eq_2)
  next
    case 4
    then show ?thesis by (intro exI [of _ 1]) (simp add: framePadding_def cbcBlockSize_def filler_def)
  qed
qed

lemma framePadding_aligns: "(n + length (framePadding n)) mod 16 = 0"
proof -
  obtain q r where n: "n = 16 * q + r" "r < 16"
    by (metis mod_less_divisor mult_div_mod_eq zero_less_numeral)
  then have "length (framePadding n) = (if r = 0 then 0 else 16 - r)"
    by (simp add: framePadding_def cbcBlockSize_def filler_def)
  with n show ?thesis by (cases "r = 0") (simp_all add: ac_simps)
qed

lemma frame_stream_aligned: "length (frame_stream n ms) mod 16 = 0"
proof (induction ms arbitrary: n)
  case (Cons m ms)
  show ?case
    using framePadding_aligns [of "length (frame_core n m)"] Cons.IH [of "n + 1"]
    by (simp del: length_frame_core add: add.assoc [symmetric] mod_add_eq [of _ 16 "length (frame_stream (n + 1) ms)", symmetric])
qed simp

section \<open>Readers that deliver complete requests\<close>

text \<open>
  What \<open>readFrame\<close> relies on: a reader whose pending bytes \<open>readFull\<close> delivers in full, as long as
  \<open>sound\<close> holds of its state. The raw connection and the CBC connection both provide it; the latter
  does not deliver short reads, so it is no \<open>byte_reader\<close>.
\<close>

locale full_reader =
  fixes rd :: "nat \<Rightarrow> 's \<Rightarrow> (io_error + bytes) \<times> 's"
    and pending :: "'s \<Rightarrow> bytes"
    and sound :: "'s \<Rightarrow> bool"
  assumes reads: "sound s \<Longrightarrow> n \<le> length (pending s) \<Longrightarrow>
    \<exists>s'. mp_readFull rd n [] s = Some (Inr (take n (pending s)), s') \<and> pending s' = drop n (pending s) \<and> sound s'"
begin

lemma reads_prefix:
  assumes "sound s" "pending s = xs @ ys" "length xs = n"
  obtains s' where "mp_readFull rd n [] s = Some (Inr xs, s')" "pending s' = ys" "sound s'"
  using reads [of s n] assms by auto

lemma readFrame_core:
  assumes "sound s" "pending s = frame_core seqNo msg @ rest" "length msg + 12 < 2147483648"
  obtains s' where "readFrame rd seqNo s = Some (Inr msg, seqNo + 1, s')" "pending s' = rest" "sound s'"
proof -
  let ?body = "put_le 4 (length msg + 12) @ put_le 4 (unat seqNo) @ msg"
  let ?crc = "put_le 4 (unat (crc32IEEE ?body))"
  have p: "pending s = put_le 4 (length msg + 12) @ put_le 4 (unat seqNo) @ msg @ ?crc @ rest"
    using assms(2) by (simp add: frame_core_def Let_def)
  obtain s1 where s1: "mp_readFull rd 4 [] s = Some (Inr (put_le 4 (length msg + 12)), s1)"
    "pending s1 = put_le 4 (unat seqNo) @ msg @ ?crc @ rest" "sound s1"
    using reads_prefix [OF assms(1) p, of 4] by auto
  obtain s2 where s2: "mp_readFull rd 4 [] s1 = Some (Inr (put_le 4 (unat seqNo)), s2)"
    "pending s2 = msg @ ?crc @ rest" "sound s2"
    using reads_prefix [OF s1(3,2), of 4] by auto
  obtain s3 where s3: "mp_readFull rd (length msg) [] s2 = Some (Inr msg, s3)" "pending s3 = ?crc @ rest" "sound s3"
    using reads_prefix [OF s2(3,2) refl] by auto
  obtain s4 where s4: "mp_readFull rd 4 [] s3 = Some (Inr ?crc, s4)" "pending s4 = rest" "sound s4"
    using reads_prefix [OF s3(3,2), of 4] by auto
  have l: "int32_of (le_val (put_le 4 (length msg + 12))) = int (length msg + 12)"
    using assms(3) by (simp add: codec_simps int32_of_nat)
  have q: "(word_of_nat (le_val (put_le 4 (unat seqNo))) :: 32 word) = seqNo"
  proof -
    have "unat seqNo < 4294967296" using unsigned_less [of seqNo] by simp
    then show ?thesis by (simp add: codec_simps)
  qed
  have "frame_rest rd (int (length msg + 12)) seqNo s1 = Some (Inr msg, seqNo + 1, s4)"
    by (simp add: frame_rest_def s2(1) q s3(1) s4(1))
  then have "readFrame rd seqNo s = Some (Inr msg, seqNo + 1, s4)"
    by (subst readFrame.simps) (simp add: s1(1) l)
  with s4(2,3) that show ?thesis by blast
qed

lemma readFrame_filler:
  assumes "sound s" "pending s = filler @ rest"
  obtains s' where "readFrame rd seqNo s = readFrame rd seqNo s'" "pending s' = rest" "sound s'"
proof -
  obtain s' where s': "mp_readFull rd 4 [] s = Some (Inr filler, s')" "pending s' = rest" "sound s'"
    using reads_prefix [OF assms, of 4] by (auto simp: filler_def)
  have "int32_of (le_val filler) = 4"
    by (simp add: filler_def le_val_def int32_of_def)
  then have "readFrame rd seqNo s = readFrame rd seqNo s'"
    by (subst readFrame.simps) (simp add: s'(1))
  with s' that show ?thesis by blast
qed

text \<open>A frame is found behind any number of fillers.\<close>

lemma readFrame_delivers:
  assumes "sound s" "pending s = concat (replicate k filler) @ frame_core seqNo msg @ rest"
    and "length msg + 12 < 2147483648"
  obtains s' where "readFrame rd seqNo s = Some (Inr msg, seqNo + 1, s')" "pending s' = rest" "sound s'"
  using assms(1,2)
proof (induction k arbitrary: s thesis)
  case 0
  with readFrame_core [OF _ _ assms(3)] show ?case by (metis append_Nil concat.simps(1) replicate_0)
next
  case (Suc k)
  obtain s1 where "readFrame rd seqNo s = readFrame rd seqNo s1"
    "pending s1 = concat (replicate k filler) @ frame_core seqNo msg @ rest" "sound s1"
    using readFrame_filler [OF Suc.prems(2), of "concat (replicate k filler) @ frame_core seqNo msg @ rest" seqNo] Suc.prems(3)
    by auto
  with Suc.IH Suc.prems(1) show ?case by metis
qed

lemma read_frames_deliver:
  assumes "sound s" "pending s = concat (replicate k filler) @ frame_stream n ms" "\<forall>m \<in> set ms. frame_fits m"
  shows "\<exists>s'. read_frames rd (length ms) n s = Some (Inr ms, n + of_nat (length ms), s') \<and> sound s'"
  using assms
proof (induction ms arbitrary: n s k)
  case (Cons m ms)
  let ?pad = "framePadding (length (frame_core n m))"
  obtain j where j: "?pad = concat (replicate j filler)"
    using framePadding_fillers [OF frame_fits_core [of m n]] Cons.prems(3) by auto
  have p: "pending s = concat (replicate k filler) @ frame_core n m @ ?pad @ frame_stream (n + 1) ms"
    using Cons.prems(2) by simp
  obtain s1 where s1: "readFrame rd n s = Some (Inr m, n + 1, s1)" "pending s1 = ?pad @ frame_stream (n + 1) ms" "sound s1"
    by (rule readFrame_delivers [OF Cons.prems(1) p]) (use Cons.prems(3) in \<open>simp add: frame_fits_def\<close>)
  have "\<exists>s'. read_frames rd (length ms) (n + 1) s1 = Some (Inr ms, n + 1 + of_nat (length ms), s') \<and> sound s'"
    using s1 j Cons.prems(3) by (intro Cons.IH [of s1 j]) simp_all
  then obtain s' where "read_frames rd (length ms) (n + 1) s1 = Some (Inr ms, n + 1 + of_nat (length ms), s')" "sound s'"
    by blast
  then show ?case
    using s1(1) by (intro exI [of _ s']) (simp add: add.assoc)
qed simp

end

section \<open>The raw and the CBC connection\<close>

interpretation raw_frames: full_reader "conn_read sched" st_in "\<lambda>s. True" for sched
  by unfold_locales (simp add: mp_readFull_raw raw_readFull_def)

definition cbc_pending :: "(bytes \<Rightarrow> bytes \<Rightarrow> bytes) \<Rightarrow> cbcConn \<Rightarrow> bytes" where
  "cbc_pending D c = cb_buf c @ fst (cbc_dec (D (cb_dkey c)) (cb_div c) (st_in (cb_in c)))"

definition cbc_sound :: "(bytes \<Rightarrow> bytes \<Rightarrow> bytes) \<Rightarrow> cbcConn \<Rightarrow> bool" where
  "cbc_sound D c \<longleftrightarrow> block_fun (D (cb_dkey c)) \<and> length (cb_div c) = 16"

text \<open>What reading leaves alone: the keys and the writing side.\<close>

definition cbc_side :: "cbcConn \<Rightarrow> bytes \<times> bytes \<times> bytes \<times> sink" where
  "cbc_side c = (cb_ekey c, cb_eiv c, cb_dkey c, cb_sink c)"

lemma ensurePlain_delivers:
  assumes "cbc_sound D c" "n \<le> length (cbc_pending D c)"
  obtains c' where "ensurePlain D n c = (None, c')" "cbc_pending D c' = cbc_pending D c" "n \<le> length (cb_buf c')"
    "cbc_sound D c'" "cbc_side c' = cbc_side c"
proof (cases "n \<le> length (cb_buf c)")
  case True
  then have "ensurePlain D n c = (None, c)" by (subst ensurePlain.simps) simp
  with True assms(1) that show ?thesis by blast
next
  case False
  let ?d = "D (cb_dkey c)" and ?in = "st_in (cb_in c)"
  define L where "L = alignedCipherReadSize (n - length (cb_buf c))"
  have b: "block_fun ?d" "length (cb_div c) = 16" using assms(1) by (simp_all add: cbc_sound_def)
  have "n - length (cb_buf c) \<le> 16 * (length ?in div 16)"
    using assms(2) cbc_dec_length [OF b, of ?in] by (simp add: cbc_pending_def)
  then have "L \<le> 16 * (length ?in div 16)"
    using False alignedCipherReadSize_spec(4) by (simp add: L_def)
  moreover have "16 * (length ?in div 16) \<le> length ?in" by simp
  ultimately have L: "L \<le> length ?in" "L mod 16 = 0" "n \<le> length (cb_buf c) + L"
    using alignedCipherReadSize_spec(2) [of "n - length (cb_buf c)"] alignedCipherReadSize_spec(3)
    unfolding L_def by (linarith, blast, linarith)
  define pt iv where "pt = fst (cbc_dec ?d (cb_div c) (take L ?in))" and "iv = snd (cbc_dec ?d (cb_div c) (take L ?in))"
  let ?c = "c\<lparr>cb_in := (cb_in c)\<lparr>st_in := drop L ?in\<rparr>, cb_div := iv, cb_buf := cb_buf c @ pt\<rparr>"
  have len: "length pt = L" "length iv = 16"
    using cbc_dec_length [OF b, of "take L ?in"] L by (auto simp: pt_def iv_def)
  have dec: "cbc_dec ?d (cb_div c) (take L ?in) = (pt, iv)"
    by (simp add: pt_def iv_def)
  have "ensurePlain D n c = ensurePlain D n ?c"
    using False L(1) dec by (subst ensurePlain.simps) (simp add: L_def [symmetric] raw_readFull_def Let_def)
  also have "\<dots> = (None, ?c)"
    using L(3) len by (subst ensurePlain.simps) simp
  finally have e: "ensurePlain D n c = (None, ?c)" .
  have "fst (cbc_dec ?d (cb_div c) ?in) = pt @ fst (cbc_dec ?d iv (drop L ?in))"
    using cbc_dec_append [of "take L ?in" ?d "cb_div c" "drop L ?in"] L dec by simp
  then have "cbc_pending D ?c = cbc_pending D c"
    by (simp add: cbc_pending_def)
  with e L(3) len b show ?thesis by (intro that [OF e]) (simp_all add: cbc_sound_def cbc_side_def)
qed

lemma cbc_reads:
  assumes c: "cbc_sound D c" "n \<le> length (cbc_pending D c)"
  shows "\<exists>c'. mp_readFull (cbc_read D) n [] c = Some (Inr (take n (cbc_pending D c)), c')
      \<and> cbc_pending D c' = drop n (cbc_pending D c) \<and> cbc_sound D c' \<and> cbc_side c' = cbc_side c"
proof (cases "n = 0")
  case True
  with c(1) show ?thesis by (simp add: mp_readFull.simps)
next
  case False
  obtain c' where e: "ensurePlain D n c = (None, c')" and p: "cbc_pending D c' = cbc_pending D c"
    and l: "n \<le> length (cb_buf c')" and s: "cbc_sound D c'" "cbc_side c' = cbc_side c"
    using ensurePlain_delivers [OF c] .
  have "cbc_read D n c = (Inr (take n (cb_buf c')), c'\<lparr>cb_buf := drop n (cb_buf c')\<rparr>)"
    using False e by (simp add: cbc_read_def)
  then have "mp_readFull (cbc_read D) n [] c = Some (Inr (take n (cb_buf c')), c'\<lparr>cb_buf := drop n (cb_buf c')\<rparr>)"
    using False l by (simp add: mp_readFull.simps [of _ n "[]"] mp_readFull.simps [of _ n "take n (cb_buf c')"])
  moreover have "take n (cbc_pending D c) = take n (cb_buf c')"
    "drop n (cbc_pending D c) = cbc_pending D (c'\<lparr>cb_buf := drop n (cb_buf c')\<rparr>)"
    unfolding p [symmetric] using l by (simp_all add: cbc_pending_def)
  ultimately show ?thesis
    using s by (auto simp: cbc_sound_def cbc_side_def)
qed

interpretation cbc_frames: full_reader "cbc_read D" "cbc_pending D" "cbc_sound D" for D
  by unfold_locales (use cbc_reads in blast)

interpretation cbc_keeps: full_reader "cbc_read D" "cbc_pending D" "\<lambda>c. cbc_sound D c \<and> cbc_side c = v" for D v
  by unfold_locales (use cbc_reads in blast)

lemma write_frames_cbc:
  "write_frames (cbc_write E) n ms c = (None, c') \<Longrightarrow>
     sk_out (cb_sink c') = sk_out (cb_sink c) @ fst (cbc_enc (E (cb_ekey c)) (cb_eiv c) (frame_stream n ms))"
proof (induction ms arbitrary: n c)
  case Nil
  then show ?case by (simp add: cbc_enc.simps [of _ _ "[]"] cbcBlockSize_def)
next
  case (Cons m ms)
  let ?f = "frame_core n m @ framePadding (length (frame_core n m))"
  have al: "length ?f mod 16 = 0"
    using framePadding_aligns [of "length (frame_core n m)"] by simp
  obtain out iv where e: "cbc_enc (E (cb_ekey c)) (cb_eiv c) ?f = (out, iv)" by force
  obtain ok sk where w: "sink_write out (cb_sink c) = (ok, sk)" by force
  have wf: "writeFrame (cbc_write E) n m c = (if ok then None else Some MpWriteFailed, c\<lparr>cb_eiv := iv, cb_sink := sk\<rparr>)"
    using al e w by (simp add: writeFrame_def cbc_write_def cbcBlockSize_def Let_def)
  with Cons.prems have ok and rest: "write_frames (cbc_write E) (n + 1) ms (c\<lparr>cb_eiv := iv, cb_sink := sk\<rparr>) = (None, c')"
    by (cases ok; simp)+
  then show ?case
    using Cons.IH [OF rest] sink_write_ok [of out "cb_sink c" sk] w e
      cbc_enc_append [OF al, of "E (cb_ekey c)" "cb_eiv c" "frame_stream (n + 1) ms"] by simp
qed

text \<open>
  C28. Frames over the encrypted connection round trip: whatever messages one side writes, frame
  after frame, the other side reads back in order and without error, over any number of frames
  and padding words, and the sequence numbers stay in step, wrap-around included. A message must be a
  whole number of words, as every message of the package is, and its length must fit the length field.
\<close>

theorem middle_frames_roundtrip:
  assumes "block_fun (E key)" "block_fun (D key)" "\<And>b. length b = 16 \<Longrightarrow> D key (E key b) = b"
    and "length iv = 16" "cb_ekey c = key" "cb_eiv c = iv" "sk_out (cb_sink c) = []"
    and "cb_dkey r = key" "cb_div r = iv" "cb_buf r = []"
    and "\<forall>m \<in> set ms. frame_fits m"
    and "write_frames (cbc_write E) n ms c = (None, c')" "st_in (cb_in r) = sk_out (cb_sink c')"
  shows "\<exists>r'. read_frames (cbc_read D) (length ms) n r = Some (Inr ms, n + of_nat (length ms), r')"
proof -
  have "cbc_pending D r = frame_stream n ms"
    using write_frames_cbc [OF assms(12)] cbc_dec_enc [OF assms(1,3,4) frame_stream_aligned] assms
    by (simp add: cbc_pending_def)
  moreover have "cbc_sound D r"
    using assms by (simp add: cbc_sound_def)
  ultimately show ?thesis
    using cbc_frames.read_frames_deliver [of D r 0 n ms] assms(11) by auto
qed

lemma write_frames_open:
  "sk_room (cb_sink c) = None \<Longrightarrow> \<exists>c'. write_frames (cbc_write E) n ms c = (None, c') \<and> sk_room (cb_sink c') = None"
proof (induction ms arbitrary: n c)
  case (Cons m ms)
  let ?f = "frame_core n m @ framePadding (length (frame_core n m))"
  have "length ?f mod 16 = 0"
    using framePadding_aligns [of "length (frame_core n m)"] by simp
  then obtain c1 where "writeFrame (cbc_write E) n m c = (None, c1)" "sk_room (cb_sink c1) = None"
    using Cons.prems by (simp add: writeFrame_def cbc_write_def cbcBlockSize_def sink_write_def case_prod_beta Let_def)
  with Cons.IH [of c1 "n + 1"] show ?case by simp
qed simp

definition E_toy :: "bytes \<Rightarrow> bytes \<Rightarrow> bytes" where "E_toy k b = map (\<lambda>x. x + sum_list k) b"
definition D_toy :: "bytes \<Rightarrow> bytes \<Rightarrow> bytes" where "D_toy k b = map (\<lambda>x. x - sum_list k) b"

lemma cipher_toy:
  "block_fun (E_toy k)" "block_fun (D_toy k)" "D_toy k (E_toy k b) = b"
  by (simp_all add: block_fun_def E_toy_def D_toy_def comp_def)

definition cbc_example :: "bytes \<Rightarrow> cbcConn" where
  "cbc_example bs = newCBCConn \<lparr>st_in = bs, st_end = EOF\<rparr> \<lparr>sk_out = [], sk_room = None\<rparr> [3] (replicate 16 9) [3] (replicate 16 9)"

lemma cbc_example_open: "sk_room (cb_sink (cbc_example bs)) = None"
  by (simp add: cbc_example_def newCBCConn_def)

theorem middle_frames_roundtrip_witness:
  "\<exists>c' r'. write_frames (cbc_write E_toy) (- 2) [[1, 2, 3, 4], [5, 6, 7, 8, 9, 10, 11, 12]] (cbc_example []) = (None, c')
     \<and> read_frames (cbc_read D_toy) (length [[1 :: byte, 2, 3, 4], [5, 6, 7, 8, 9, 10, 11, 12]]) (- 2) (cbc_example (sk_out (cb_sink c'))) =
         Some (Inr [[1, 2, 3, 4], [5, 6, 7, 8, 9, 10, 11, 12]],
               - 2 + of_nat (length [[1 :: byte, 2, 3, 4], [5, 6, 7, 8, 9, 10, 11, 12]]), r')"
proof -
  obtain c' where w: "write_frames (cbc_write E_toy) (- 2) [[1, 2, 3, 4], [5, 6, 7, 8, 9, 10, 11, 12]] (cbc_example []) = (None, c')"
    using write_frames_open [OF cbc_example_open] by blast
  have "\<exists>r'. read_frames (cbc_read D_toy) (length [[1 :: byte, 2, 3, 4], [5, 6, 7, 8, 9, 10, 11, 12]]) (- 2)
        (cbc_example (sk_out (cb_sink c'))) =
      Some (Inr [[1, 2, 3, 4], [5, 6, 7, 8, 9, 10, 11, 12]],
            - 2 + of_nat (length [[1 :: byte, 2, 3, 4], [5, 6, 7, 8, 9, 10, 11, 12]]), r')"
    by (rule middle_frames_roundtrip [where E = E_toy and D = D_toy and key = "[3]" and iv = "replicate 16 9",
          OF cipher_toy _ _ _ _ _ _ _ _ w])
      (simp_all add: cbc_example_def newCBCConn_def frame_fits_def)
  with w show ?thesis by blast
qed

end
