(* ===== verification/MiddleProxy.thy ===== *)
theory MiddleProxy
  imports MiddleCrypto RelayTunnel
begin

unbundle bit_operations_syntax

text \<open>
  The client of Telegram's middle proxies, \<open>internal/middleproxy\<close> (\<open>config.go\<close>, \<open>handshake.go\<close>,
  \<open>relay.go\<close>, \<open>intermediate.go\<close>): endpoints and advertising tag, the RPC handshake, requests and
  answers, and the translation between the client's padded intermediate packets and RPC messages.
  \<open>to4\<close> and \<open>to16\<close> are \<open>net.ParseIP(s).To4()\<close> and \<open>.To16()\<close>; clock, process id and random bytes are
  arguments.
\<close>

section \<open>Configuration\<close>

record Endpoint =
  ep_Host :: string
  ep_Port :: int

definition ep_String :: "Endpoint \<Rightarrow> string" where
  "ep_String e = ep_Host e @ '':'' @ dec_int (ep_Port e)"

definition mustHex :: "string \<Rightarrow> (unit, bytes) res" where
  "mustHex s = (case hex_decode s of Some b \<Rightarrow> Ok b | None \<Rightarrow> Panic)"

definition proxy_secret_hex :: string where
  "proxy_secret_hex =
     ''c4f9faca9678e6bb48ad6c7e2ce5c0d24430645d554addeb55419e034da62721'' @
     ''d046eaab6e52ab14a95a443ecfb3463e79a05a66612adf9caeda8be9a80da698'' @
     ''6fb0a6ff387af84d88ef3a6413713e5c3377f6e1a3d47d99f5e0c56eece8f05c'' @
     ''54c490b079e31bef82ff0ee8f2b0a32756d249c5f21269816cb7061b265db212''"

definition DefaultProxySecret :: "(unit, bytes) res" where
  "DefaultProxySecret = mustHex proxy_secret_hex"

definition DefaultProxiesV4 :: "int \<rightharpoonup> Endpoint list" where
  "DefaultProxiesV4 = map_of (map (\<lambda>(i, h). (i, [\<lparr>ep_Host = h, ep_Port = 8888\<rparr>]))
     [(1, ''149.154.175.50''), (- 1, ''149.154.175.50''), (2, ''149.154.161.144''), (- 2, ''149.154.161.144''),
      (3, ''149.154.175.100''), (- 3, ''149.154.175.100''), (4, ''91.108.4.136''), (- 4, ''149.154.165.109''),
      (5, ''91.108.56.183''), (- 5, ''91.108.56.183'')])"

datatype ad_tag_error = AdTagLength | AdTagHex

definition ParseAdTag :: "string \<Rightarrow> (ad_tag_error, bytes) res" where
  "ParseAdTag s =
     (let s = trim_space s in
      if s = [] then Ok []
      else if length s \<noteq> 32 then Err AdTagLength
      else case hex_decode s of Some tag \<Rightarrow> Ok tag | None \<Rightarrow> Err AdTagHex)"

definition ResolveEndpoints :: "int \<Rightarrow> Endpoint list" where
  "ResolveEndpoints dcID =
     (let i = (if dcID = 0 then 2 else dcID) in
      case DefaultProxiesV4 i of
        Some (e # es) \<Rightarrow> e # es
      | _ \<Rightarrow> (case DefaultProxiesV4 (- i) of Some eps \<Rightarrow> eps | None \<Rightarrow> []))"

section \<open>Requests and answers\<close>

definition rpcProxyReq :: bytes where "rpcProxyReq = [0xee, 0xf1, 0xce, 0x36]"
definition rpcProxyAns :: bytes where "rpcProxyAns = [0x0d, 0xda, 0x03, 0x44]"
definition rpcSimpleAck :: bytes where "rpcSimpleAck = [0x9b, 0x40, 0xac, 0x3b]"
definition rpcCloseConn :: bytes where "rpcCloseConn = [0x5d, 0x42, 0xcf, 0x1f]"

record proxyConnOpts =
  po_ClientIP :: string
  po_ClientPort :: int
  po_LocalIP :: string
  po_LocalPort :: int
  po_AdTag :: bytes

record relayConn =
  rl_cbc :: cbcConn
  rl_readSeq :: "32 word"
  rl_writeSeq :: "32 word"
  rl_readBuf :: bytes

record proxyConn =
  px_relay :: relayConn
  px_opts :: proxyConnOpts
  px_connID :: bytes

text \<open>\<open>newProxyConn\<close>; a failing random source leaves the identifier as it is, all zeros.\<close>

definition newProxyConn :: "bytes option \<Rightarrow> relayConn \<Rightarrow> proxyConnOpts \<Rightarrow> proxyConn" where
  "newProxyConn rnd relay opts =
     \<lparr>px_relay = relay, px_opts = opts, px_connID = (case rnd of Some i \<Rightarrow> i | None \<Rightarrow> replicate 8 0)\<rparr>"

type_synonym ip_parser = "string \<Rightarrow> bytes option"

definition encodeIPPort :: "ip_parser \<Rightarrow> ip_parser \<Rightarrow> string \<Rightarrow> int \<Rightarrow> bytes" where
  "encodeIPPort to4 to16 host port =
     (case to4 host of
        Some ip4 \<Rightarrow> replicate 10 0 @ [0xff, 0xff] @ ip4
      | None \<Rightarrow> (case to16 host of Some ip16 \<Rightarrow> ip16 | None \<Rightarrow> replicate 16 0))
     @ put_le 4 (uint32_of_int port)"

definition proxy_flags :: "bytes \<Rightarrow> bytes \<Rightarrow> 32 word" where
  "proxy_flags payload adTag =
     (let flags = 0x1000 OR 0x20000 OR 0x20000000 OR 0x8000000;
          flags = (if length payload \<ge> 8 \<and> take 8 payload = replicate 8 0 then flags OR 0x2 else flags)
      in if length adTag = 16 then flags OR 0x8 else flags)"

definition buildProxyReq :: "ip_parser \<Rightarrow> ip_parser \<Rightarrow> bytes \<Rightarrow> proxyConnOpts \<Rightarrow> bytes \<Rightarrow> bytes" where
  "buildProxyReq to4 to16 payload opts connID =
     rpcProxyReq @ put_le 4 (unat (proxy_flags payload (po_AdTag opts))) @ connID
     @ encodeIPPort to4 to16 (po_ClientIP opts) (po_ClientPort opts)
     @ encodeIPPort to4 to16 (po_LocalIP opts) (po_LocalPort opts)
     @ (if length (po_AdTag opts) = 16
        then [0x18, 0, 0, 0] @ [0xae, 0x26, 0x1e, 0xdb] @ [word_of_nat (length (po_AdTag opts))] @ po_AdTag opts @ [0, 0, 0]
        else [])
     @ payload"

text \<open>\<open>parseProxyAns\<close>: \<open>None\<close> is a frame that carries no payload.\<close>

definition parseProxyAns :: "bytes \<Rightarrow> mp_error + bytes option" where
  "parseProxyAns frame =
     (if length frame < 4 then Inl (MpIO EOF)
      else if take 4 frame = rpcProxyAns then
        (if length frame < 16 then Inl ShortProxyAns else Inr (Some (drop 16 frame)))
      else if take 4 frame = rpcSimpleAck then Inr None
      else if take 4 frame = rpcCloseConn then Inl (MpIO EOF)
      else Inr None)"

partial_function (option) readPayload ::
  "(bytes \<Rightarrow> bytes \<Rightarrow> bytes) \<Rightarrow> relayConn \<Rightarrow> ((mp_error + bytes) \<times> relayConn) option"
where
  "readPayload D rl =
     (if rl_readBuf rl \<noteq> [] then Some (Inr (rl_readBuf rl), rl\<lparr>rl_readBuf := []\<rparr>)
      else Option.bind (readFrame (cbc_read D) (rl_readSeq rl) (rl_cbc rl)) (\<lambda>(r, seqNo, cbc).
        let rl = rl\<lparr>rl_readSeq := seqNo, rl_cbc := cbc\<rparr> in
        case r of Inl e \<Rightarrow> Some (Inl e, rl)
        | Inr frame \<Rightarrow>
            (case parseProxyAns frame of
               Inl e \<Rightarrow> Some (Inl e, rl)
             | Inr None \<Rightarrow> readPayload D rl
             | Inr (Some data) \<Rightarrow> readPayload D (rl\<lparr>rl_readBuf := data\<rparr>))))"

definition px_Read ::
  "(bytes \<Rightarrow> bytes \<Rightarrow> bytes) \<Rightarrow> nat \<Rightarrow> proxyConn \<Rightarrow> ((mp_error + bytes) \<times> proxyConn) option" where
  "px_Read D n c =
     (if rl_readBuf (px_relay c) = [] then
        Option.bind (readPayload D (px_relay c)) (\<lambda>(r, rl).
          Some (case r of Inl e \<Rightarrow> (Inl e, c\<lparr>px_relay := rl\<rparr>)
                | Inr payload \<Rightarrow> (Inr (take n payload), c\<lparr>px_relay := rl\<lparr>rl_readBuf := drop n payload\<rparr>\<rparr>)))
      else Some (Inr (take n (rl_readBuf (px_relay c))),
                 c\<lparr>px_relay := (px_relay c)\<lparr>rl_readBuf := drop n (rl_readBuf (px_relay c))\<rparr>\<rparr>))"

definition sendPayload ::
  "(bytes \<Rightarrow> bytes \<Rightarrow> bytes) \<Rightarrow> ip_parser \<Rightarrow> ip_parser \<Rightarrow> bytes \<Rightarrow> proxyConn \<Rightarrow> mp_error option \<times> proxyConn" where
  "sendPayload E to4 to16 payload c =
     (if payload = [] \<or> length payload mod 4 \<noteq> 0 then (Some PayloadUnaligned, c)
      else let rl = px_relay c;
               (err, cbc) = writeFrame (cbc_write E) (rl_writeSeq rl)
                  (buildProxyReq to4 to16 payload (px_opts c) (px_connID c)) (rl_cbc rl)
           in case err of
                Some e \<Rightarrow> (Some e, c\<lparr>px_relay := rl\<lparr>rl_cbc := cbc\<rparr>\<rparr>)
              | None \<Rightarrow> (None, c\<lparr>px_relay := rl\<lparr>rl_cbc := cbc, rl_writeSeq := rl_writeSeq rl + 1\<rparr>\<rparr>))"

definition px_Write ::
  "(bytes \<Rightarrow> bytes \<Rightarrow> bytes) \<Rightarrow> ip_parser \<Rightarrow> ip_parser \<Rightarrow> bytes \<Rightarrow> proxyConn \<Rightarrow> mp_error option \<times> proxyConn" where
  "px_Write E to4 to16 p c =
     (if p = [] then (None, c)
      else if length p mod 4 \<noteq> 0 then (Some PayloadUnaligned, c)
      else sendPayload E to4 to16 p c)"

section \<open>Padded intermediate packets\<close>

definition maxIntermediateLen :: nat where "maxIntermediateLen = 2 ^ 20"

record intermediateConn =
  ic_px :: proxyConn
  ic_wbuf :: bytes
  ic_readBuf :: bytes

definition wrapIntermediate :: "proxyConn \<Rightarrow> intermediateConn" where
  "wrapIntermediate c = \<lparr>ic_px = c, ic_wbuf = [], ic_readBuf = []\<rparr>"

text \<open>\<open>nextPaddedIntermediate\<close>: \<open>Inr None\<close> while the packet is not complete.\<close>

definition nextPaddedIntermediate :: "bytes \<Rightarrow> mp_error + (bytes \<times> bytes) option" where
  "nextPaddedIntermediate buf =
     (if length buf < 4 then Inr None
      else let n = le_val (take 4 buf) mod 0x80000000 in
        if n = 0 \<or> n > maxIntermediateLen then Inl BadIntermediateLen
        else if length buf < 4 + n then Inr None
        else Inr (Some (take n (drop 4 buf), drop (4 + n) buf)))"

lemma nextPaddedIntermediate_shrinks:
  "nextPaddedIntermediate buf = Inr (Some (payload, rest)) \<Longrightarrow> length rest < length buf"
  by (auto simp: nextPaddedIntermediate_def Let_def split: if_splits)

function ic_write_loop ::
  "(bytes \<Rightarrow> bytes \<Rightarrow> bytes) \<Rightarrow> ip_parser \<Rightarrow> ip_parser \<Rightarrow> intermediateConn \<Rightarrow> mp_error option \<times> intermediateConn" where
  "ic_write_loop E to4 to16 c =
     (case nextPaddedIntermediate (ic_wbuf c) of
        Inl e \<Rightarrow> (Some e, c)
      | Inr None \<Rightarrow> (None, c)
      | Inr (Some (payload, rest)) \<Rightarrow>
          if length payload mod 4 \<noteq> 0 then (Some PayloadUnaligned, c)
          else (case px_Write E to4 to16 payload (ic_px c) of
                  (Some e, px) \<Rightarrow> (Some e, c\<lparr>ic_px := px\<rparr>)
                | (None, px) \<Rightarrow> ic_write_loop E to4 to16 (c\<lparr>ic_px := px, ic_wbuf := rest\<rparr>)))"
  by pat_completeness auto
termination
  by (relation "measure (\<lambda>(E, to4, to16, c). length (ic_wbuf c))") (auto dest: nextPaddedIntermediate_shrinks)

declare ic_write_loop.simps [simp del]

text \<open>\<open>Write\<close>: \<open>None\<close> when all of \<open>p\<close> is accepted.\<close>

definition ic_Write ::
  "(bytes \<Rightarrow> bytes \<Rightarrow> bytes) \<Rightarrow> ip_parser \<Rightarrow> ip_parser \<Rightarrow> bytes \<Rightarrow> intermediateConn
     \<Rightarrow> mp_error option \<times> intermediateConn" where
  "ic_Write E to4 to16 p c =
     (if p = [] then (None, c) else ic_write_loop E to4 to16 (c\<lparr>ic_wbuf := ic_wbuf c @ p\<rparr>))"

definition ic_Read ::
  "(bytes \<Rightarrow> bytes \<Rightarrow> bytes) \<Rightarrow> nat \<Rightarrow> intermediateConn \<Rightarrow> ((mp_error + bytes) \<times> intermediateConn) option" where
  "ic_Read D n c =
     (if ic_readBuf c = [] then
        Option.bind (readPayload D (px_relay (ic_px c))) (\<lambda>(r, rl).
          let c = c\<lparr>ic_px := (ic_px c)\<lparr>px_relay := rl\<rparr>\<rparr> in
          Some (case r of Inl e \<Rightarrow> (Inl e, c)
                | Inr inner \<Rightarrow>
                    let frame = put_le 4 (length inner) @ inner
                    in (Inr (take n frame), c\<lparr>ic_readBuf := drop n frame\<rparr>)))
      else Some (Inr (take n (ic_readBuf c)), c\<lparr>ic_readBuf := drop n (ic_readBuf c)\<rparr>))"

section \<open>The RPC handshake\<close>

definition rpcNonceTag :: bytes where "rpcNonceTag = [0xaa, 0x87, 0xcb, 0x7a]"
definition rpcHandshakeTag :: bytes where "rpcHandshakeTag = [0xf5, 0xee, 0x82, 0x76]"
definition cryptoAESTag :: bytes where "cryptoAESTag = [0x01, 0x00, 0x00, 0x00]"
definition startSeqNo :: "32 word" where "startSeqNo = - 2"

text \<open>A dialled TCP connection with its two addresses; an address without IPv4 form is \<open>None\<close>.\<close>

record tcpConn =
  tc_in :: stream
  tc_sink :: sink
  tc_peerIP :: "bytes option"
  tc_peerPort :: int
  tc_localIP :: "bytes option"
  tc_localPort :: int

definition raw_write :: "bytes \<Rightarrow> sink \<Rightarrow> mp_error option \<times> sink" where
  "raw_write bs sk = (case sink_write bs sk of (ok, sk') \<Rightarrow> (if ok then None else Some MpWriteFailed, sk'))"

definition reverseIPv4 :: "bytes option \<Rightarrow> bytes option" where
  "reverseIPv4 ip = map_option rev ip"

definition ipv4ToU32 :: "bytes option \<Rightarrow> nat" where
  "ipv4ToU32 ip = (case ip of Some ip4 \<Rightarrow> be_val ip4 | None \<Rightarrow> 0)"

definition buildHandshakePayload :: "nat \<Rightarrow> int \<Rightarrow> nat \<Rightarrow> int \<Rightarrow> nat \<Rightarrow> int \<Rightarrow> bytes" where
  "buildHandshakePayload cltIP cltPort serverIP serverPort pid now =
     rpcHandshakeTag @ replicate 4 0 @ put_le 4 cltIP @ put_le 2 (uint16_of_int cltPort)
     @ put_le 2 (pid mod 65536) @ put_le 4 (uint32_of_int now) @ put_le 4 serverIP
     @ put_le 2 (uint16_of_int serverPort) @ replicate 6 0"

text \<open>The primitives a handshake uses: MD5, SHA-1, the block cipher and \<open>net.ParseIP\<close>.\<close>

record mp_env =
  env_md5 :: "bytes \<Rightarrow> bytes"
  env_sha1 :: "bytes \<Rightarrow> bytes"
  env_E :: "bytes \<Rightarrow> bytes \<Rightarrow> bytes"
  env_D :: "bytes \<Rightarrow> bytes \<Rightarrow> bytes"
  env_to4 :: ip_parser
  env_sched :: "stream \<Rightarrow> nat"

text \<open>The second half of \<open>handshake\<close>, from the server's nonce on.\<close>

definition handshake_cbc ::
  "mp_env \<Rightarrow> int \<Rightarrow> nat \<Rightarrow> tcpConn \<Rightarrow> bytes \<Rightarrow> string \<Rightarrow> bytes \<Rightarrow> bytes \<Rightarrow> bytes \<Rightarrow> 32 word \<Rightarrow> 32 word
     \<Rightarrow> (mp_error, relayConn) res option" where
  "handshake_cbc env now pid raw secret localIP cryptoTS nonce rpcNonceSrv readSeq writeSeq =
     (case (reverseIPv4 (tc_peerIP raw), reverseIPv4 (env_to4 env localIP)) of
        (Some tgIP, Some myIP) \<Rightarrow>
          let tgPort = put_le 2 (uint16_of_int (tc_peerPort raw));
              myPort = put_le 2 (uint16_of_int (tc_localPort raw));
              (encKey, encIV) = mp_deriveKeys (env_md5 env) (env_sha1 env) rpcNonceSrv nonce cryptoTS tgIP myPort
                (bytes_of_string ''CLIENT'') myIP tgPort secret;
              (decKey, decIV) = mp_deriveKeys (env_md5 env) (env_sha1 env) rpcNonceSrv nonce cryptoTS tgIP myPort
                (bytes_of_string ''SERVER'') myIP tgPort secret;
              cbc = newCBCConn (tc_in raw) (tc_sink raw) encKey encIV decKey decIV;
              msg = buildHandshakePayload (ipv4ToU32 (env_to4 env localIP)) (tc_localPort raw)
                (ipv4ToU32 (tc_peerIP raw)) (tc_peerPort raw) pid now
          in (case writeFrame (cbc_write (env_E env)) writeSeq msg cbc of
                (Some e, _) \<Rightarrow> Some (Err e)
              | (None, cbc) \<Rightarrow>
                  Option.bind (readFrame (cbc_read (env_D env)) readSeq cbc) (\<lambda>(r, readSeq, cbc).
                    case r of Inl e \<Rightarrow> Some (Err e)
                    | Inr ans \<Rightarrow>
                        if length ans \<noteq> 32 then Some (Err HandshakeAnsLen)
                        else if take 4 ans \<noteq> rpcHandshakeTag then Some (Err HandshakeTypeMismatch)
                        else Some (Ok \<lparr>rl_cbc = cbc, rl_readSeq = readSeq, rl_writeSeq = writeSeq + 1, rl_readBuf = []\<rparr>)))
      | _ \<Rightarrow> Some (Err NotIPv4))"

text \<open>\<open>handshake\<close>; \<open>rnd\<close> are the 16 bytes of the random source, \<open>now\<close> and \<open>now'\<close> the two clock readings.\<close>

definition handshake ::
  "mp_env \<Rightarrow> int \<Rightarrow> int \<Rightarrow> nat \<Rightarrow> bytes option \<Rightarrow> tcpConn \<Rightarrow> bytes \<Rightarrow> string \<Rightarrow> (mp_error, relayConn) res option" where
  "handshake env now now' pid rnd raw secret localIP =
     (if length secret < 4 then Some Panic
      else case rnd of
        None \<Rightarrow> Some (Err MpRandFailed)
      | Some nonce \<Rightarrow>
          let keySelector = take 4 secret; cryptoTS = put_le 4 (uint32_of_int now);
              nonceMsg = rpcNonceTag @ keySelector @ cryptoAESTag @ cryptoTS @ nonce
          in (case writeFrame raw_write startSeqNo nonceMsg (tc_sink raw) of
                (Some e, _) \<Rightarrow> Some (Err e)
              | (None, sk) \<Rightarrow>
                  Option.bind (readFrame (conn_read (env_sched env)) startSeqNo (tc_in raw)) (\<lambda>(r, readSeq, s).
                    case r of Inl e \<Rightarrow> Some (Err e)
                    | Inr ans \<Rightarrow>
                        if length ans \<noteq> 32 then Some (Err NonceAnsLen)
                        else if take 4 ans \<noteq> rpcNonceTag \<or> take 4 (drop 4 ans) \<noteq> keySelector then Some (Err NonceMismatch)
                        else handshake_cbc env now' pid (raw\<lparr>tc_in := s, tc_sink := sk\<rparr>) secret localIP cryptoTS nonce
                               (drop 16 ans) readSeq (startSeqNo + 1))))"

record DialOpts =
  do_DCID :: int
  do_ClientIP :: string
  do_ClientPort :: int
  do_LocalIP :: string
  do_AdTag :: bytes
  do_ProxySecret :: bytes

text \<open>What the world provides to one attempt: the connection, if dialling succeeds, and the two random strings.\<close>

record attempt =
  at_conn :: "tcpConn option"
  at_nonce :: "bytes option"
  at_connID :: "bytes option"

definition localIPv4 :: "tcpConn \<Rightarrow> string" where
  "localIPv4 c = (case tc_localIP c of Some ip4 \<Rightarrow> ip4_string ip4 | None \<Rightarrow> [])"

definition dialEndpoint ::
  "mp_env \<Rightarrow> int \<Rightarrow> int \<Rightarrow> nat \<Rightarrow> attempt \<Rightarrow> DialOpts \<Rightarrow> (mp_error, intermediateConn) res option" where
  "dialEndpoint env now now' pid att opts =
     (case at_conn att of
        None \<Rightarrow> Some (Err MpDialFailed)
      | Some tcp \<Rightarrow>
          let localIP = (if do_LocalIP opts = [] then localIPv4 tcp else do_LocalIP opts) in
          if localIP = [] then Some (Err NoLocalIP)
          else Option.bind (handshake env now now' pid (at_nonce att) tcp (do_ProxySecret opts) localIP) (\<lambda>r.
            case r of Err e \<Rightarrow> Some (Err e) | Panic \<Rightarrow> Some Panic
            | Ok relay \<Rightarrow> Some (Ok (wrapIntermediate (newProxyConn (at_connID att) relay
                \<lparr>po_ClientIP = do_ClientIP opts, po_ClientPort = do_ClientPort opts, po_LocalIP = localIP,
                 po_LocalPort = tc_localPort tcp, po_AdTag = do_AdTag opts\<rparr>)))))"

fun dial_loop ::
  "(Endpoint \<Rightarrow> (mp_error, intermediateConn) res option) \<Rightarrow> Endpoint list \<Rightarrow> mp_error option
     \<Rightarrow> (mp_error, intermediateConn) res option" where
  "dial_loop try [] lastErr = Some (Err (case lastErr of Some e \<Rightarrow> e | None \<Rightarrow> MpDialFailed))"
| "dial_loop try (ep # eps) lastErr =
     Option.bind (try ep) (\<lambda>r. case r of Ok c \<Rightarrow> Some (Ok c) | Panic \<Rightarrow> Some Panic | Err e \<Rightarrow> dial_loop try eps (Some e))"

definition Dial ::
  "mp_env \<Rightarrow> int \<Rightarrow> int \<Rightarrow> nat \<Rightarrow> (Endpoint \<Rightarrow> attempt) \<Rightarrow> DialOpts \<Rightarrow> (mp_error, intermediateConn) res option" where
  "Dial env now now' pid world opts =
     (case (if do_ProxySecret opts = [] then DefaultProxySecret else Ok (do_ProxySecret opts)) of
        Ok secret \<Rightarrow>
          let opts = opts\<lparr>do_ProxySecret := secret\<rparr>; endpoints = ResolveEndpoints (do_DCID opts) in
          if endpoints = [] then Some (Err NoMiddleProxy)
          else dial_loop (\<lambda>ep. dialEndpoint env now now' pid (world ep) opts) endpoints None
      | _ \<Rightarrow> Some Panic)"

section \<open>Uploads\<close>

text \<open>Specification: the complete packets at the head of a byte string, and what follows them.\<close>

function split_packets :: "bytes \<Rightarrow> bytes list \<times> bytes" where
  "split_packets buf =
     (case nextPaddedIntermediate buf of
        Inr (Some (p, rest)) \<Rightarrow> (p # fst (split_packets rest), snd (split_packets rest))
      | _ \<Rightarrow> ([], buf))"
  by pat_completeness auto
termination
  by (relation "measure length") (auto dest: nextPaddedIntermediate_shrinks)

declare split_packets.simps [simp del]

fun ic_Writes ::
  "(bytes \<Rightarrow> bytes \<Rightarrow> bytes) \<Rightarrow> ip_parser \<Rightarrow> ip_parser \<Rightarrow> bytes list \<Rightarrow> intermediateConn
     \<Rightarrow> mp_error option \<times> intermediateConn" where
  "ic_Writes E to4 to16 [] c = (None, c)"
| "ic_Writes E to4 to16 (p # ps) c =
     (case ic_Write E to4 to16 p c of (None, c') \<Rightarrow> ic_Writes E to4 to16 ps c' | (Some e, c') \<Rightarrow> (Some e, c'))"

lemma next_append:
  "nextPaddedIntermediate xs = Inr (Some (p, rest)) \<Longrightarrow> nextPaddedIntermediate (xs @ ys) = Inr (Some (p, rest @ ys))"
  "nextPaddedIntermediate xs = Inl e \<Longrightarrow> nextPaddedIntermediate (xs @ ys) = Inl e"
  by (auto simp: nextPaddedIntermediate_def Let_def split: if_splits)

lemma next_payload:
  "nextPaddedIntermediate xs = Inr (Some (p, rest)) \<Longrightarrow> 0 < length p \<and> length p \<le> 1048576"
  by (auto simp: nextPaddedIntermediate_def maxIntermediateLen_def Let_def split: if_splits)

lemma split_packets_append:
  "split_packets (xs @ ys) =
     (fst (split_packets xs) @ fst (split_packets (snd (split_packets xs) @ ys)),
      snd (split_packets (snd (split_packets xs) @ ys)))"
proof (induction xs rule: split_packets.induct)
  case (1 xs)
  show ?case
  proof (cases "\<exists>p rest. nextPaddedIntermediate xs = Inr (Some (p, rest))")
    case True
    then obtain p rest where n: "nextPaddedIntermediate xs = Inr (Some (p, rest))" by blast
    then show ?thesis
      using 1 [OF n refl refl] by (simp add: split_packets.simps [of "xs @ ys"] split_packets.simps [of xs] next_append)
  next
    case False
    then have "split_packets xs = ([], xs)"
      by (subst split_packets.simps) (auto split: sum.splits option.splits)
    then show ?thesis by simp
  qed
qed

lemma split_packets_tail: "nextPaddedIntermediate (snd (split_packets xs)) \<noteq> Inr (Some q)"
proof (induction xs rule: split_packets.induct)
  case (1 xs)
  show ?case
  proof (cases "\<exists>p rest. nextPaddedIntermediate xs = Inr (Some (p, rest))")
    case True
    then obtain p rest where n: "nextPaddedIntermediate xs = Inr (Some (p, rest))" by blast
    then show ?thesis
      using 1 [OF n refl refl] by (simp add: split_packets.simps [of xs])
  next
    case False
    then have "split_packets xs = ([], xs)"
      by (subst split_packets.simps) (auto split: sum.splits option.splits)
    with False show ?thesis by (cases q) auto
  qed
qed

lemma split_packets_sizes: "p \<in> set (fst (split_packets xs)) \<Longrightarrow> 0 < length p \<and> length p \<le> 1048576"
proof (induction xs rule: split_packets.induct)
  case (1 xs)
  show ?case
  proof (cases "\<exists>p rest. nextPaddedIntermediate xs = Inr (Some (p, rest))")
    case True
    then obtain q rest where n: "nextPaddedIntermediate xs = Inr (Some (q, rest))" by blast
    then show ?thesis
      using 1(1) [OF n refl refl] 1(3) next_payload [OF n] by (auto simp: split_packets.simps [of xs])
  next
    case False
    then have "split_packets xs = ([], xs)"
      by (subst split_packets.simps) (auto split: sum.splits option.splits)
    with 1(3) show ?thesis by simp
  qed
qed

text \<open>A stream that is good stays good when cut.\<close>

definition good_stream :: "bytes \<Rightarrow> bool" where
  "good_stream b \<longleftrightarrow> (\<forall>p \<in> set (fst (split_packets b)). length p mod 4 = 0)
     \<and> nextPaddedIntermediate (snd (split_packets b)) = Inr None"

lemma good_stream_prefix:
  assumes "good_stream (xs @ ys)"
  shows "good_stream xs"
proof -
  let ?t = "snd (split_packets xs)"
  have t: "nextPaddedIntermediate (snd (split_packets (?t @ ys))) = Inr None"
    using assms split_packets_append [of xs ys] by (simp add: good_stream_def)
  have "nextPaddedIntermediate ?t = Inr None"
  proof (cases "nextPaddedIntermediate ?t")
    case (Inl e)
    then have n: "nextPaddedIntermediate (?t @ ys) = Inl e" by (rule next_append)
    then have "split_packets (?t @ ys) = ([], ?t @ ys)"
      by (subst split_packets.simps) simp
    with n t show ?thesis by simp
  next
    case (Inr q)
    with split_packets_tail [of xs] show ?thesis by (cases q) auto
  qed
  then show ?thesis
    using assms split_packets_append [of xs ys] by (simp add: good_stream_def)
qed

lemma write_frames_append:
  "write_frames wr n (ms @ ms') w =
     (case write_frames wr n ms w of (None, w') \<Rightarrow> write_frames wr (n + of_nat (length ms)) ms' w' | (Some e, w') \<Rightarrow> (Some e, w'))"
proof (induction ms arbitrary: n w)
  case (Cons m ms)
  show ?case
    using Cons.IH [of "n + 1"] by (simp add: add.assoc split: prod.splits option.splits)
qed simp

text \<open>What has been sent after the bytes \<open>b\<close> were written to a fresh connection \<open>c0\<close>.\<close>

definition ic_request :: "ip_parser \<Rightarrow> ip_parser \<Rightarrow> intermediateConn \<Rightarrow> bytes \<Rightarrow> bytes" where
  "ic_request to4 to16 c p = buildProxyReq to4 to16 p (px_opts (ic_px c)) (px_connID (ic_px c))"

abbreviation ic_cbc :: "intermediateConn \<Rightarrow> cbcConn" where
  "ic_cbc c \<equiv> rl_cbc (px_relay (ic_px c))"

abbreviation ic_seq :: "intermediateConn \<Rightarrow> 32 word" where
  "ic_seq c \<equiv> rl_writeSeq (px_relay (ic_px c))"

definition ic_sent ::
  "(bytes \<Rightarrow> bytes \<Rightarrow> bytes) \<Rightarrow> ip_parser \<Rightarrow> ip_parser \<Rightarrow> intermediateConn \<Rightarrow> bytes list \<Rightarrow> intermediateConn \<Rightarrow> bool" where
  "ic_sent E to4 to16 c0 ps c \<longleftrightarrow>
     write_frames (cbc_write E) (ic_seq c0) (map (ic_request to4 to16 c0) ps) (ic_cbc c0) = (None, ic_cbc c)
     \<and> ic_seq c = ic_seq c0 + of_nat (length ps)
     \<and> px_opts (ic_px c) = px_opts (ic_px c0) \<and> px_connID (ic_px c) = px_connID (ic_px c0)
     \<and> sk_room (cb_sink (ic_cbc c)) = None"

lemma ic_sent_step:
  assumes "sk_room (cb_sink (rl_cbc (px_relay px))) = None" "p \<noteq> []" "length p mod 4 = 0"
  obtains cbc where "px_Write E to4 to16 p px =
      (None, px\<lparr>px_relay := (px_relay px)\<lparr>rl_cbc := cbc, rl_writeSeq := rl_writeSeq (px_relay px) + 1\<rparr>\<rparr>)"
    "writeFrame (cbc_write E) (rl_writeSeq (px_relay px)) (buildProxyReq to4 to16 p (px_opts px) (px_connID px))
      (rl_cbc (px_relay px)) = (None, cbc)" "sk_room (cb_sink cbc) = None"
proof -
  obtain cbc where w: "write_frames (cbc_write E) (rl_writeSeq (px_relay px))
      [buildProxyReq to4 to16 p (px_opts px) (px_connID px)] (rl_cbc (px_relay px)) = (None, cbc)"
    "sk_room (cb_sink cbc) = None"
    using write_frames_open [OF assms(1)] by blast
  then have f: "writeFrame (cbc_write E) (rl_writeSeq (px_relay px)) (buildProxyReq to4 to16 p (px_opts px) (px_connID px))
      (rl_cbc (px_relay px)) = (None, cbc)"
    by (simp split: prod.splits option.splits)
  then have "px_Write E to4 to16 p px =
      (None, px\<lparr>px_relay := (px_relay px)\<lparr>rl_cbc := cbc, rl_writeSeq := rl_writeSeq (px_relay px) + 1\<rparr>\<rparr>)"
    using assms(2,3) by (simp add: px_Write_def sendPayload_def Let_def)
  with f w(2) that show ?thesis by blast
qed

lemma ic_write_loop_sends:
  "sk_room (cb_sink (ic_cbc c)) = None \<Longrightarrow> good_stream (ic_wbuf c) \<Longrightarrow>
     \<exists>c'. ic_write_loop E to4 to16 c = (None, c') \<and> ic_wbuf c' = snd (split_packets (ic_wbuf c))
       \<and> ic_sent E to4 to16 c (fst (split_packets (ic_wbuf c))) c'"
proof (induction E to4 to16 c rule: ic_write_loop.induct)
  case (1 E to4 to16 c)
  show ?case
  proof (cases "nextPaddedIntermediate (ic_wbuf c)")
    case (Inl e)
    then have "split_packets (ic_wbuf c) = ([], ic_wbuf c)"
      by (subst split_packets.simps) simp
    with Inl 1(3) show ?thesis by (simp add: good_stream_def)
  next
    case (Inr q)
    show ?thesis
    proof (cases q)
      case None
      then have "split_packets (ic_wbuf c) = ([], ic_wbuf c)" "ic_write_loop E to4 to16 c = (None, c)"
        using Inr by (simp_all add: split_packets.simps [of "ic_wbuf c"] ic_write_loop.simps [of E to4 to16 c])
      with 1(2) show ?thesis by (simp add: ic_sent_def)
    next
      case (Some pr)
      obtain p rest where n: "nextPaddedIntermediate (ic_wbuf c) = Inr (Some (p, rest))" "pr = (p, rest)"
        using Inr Some by (cases pr) auto
      have sp: "split_packets (ic_wbuf c) = (p # fst (split_packets rest), snd (split_packets rest))"
        using n by (subst split_packets.simps) simp
      have p: "p \<noteq> []" "length p mod 4 = 0" "good_stream rest"
        using 1(3) next_payload [OF n(1)] sp by (auto simp: good_stream_def)
      obtain cbc where w: "px_Write E to4 to16 p (ic_px c) = (None, (ic_px c)\<lparr>px_relay := (px_relay (ic_px c))
            \<lparr>rl_cbc := cbc, rl_writeSeq := ic_seq c + 1\<rparr>\<rparr>)"
        "writeFrame (cbc_write E) (ic_seq c) (ic_request to4 to16 c p) (ic_cbc c) = (None, cbc)"
        "sk_room (cb_sink cbc) = None"
        using ic_sent_step [OF 1(2) p(1,2), of E to4 to16] unfolding ic_request_def by blast
      define c1 where "c1 = c\<lparr>ic_px := (ic_px c)\<lparr>px_relay := (px_relay (ic_px c))
            \<lparr>rl_cbc := cbc, rl_writeSeq := ic_seq c + 1\<rparr>\<rparr>, ic_wbuf := rest\<rparr>"
      have c1: "ic_cbc c1 = cbc" "ic_wbuf c1 = rest" "ic_seq c1 = ic_seq c + 1"
        "px_opts (ic_px c1) = px_opts (ic_px c)" "px_connID (ic_px c1) = px_connID (ic_px c)"
        by (simp_all add: c1_def)
      have l: "ic_write_loop E to4 to16 c = ic_write_loop E to4 to16 c1"
        using n p w by (subst ic_write_loop.simps) (simp add: c1_def)
      have "\<exists>c'. ic_write_loop E to4 to16 c1 = (None, c') \<and> ic_wbuf c' = snd (split_packets rest)
          \<and> ic_sent E to4 to16 c1 (fst (split_packets rest)) c'"
        using 1(1) [OF n(1) refl refl _ w(1) [symmetric] refl] p w(3) by (simp add: c1_def)
      then obtain c' where c': "ic_write_loop E to4 to16 c1 = (None, c')" "ic_wbuf c' = snd (split_packets rest)"
          "ic_sent E to4 to16 c1 (fst (split_packets rest)) c'" by blast
      have "ic_request to4 to16 c1 = ic_request to4 to16 c"
        using c1 by (simp add: ic_request_def fun_eq_iff)
      then have "ic_sent E to4 to16 c (p # fst (split_packets rest)) c'"
        using c'(3) c1 w(2) by (simp add: ic_sent_def add.assoc)
      with l c' sp show ?thesis by simp
    qed
  qed
qed

lemma ic_sent_append:
  "ic_sent E to4 to16 c0 ps c \<Longrightarrow> ic_sent E to4 to16 c qs c' \<Longrightarrow> ic_sent E to4 to16 c0 (ps @ qs) c'"
  by (simp add: ic_sent_def write_frames_append ic_request_def [abs_def] add.assoc)

lemma ic_Writes_send:
  assumes "good_stream (b @ concat chunks)" "ic_sent E to4 to16 c0 (fst (split_packets b)) c" "ic_wbuf c = snd (split_packets b)"
  shows "\<exists>c'. ic_Writes E to4 to16 chunks c = (None, c') \<and> ic_wbuf c' = snd (split_packets (b @ concat chunks))
     \<and> ic_sent E to4 to16 c0 (fst (split_packets (b @ concat chunks))) c'"
  using assms
proof (induction chunks arbitrary: b c)
  case (Cons p chunks)
  have s: "split_packets (b @ p) = (fst (split_packets b) @ fst (split_packets (ic_wbuf c @ p)), snd (split_packets (ic_wbuf c @ p)))"
    using split_packets_append [of b p] Cons.prems(3) by simp
  have "good_stream (b @ p)"
    using good_stream_prefix [of "b @ p" "concat chunks"] Cons.prems(1) by simp
  then have g: "good_stream (ic_wbuf c @ p)"
    using s by (simp add: good_stream_def)
  have "\<exists>c1. ic_Write E to4 to16 p c = (None, c1) \<and> ic_wbuf c1 = snd (split_packets (ic_wbuf c @ p))
      \<and> ic_sent E to4 to16 c (fst (split_packets (ic_wbuf c @ p))) c1"
  proof (cases "p = []")
    case True
    have "split_packets (ic_wbuf c) = ([], ic_wbuf c)"
      using split_packets_tail [of b] unfolding Cons.prems(3) [symmetric]
      by (subst split_packets.simps) (auto split: sum.splits option.splits)
    with True Cons.prems(2) show ?thesis by (simp add: ic_Write_def ic_sent_def)
  next
    case False
    let ?c = "c\<lparr>ic_wbuf := ic_wbuf c @ p\<rparr>"
    have "ic_sent E to4 to16 ?c = ic_sent E to4 to16 c"
      by (intro ext) (simp add: ic_sent_def ic_request_def [abs_def])
    then show ?thesis
      using ic_write_loop_sends [of ?c E to4 to16] g False Cons.prems(2) by (simp add: ic_Write_def ic_sent_def)
  qed
  then obtain c1 where c1: "ic_Write E to4 to16 p c = (None, c1)" "ic_wbuf c1 = snd (split_packets (b @ p))"
    "ic_sent E to4 to16 c (fst (split_packets (ic_wbuf c @ p))) c1"
    using s by auto
  have "ic_sent E to4 to16 c0 (fst (split_packets (b @ p))) c1"
    using ic_sent_append [OF Cons.prems(2) c1(3)] s by simp
  then show ?case
    using Cons.IH [of "b @ p" c1] Cons.prems(1) c1 by simp
qed simp

lemma encodeIPPort_length:
  "(\<And>h ip. to4 h = Some ip \<Longrightarrow> length ip = 4) \<Longrightarrow> (\<And>h ip. to16 h = Some ip \<Longrightarrow> length ip = 16) \<Longrightarrow>
     length (encodeIPPort to4 to16 host port) = 20"
  by (simp add: encodeIPPort_def split: option.splits)

lemma buildProxyReq_fits:
  assumes "\<And>h ip. to4 h = Some ip \<Longrightarrow> length ip = 4" "\<And>h ip. to16 h = Some ip \<Longrightarrow> length ip = 16"
    and "length connID = 8" "length p mod 4 = 0" "length p \<le> 1048576"
  shows "frame_fits (buildProxyReq to4 to16 p opts connID)"
proof -
  have l: "length (buildProxyReq to4 to16 p opts connID) = length p + (if length (po_AdTag opts) = 16 then 84 else 56)"
    using assms(3) encodeIPPort_length [of to4 to16, OF assms(1,2)] by (simp add: buildProxyReq_def rpcProxyReq_def)
  have "(length p + 84) mod 4 = 0" "(length p + 56) mod 4 = 0"
    using assms(4) mod_add_right_eq [of "length p" 84 4] mod_add_right_eq [of "length p" 56 4] by simp_all
  with l assms(5) show ?thesis by (simp add: frame_fits_def)
qed


definition opts_example :: proxyConnOpts where
  "opts_example = \<lparr>po_ClientIP = ''1.2.3.4'', po_ClientPort = 5000, po_LocalIP = ''1.2.3.4'', po_LocalPort = 443, po_AdTag = []\<rparr>"

definition rl_example :: "bytes \<Rightarrow> relayConn" where
  "rl_example bs = \<lparr>rl_cbc = cbc_example bs, rl_readSeq = 0, rl_writeSeq = 0, rl_readBuf = []\<rparr>"

definition px_example :: "bytes \<Rightarrow> proxyConn" where
  "px_example bs = \<lparr>px_relay = rl_example bs, px_opts = opts_example, px_connID = replicate 8 7\<rparr>"


text \<open>
  A packet whose length is not a whole number of words ends the upload: it is refused, and it stays
  at the head of the buffer, so that every later write is refused too. The padding of the padded
  intermediate transport is 0 to 15 random bytes, counted in the packet length.
\<close>

lemma intermediate_refuses_padding:
  assumes "nextPaddedIntermediate (ic_wbuf c @ p) = Inr (Some (payload, rest))" "length payload mod 4 \<noteq> 0" "p \<noteq> []"
  shows "ic_Write E to4 to16 p c = (Some PayloadUnaligned, c\<lparr>ic_wbuf := ic_wbuf c @ p\<rparr>)
     \<and> (q \<noteq> [] \<longrightarrow> fst (ic_Write E to4 to16 q (c\<lparr>ic_wbuf := ic_wbuf c @ p\<rparr>)) = Some PayloadUnaligned)"
proof -
  have l: "ic_write_loop E to4 to16 (c\<lparr>ic_wbuf := b\<rparr>) = (Some PayloadUnaligned, c\<lparr>ic_wbuf := b\<rparr>)"
    if "nextPaddedIntermediate b = Inr (Some (payload, s))" for b s
    using that assms(2) by (subst ic_write_loop.simps) simp
  show ?thesis
    using l [OF assms(1)] l [OF next_append(1) [OF assms(1), of q]] assms(3) by (simp add: ic_Write_def)
qed

section \<open>Downloads\<close>

text \<open>Specification: the payload of an answer frame, and the client's view of a sequence of them.\<close>

definition ans_ok :: "bytes \<Rightarrow> bool" where
  "ans_ok m \<longleftrightarrow> frame_fits m \<and> (case parseProxyAns m of Inl e \<Rightarrow> False | Inr q \<Rightarrow> True)"

definition ans_payload :: "bytes \<Rightarrow> bytes" where
  "ans_payload m = (case parseProxyAns m of Inr (Some d) \<Rightarrow> d | _ \<Rightarrow> [])"

definition client_packets :: "bytes list \<Rightarrow> bytes" where
  "client_packets ms = concat (map (\<lambda>m. if ans_payload m = [] then [] else put_le 4 (length (ans_payload m)) @ ans_payload m) ms)"

text \<open>A relay connection on which the frames \<open>ms\<close> are pending, possibly behind padding.\<close>

definition frames_pending :: "(bytes \<Rightarrow> bytes \<Rightarrow> bytes) \<Rightarrow> bytes list \<Rightarrow> relayConn \<Rightarrow> bool" where
  "frames_pending D ms rl \<longleftrightarrow> cbc_sound D (rl_cbc rl) \<and> rl_readBuf rl = []
     \<and> (\<exists>k. cbc_pending D (rl_cbc rl) = concat (replicate k filler) @ frame_stream (rl_readSeq rl) ms)"

lemma frames_pending_read:
  assumes "frames_pending D (m # ms) rl" "frame_fits m"
  obtains cbc where "readFrame (cbc_read D) (rl_readSeq rl) (rl_cbc rl) = Some (Inr m, rl_readSeq rl + 1, cbc)"
    "frames_pending D ms (rl\<lparr>rl_readSeq := rl_readSeq rl + 1, rl_cbc := cbc\<rparr>)"
proof -
  let ?n = "rl_readSeq rl"
  obtain k where s: "cbc_sound D (rl_cbc rl)" and b: "rl_readBuf rl = []"
    and p: "cbc_pending D (rl_cbc rl) = concat (replicate k filler) @ frame_core ?n m
      @ framePadding (length (frame_core ?n m)) @ frame_stream (?n + 1) ms"
    using assms(1) by (auto simp: frames_pending_def)
  obtain cbc where c: "readFrame (cbc_read D) ?n (rl_cbc rl) = Some (Inr m, ?n + 1, cbc)"
    "cbc_pending D cbc = framePadding (length (frame_core ?n m)) @ frame_stream (?n + 1) ms" "cbc_sound D cbc"
    by (rule cbc_frames.readFrame_delivers [OF s p]) (use assms(2) in \<open>simp add: frame_fits_def\<close>)
  obtain j where "framePadding (length (frame_core ?n m)) = concat (replicate j filler)"
    using framePadding_fillers [OF frame_fits_core [OF assms(2)]] by blast
  with c b that show ?thesis
    by (auto simp: frames_pending_def)
qed

lemma readPayload_delivers:
  assumes "frames_pending D ms rl" "\<forall>m \<in> set ms. ans_ok m" "client_packets ms \<noteq> []"
  shows "\<exists>rl' d ms'. readPayload D rl = Some (Inr d, rl') \<and> d \<noteq> [] \<and> frames_pending D ms' rl' \<and> set ms' \<subseteq> set ms
     \<and> client_packets ms = put_le 4 (length d) @ d @ client_packets ms'"
  using assms
proof (induction ms arbitrary: rl)
  case Nil
  then show ?case by (simp add: client_packets_def)
next
  case (Cons m ms)
  have f: "frame_fits m" using Cons.prems(2) by (simp add: ans_ok_def)
  obtain cbc where r: "readFrame (cbc_read D) (rl_readSeq rl) (rl_cbc rl) = Some (Inr m, rl_readSeq rl + 1, cbc)"
    and p: "frames_pending D ms (rl\<lparr>rl_readSeq := rl_readSeq rl + 1, rl_cbc := cbc\<rparr>)"
    by (rule frames_pending_read [OF Cons.prems(1) f])
  define rl1 where "rl1 = rl\<lparr>rl_readSeq := rl_readSeq rl + 1, rl_cbc := cbc\<rparr>"
  have b: "rl_readBuf rl = []" "rl_readBuf rl1 = []"
    using Cons.prems(1) by (simp_all add: frames_pending_def rl1_def)
  have u: "readPayload D rl = (case parseProxyAns m of
      Inl e \<Rightarrow> Some (Inl e, rl1) | Inr None \<Rightarrow> readPayload D rl1
      | Inr (Some d) \<Rightarrow> readPayload D (rl1\<lparr>rl_readBuf := d\<rparr>))"
    unfolding rl1_def using b r by (subst readPayload.simps) (simp add: Let_def)
  show ?case
  proof (cases "ans_payload m = []")
    case True
    then have "parseProxyAns m = Inr None \<or> parseProxyAns m = Inr (Some [])"
      using Cons.prems(2) by (auto simp: ans_ok_def ans_payload_def split: sum.splits option.splits)
    moreover have "rl1\<lparr>rl_readBuf := []\<rparr> = rl1"
      using b(2) by (cases rl1) simp
    ultimately have "readPayload D rl = readPayload D rl1"
      using u by auto
    moreover have "client_packets (m # ms) = client_packets ms"
      using True by (simp add: client_packets_def)
    ultimately show ?thesis
      using Cons.IH [of rl1] p Cons.prems(2,3) by (fastforce simp: rl1_def)
  next
    case False
    then have m: "parseProxyAns m = Inr (Some (ans_payload m))"
      by (auto simp: ans_payload_def split: sum.splits option.splits)
    have "readPayload D rl = readPayload D (rl1\<lparr>rl_readBuf := ans_payload m\<rparr>)"
      using u m by simp
    also have "\<dots> = Some (Inr (ans_payload m), rl1)"
      using False b by (subst readPayload.simps) simp
    finally show ?thesis
      using False p by (intro exI [of _ rl1] exI [of _ "ans_payload m"] exI [of _ ms])
        (auto simp: client_packets_def rl1_def)
  qed
qed

text \<open>\<open>io.ReadFull\<close> over a reader that may not return.\<close>

partial_function (option) opt_read_full ::
  "(nat \<Rightarrow> 's \<Rightarrow> (('e + bytes) \<times> 's) option) \<Rightarrow> nat \<Rightarrow> bytes \<Rightarrow> 's \<Rightarrow> (('e + bytes) \<times> 's) option"
where
  "opt_read_full rd n acc s =
     (if n \<le> length acc then Some (Inr acc, s)
      else Option.bind (rd (n - length acc) s) (\<lambda>(r, s').
        case r of Inl e \<Rightarrow> Some (Inl e, s') | Inr xs \<Rightarrow> opt_read_full rd n (acc @ xs) s'))"

definition download_pending :: "(bytes \<Rightarrow> bytes \<Rightarrow> bytes) \<Rightarrow> bytes \<Rightarrow> intermediateConn \<Rightarrow> bool" where
  "download_pending D b c \<longleftrightarrow> (\<exists>ms. frames_pending D ms (px_relay (ic_px c)) \<and> (\<forall>m \<in> set ms. ans_ok m)
     \<and> b = ic_readBuf c @ client_packets ms)"

lemma ic_Read_progress:
  assumes "download_pending D b c" "b \<noteq> []" "0 < n"
  shows "\<exists>xs c' b'. ic_Read D n c = Some (Inr xs, c') \<and> xs \<noteq> [] \<and> length xs \<le> n \<and> b = xs @ b' \<and> download_pending D b' c'"
proof -
  obtain ms where ms: "frames_pending D ms (px_relay (ic_px c))" "\<forall>m \<in> set ms. ans_ok m" "b = ic_readBuf c @ client_packets ms"
    using assms(1) by (auto simp: download_pending_def)
  show ?thesis
  proof (cases "ic_readBuf c = []")
    case False
    let ?c = "c\<lparr>ic_readBuf := drop n (ic_readBuf c)\<rparr>"
    have "ic_Read D n c = Some (Inr (take n (ic_readBuf c)), ?c)"
      using False by (simp add: ic_Read_def)
    moreover have "download_pending D (drop n (ic_readBuf c) @ client_packets ms) ?c"
      using ms by (auto simp: download_pending_def)
    moreover have "b = take n (ic_readBuf c) @ drop n (ic_readBuf c) @ client_packets ms"
      unfolding ms(3) by (simp only: append.assoc [symmetric] append_take_drop_id)
    moreover have "take n (ic_readBuf c) \<noteq> []" "length (take n (ic_readBuf c)) \<le> n"
      using False assms(3) by simp_all
    ultimately show ?thesis by blast
  next
    case True
    with assms(2) ms(3) have "client_packets ms \<noteq> []" by simp
    then obtain rl' d ms' where r: "readPayload D (px_relay (ic_px c)) = Some (Inr d, rl')" "d \<noteq> []"
      "frames_pending D ms' rl'" "set ms' \<subseteq> set ms" "client_packets ms = put_le 4 (length d) @ d @ client_packets ms'"
      using readPayload_delivers [OF ms(1,2)] by blast
    let ?f = "put_le 4 (length d) @ d"
    define c1 where "c1 = c\<lparr>ic_px := (ic_px c)\<lparr>px_relay := rl'\<rparr>, ic_readBuf := drop n ?f\<rparr>"
    have "ic_Read D n c = Some (Inr (take n ?f), c1)"
      using True r(1) by (simp add: ic_Read_def c1_def Let_def)
    moreover have "download_pending D (drop n ?f @ client_packets ms') c1"
      unfolding download_pending_def using r(3,4) ms(2) by (intro exI [of _ ms']) (auto simp: c1_def)
    moreover have "b = take n ?f @ drop n ?f @ client_packets ms'"
      unfolding ms(3) True r(5) by (simp only: append.assoc [symmetric] append_take_drop_id append_Nil)
    moreover have "take n ?f \<noteq> []" "length (take n ?f) \<le> n"
      using r(2) assms(3) by (auto simp del: take_append)
    ultimately show ?thesis by blast
  qed
qed

lemma opt_read_full_download:
  "download_pending D b c \<Longrightarrow> \<exists>c'. opt_read_full (ic_Read D) (length acc + length b) acc c = Some (Inr (acc @ b), c')"
proof (induction "length b" arbitrary: acc b c rule: less_induct)
  case less
  show ?case
  proof (cases "b = []")
    case True
    then show ?thesis by (simp add: opt_read_full.simps)
  next
    case False
    then have "0 < length b" by simp
    with ic_Read_progress [OF less.prems False]
    obtain xs c1 b' where r: "ic_Read D (length b) c = Some (Inr xs, c1)" "xs \<noteq> []" "b = xs @ b'" "download_pending D b' c1"
      by blast
    then have "length b' < length b" by (cases xs) auto
    from less.hyps [OF this r(4), of "acc @ xs"] obtain c'
      where "opt_read_full (ic_Read D) (length (acc @ xs) + length b') (acc @ xs) c1 = Some (Inr ((acc @ xs) @ b'), c')"
      by blast
    with r False show ?thesis
      by (subst opt_read_full.simps) (simp add: add.assoc)
  qed
qed

text \<open>
  C30. Downloads through a middle proxy: whatever answer frames the middle proxy writes, the client
  reads, however small its reads are, exactly the non-empty payloads of the answers in order, each as
  a packet with its length in front; acknowledgements and unknown frames are skipped.
\<close>

theorem middle_download:
  assumes "block_fun (E key)" "block_fun (D key)" "\<And>b. length b = 16 \<Longrightarrow> D key (E key b) = b"
    and "length iv = 16" "cb_ekey me = key" "cb_eiv me = iv" "sk_out (cb_sink me) = []"
    and "\<forall>m \<in> set ms. ans_ok m" "write_frames (cbc_write E) n ms me = (None, me')"
    and "px_relay px = rl" "rl_readSeq rl = n" "rl_readBuf rl = []"
    and "cb_dkey (rl_cbc rl) = key" "cb_div (rl_cbc rl) = iv" "cb_buf (rl_cbc rl) = []"
    and "st_in (cb_in (rl_cbc rl)) = sk_out (cb_sink me')"
  shows "\<exists>c'. opt_read_full (ic_Read D) (length (client_packets ms)) [] (wrapIntermediate px) =
     Some (Inr (client_packets ms), c')"
proof -
  have "cbc_pending D (rl_cbc rl) = concat (replicate 0 filler) @ frame_stream n ms"
    using write_frames_cbc [OF assms(9)] cbc_dec_enc [OF assms(1,3,4) frame_stream_aligned] assms
    by (simp add: cbc_pending_def)
  then have "frames_pending D ms rl"
    unfolding frames_pending_def cbc_sound_def using assms(2,4,11-14) by (intro conjI exI [of _ 0]) simp_all
  then have "download_pending D (client_packets ms) (wrapIntermediate px)"
    using assms(8,10) by (auto simp: download_pending_def wrapIntermediate_def)
  from opt_read_full_download [OF this, of "[]"] show ?thesis by simp
qed

theorem middle_download_witness:
  "\<exists>me' c'. write_frames (cbc_write E_toy) 0 [rpcSimpleAck @ [0, 0, 0, 0], rpcProxyAns @ replicate 12 0 @ [1, 2, 3, 4]] (cbc_example []) = (None, me')
     \<and> opt_read_full (ic_Read D_toy)
         (length (client_packets [rpcSimpleAck @ [0, 0, 0, 0], rpcProxyAns @ replicate 12 0 @ [1, 2, 3, 4]])) []
         (wrapIntermediate (px_example (sk_out (cb_sink me')))) =
       Some (Inr (client_packets [rpcSimpleAck @ [0, 0, 0, 0], rpcProxyAns @ replicate 12 0 @ [1, 2, 3, 4]]), c')"
proof -
  let ?ms = "[rpcSimpleAck @ [0, 0, 0, 0], rpcProxyAns @ replicate 12 0 @ [1, 2, 3, 4]]"
  have ok: "\<forall>m \<in> set ?ms. ans_ok m"
    by (simp add: ans_ok_def frame_fits_def parseProxyAns_def rpcSimpleAck_def rpcProxyAns_def)
  obtain me' where w: "write_frames (cbc_write E_toy) 0 ?ms (cbc_example []) = (None, me')"
    using write_frames_open [OF cbc_example_open] by blast
  have "\<exists>c'. opt_read_full (ic_Read D_toy) (length (client_packets ?ms)) [] (wrapIntermediate (px_example (sk_out (cb_sink me')))) =
      Some (Inr (client_packets ?ms), c')"
    by (rule middle_download [where E = E_toy and D = D_toy and key = "[3]" and iv = "replicate 16 9"
          and rl = "rl_example (sk_out (cb_sink me'))", OF cipher_toy _ _ _ _ ok w])
      (simp_all add: px_example_def rl_example_def cbc_example_def newCBCConn_def)
  with w show ?thesis by blast
qed

section \<open>The handshake succeeds\<close>

lemma raw_write_open:
  "sk_room sk = None \<Longrightarrow> writeFrame raw_write n m sk =
     (None, sk\<lparr>sk_out := sk_out sk @ frame_core n m @ framePadding (length (frame_core n m))\<rparr>)"
  by (simp add: writeFrame_def raw_write_def sink_write_def Let_def)

lemma cbc_write_open:
  assumes "sk_room (cb_sink c) = None"
  shows "writeFrame (cbc_write E) n m c =
     (None, c\<lparr>cb_eiv := snd (cbc_enc (E (cb_ekey c)) (cb_eiv c) (frame_stream n [m])),
              cb_sink := (cb_sink c)\<lparr>sk_out := sk_out (cb_sink c)
                @ fst (cbc_enc (E (cb_ekey c)) (cb_eiv c) (frame_stream n [m]))\<rparr>\<rparr>)"
proof -
  have "length (frame_core n m @ framePadding (length (frame_core n m))) mod cbcBlockSize = 0"
    using framePadding_aligns [of "length (frame_core n m)"] by (simp add: cbcBlockSize_def)
  with assms show ?thesis
    by (simp add: writeFrame_def cbc_write_def sink_write_def case_prod_beta Let_def)
qed

text \<open>The keys of one direction: what \<open>handshake\<close> derives, written out from the connection's addresses.\<close>

definition direction_keys :: "mp_env \<Rightarrow> bytes \<Rightarrow> bytes \<Rightarrow> int \<Rightarrow> bytes \<Rightarrow> int \<Rightarrow> bytes \<Rightarrow> int \<Rightarrow> bytes \<Rightarrow> string \<Rightarrow> bytes \<times> bytes" where
  "direction_keys env srvNonce nonce now tg tgPort my myPort secret purpose =
     mp_deriveKeys (env_md5 env) (env_sha1 env) srvNonce nonce (put_le 4 (uint32_of_int now)) (rev tg)
       (put_le 2 (uint16_of_int myPort)) (bytes_of_string purpose) (rev my) (put_le 2 (uint16_of_int tgPort)) secret"

text \<open>Its encrypted half: the answer that waits under the server's key is read, ours is sent, and the connection is ready.\<close>

lemma handshake_cbc_succeeds:
  assumes "\<And>k. block_fun (env_E env k)" "\<And>k. block_fun (env_D env k)" "\<And>k b. length b = 16 \<Longrightarrow> env_D env k (env_E env k b) = b"
    and "tc_peerIP raw = Some tg" "env_to4 env localIP = Some my" "length hsAns = 32" "take 4 hsAns = rpcHandshakeTag"
    and "direction_keys env srvNonce nonce now tg (tc_peerPort raw) my (tc_localPort raw) secret ''SERVER'' = (dk, dv)" "length dv = 16"
    and "direction_keys env srvNonce nonce now tg (tc_peerPort raw) my (tc_localPort raw) secret ''CLIENT'' = (ek, eiv)"
    and "st_in (tc_in raw) = fst (cbc_enc (env_E env dk) dv (frame_stream (startSeqNo + 1) [hsAns]))" "sk_room (tc_sink raw) = None"
  shows "\<exists>rl. handshake_cbc env now' pid raw secret localIP (put_le 4 (uint32_of_int now)) nonce srvNonce (startSeqNo + 1) (startSeqNo + 1) = Some (Ok rl)
     \<and> rl_readSeq rl = 0 \<and> rl_writeSeq rl = 0 \<and> rl_readBuf rl = [] \<and> cb_ekey (rl_cbc rl) = ek \<and> cb_dkey (rl_cbc rl) = dk
     \<and> sk_out (cb_sink (rl_cbc rl)) = sk_out (tc_sink raw) @ fst (cbc_enc (env_E env ek) eiv (frame_stream (startSeqNo + 1)
         [buildHandshakePayload (be_val my) (tc_localPort raw) (be_val tg) (tc_peerPort raw) pid now']))
     \<and> frames_pending (env_D env) [] rl"
proof -
  let ?D = "env_D env" and ?E = "env_E env" and ?hs = "buildHandshakePayload (be_val my) (tc_localPort raw) (be_val tg) (tc_peerPort raw) pid now'"
  define cb where "cb = newCBCConn (tc_in raw) (tc_sink raw) ek eiv dk dv"
  define c1 where "c1 = cb\<lparr>cb_eiv := snd (cbc_enc (?E ek) eiv (frame_stream (startSeqNo + 1) [?hs])),
      cb_sink := (tc_sink raw)\<lparr>sk_out := sk_out (tc_sink raw) @ fst (cbc_enc (?E ek) eiv (frame_stream (startSeqNo + 1) [?hs]))\<rparr>\<rparr>"
  have w: "writeFrame (cbc_write ?E) (startSeqNo + 1) ?hs cb = (None, c1)"
    using cbc_write_open [of cb ?E "startSeqNo + 1" ?hs] assms(12) by (simp add: c1_def cb_def newCBCConn_def)
  have p: "cbc_pending ?D c1 = frame_core (startSeqNo + 1) hsAns @ framePadding (length (frame_core (startSeqNo + 1) hsAns))"
    using assms(11) cbc_dec_enc [where e = "?E dk" and d = "?D dk", OF assms(1) assms(3) assms(9) frame_stream_aligned [of "startSeqNo + 1" "[hsAns]"]]
    by (simp add: cbc_pending_def c1_def cb_def newCBCConn_def)
  have s: "cbc_sound ?D c1"
    using assms(2,9) by (simp add: cbc_sound_def c1_def cb_def newCBCConn_def)
  obtain c2 where r: "readFrame (cbc_read ?D) (startSeqNo + 1) c1 = Some (Inr hsAns, startSeqNo + 1 + 1, c2)"
    "cbc_pending ?D c2 = framePadding (length (frame_core (startSeqNo + 1) hsAns))"
    "cbc_sound ?D c2 \<and> cbc_side c2 = cbc_side c1"
    by (rule cbc_keeps.readFrame_core [where v = "cbc_side c1", OF _ p]) (use s assms(6) in simp_all)
  have z: "startSeqNo + 1 + 1 = 0"
    by (simp add: startSeqNo_def)
  define rl where "rl = \<lparr>rl_cbc = c2, rl_readSeq = startSeqNo + 1 + 1, rl_writeSeq = startSeqNo + 1 + 1, rl_readBuf = []\<rparr>"
  have "handshake_cbc env now' pid raw secret localIP (put_le 4 (uint32_of_int now)) nonce srvNonce (startSeqNo + 1) (startSeqNo + 1) = Some (Ok rl)"
    using assms(4-8,10) w r(1)
    by (simp add: handshake_cbc_def reverseIPv4_def ipv4ToU32_def direction_keys_def cb_def [symmetric] rl_def Let_def)
  moreover have "frames_pending ?D [] rl"
    using r(2,3) framePadding_fillers [of "length (frame_core (startSeqNo + 1) hsAns)"] assms(6)
    by (auto simp: frames_pending_def rl_def)
  ultimately show ?thesis
    using r(3) by (simp add: rl_def z cbc_side_def c1_def cb_def newCBCConn_def)
qed


definition env_example :: mp_env where
  "env_example = \<lparr>env_md5 = \<lambda>_. replicate 16 1, env_sha1 = \<lambda>_. replicate 20 2, env_E = E_toy, env_D = D_toy,
     env_to4 = to4_example, env_sched = \<lambda>_. 0\<rparr>"

definition hs_answer :: bytes where "hs_answer = rpcHandshakeTag @ replicate 28 0"

definition keys_example :: bytes where "keys_example = replicate 12 1 @ replicate 20 2"

definition raw_example :: tcpConn where
  "raw_example = \<lparr>tc_in = \<lparr>st_in = frame_core startSeqNo (rpcNonceTag @ take 4 [9, 8, 7, 6, 5] @ replicate 8 0 @ replicate 16 3)
       @ fst (cbc_enc (env_E env_example keys_example) (replicate 16 1) (frame_stream (startSeqNo + 1) [hs_answer])), st_end = EOF\<rparr>,
     tc_sink = \<lparr>sk_out = [], sk_room = None\<rparr>, tc_peerIP = Some [9, 9, 9, 9], tc_peerPort = 8888,
     tc_localIP = Some [1, 2, 3, 4], tc_localPort = 4000\<rparr>"


end
