(* ===== verification/Config.thy ===== *)
theory Config
  imports UserManager ServerHello
begin

text \<open>
  The configuration, \<open>internal/config\<close> (\<open>config.go\<close>, \<open>relay.go\<close>, \<open>settings.go\<close>): the structure of the
  file, its derived values, the users it describes, and the settings the management interface reads
  and writes. Reading the file is left to the \<open>viper\<close> package: \<open>vp\<close> gives, for the defaults and a
  path, the decoded structure or one of its two errors.
\<close>

section \<open>The structure\<close>

record FrontingConfig =
  fro_Enabled :: bool
  fro_Port :: int
  fro_Action :: string

record SecurityConfig =
  sec_AntireplayCacheMB :: int
  sec_MaxConnectionsPerIP :: int
  sec_HandshakeTimeoutSec :: int
  sec_ProbeBlacklistThreshold :: int
  sec_ProbeBlacklistDurationSec :: int
  sec_ProbeBlacklistWindowSec :: int

record ProtocolsConfig =
  pro_FakeTLS :: bool
  pro_Secure :: bool

record UpstreamConfig =
  ups_SOCKS5 :: string
  ups_PreferIP :: string

record MetricsConfig =
  met_Host :: string
  met_Port :: int

record ManagementConfig =
  man_Host :: string
  man_Port :: int
  man_Token :: string
  man_PublicServer :: string
  man_ServiceName :: string
  man_ServiceUnitPath :: string
  man_AllowServiceUninstall :: bool
  man_UninstallScript :: string

record ListenConfig =
  lis_Host :: string
  lis_Port :: int
  lis_ProxyProtocol :: bool

text \<open>\<open>ucf_Enabled\<close> is a pointer to a flag: \<open>None\<close> when the file does not give it.\<close>

record UserConfig =
  ucf_Name :: string
  ucf_Secret :: string
  ucf_Enabled :: "bool option"

record MTProtoConfig =
  mt_Secret :: string
  mt_Backend :: string
  mt_Users :: "UserConfig list"
  mt_AdTag :: string
  mt_UseMiddleProxy :: bool
  mt_MiddleProxyNatIP :: string

record TLSConfig =
  tls_RecordMinChunk :: int
  tls_RecordMaxChunk :: int
  tls_NoiseMean :: int
  tls_NoiseJitter :: int
  tls_AllowedJA3 :: "string list"
  tls_AllowedJA4 :: "string list"
  tls_EnableDRS :: bool
  tls_EnableSplitTLS :: bool
  tls_FingerprintPool :: "string list"
  tls_FingerprintRotation :: string
  tls_FingerprintRotationInterval :: int
  tls_FingerprintAdaptiveThreshold :: int
  tls_SNIPool :: "string list"
  tls_SNIRotation :: string
  tls_SNIRotationInterval :: int
  tls_ServerHelloPool :: "string list"
  tls_ServerHelloRotation :: string
  tls_ServerHelloRotationInterval :: int
  tls_ServerHelloAdaptiveThreshold :: int
  tls_RecordJitterMs :: int
  tls_DecoyPermille :: int
  tls_PostHandshakeDelayMs :: int
  tls_ClientHelloPolicy :: string

record FallbackConfig =
  fal_Upstream :: string
  fal_Honeypot :: bool

record RelayConfig =
  rel_Mode :: string
  rel_PeerAddr :: string
  rel_ListenHost :: string
  rel_ListenPort :: int
  rel_PSK :: string

record Config =
  cfg_Listen :: ListenConfig
  cfg_MTProto :: MTProtoConfig
  cfg_TLS :: TLSConfig
  cfg_Fallback :: FallbackConfig
  cfg_Management :: ManagementConfig
  cfg_Fronting :: FrontingConfig
  cfg_Security :: SecurityConfig
  cfg_Protocols :: ProtocolsConfig
  cfg_Upstream :: UpstreamConfig
  cfg_Metrics :: MetricsConfig
  cfg_Relay :: RelayConfig

section \<open>Derived values\<close>

text \<open>\<open>fmt.Sprintf("%s:%d", host, port)\<close> with a default host.\<close>

definition host_port :: "string \<Rightarrow> string \<Rightarrow> int \<Rightarrow> string" where
  "host_port def host port = (if host = [] then def else host) @ '':'' @ dec_int port"

definition met_IsEnabled :: "MetricsConfig \<Rightarrow> bool" where "met_IsEnabled c \<longleftrightarrow> met_Port c > 0"
definition met_Addr :: "MetricsConfig \<Rightarrow> string" where "met_Addr c = host_port ''127.0.0.1'' (met_Host c) (met_Port c)"
definition man_IsEnabled :: "ManagementConfig \<Rightarrow> bool" where "man_IsEnabled c \<longleftrightarrow> man_Port c > 0"
definition man_Addr :: "ManagementConfig \<Rightarrow> string" where "man_Addr c = host_port ''127.0.0.1'' (man_Host c) (man_Port c)"

definition cfg_Addr :: "Config \<Rightarrow> string" where
  "cfg_Addr c = host_port ''0.0.0.0'' (lis_Host (cfg_Listen c)) (lis_Port (cfg_Listen c))"

text \<open>A product computed in \<open>int64\<close>, as durations are.\<close>

definition int64_of :: "int \<Rightarrow> int" where
  "int64_of i = sint (word_of_int i :: 64 word)"

definition HandshakeTimeout :: "Config \<Rightarrow> int" where
  "HandshakeTimeout c =
     (let s = sec_HandshakeTimeoutSec (cfg_Security c); s = (if s \<le> 0 then 10 else s) in int64_of (s * 1000000000))"

definition FrontingPort :: "Config \<Rightarrow> int" where
  "FrontingPort c = (if fro_Port (cfg_Fronting c) \<le> 0 then 443 else fro_Port (cfg_Fronting c))"

definition FrontingAction :: "Config \<Rightarrow> string" where
  "FrontingAction c =
     (if fro_Action (cfg_Fronting c) \<in> {''redirect'', ''fallback'', ''splice''} then fro_Action (cfg_Fronting c)
      else if fro_Enabled (cfg_Fronting c) then ''splice'' else ''redirect'')"

definition cfg_RecordPolicy :: "Config \<Rightarrow> RecordPolicy" where
  "cfg_RecordPolicy c = Normalize
     \<lparr>MinChunk = tls_RecordMinChunk (cfg_TLS c), MaxChunk = tls_RecordMaxChunk (cfg_TLS c),
      EnableDRS = tls_EnableDRS (cfg_TLS c), EnableSplitTLS = tls_EnableSplitTLS (cfg_TLS c),
      RecordJitterMs = tls_RecordJitterMs (cfg_TLS c), DecoyPermille = tls_DecoyPermille (cfg_TLS c)\<rparr>"

definition PostHandshakeDelay :: "Config \<Rightarrow> int" where
  "PostHandshakeDelay c =
     (if tls_PostHandshakeDelayMs (cfg_TLS c) \<le> 0 then 0 else int64_of (tls_PostHandshakeDelayMs (cfg_TLS c) * 1000000))"

definition cfg_NoiseParams :: "Config \<Rightarrow> NoiseParams" where
  "cfg_NoiseParams c = \<lparr>Mean = tls_NoiseMean (cfg_TLS c), Jitter = tls_NoiseJitter (cfg_TLS c)\<rparr>"

definition AntireplayMaxEntries :: "Config \<Rightarrow> int" where
  "AntireplayMaxEntries c =
     (let mb = sec_AntireplayCacheMB (cfg_Security c); mb = (if mb \<le> 0 then 1 else mb) in int64_of (mb * 10000))"

section \<open>Relay\<close>

definition IsFront :: "RelayConfig \<Rightarrow> bool" where "IsFront c \<longleftrightarrow> rel_Mode c = ''front''"
definition IsBack :: "RelayConfig \<Rightarrow> bool" where "IsBack c \<longleftrightarrow> rel_Mode c = ''back''"
definition rel_IsEnabled :: "RelayConfig \<Rightarrow> bool" where
  "rel_IsEnabled c \<longleftrightarrow> rel_Mode c = ''front'' \<or> rel_Mode c = ''back''"

definition rel_ListenAddr :: "RelayConfig \<Rightarrow> string" where
  "rel_ListenAddr c = host_port ''0.0.0.0'' (rel_ListenHost c) (if rel_ListenPort c \<le> 0 then 15443 else rel_ListenPort c)"

datatype psk_error = PSKMissing string | PSKNotHex | PSKTooShort

definition PSKBytes :: "RelayConfig \<Rightarrow> (psk_error, bytes) res" where
  "PSKBytes c =
     (let s = trim_space (rel_PSK c) in
      if s = [] then Err (PSKMissing (rel_Mode c))
      else case hex_decode s of
             None \<Rightarrow> Err PSKNotHex
           | Some key \<Rightarrow> if length key < 16 then Err PSKTooShort else Ok key)"

section \<open>Users and loading\<close>

datatype viper_error = ReadInConfig | Unmarshal

datatype config_error =
    CfgFile viper_error
  | NeedSecretOrUsers
  | UserSecretMissing string
  | UserSecretInvalid string secret_error
  | CfgManager user_error

definition user_of_config :: "UserConfig \<Rightarrow> (config_error, User) res" where
  "user_of_config item =
     (if ucf_Secret item = [] then Err (UserSecretMissing (ucf_Name item))
      else case ParseSecret (ucf_Secret item) of
             Err e \<Rightarrow> Err (UserSecretInvalid (ucf_Name item) e)
           | Panic \<Rightarrow> Panic
           | Ok secret \<Rightarrow>
               let enabled = (case ucf_Enabled item of Some b \<Rightarrow> b | None \<Rightarrow> True);
                   name = (if ucf_Name item = [] then (if s_host secret \<noteq> [] then s_host secret else ''user'')
                           else ucf_Name item)
               in Ok \<lparr>u_Name = name, u_Secret = secret, u_Enabled = enabled\<rparr>)"

fun build_users_loop :: "UserConfig list \<Rightarrow> (config_error, User list) res" where
  "build_users_loop [] = Ok []"
| "build_users_loop (item # items) =
     bind_res (user_of_config item) (\<lambda>u. bind_res (build_users_loop items) (\<lambda>us. Ok (u # us)))"

definition buildUsers :: "MTProtoConfig \<Rightarrow> (config_error, User list) res" where
  "buildUsers mt =
     (if mt_Users mt = [] then
        (if mt_Secret mt = [] then Err NeedSecretOrUsers
         else build_users_loop [\<lparr>ucf_Name = ''default'', ucf_Secret = mt_Secret mt, ucf_Enabled = None\<rparr>])
      else build_users_loop (mt_Users mt))"

datatype cfg_value = CStr string | CInt int | CBool bool

text \<open>The defaults \<open>loadFile\<close> registers.\<close>

definition viper_defaults :: "(string \<times> cfg_value) list" where
  "viper_defaults =
    [(''listen.host'', CStr ''0.0.0.0''), (''listen.port'', CInt 443),
     (''fallback.upstream'', CStr ''http://127.0.0.1:8080''),
     (''tls.record_min_chunk'', CInt 512), (''tls.record_max_chunk'', CInt 4096),
     (''tls.noise_mean'', CInt 3000), (''tls.noise_jitter'', CInt 800),
     (''tls.enable_drs'', CBool True), (''tls.enable_split_tls'', CBool True),
     (''tls.fingerprint_rotation'', CStr ''per_connection''), (''tls.fingerprint_rotation_interval_sec'', CInt 300),
     (''tls.fingerprint_adaptive_threshold'', CInt 20),
     (''tls.sni_rotation'', CStr ''per_connection''), (''tls.sni_rotation_interval_sec'', CInt 300),
     (''tls.server_hello_rotation'', CStr ''per_connection''), (''tls.server_hello_rotation_interval_sec'', CInt 300),
     (''tls.server_hello_adaptive_threshold'', CInt 20), (''tls.client_hello_policy'', CStr ''log''),
     (''relay.mode'', CStr ''off''), (''relay.listen_port'', CInt 15443),
     (''management.host'', CStr ''127.0.0.1''), (''management.port'', CInt 8081),
     (''management.service_name'', CStr ''phantom-proxy''), (''management.allow_service_uninstall'', CBool False),
     (''fronting.enabled'', CBool True), (''fronting.port'', CInt 443), (''fronting.action'', CStr ''splice''),
     (''security.antireplay_cache_mb'', CInt 1), (''security.handshake_timeout_sec'', CInt 10),
     (''security.probe_blacklist_threshold'', CInt 0), (''security.probe_blacklist_duration_sec'', CInt 3600),
     (''security.probe_blacklist_window_sec'', CInt 600), (''fallback.honeypot'', CBool False),
     (''protocols.fake_tls'', CBool True), (''protocols.secure'', CBool True),
     (''upstream.prefer_ip'', CStr ''prefer-ipv4''), (''metrics.host'', CStr ''127.0.0.1''), (''metrics.port'', CInt 9090)]"

type_synonym viper = "(string \<times> cfg_value) list \<Rightarrow> string \<Rightarrow> viper_error + Config"

definition loadFile :: "viper \<Rightarrow> string \<Rightarrow> (config_error, Config) res" where
  "loadFile vp path = (case vp viper_defaults path of Inl e \<Rightarrow> Err (CfgFile e) | Inr cfg \<Rightarrow> Ok cfg)"

definition Load :: "viper \<Rightarrow> string \<Rightarrow> (config_error, Config \<times> Manager) res" where
  "Load vp path =
     bind_res (loadFile vp path) (\<lambda>cfg.
     bind_res (buildUsers (cfg_MTProto cfg)) (\<lambda>users.
     case NewManager users (tls_AllowedJA3 (cfg_TLS cfg)) (tls_AllowedJA4 (cfg_TLS cfg)) of
       Ok mgr \<Rightarrow> Ok (cfg, mgr) | Err e \<Rightarrow> Err (CfgManager e) | Panic \<Rightarrow> Panic))"

definition LoadUsers :: "viper \<Rightarrow> string \<Rightarrow> (config_error, User list) res" where
  "LoadUsers vp path = bind_res (loadFile vp path) (\<lambda>cfg. buildUsers (cfg_MTProto cfg))"

section \<open>Settings\<close>

record SettingsView =
  sv_ListenHost :: string
  sv_ListenPort :: int
  sv_Backend :: string
  sv_FallbackUpstream :: string
  sv_RecordMinChunk :: int
  sv_RecordMaxChunk :: int
  sv_NoiseMean :: int
  sv_NoiseJitter :: int
  sv_AllowedJA3 :: "string list"
  sv_AllowedJA4 :: "string list"
  sv_PublicServer :: string
  sv_MaxConnectionsPerIP :: int
  sv_UpstreamSOCKS5 :: string
  sv_FrontingAction :: string

definition SettingsFromConfig :: "Config \<Rightarrow> SettingsView" where
  "SettingsFromConfig cfg =
     \<lparr>sv_ListenHost = lis_Host (cfg_Listen cfg), sv_ListenPort = lis_Port (cfg_Listen cfg),
      sv_Backend = mt_Backend (cfg_MTProto cfg), sv_FallbackUpstream = fal_Upstream (cfg_Fallback cfg),
      sv_RecordMinChunk = tls_RecordMinChunk (cfg_TLS cfg), sv_RecordMaxChunk = tls_RecordMaxChunk (cfg_TLS cfg),
      sv_NoiseMean = tls_NoiseMean (cfg_TLS cfg), sv_NoiseJitter = tls_NoiseJitter (cfg_TLS cfg),
      sv_AllowedJA3 = tls_AllowedJA3 (cfg_TLS cfg), sv_AllowedJA4 = tls_AllowedJA4 (cfg_TLS cfg),
      sv_PublicServer = man_PublicServer (cfg_Management cfg),
      sv_MaxConnectionsPerIP = sec_MaxConnectionsPerIP (cfg_Security cfg),
      sv_UpstreamSOCKS5 = ups_SOCKS5 (cfg_Upstream cfg), sv_FrontingAction = FrontingAction cfg\<rparr>"

definition ApplySettings :: "Config \<Rightarrow> SettingsView \<Rightarrow> Config" where
  "ApplySettings cfg s =
     (let cfg = cfg\<lparr>cfg_Listen := (cfg_Listen cfg)\<lparr>lis_Host := sv_ListenHost s, lis_Port := sv_ListenPort s\<rparr>,
            cfg_MTProto := (cfg_MTProto cfg)\<lparr>mt_Backend := sv_Backend s\<rparr>,
            cfg_Fallback := (cfg_Fallback cfg)\<lparr>fal_Upstream := sv_FallbackUpstream s\<rparr>,
            cfg_TLS := (cfg_TLS cfg)\<lparr>tls_RecordMinChunk := sv_RecordMinChunk s, tls_RecordMaxChunk := sv_RecordMaxChunk s,
              tls_NoiseMean := sv_NoiseMean s, tls_NoiseJitter := sv_NoiseJitter s,
              tls_AllowedJA3 := sv_AllowedJA3 s, tls_AllowedJA4 := sv_AllowedJA4 s\<rparr>,
            cfg_Management := (cfg_Management cfg)\<lparr>man_PublicServer := sv_PublicServer s\<rparr>,
            cfg_Security := (cfg_Security cfg)\<lparr>sec_MaxConnectionsPerIP := sv_MaxConnectionsPerIP s\<rparr>,
            cfg_Upstream := (cfg_Upstream cfg)\<lparr>ups_SOCKS5 := sv_UpstreamSOCKS5 s\<rparr>\<rparr>
      in if sv_FrontingAction s \<noteq> []
         then cfg\<lparr>cfg_Fronting := (cfg_Fronting cfg)\<lparr>fro_Action := sv_FrontingAction s\<rparr>\<rparr> else cfg)"

definition UsersToConfig :: "User list \<Rightarrow> UserConfig list" where
  "UsersToConfig users =
     map (\<lambda>u. \<lparr>ucf_Name = u_Name u, ucf_Secret = EncodeHex (u_Secret u), ucf_Enabled = Some (u_Enabled u)\<rparr>) users"

section \<open>Facts\<close>

lemma int64_of_small [simp]: "- 9223372036854775808 \<le> i \<Longrightarrow> i < 9223372036854775808 \<Longrightarrow> int64_of i = i"
  by (simp add: int64_of_def sint_sbintrunc' signed_take_bit_int_eq_self)

text \<open>What the loader guarantees of every user: a well-formed secret and a name.\<close>

definition user_ok :: "User \<Rightarrow> bool" where
  "user_ok u \<longleftrightarrow> secret_wf (u_Secret u) \<and> u_Name u \<noteq> []"

lemma user_of_config_ok: "user_of_config item = Ok u \<Longrightarrow> user_ok u"
  by (auto simp: user_of_config_def user_ok_def Let_def dest: ParseSecret_wf split: if_splits res.splits)

lemma build_users_loop_ok: "build_users_loop items = Ok us \<Longrightarrow> (\<forall>u \<in> set us. user_ok u) \<and> length us = length items"
  by (induction items arbitrary: us) (auto simp: res_simps user_of_config_ok)

lemma buildUsers_ok: "buildUsers mt = Ok us \<Longrightarrow> us \<noteq> [] \<and> (\<forall>u \<in> set us. user_ok u)"
  by (auto simp: buildUsers_def simp del: build_users_loop.simps dest!: build_users_loop_ok split: if_splits)

lemma user_of_config_saved:
  "user_ok u \<Longrightarrow> user_of_config \<lparr>ucf_Name = u_Name u, ucf_Secret = EncodeHex (u_Secret u), ucf_Enabled = Some (u_Enabled u)\<rparr> = Ok u"
proof -
  assume u: "user_ok u"
  then have p: "ParseSecret (EncodeHex (u_Secret u)) = (Ok (u_Secret u) :: (secret_error, secret) res)"
    by (simp add: user_ok_def ParseSecret_EncodeHex)
  then have "EncodeHex (u_Secret u) \<noteq> []"
    by (auto simp: ParseSecret_def)
  with u p show ?thesis
    by (simp add: user_of_config_def user_ok_def Let_def)
qed

lemma build_saved_users: "\<forall>u \<in> set us. user_ok u \<Longrightarrow> build_users_loop (UsersToConfig us) = Ok us"
  by (induction us) (auto simp: UsersToConfig_def user_of_config_saved)

lemma buildUsers_saved:
  "us \<noteq> [] \<Longrightarrow> \<forall>u \<in> set us. user_ok u \<Longrightarrow> buildUsers (mt\<lparr>mt_Users := UsersToConfig us, mt_Secret := []\<rparr>) = Ok us"
  by (cases us) (simp_all add: buildUsers_def build_saved_users del: build_users_loop.simps, simp add: UsersToConfig_def)

text \<open>A configuration with the registered defaults and the given users, an input for the witnesses.\<close>

definition sample_config :: "UserConfig list \<Rightarrow> Config" where
  "sample_config users =
    \<lparr>cfg_Listen = \<lparr>lis_Host = ''0.0.0.0'', lis_Port = 443, lis_ProxyProtocol = False\<rparr>,
     cfg_MTProto = \<lparr>mt_Secret = [], mt_Backend = [], mt_Users = users, mt_AdTag = [], mt_UseMiddleProxy = False,
       mt_MiddleProxyNatIP = []\<rparr>,
     cfg_TLS = \<lparr>tls_RecordMinChunk = 512, tls_RecordMaxChunk = 4096, tls_NoiseMean = 3000, tls_NoiseJitter = 800,
       tls_AllowedJA3 = [], tls_AllowedJA4 = [], tls_EnableDRS = True, tls_EnableSplitTLS = True,
       tls_FingerprintPool = [], tls_FingerprintRotation = ''per_connection'', tls_FingerprintRotationInterval = 300,
       tls_FingerprintAdaptiveThreshold = 20, tls_SNIPool = [], tls_SNIRotation = ''per_connection'',
       tls_SNIRotationInterval = 300, tls_ServerHelloPool = [], tls_ServerHelloRotation = ''per_connection'',
       tls_ServerHelloRotationInterval = 300, tls_ServerHelloAdaptiveThreshold = 20, tls_RecordJitterMs = 0,
       tls_DecoyPermille = 0, tls_PostHandshakeDelayMs = 0, tls_ClientHelloPolicy = ''log''\<rparr>,
     cfg_Fallback = \<lparr>fal_Upstream = ''http://127.0.0.1:8080'', fal_Honeypot = False\<rparr>,
     cfg_Management = \<lparr>man_Host = ''127.0.0.1'', man_Port = 8081, man_Token = [], man_PublicServer = [],
       man_ServiceName = ''phantom-proxy'', man_ServiceUnitPath = [], man_AllowServiceUninstall = False,
       man_UninstallScript = []\<rparr>,
     cfg_Fronting = \<lparr>fro_Enabled = True, fro_Port = 443, fro_Action = ''splice''\<rparr>,
     cfg_Security = \<lparr>sec_AntireplayCacheMB = 1, sec_MaxConnectionsPerIP = 0, sec_HandshakeTimeoutSec = 10,
       sec_ProbeBlacklistThreshold = 0, sec_ProbeBlacklistDurationSec = 3600, sec_ProbeBlacklistWindowSec = 600\<rparr>,
     cfg_Protocols = \<lparr>pro_FakeTLS = True, pro_Secure = True\<rparr>,
     cfg_Upstream = \<lparr>ups_SOCKS5 = [], ups_PreferIP = ''prefer-ipv4''\<rparr>,
     cfg_Metrics = \<lparr>met_Host = ''127.0.0.1'', met_Port = 9090\<rparr>,
     cfg_Relay = \<lparr>rel_Mode = ''off'', rel_PeerAddr = [], rel_ListenHost = [], rel_ListenPort = 15443, rel_PSK = []\<rparr>\<rparr>"

text \<open>
  Saving keeps the users: whatever users a configuration describes (by a list or by the old single
  secret, with or without names and flags), writing them back with \<open>UsersToConfig\<close> and an empty
  single secret describes exactly the same users, secrets, names and flags, in the same order.
\<close>

lemma users_survive_saving:
  assumes "buildUsers mt = Ok us"
  shows "buildUsers (mt\<lparr>mt_Users := UsersToConfig us, mt_Secret := []\<rparr>) = Ok us"
  using buildUsers_ok [OF assms] by (intro buildUsers_saved) simp_all

text \<open>
  Settings round trip. Reading the settings of a configuration they were applied to gives the
  applied settings back, up to the fronting action: an unknown one reads as the default, an empty
  one leaves the old one. Applying the settings read from a configuration changes nothing of it,
  except that the fronting action is written out.
\<close>

lemma settings_roundtrip:
  "SettingsFromConfig (ApplySettings cfg s) =
     s\<lparr>sv_FrontingAction :=
         (if sv_FrontingAction s \<in> {''redirect'', ''fallback'', ''splice''} then sv_FrontingAction s
          else if sv_FrontingAction s = [] then FrontingAction cfg
          else if fro_Enabled (cfg_Fronting cfg) then ''splice'' else ''redirect'')\<rparr>
   \<and> ApplySettings cfg (SettingsFromConfig cfg) =
       cfg\<lparr>cfg_Fronting := (cfg_Fronting cfg)\<lparr>fro_Action := FrontingAction cfg\<rparr>\<rparr>
   \<and> FrontingAction (ApplySettings cfg (SettingsFromConfig cfg)) = FrontingAction cfg"
proof (intro conjI)
  show "SettingsFromConfig (ApplySettings cfg s) =
     s\<lparr>sv_FrontingAction :=
         (if sv_FrontingAction s \<in> {''redirect'', ''fallback'', ''splice''} then sv_FrontingAction s
          else if sv_FrontingAction s = [] then FrontingAction cfg
          else if fro_Enabled (cfg_Fronting cfg) then ''splice'' else ''redirect'')\<rparr>"
    by (simp add: SettingsFromConfig_def ApplySettings_def FrontingAction_def Let_def)
  have act: "FrontingAction cfg \<in> {''redirect'', ''fallback'', ''splice''}"
    by (auto simp: FrontingAction_def)
  then have ne: "FrontingAction cfg \<noteq> []" by auto
  show a: "ApplySettings cfg (SettingsFromConfig cfg) =
       cfg\<lparr>cfg_Fronting := (cfg_Fronting cfg)\<lparr>fro_Action := FrontingAction cfg\<rparr>\<rparr>"
    using ne by (simp add: SettingsFromConfig_def ApplySettings_def Let_def)
  show "FrontingAction (ApplySettings cfg (SettingsFromConfig cfg)) = FrontingAction cfg"
    unfolding a using act by (simp add: FrontingAction_def [of "cfg\<lparr>cfg_Fronting := _\<rparr>"])
qed

end
