(* ===== verification/Runtime.thy ===== *)
theory Runtime
  imports Config Rotators Replay Limiter Blacklist Stats
begin

text \<open>
  The shared state of the proxy and its management interface, \<open>internal/runtime/runtime.go\<close>: the
  configuration with everything that is built from it, and the operations that replace it. Each
  method is one step here; \<open>Reload\<close>, which holds no lock over the whole, is also a thread in \<open>ReloadThreads\<close>. \<open>now\<close> is the
  clock; \<open>fs\<close> is what writing the file does (\<open>None\<close> when it succeeds), \<open>vp\<close> reads it (see \<open>Config\<close>).
\<close>

section \<open>State and operations\<close>

text \<open>\<open>rt_LimiterID\<close> tells the limiters apart that \<open>Limiter\<close> has pointed to: a connection returns its place to the one it has seen.\<close>

record Runtime =
  rt_ConfigPath :: string
  rt_Config :: Config
  rt_Users :: Manager
  rt_Stats :: Tracker
  rt_Replay :: "ReplayCache option"
  rt_Limiter :: "ConnLimiter option"
  rt_FingerprintRotator :: "FingerprintRotator option"
  rt_ServerHelloRotator :: "ServerHelloRotator option"
  rt_SNIRotator :: "SNIRotator option"
  rt_ProbeBlacklist :: "Blacklist option"
  rt_StartedAt :: int
  rt_LimiterID :: nat

text \<open>The value of a Go call whose error is not looked at: the zero value nil when it fails.\<close>

definition value_or_nil :: "('e, 'a) res \<Rightarrow> 'a option" where
  "value_or_nil r = (case r of Ok x \<Rightarrow> Some x | _ \<Rightarrow> None)"

definition applySecurityFeatures :: "int \<Rightarrow> Config \<Rightarrow> Runtime \<Rightarrow> Runtime" where
  "applySecurityFeatures now cfg r =
     (let t = cfg_TLS cfg; s = cfg_Security cfg;
          fp = (case NewFingerprintRotator now (tls_FingerprintPool t) (tls_FingerprintRotation t)
                       (tls_FingerprintRotationInterval t) (tls_FingerprintAdaptiveThreshold t) of
                  Ok fp \<Rightarrow> Some fp
                | _ \<Rightarrow> value_or_nil (NewFingerprintRotator now [] RotationPerConnection 300 20))
      in r\<lparr>rt_FingerprintRotator := fp,
           rt_ServerHelloRotator := Some (NewServerHelloRotator now (tls_ServerHelloPool t) (tls_ServerHelloRotation t)
             (tls_ServerHelloRotationInterval t) (tls_ServerHelloAdaptiveThreshold t)),
           rt_SNIRotator := NewSNIRotator now (tls_SNIPool t) (tls_SNIRotation t) (tls_SNIRotationInterval t),
           rt_ProbeBlacklist := NewBlacklist (sec_ProbeBlacklistThreshold s) (sec_ProbeBlacklistDurationSec s)
             (sec_ProbeBlacklistWindowSec s)\<rparr>)"

definition two_minutes :: int where "two_minutes = 2 * 60 * 1000000000"

definition rt_New :: "int \<Rightarrow> string \<Rightarrow> Config \<Rightarrow> Manager \<Rightarrow> Tracker \<Rightarrow> Runtime" where
  "rt_New now configPath cfg users tracker =
     applySecurityFeatures now cfg
       \<lparr>rt_ConfigPath = configPath, rt_Config = cfg, rt_Users = users, rt_Stats = tracker,
        rt_Replay = Some (NewReplayCache (AntireplayMaxEntries cfg) two_minutes),
        rt_Limiter = Some (NewConnLimiter (sec_MaxConnectionsPerIP (cfg_Security cfg))),
        rt_FingerprintRotator = None, rt_ServerHelloRotator = None, rt_SNIRotator = None,
        rt_ProbeBlacklist = None, rt_StartedAt = now, rt_LimiterID = 0\<rparr>"

definition PickMaskSNI :: "int \<Rightarrow> nat list \<Rightarrow> string \<Rightarrow> Runtime \<Rightarrow> ('e, string) res \<times> Runtime" where
  "PickMaskSNI now tape fallback r =
     (case rt_SNIRotator r of
        None \<Rightarrow> (Ok fallback, r)
      | Some _ \<Rightarrow> (case sr_Pick fallback now tape (rt_SNIRotator r) of
                    (h, ro, _) \<Rightarrow> (h, r\<lparr>rt_SNIRotator := ro\<rparr>)))"

definition rt_Snapshot :: "Runtime \<Rightarrow> Config" where "rt_Snapshot r = rt_Config r"

definition UpdateConfig :: "Config \<Rightarrow> Runtime \<Rightarrow> Runtime" where "UpdateConfig cfg r = r\<lparr>rt_Config := cfg\<rparr>"

datatype runtime_error = ReloadConfig config_error | ReloadUsers user_error | SaveMarshal | SaveWrite

definition rt_Reload :: "viper \<Rightarrow> int \<Rightarrow> Runtime \<Rightarrow> (runtime_error, unit) res \<times> Runtime" where
  "rt_Reload vp now r =
     (case Load vp (rt_ConfigPath r) of
        Err e \<Rightarrow> (Err (ReloadConfig e), r)
      | Panic \<Rightarrow> (Panic, r)
      | Ok (cfg, newMgr) \<Rightarrow>
          (case Reload (Users newMgr) (rt_Users r) of
             (Err e, m) \<Rightarrow> (Err (ReloadUsers e), r\<lparr>rt_Users := m\<rparr>)
           | (Panic, m) \<Rightarrow> (Panic, r\<lparr>rt_Users := m\<rparr>)
           | (Ok _, m) \<Rightarrow>
               let r = r\<lparr>rt_Users := SetFingerprints (tls_AllowedJA3 (cfg_TLS cfg)) (tls_AllowedJA4 (cfg_TLS cfg)) m\<rparr>;
                   r = UpdateConfig cfg r;
                   r = r\<lparr>rt_Limiter := Some (NewConnLimiter (sec_MaxConnectionsPerIP (cfg_Security cfg))),
                         rt_LimiterID := rt_LimiterID r + 1,
                         rt_Replay := Some (NewReplayCache (AntireplayMaxEntries cfg) two_minutes)\<rparr>
               in (Ok (), applySecurityFeatures now cfg r)))"

type_synonym file_writer = "string \<Rightarrow> Config \<Rightarrow> runtime_error option"

text \<open>\<open>config.Save\<close>, the writer that the program uses; \<open>marshal\<close> is \<open>yaml.Marshal\<close> and \<open>write\<close> tells whether \<open>os.WriteFile\<close> succeeds.\<close>

definition Save :: "(Config \<Rightarrow> bytes option) \<Rightarrow> (string \<Rightarrow> bytes \<Rightarrow> bool) \<Rightarrow> file_writer" where
  "Save marshal write path cfg =
     (case marshal cfg of
        None \<Rightarrow> Some SaveMarshal
      | Some data \<Rightarrow> if write path data then None else Some SaveWrite)"

text \<open>The configuration with the current users, as it is written to the file.\<close>

definition with_users :: "Manager \<Rightarrow> Config \<Rightarrow> Config" where
  "with_users m cfg = cfg\<lparr>cfg_MTProto := (cfg_MTProto cfg)\<lparr>mt_Users := UsersToConfig (Users m), mt_Secret := []\<rparr>\<rparr>"

text \<open>The third component is the configuration that was written, if any.\<close>

definition UpdateSettings ::
  "file_writer \<Rightarrow> int \<Rightarrow> SettingsView \<Rightarrow> Runtime \<Rightarrow> (runtime_error, unit) res \<times> Runtime \<times> Config option" where
  "UpdateSettings fs now settings r =
     (let cfg = with_users (rt_Users r) (ApplySettings (rt_Config r) settings);
          r = r\<lparr>rt_Users := SetFingerprints (sv_AllowedJA3 settings) (sv_AllowedJA4 settings) (rt_Users r),
                rt_Limiter := Some (NewConnLimiter (sv_MaxConnectionsPerIP settings)), rt_LimiterID := rt_LimiterID r + 1\<rparr>
      in if rt_ConfigPath r = [] then (Ok (), applySecurityFeatures now cfg (r\<lparr>rt_Config := cfg\<rparr>), None)
         else case fs (rt_ConfigPath r) cfg of
                Some e \<Rightarrow> (Err e, r, None)
              | None \<Rightarrow> (Ok (), applySecurityFeatures now cfg (r\<lparr>rt_Config := cfg\<rparr>), Some cfg))"

definition PersistUsers :: "file_writer \<Rightarrow> Runtime \<Rightarrow> (runtime_error, unit) res \<times> Runtime \<times> Config option" where
  "PersistUsers fs r =
     (if rt_ConfigPath r = [] then (Ok (), r, None)
      else let cfg = with_users (rt_Users r) (rt_Config r) in
        case fs (rt_ConfigPath r) cfg of
          Some e \<Rightarrow> (Err e, r, None)
        | None \<Rightarrow> (Ok (), r\<lparr>rt_Config := cfg\<rparr>, Some cfg))"

definition Uptime :: "int \<Rightarrow> Runtime \<Rightarrow> int" where "Uptime now r = now - rt_StartedAt r"

section \<open>Facts\<close>

text \<open>
  The invariant: every part is there and usable. Rotators stay inside their pools, the manager has
  well-formed users, an enabled one and a mask host.
\<close>

definition users_ok :: "Manager \<Rightarrow> bool" where
  "users_ok m \<longleftrightarrow> (\<forall>u \<in> set (m_users m). user_ok u) \<and> filter u_Enabled (m_users m) \<noteq> [] \<and> m_maskHost m \<noteq> []"

definition features_ok :: "Runtime \<Rightarrow> bool" where
  "features_ok r \<longleftrightarrow> rt_FingerprintRotator r \<noteq> None \<and> fr_valid (rt_FingerprintRotator r)
     \<and> rt_ServerHelloRotator r \<noteq> None \<and> sh_valid (rt_ServerHelloRotator r) \<and> sr_valid (rt_SNIRotator r)
     \<and> (\<forall>b. rt_ProbeBlacklist r = Some b \<longrightarrow> bl_inv b)"

definition rt_inv :: "Runtime \<Rightarrow> bool" where
  "rt_inv r \<longleftrightarrow> rt_Replay r \<noteq> None \<and> rt_Limiter r \<noteq> None \<and> features_ok r \<and> users_ok (rt_Users r)"

text \<open>The abstract view: the parts of the state that the configuration determines.\<close>

definition rt_reflects :: "Runtime \<Rightarrow> bool" where
  "rt_reflects r \<longleftrightarrow> (let cfg = rt_Config r in
     buildUsers (cfg_MTProto cfg) = Ok (m_users (rt_Users r))
     \<and> m_ja3Allow (rt_Users r) = nonempty (tls_AllowedJA3 (cfg_TLS cfg))
     \<and> m_ja4Allow (rt_Users r) = nonempty (tls_AllowedJA4 (cfg_TLS cfg))
     \<and> map_option cl_max (rt_Limiter r) = Some (sec_MaxConnectionsPerIP (cfg_Security cfg)))"

lemma default_rotator: "\<exists>fp. NewFingerprintRotator now [] RotationPerConnection 300 20 = Ok fp"
  by (simp add: NewFingerprintRotator_def ParseFingerprintPool_def DefaultFingerprintNames_def ParseFingerprint_def
      fingerprintRegistry_def to_lower_def trim_space_def strip_ws.simps ws_prefix_def ws_codes_def Let_def)

lemma apply_features:
  "features_ok (applySecurityFeatures now cfg r)"
  "rt_Replay (applySecurityFeatures now cfg r) = rt_Replay r" "rt_Limiter (applySecurityFeatures now cfg r) = rt_Limiter r"
  "rt_Users (applySecurityFeatures now cfg r) = rt_Users r" "rt_Config (applySecurityFeatures now cfg r) = rt_Config r"
  "rt_Stats (applySecurityFeatures now cfg r) = rt_Stats r"
proof -
  define fp where "fp = (case NewFingerprintRotator now (tls_FingerprintPool (cfg_TLS cfg)) (tls_FingerprintRotation (cfg_TLS cfg))
      (tls_FingerprintRotationInterval (cfg_TLS cfg)) (tls_FingerprintAdaptiveThreshold (cfg_TLS cfg)) of
      Ok fp \<Rightarrow> Some fp | _ \<Rightarrow> value_or_nil (NewFingerprintRotator now [] RotationPerConnection 300 20))"
  have "\<exists>r n s i k. fp = Some r \<and> NewFingerprintRotator now n s i k = Ok r"
    using default_rotator [of now] by (auto simp: fp_def value_or_nil_def split: res.splits)
  then have fp: "fp \<noteq> None" "fr_valid fp"
    using NewFingerprintRotator_pool(2) by auto
  have sh: "sh_valid (Some (NewServerHelloRotator now names s i k))" for names s i k
    by (simp add: sh_view NewServerHelloRotator_def defaultServerHelloProfiles_def)
  have sr: "sr_valid (NewSNIRotator now names s i)" for names s i
    by (simp add: NewSNIRotator_def sr_valid_def Let_def filter_map)
  show "features_ok (applySecurityFeatures now cfg r)"
    using fp sh sr NewBlacklist_inv
    by (auto simp: features_ok_def applySecurityFeatures_def fp_def [symmetric] Let_def)
qed (simp_all add: applySecurityFeatures_def Let_def)

lemma Load_ok:
  assumes "Load vp path = Ok (cfg, mgr)"
  shows "users_ok mgr" "buildUsers (cfg_MTProto cfg) = Ok (m_users mgr)"
    "m_ja3Allow mgr = nonempty (tls_AllowedJA3 (cfg_TLS cfg))" "m_ja4Allow mgr = nonempty (tls_AllowedJA4 (cfg_TLS cfg))"
proof -
  from assms obtain x us where x: "buildUsers (cfg_MTProto x) = Ok us"
    "(case NewManager us (tls_AllowedJA3 (cfg_TLS x)) (tls_AllowedJA4 (cfg_TLS x)) of
        Ok mgr \<Rightarrow> Ok (x, mgr) | Err e \<Rightarrow> Err (CfgManager e) | Panic \<Rightarrow> Panic) = Ok (cfg, mgr)"
    by (auto simp: Load_def res_simps)
  then have us: "buildUsers (cfg_MTProto cfg) = Ok us"
    "NewManager us (tls_AllowedJA3 (cfg_TLS cfg)) (tls_AllowedJA4 (cfg_TLS cfg)) = Ok mgr"
    by (cases "NewManager us (tls_AllowedJA3 (cfg_TLS x)) (tls_AllowedJA4 (cfg_TLS x))"; simp)+
  from us(2) have m: "m_users mgr = us" "filter u_Enabled us \<noteq> []" "m_maskHost mgr \<noteq> []"
    and a: "m_ja3Allow mgr = nonempty (tls_AllowedJA3 (cfg_TLS cfg))" "m_ja4Allow mgr = nonempty (tls_AllowedJA4 (cfg_TLS cfg))"
    by (auto simp: NewManager_def replaceUsers_def find_None_iff find_Some_iff Let_def split: if_splits option.splits prod.splits)
  with us(1) buildUsers_ok [OF us(1)] show "users_ok mgr" "buildUsers (cfg_MTProto cfg) = Ok (m_users mgr)"
    "m_ja3Allow mgr = nonempty (tls_AllowedJA3 (cfg_TLS cfg))" "m_ja4Allow mgr = nonempty (tls_AllowedJA4 (cfg_TLS cfg))"
    by (simp_all add: users_ok_def)
qed

lemma replaceUsers_ok:
  assumes "filter u_Enabled us \<noteq> []"
  obtains m' where "replaceUsers us m = (Ok (), m')" "m_users m' = us" "m_maskHost m' \<noteq> []"
    "m_ja3Allow m' = m_ja3Allow m" "m_ja4Allow m' = m_ja4Allow m"
  using assms by (auto simp: replaceUsers_def find_None_iff find_Some_iff Let_def split: option.splits if_splits)

lemma NewManager_ok:
  assumes "filter u_Enabled us \<noteq> []"
  obtains m where "NewManager us ja3 ja4 = Ok m" "m_users m = us"
proof -
  obtain m where "replaceUsers us \<lparr>m_users = [], m_maskHost = [], m_ja3Allow = nonempty ja3, m_ja4Allow = nonempty ja4\<rparr> = (Ok (), m)"
    "m_users m = us"
    using assms by (rule replaceUsers_ok)
  moreover from assms have "us \<noteq> []" by auto
  ultimately show ?thesis by (intro that) (simp_all add: NewManager_def)
qed

lemma SetFingerprints_sel [simp]:
  "m_users (SetFingerprints a b m) = m_users m" "m_maskHost (SetFingerprints a b m) = m_maskHost m"
  "m_ja3Allow (SetFingerprints a b m) = nonempty a" "m_ja4Allow (SetFingerprints a b m) = nonempty b"
  by (simp_all add: SetFingerprints_def SetAllowedJA3_def SetAllowedJA4_def)

lemma rt_Reload_cases:
  assumes "rt_Reload vp now r = (res, r')"
  obtains (failed) e where "Load vp (rt_ConfigPath r) = Err e" "res = Err (ReloadConfig e)" "r' = r"
  | (crashed) "Load vp (rt_ConfigPath r) = Panic" "res = Panic" "r' = r"
  | (loaded) cfg mgr where "Load vp (rt_ConfigPath r) = Ok (cfg, mgr)" "res = Ok ()" "rt_Config r' = cfg"
      "m_users (rt_Users r') = m_users mgr" "m_maskHost (rt_Users r') \<noteq> []"
      "m_ja3Allow (rt_Users r') = nonempty (tls_AllowedJA3 (cfg_TLS cfg))"
      "m_ja4Allow (rt_Users r') = nonempty (tls_AllowedJA4 (cfg_TLS cfg))"
      "rt_Limiter r' = Some (NewConnLimiter (sec_MaxConnectionsPerIP (cfg_Security cfg)))"
      "rt_Replay r' = Some (NewReplayCache (AntireplayMaxEntries cfg) two_minutes)"
      "features_ok r'" "rt_Stats r' = rt_Stats r"
proof (cases "Load vp (rt_ConfigPath r)")
  case (Ok p)
  obtain cfg mgr where p: "p = (cfg, mgr)" by force
  have "filter u_Enabled (m_users mgr) \<noteq> []"
    using Load_ok(1) Ok p by (simp add: users_ok_def)
  then obtain m' where m': "replaceUsers (m_users mgr) (rt_Users r) = (Ok (), m')" "m_users m' = m_users mgr" "m_maskHost m' \<noteq> []"
    by (rule replaceUsers_ok)
  with assms Ok p have r: "res = Ok ()" "r' = applySecurityFeatures now cfg
      ((UpdateConfig cfg (r\<lparr>rt_Users := SetFingerprints (tls_AllowedJA3 (cfg_TLS cfg)) (tls_AllowedJA4 (cfg_TLS cfg)) m'\<rparr>))
        \<lparr>rt_Limiter := Some (NewConnLimiter (sec_MaxConnectionsPerIP (cfg_Security cfg))), rt_LimiterID := rt_LimiterID r + 1,
         rt_Replay := Some (NewReplayCache (AntireplayMaxEntries cfg) two_minutes)\<rparr>)"
    by (auto simp: rt_Reload_def Reload_def Users_def UpdateConfig_def Let_def)
  with m' Ok p show ?thesis
    by (intro loaded [of cfg mgr]) (simp_all add: apply_features UpdateConfig_def)
next
  case (Err e)
  with assms show ?thesis by (intro failed) (auto simp: rt_Reload_def)
next
  case Panic
  with assms show ?thesis by (intro crashed) (auto simp: rt_Reload_def)
qed

section \<open>Properties\<close>

text \<open>The operations that replace parts of the runtime.\<close>

datatype rt_op = RtReload viper int | RtSettings file_writer int SettingsView | RtPersist file_writer

fun rt_apply :: "rt_op \<Rightarrow> Runtime \<Rightarrow> (runtime_error, unit) res \<times> Runtime" where
  "rt_apply (RtReload vp now) r = rt_Reload vp now r"
| "rt_apply (RtSettings fs now s) r = (case UpdateSettings fs now s r of (e, r', _) \<Rightarrow> (e, r'))"
| "rt_apply (RtPersist fs) r = (case PersistUsers fs r of (e, r', _) \<Rightarrow> (e, r'))"

lemma UpdateSettings_cases:
  assumes "UpdateSettings fs now s r = (e, r', w)"
  shows "rt_Users r' = SetFingerprints (sv_AllowedJA3 s) (sv_AllowedJA4 s) (rt_Users r)"
    "rt_Limiter r' = Some (NewConnLimiter (sv_MaxConnectionsPerIP s))" "rt_Replay r' = rt_Replay r"
    "features_ok r \<Longrightarrow> features_ok r'" "e = Ok () \<or> (\<exists>x. e = Err x \<and> rt_Config r' = rt_Config r \<and> w = None)"
    "e = Ok () \<Longrightarrow> rt_Config r' = with_users (rt_Users r) (ApplySettings (rt_Config r) s)"
proof -
  have f: "features_ok (r\<lparr>rt_Users := m, rt_Limiter := l, rt_LimiterID := i\<rparr>) = features_ok r" for m l i
    by (simp add: features_ok_def)
  show "rt_Users r' = SetFingerprints (sv_AllowedJA3 s) (sv_AllowedJA4 s) (rt_Users r)"
    "rt_Limiter r' = Some (NewConnLimiter (sv_MaxConnectionsPerIP s))" "rt_Replay r' = rt_Replay r"
    "features_ok r \<Longrightarrow> features_ok r'" "e = Ok () \<or> (\<exists>x. e = Err x \<and> rt_Config r' = rt_Config r \<and> w = None)"
    "e = Ok () \<Longrightarrow> rt_Config r' = with_users (rt_Users r) (ApplySettings (rt_Config r) s)"
    using assms by (auto simp: UpdateSettings_def Let_def apply_features f split: if_splits option.splits)
qed

lemma PersistUsers_cases:
  assumes "PersistUsers fs r = (e, r', w)"
  shows "r' = r \<and> w = None \<or> e = Ok () \<and> rt_ConfigPath r \<noteq> []
      \<and> w = Some (with_users (rt_Users r) (rt_Config r)) \<and> r' = r\<lparr>rt_Config := with_users (rt_Users r) (rt_Config r)\<rparr>"
  using assms by (auto simp: PersistUsers_def Let_def split: if_splits option.splits)

lemma rt_New_inv: "Load vp path = Ok (cfg, mgr) \<Longrightarrow> rt_inv (rt_New now path' cfg mgr tracker)"
  using Load_ok(1) by (simp add: rt_inv_def rt_New_def apply_features)

lemma rt_apply_inv:
  assumes "rt_inv r"
  shows "rt_inv (snd (rt_apply op r))"
proof (cases op)
  case (RtReload vp now)
  obtain e r' where x: "rt_Reload vp now r = (e, r')" by force
  then show ?thesis
  proof (cases rule: rt_Reload_cases)
    case (loaded cfg mgr)
    with Load_ok(1) [OF loaded(1)] x RtReload show ?thesis
      by (simp add: rt_inv_def users_ok_def)
  qed (use assms x RtReload in simp_all)
next
  case (RtSettings fs now s)
  obtain e r' w where x: "UpdateSettings fs now s r = (e, r', w)" by (metis prod_cases3)
  with assms UpdateSettings_cases [OF x] RtSettings show ?thesis
    by (simp add: rt_inv_def users_ok_def)
next
  case (RtPersist fs)
  obtain e r' w where x: "PersistUsers fs r = (e, r', w)" by (metis prod_cases3)
  with assms PersistUsers_cases [OF x] RtPersist show ?thesis
    by (auto simp: rt_inv_def features_ok_def)
qed

text \<open>The states of the runtime: it is made from a loaded configuration and then changed by the operations.\<close>

inductive rt_reachable :: "Runtime \<Rightarrow> bool" where
  rt_start: "Load vp path = Ok (cfg, mgr) \<Longrightarrow> rt_reachable (rt_New now path' cfg mgr tracker)"
| rt_step: "rt_reachable r \<Longrightarrow> rt_reachable (snd (rt_apply op r))"

text \<open>
  The runtime stays usable: in every state reached from a loaded configuration by reloading, changing
  settings and saving users, in any order, whether they succeed or fail and whatever the file
  contains, there are a replay cache, a limiter, a fingerprint and a ServerHello rotator whose indices
  are inside their pools, an enabled user and a mask host.
\<close>

lemma runtime_stays_sound:
  assumes "rt_reachable r"
  shows "rt_inv r"
  using assms by (induction rule: rt_reachable.induct) (auto intro: rt_New_inv rt_apply_inv)

definition sample_users :: "UserConfig list" where
  "sample_users = [\<lparr>ucf_Name = ''a'', ucf_Secret = EncodeHex \<lparr>s_key = replicate 16 7, s_host = [], s_mode = SecurePrefix\<rparr>,
     ucf_Enabled = Some True\<rparr>]"

lemma sample_users_built:
  "buildUsers (cfg_MTProto (sample_config sample_users)) =
     Ok [\<lparr>u_Name = ''a'', u_Secret = \<lparr>s_key = replicate 16 7, s_host = [], s_mode = SecurePrefix\<rparr>, u_Enabled = True\<rparr>]"
proof -
  let ?u = "\<lparr>u_Name = ''a'', u_Secret = \<lparr>s_key = replicate 16 7, s_host = [], s_mode = SecurePrefix\<rparr>, u_Enabled = True\<rparr>"
  have "user_ok ?u" by (simp add: user_ok_def secret_wf_def KeyLength_def)
  then have "user_of_config (hd sample_users) = Ok ?u"
    using user_of_config_saved [of ?u] by (simp add: sample_users_def)
  then show ?thesis
    by (simp add: buildUsers_def sample_config_def sample_users_def)
qed

lemma sample_loads: "\<exists>mgr. Load (\<lambda>_ _. Inr (sample_config sample_users)) path = Ok (sample_config sample_users, mgr)"
  using sample_users_built by (simp add: Load_def loadFile_def NewManager_def replaceUsers_def Let_def split: option.splits)

lemma sample_runtime:
  obtains mgr r where "Load (\<lambda>_ _. Inr (sample_config sample_users)) ''c.yaml'' = Ok (sample_config sample_users, mgr)"
    "r = rt_New 5 ''c.yaml'' (sample_config sample_users) mgr New" "rt_inv r" "rt_reflects r"
    "PersistUsers (\<lambda>_ _. None) r = (Ok (), r\<lparr>rt_Config := with_users mgr (sample_config sample_users)\<rparr>,
        Some (with_users mgr (sample_config sample_users)))"
proof -
  obtain mgr where m: "Load (\<lambda>_ _. Inr (sample_config sample_users)) ''c.yaml'' = Ok (sample_config sample_users, mgr)"
    using sample_loads by blast
  show ?thesis
    using m Load_ok [OF m] rt_New_inv [OF m]
    by (intro that [OF m refl])
       (simp_all add: rt_reflects_def rt_New_def apply_features NewConnLimiter_def PersistUsers_def
         applySecurityFeatures_def Let_def)
qed



text \<open>
  C16. Saved users come back. After users were saved, a reload that reads the written configuration
  succeeds and gives exactly the users, flags and secrets that were saved; nothing of the
  configuration changes.
\<close>

theorem persist_then_reload:
  assumes "rt_inv r" "PersistUsers fs r = (Ok (), r', Some cfg)" "vp viper_defaults (rt_ConfigPath r) = Inr cfg"
  shows "\<exists>r''. rt_Reload vp now r' = (Ok (), r'') \<and> m_users (rt_Users r'') = m_users (rt_Users r)
    \<and> rt_Config r'' = rt_Config r' \<and> rt_reflects r''"
proof -
  let ?us = "m_users (rt_Users r)"
  from PersistUsers_cases [OF assms(2)] have r': "cfg = with_users (rt_Users r) (rt_Config r)" "r' = r\<lparr>rt_Config := cfg\<rparr>"
    by auto
  have us: "filter u_Enabled ?us \<noteq> []" "\<forall>u \<in> set ?us. user_ok u"
    using assms(1) by (auto simp: rt_inv_def users_ok_def)
  then have "buildUsers (cfg_MTProto cfg) = Ok ?us"
    by (auto simp: r' with_users_def Users_def intro!: buildUsers_saved)
  moreover obtain mgr where "NewManager ?us (tls_AllowedJA3 (cfg_TLS cfg)) (tls_AllowedJA4 (cfg_TLS cfg)) = Ok mgr" "m_users mgr = ?us"
    using us(1) by (rule NewManager_ok)
  ultimately have l: "Load vp (rt_ConfigPath r') = Ok (cfg, mgr)" "m_users mgr = ?us"
    using assms(3) by (simp_all add: Load_def loadFile_def r'(2))
  obtain e r'' where x: "rt_Reload vp now r' = (e, r'')" by force
  then show ?thesis
  proof (cases rule: rt_Reload_cases)
    case (loaded cfg' mgr')
    with Load_ok [OF loaded(1)] l x show ?thesis
      by (simp add: rt_reflects_def NewConnLimiter_def r'(2))
  qed (use l in simp_all)
qed

theorem persist_then_reload_witness:
  "\<exists>mgr r r' r''. r = rt_New 5 ''c.yaml'' (sample_config sample_users) mgr New
     \<and> PersistUsers (\<lambda>_ _. None) r = (Ok (), r', Some (rt_Config r'))
     \<and> rt_Reload (\<lambda>_ _. Inr (rt_Config r')) 9 r' = (Ok (), r'') \<and> m_users (rt_Users r'') = m_users (rt_Users r)"
proof (rule sample_runtime)
  fix mgr r
  let ?cfg = "with_users mgr (sample_config sample_users)"
  assume r: "r = rt_New 5 ''c.yaml'' (sample_config sample_users) mgr New" "rt_inv r"
    and p: "PersistUsers (\<lambda>_ _. None) r = (Ok (), r\<lparr>rt_Config := ?cfg\<rparr>, Some ?cfg)"
  have "\<exists>r''. rt_Reload (\<lambda>_ _. Inr ?cfg) 9 (r\<lparr>rt_Config := ?cfg\<rparr>) = (Ok (), r'') \<and> m_users (rt_Users r'') = m_users (rt_Users r)"
    using persist_then_reload [OF r(2) p, of "\<lambda>_ _. Inr ?cfg" 9] by auto
  then obtain r'' where "rt_Reload (\<lambda>_ _. Inr ?cfg) 9 (r\<lparr>rt_Config := ?cfg\<rparr>) = (Ok (), r'')"
    "m_users (rt_Users r'') = m_users (rt_Users r)"
    by blast
  with r(1) p show ?thesis
    by (intro exI [of _ mgr] exI [of _ r] exI [of _ "r\<lparr>rt_Config := ?cfg\<rparr>"] exI [of _ r'']) simp
qed

text \<open>
  A change of settings that cannot be saved is refused, but the white lists and the limiter already
  have the new values while the configuration keeps the old ones.
\<close>

lemma failed_settings_half_applied:
  assumes "UpdateSettings fs now s r = (Err e, r', w)"
  shows "rt_Config r' = rt_Config r" "m_ja3Allow (rt_Users r') = nonempty (sv_AllowedJA3 s)"
    "rt_Limiter r' = Some (NewConnLimiter (sv_MaxConnectionsPerIP s))"
  using UpdateSettings_cases [OF assms] by simp_all

end
