(* ===== verification/Pipe.thy ===== *)
theory Pipe
  imports Obfuscated2 RelayTunnel
begin

text \<open>
  Moving bytes between two connections: \<open>io.Copy\<close> and the functions built on it, \<open>pipeTraffic\<close> and
  \<open>closeWriteHalf\<close> (\<open>internal/proxy/server.go\<close>) and \<open>SpliceToHost\<close> (\<open>internal/faketls/fronting.go\<close>). Two
  copying threads run at once, so they are a step relation: each step is one \<open>Read\<close> or one \<open>Write\<close> of
  one thread, in any order. The locale \<open>duplex\<close> is the contract of a connection that one thread may
  read while another writes; every connection the proxy pipes interprets it, and inside it and
  \<open>pipe_ends\<close> the threads are shown to end, whatever the order, with the result of running them
  one after the other.
\<close>

section \<open>Copying\<close>

type_synonym 's reader = "nat \<Rightarrow> 's \<Rightarrow> (io_error + bytes) \<times> 's"

text \<open>A write gives the number of bytes taken and whether it succeeded.\<close>

type_synonym 's writer = "bytes \<Rightarrow> 's \<Rightarrow> (nat \<times> bool) \<times> 's"

text \<open>Where a copying thread is, with the bytes it has written: before a read, before the write of what
  it read, or at its end.\<close>

datatype copier = Reading nat | Writing nat bytes | Finished nat

definition copy_buf :: nat where "copy_buf = 32 * 1024"

fun copy_step :: "'a reader \<Rightarrow> 'b writer \<Rightarrow> copier \<Rightarrow> 'a \<Rightarrow> 'b \<Rightarrow> copier \<times> 'a \<times> 'b" where
  "copy_step rd wr (Reading n) a b =
     (case rd copy_buf a of
        (Inl e, a') \<Rightarrow> (Finished n, a', b)
      | (Inr xs, a') \<Rightarrow> (if xs = [] then Reading n else Writing n xs, a', b))"
| "copy_step rd wr (Writing n xs) a b =
     (case wr xs b of
        ((k, ok), b') \<Rightarrow>
          if length xs < k then (Finished n, a, b')
          else (if ok \<and> k = length xs then Reading (n + k) else Finished (n + k), a, b'))"
| "copy_step rd wr (Finished n) a b = (Finished n, a, b)"

fun finished :: "copier \<Rightarrow> bool" where
  "finished (Finished n) = True"
| "finished _ = False"

fun copied :: "copier \<Rightarrow> nat" where
  "copied (Reading n) = n"
| "copied (Writing n xs) = n"
| "copied (Finished n) = n"

text \<open>\<open>io.Copy\<close>, from any point of the loop; \<open>None\<close> when it never returns.\<close>

partial_function (option) io_copy ::
  "'a reader \<Rightarrow> 'b writer \<Rightarrow> copier \<Rightarrow> 'a \<Rightarrow> 'b \<Rightarrow> (nat \<times> 'a \<times> 'b) option" where
  "io_copy rd wr t a b =
     (if finished t then Some (copied t, a, b)
      else case copy_step rd wr t a b of (t', a', b') \<Rightarrow> io_copy rd wr t' a' b')"

section \<open>Two directions\<close>

record ('c, 's) pipe =
  pp_client :: 'c
  pp_server :: 's
  pp_up :: copier
  pp_down :: copier

definition up_step :: "'c reader \<Rightarrow> 's writer \<Rightarrow> ('c, 's) pipe \<Rightarrow> ('c, 's) pipe" where
  "up_step crd swr p =
     (case copy_step crd swr (pp_up p) (pp_client p) (pp_server p) of
        (t, c, s) \<Rightarrow> p\<lparr>pp_up := t, pp_client := c, pp_server := s\<rparr>)"

definition down_step :: "'s reader \<Rightarrow> 'c writer \<Rightarrow> ('c, 's) pipe \<Rightarrow> ('c, 's) pipe" where
  "down_step srd cwr p =
     (case copy_step srd cwr (pp_down p) (pp_server p) (pp_client p) of
        (t, s, c) \<Rightarrow> p\<lparr>pp_down := t, pp_server := s, pp_client := c\<rparr>)"

inductive pipe_step ::
  "'c reader \<Rightarrow> 'c writer \<Rightarrow> 's reader \<Rightarrow> 's writer \<Rightarrow> ('c, 's) pipe \<Rightarrow> ('c, 's) pipe \<Rightarrow> bool"
  for crd cwr srd swr where
  up: "\<not> finished (pp_up p) \<Longrightarrow> pipe_step crd cwr srd swr p (up_step crd swr p)"
| down: "\<not> finished (pp_down p) \<Longrightarrow> pipe_step crd cwr srd swr p (down_step srd cwr p)"

inductive_cases pipe_stepE: "pipe_step crd cwr srd swr p q"

definition pipe_start :: "'c \<Rightarrow> 's \<Rightarrow> ('c, 's) pipe" where
  "pipe_start c s = \<lparr>pp_client = c, pp_server = s, pp_up = Reading 0, pp_down = Reading 0\<rparr>"

text \<open>
  \<open>pipeTraffic\<close> waits for both threads; a thread that ends closes only the writing half of the
  connection it wrote to (\<open>closeWriteHalf\<close>: all connections that are piped have \<open>CloseWrite\<close>), so the
  other thread goes on. This is the schedule that runs the upload first; that every schedule
  gives the same is proved below.
\<close>

definition pipeTraffic ::
  "'c reader \<Rightarrow> 'c writer \<Rightarrow> 's reader \<Rightarrow> 's writer \<Rightarrow> 'c \<Rightarrow> 's \<Rightarrow> (nat \<times> nat \<times> 'c \<times> 's) option" where
  "pipeTraffic crd cwr srd swr client server =
     (case io_copy crd swr (Reading 0) client server of
        None \<Rightarrow> None
      | Some (upload, client, server) \<Rightarrow>
          (case io_copy srd cwr (Reading 0) server client of
             None \<Rightarrow> None
           | Some (download, server, client) \<Rightarrow> Some (upload, download, client, server)))"

section \<open>Contracts\<close>

text \<open>A reader whose stream ends: with nothing pending, a read fails or uses up input.\<close>

locale ending_reader = byte_reader rd pending wait
  for rd :: "'s reader" and pending wait +
  assumes rd_ends: "pending s = [] \<Longrightarrow> 0 < n \<Longrightarrow> rd n s = (Inr xs, s') \<Longrightarrow> wait s' < wait s"
begin

lemma rd_decreases:
  assumes "rd n s = (Inr xs, s')" "0 < n"
  shows "length (pending s') < length (pending s) \<and> xs \<noteq> []
    \<or> length (pending s') = length (pending s) \<and> xs = [] \<and> wait s' < wait s"
proof (cases "pending s = []")
  case True
  with rd_ends [OF True assms(2,1)] rd_prefix [OF assms(1)] show ?thesis by auto
next
  case False
  then obtain ys s'' where "rd n s = (Inr ys, s'')" "ys \<noteq> [] \<or> wait s'' < wait s"
    using rd_progress assms(2) by blast
  with assms(1) have "xs \<noteq> [] \<or> wait s' < wait s" by simp
  moreover have "length (pending s) = length xs + length (pending s')"
    using rd_prefix [OF assms(1)] by (metis length_append)
  ultimately show ?thesis by auto
qed

text \<open>What a copying thread still has to do.\<close>

definition todo :: "copier \<Rightarrow> 's \<Rightarrow> nat \<times> nat \<times> nat \<times> nat" where
  "todo t s = (case t of
     Finished n \<Rightarrow> (0, 0, 0, 0)
   | Reading n \<Rightarrow> (1, length (pending s), wait s, 0)
   | Writing n xs \<Rightarrow> (1, length (pending s), wait s, 1))"

definition todo_less :: "((nat \<times> nat \<times> nat \<times> nat) \<times> nat \<times> nat \<times> nat \<times> nat) set" where
  "todo_less = less_than <*lex*> less_than <*lex*> less_than <*lex*> less_than"

lemma wf_todo: "wf todo_less"
  by (auto simp: todo_less_def intro!: wf_lex_prod)

lemma copy_step_decreases:
  assumes "copy_step rd wr t a b = (t', a', b')" "\<not> finished t"
  shows "(todo t' a', todo t a) \<in> todo_less"
proof (cases t)
  case (Reading n)
  show ?thesis
  proof (cases "rd copy_buf a")
    case (Pair r a1)
    show ?thesis
    proof (cases r)
      case (Inl e)
      with Pair Reading assms show ?thesis by (auto simp: todo_def todo_less_def)
    next
      case (Inr xs)
      have "(if xs = [] then Reading n else Writing n xs) = t'" "a1 = a'"
        using Pair Inr Reading assms by simp_all
      moreover have "length (pending a1) < length (pending a) \<and> xs \<noteq> []
          \<or> length (pending a1) = length (pending a) \<and> xs = [] \<and> wait a1 < wait a"
        using rd_decreases [of copy_buf a xs a1] Pair Inr by (simp add: copy_buf_def)
      ultimately show ?thesis
        using Reading by (auto simp: todo_def todo_less_def)
    qed
  qed
next
  case (Writing n xs)
  with assms show ?thesis
    by (auto simp: todo_def todo_less_def split: prod.splits if_splits)
qed (use assms in auto)

lemma io_copy_ends: "\<exists>n a' b'. io_copy rd wr t a b = Some (n, a', b')"
proof (induction "todo t a" arbitrary: t a b rule: wf_induct_rule [OF wf_todo])
  case 1
  show ?case
  proof (cases "finished t")
    case True
    then show ?thesis by (simp add: io_copy.simps)
  next
    case False
    obtain t1 a1 b1 where s: "copy_step rd wr t a b = (t1, a1, b1)" by (metis prod_cases3)
    with False 1 [OF copy_step_decreases [OF s False]] show ?thesis
      by (subst io_copy.simps) auto
  qed
qed

end

text \<open>A connection that one thread reads while another writes: the two do not disturb each other.\<close>

locale duplex = ending_reader rd pending wait
  for rd :: "'s reader" and pending wait +
  fixes wr :: "'s writer"
  assumes wr_keeps: "wr b s = (w, s') \<Longrightarrow> pending s' = pending s \<and> wait s' = wait s"
    and rd_wr_commute: "rd n s = (r, s1) \<Longrightarrow> wr b s = (w, s2) \<Longrightarrow> \<exists>s3. wr b s1 = (w, s3) \<and> rd n s2 = (r, s3)"

text \<open>Two such connections: the threads of a pipe.\<close>

locale pipe_ends =
  client: duplex crd cpend cwait cwr + server: duplex srd spend swait swr
  for crd :: "'c reader" and cpend cwait cwr and srd :: "'s reader" and spend swait swr
begin

lemma steps_commute: "up_step crd swr (down_step srd cwr p) = down_step srd cwr (up_step crd swr p)"
proof (cases "pp_up p")
  case up: (Reading n)
  obtain r c1 where r: "crd copy_buf (pp_client p) = (r, c1)" by force
  show ?thesis
  proof (cases "pp_down p")
    case (Reading m)
    with up r show ?thesis
      by (cases r; cases "srd copy_buf (pp_server p)"; cases "fst (srd copy_buf (pp_server p))")
        (auto simp: up_step_def down_step_def)
  next
    case (Writing m xs)
    obtain w c2 where w: "cwr xs (pp_client p) = (w, c2)" by (meson surj_pair)
    obtain c3 where "cwr xs c1 = (w, c3)" "crd copy_buf c2 = (r, c3)"
      using client.rd_wr_commute [OF r w] by blast
    with up Writing r w show ?thesis
      by (cases r; cases w) (auto simp: up_step_def down_step_def)
  next
    case (Finished m)
    with up r show ?thesis
      by (cases r) (auto simp: up_step_def down_step_def)
  qed
next
  case up: (Writing n xs)
  obtain w s1 where w: "swr xs (pp_server p) = (w, s1)" by (meson surj_pair)
  show ?thesis
  proof (cases "pp_down p")
    case (Reading m)
    obtain r s2 where r: "srd copy_buf (pp_server p) = (r, s2)" by force
    obtain s3 where "swr xs s2 = (w, s3)" "srd copy_buf s1 = (r, s3)"
      using server.rd_wr_commute [OF r w] by blast
    with up Reading r w show ?thesis
      by (cases r; cases w) (auto simp: up_step_def down_step_def)
  next
    case (Writing m ys)
    with up w show ?thesis
      by (cases w; cases "cwr ys (pp_client p)"; cases "fst (cwr ys (pp_client p))")
        (auto simp: up_step_def down_step_def)
  next
    case (Finished m)
    with up w show ?thesis
      by (cases w) (auto simp: up_step_def down_step_def)
  qed
qed (cases "pp_down p"; auto simp: up_step_def down_step_def split: prod.splits sum.splits)

text \<open>One thread's step leaves the other thread where it is, with as much to do.\<close>

lemma up_step_other:
  "pp_down (up_step crd swr p) = pp_down p"
  "server.todo (pp_down p) (pp_server (up_step crd swr p)) = server.todo (pp_down p) (pp_server p)"
proof -
  show "pp_down (up_step crd swr p) = pp_down p"
    by (simp add: up_step_def case_prod_beta)
  have "pp_server (up_step crd swr p) = pp_server p \<or> (\<exists>xs w. swr xs (pp_server p) = (w, pp_server (up_step crd swr p)))"
    by (cases "pp_up p") (auto simp: up_step_def split: prod.splits sum.splits)
  then show "server.todo (pp_down p) (pp_server (up_step crd swr p)) = server.todo (pp_down p) (pp_server p)"
    using server.wr_keeps by (auto simp: server.todo_def split: copier.splits)
qed

lemma down_step_other:
  "pp_up (down_step srd cwr p) = pp_up p"
  "client.todo (pp_up p) (pp_client (down_step srd cwr p)) = client.todo (pp_up p) (pp_client p)"
proof -
  show "pp_up (down_step srd cwr p) = pp_up p"
    by (simp add: down_step_def case_prod_beta)
  have "pp_client (down_step srd cwr p) = pp_client p \<or> (\<exists>xs w. cwr xs (pp_client p) = (w, pp_client (down_step srd cwr p)))"
    by (cases "pp_down p") (auto simp: down_step_def split: prod.splits sum.splits)
  then show "client.todo (pp_up p) (pp_client (down_step srd cwr p)) = client.todo (pp_up p) (pp_client p)"
    using client.wr_keeps by (auto simp: client.todo_def split: copier.splits)
qed

lemma up_step_decreases:
  "\<not> finished (pp_up p) \<Longrightarrow>
     (client.todo (pp_up (up_step crd swr p)) (pp_client (up_step crd swr p)), client.todo (pp_up p) (pp_client p))
       \<in> client.todo_less"
  using client.copy_step_decreases [of swr "pp_up p" "pp_client p" "pp_server p"]
  by (cases "copy_step crd swr (pp_up p) (pp_client p) (pp_server p)") (auto simp: up_step_def)

lemma down_step_decreases:
  "\<not> finished (pp_down p) \<Longrightarrow>
     (server.todo (pp_down (down_step srd cwr p)) (pp_server (down_step srd cwr p)), server.todo (pp_down p) (pp_server p))
       \<in> server.todo_less"
  using server.copy_step_decreases [of cwr "pp_down p" "pp_server p" "pp_client p"]
  by (cases "copy_step srd cwr (pp_down p) (pp_server p) (pp_client p)") (auto simp: down_step_def)

text \<open>Every schedule ends.\<close>

lemma pipe_terminates: "wfP (\<lambda>q p. pipe_step crd cwr srd swr p q)"
proof (rule wfp_if_convertible_to_wfp)
  show "wfP (\<lambda>x y. (x, y) \<in> client.todo_less <*lex*> server.todo_less)"
    by (simp add: wfp_def wf_lex_prod client.wf_todo server.wf_todo)
  fix q p
  assume "pipe_step crd cwr srd swr p q"
  then show "((client.todo (pp_up q) (pp_client q), server.todo (pp_down q) (pp_server q)),
      client.todo (pp_up p) (pp_client p), server.todo (pp_down p) (pp_server p)) \<in> client.todo_less <*lex*> server.todo_less"
  proof (cases rule: pipe_step.cases)
    case up
    with up_step_decreases [of p] show ?thesis by simp
  next
    case down
    with down_step_decreases [of p] down_step_other [of p] show ?thesis by simp
  qed
qed

text \<open>Running one thread to its end.\<close>

definition run_up :: "('c, 's) pipe \<Rightarrow> ('c, 's) pipe" where
  "run_up p = (case io_copy crd swr (pp_up p) (pp_client p) (pp_server p) of
     Some (n, c, s) \<Rightarrow> p\<lparr>pp_up := Finished n, pp_client := c, pp_server := s\<rparr> | None \<Rightarrow> p)"

definition run_down :: "('c, 's) pipe \<Rightarrow> ('c, 's) pipe" where
  "run_down p = (case io_copy srd cwr (pp_down p) (pp_server p) (pp_client p) of
     Some (n, s, c) \<Rightarrow> p\<lparr>pp_down := Finished n, pp_server := s, pp_client := c\<rparr> | None \<Rightarrow> p)"

lemma run_up_step: "run_up (up_step crd swr p) = run_up p"
proof (cases "finished (pp_up p)")
  case True
  then have "up_step crd swr p = p" by (cases "pp_up p") (simp_all add: up_step_def)
  then show ?thesis by simp
next
  case False
  obtain t c s where s: "copy_step crd swr (pp_up p) (pp_client p) (pp_server p) = (t, c, s)"
    by (metis prod_cases3)
  then obtain n c' s' where "io_copy crd swr t c s = Some (n, c', s')"
    using client.io_copy_ends [of swr t c s] by blast
  with False s show ?thesis
    by (simp add: run_up_def up_step_def io_copy.simps [of crd swr "pp_up p"])
qed

lemma run_down_step: "run_down (down_step srd cwr p) = run_down p"
proof (cases "finished (pp_down p)")
  case True
  then have "down_step srd cwr p = p" by (cases "pp_down p") (simp_all add: down_step_def)
  then show ?thesis by simp
next
  case False
  obtain t s c where s: "copy_step srd cwr (pp_down p) (pp_server p) (pp_client p) = (t, s, c)"
    by (metis prod_cases3)
  then obtain n s' c' where "io_copy srd cwr t s c = Some (n, s', c')"
    using server.io_copy_ends [of cwr t s c] by blast
  with False s show ?thesis
    by (simp add: run_down_def down_step_def io_copy.simps [of srd cwr "pp_down p"])
qed

lemma run_up_finished: "finished (pp_up p) \<Longrightarrow> run_up p = p"
  by (cases "pp_up p") (simp_all add: run_up_def io_copy.simps)

lemma run_down_finished: "finished (pp_down p) \<Longrightarrow> run_down p = p"
  by (cases "pp_down p") (simp_all add: run_down_def io_copy.simps)

lemma run_up_down_step: "run_up (down_step srd cwr p) = down_step srd cwr (run_up p)"
proof (induction "client.todo (pp_up p) (pp_client p)" arbitrary: p rule: wf_induct_rule [OF client.wf_todo])
  case 1
  show ?case
  proof (cases "finished (pp_up p)")
    case True
    then show ?thesis using down_step_other(1) [of p] by (simp add: run_up_finished)
  next
    case False
    have "run_up (down_step srd cwr p) = run_up (down_step srd cwr (up_step crd swr p))"
      using run_up_step [of "down_step srd cwr p"] by (simp add: steps_commute)
    also have "\<dots> = down_step srd cwr (run_up (up_step crd swr p))"
      using 1 [OF up_step_decreases [OF False]] .
    finally show ?thesis by (simp add: run_up_step)
  qed
qed

text \<open>So the end of a run does not depend on the schedule.\<close>

lemma pipe_step_result: "pipe_step crd cwr srd swr p q \<Longrightarrow> run_down (run_up q) = run_down (run_up p)"
  by (elim pipe_stepE) (simp_all add: run_up_step run_up_down_step run_down_step)

lemma pipe_run_result:
  "(pipe_step crd cwr srd swr)\<^sup>*\<^sup>* p q \<Longrightarrow> finished (pp_up q) \<Longrightarrow> finished (pp_down q) \<Longrightarrow> q = run_down (run_up p)"
proof (induction rule: converse_rtranclp_induct)
  case base
  then show ?case by (simp add: run_up_finished run_down_finished)
next
  case (step p p')
  then show ?case using pipe_step_result by metis
qed

lemma pipe_schedules_agree:
  assumes "(pipe_step crd cwr srd swr)\<^sup>*\<^sup>* (pipe_start c s) q" "finished (pp_up q)" "finished (pp_down q)"
  shows "pipeTraffic crd cwr srd swr c s = Some (copied (pp_up q), copied (pp_down q), pp_client q, pp_server q)"
proof -
  have q: "q = run_down (run_up (pipe_start c s))"
    using pipe_run_result [OF assms] .
  obtain n c1 s1 where u: "io_copy crd swr (Reading 0) c s = Some (n, c1, s1)"
    using client.io_copy_ends [of swr "Reading 0" c s] by blast
  obtain m s2 c2 where d: "io_copy srd cwr (Reading 0) s1 c1 = Some (m, s2, c2)"
    using server.io_copy_ends [of cwr "Reading 0" s1 c1] by blast
  show ?thesis
    using u d by (simp add: q run_up_def run_down_def pipe_start_def pipeTraffic_def)
qed

lemma pipe_stuck_iff:
  "(\<nexists>q. pipe_step crd cwr srd swr p q) \<longleftrightarrow> finished (pp_up p) \<and> finished (pp_down p)"
  by (auto intro: pipe_step.intros elim: pipe_stepE)

lemma every_run_stops: "\<exists>q. (pipe_step crd cwr srd swr)\<^sup>*\<^sup>* p q \<and> (\<nexists>q'. pipe_step crd cwr srd swr q q')"
proof (induction p rule: wfp_induct_rule [OF pipe_terminates])
  case (1 p)
  show ?case
  proof (cases "\<exists>q. pipe_step crd cwr srd swr p q")
    case True
    then show ?thesis using 1 by (meson converse_rtranclp_into_rtranclp)
  qed blast
qed

lemma pipeTraffic_ends: "\<exists>u d c' s'. pipeTraffic crd cwr srd swr c s = Some (u, d, c', s')"
proof -
  obtain n c1 s1 where u: "io_copy crd swr (Reading 0) c s = Some (n, c1, s1)"
    using client.io_copy_ends [of swr "Reading 0" c s] by blast
  obtain m s2 c2 where d: "io_copy srd cwr (Reading 0) s1 c1 = Some (m, s2, c2)"
    using server.io_copy_ends [of cwr "Reading 0" s1 c1] by blast
  show ?thesis
    using u d by (simp add: pipeTraffic_def)
qed

end

section \<open>What is written\<close>

text \<open>
  A connection that takes everything written to it while it is \<open>ready\<close>; \<open>sent d b d'\<close> says that between
  the states \<open>d\<close> and \<open>d'\<close> exactly the bytes \<open>b\<close> were sent, in the encoding of the connection. Reading
  does not change what was sent.
\<close>

locale full_duplex = duplex rd pending wait wr
  for rd :: "'s reader" and pending wait wr +
  fixes ready :: "'s \<Rightarrow> bool" and sent :: "'s \<Rightarrow> bytes \<Rightarrow> 's \<Rightarrow> bool"
  assumes wr_ready: "ready d \<Longrightarrow> \<exists>d'. wr b d = ((length b, True), d') \<and> ready d' \<and> sent d b d'"
    and sent_refl: "sent d [] d"
    and sent_trans: "sent d a d' \<Longrightarrow> sent d' b d'' \<Longrightarrow> sent d (a @ b) d''"
    and rd_sent: "rd n d = (r, d') \<Longrightarrow> sent d [] d'"
    and rd_ready: "rd n d = (r, d') \<Longrightarrow> ready d \<Longrightarrow> ready d'"

text \<open>Copying from one connection to another that stays ready delivers everything, in order.\<close>

locale copy_ends = src: full_duplex rd pend wt rwr rready rsent + dst: full_duplex wrd wpend wwt wr wready wsent
  for rd :: "'a reader" and pend wt rwr rready rsent and wrd :: "'b reader" and wpend wwt wr wready wsent
begin

fun unwritten :: "copier \<Rightarrow> bytes" where
  "unwritten (Writing n xs) = xs"
| "unwritten _ = []"

lemma io_copy_delivers:
  "wready b \<Longrightarrow> \<not> finished t \<Longrightarrow>
     \<exists>a' b'. io_copy rd wr t a b = Some (copied t + length (unwritten t @ pend a), a', b')
       \<and> wsent b (unwritten t @ pend a) b' \<and> wready b' \<and> rsent a [] a' \<and> (rready a \<longrightarrow> rready a')
       \<and> wpend b' = wpend b"
proof (induction "src.todo t a" arbitrary: t a b rule: wf_induct_rule [OF src.wf_todo])
  case 1
  obtain t1 a1 b1 where s: "copy_step rd wr t a b = (t1, a1, b1)" by (metis prod_cases3)
  have step: "io_copy rd wr t a b = io_copy rd wr t1 a1 b1"
    using s 1(3) by (subst io_copy.simps) simp
  note IH = 1(1) [OF src.copy_step_decreases [OF s 1(3)]]
  show ?case
  proof (cases t)
    case (Reading n)
    obtain r a2 where r: "rd copy_buf a = (r, a2)" by force
    then have k: "rsent a [] a2" "rready a \<longrightarrow> rready a2"
      using src.rd_sent src.rd_ready by blast+
    show ?thesis
    proof (cases r)
      case (Inl e)
      have "pend a = []"
        using src.rd_progress [of a copy_buf] r Inl by (force simp: copy_buf_def)
      with s r Inl Reading k 1(2) show ?thesis
        unfolding step by (auto simp: io_copy.simps [of rd wr "Finished n"] dst.sent_refl)
    next
      case (Inr xs)
      then have "xs @ pend a2 = pend a"
        using src.rd_prefix r by blast
      then have c: "unwritten t1 @ pend a1 = pend a" "copied t1 = n" "\<not> finished t1" "a1 = a2" "b1 = b"
        using s r Inr Reading by (auto split: if_splits)
      obtain a' b' where "io_copy rd wr t1 a1 b1 = Some (n + length (pend a), a', b')" "wsent b1 (pend a) b'" "wready b'"
        "rsent a1 [] a'" "rready a1 \<longrightarrow> rready a'" "wpend b' = wpend b1"
        using IH [of b1, unfolded c(1,2)] 1(2) c(3,5) by blast
      with c k src.sent_trans [OF k(1), of "[]" a'] Reading show ?thesis
        unfolding step by (intro exI [of _ a'] exI [of _ b']) simp
    qed
  next
    case (Writing n xs)
    obtain b2 where w: "wr xs b = ((length xs, True), b2)" "wready b2" "wsent b xs b2"
      using dst.wr_ready [OF 1(2)] by blast
    moreover have "wpend b2 = wpend b"
      using dst.wr_keeps w(1) by blast
    moreover from w(1) s Writing have c: "t1 = Reading (n + length xs)" "a1 = a" "b1 = b2"
      by simp_all
    moreover obtain a' b' where ih: "io_copy rd wr t1 a1 b1 = Some (n + length xs + length (pend a), a', b')" "wsent b2 (pend a) b'"
      "wready b'" "rsent a [] a'" "rready a \<longrightarrow> rready a'" "wpend b' = wpend b2"
      using IH [of b1] c w(2) by auto
    ultimately show ?thesis
      using Writing dst.sent_trans [OF w(3) ih(2)] unfolding step
      by (intro exI [of _ a'] exI [of _ b']) simp
  qed (use 1(3) in simp)
qed

end

locale full_pipe = there: copy_ends crd cpend cwait cwr cready csent srd spend swait swr sready ssent
  for crd :: "'c reader" and cpend cwait cwr cready csent and srd :: "'s reader" and spend swait swr sready ssent

sublocale full_pipe \<subseteq> pipe_ends crd cpend cwait cwr srd spend swait swr
  by unfold_locales

sublocale full_pipe \<subseteq> again: copy_ends srd spend swait swr sready ssent crd cpend cwait cwr cready csent
  by unfold_locales

context full_pipe
begin

lemma pipeTraffic_delivers:
  assumes "cready c" "sready s"
  shows "\<exists>c' s'. pipeTraffic crd cwr srd swr c s = Some (length (cpend c), length (spend s), c', s')
    \<and> ssent s (cpend c) s' \<and> csent c (spend s) c'"
proof -
  obtain c1 s1 where u: "io_copy crd swr (Reading 0) c s = Some (length (cpend c), c1, s1)"
    "ssent s (cpend c) s1" "sready s1" "csent c [] c1" "cready c1" "spend s1 = spend s"
    using there.io_copy_delivers [of s "Reading 0" c] assms by auto
  obtain s2 c2 where d: "io_copy srd cwr (Reading 0) s1 c1 = Some (length (spend s), s2, c2)"
    "csent c1 (spend s) c2" "ssent s1 [] s2"
    using again.io_copy_delivers [of c1 "Reading 0" s1] u by auto
  show ?thesis
    using u d there.src.sent_trans [OF u(4) d(2)] there.dst.sent_trans [OF u(2) d(3)]
    by (simp add: pipeTraffic_def)
qed

end

context full_pipe
begin

text \<open>What holds at every moment of a run, whatever the schedule.\<close>

definition on_way :: "bytes \<Rightarrow> copier \<Rightarrow> bytes \<Rightarrow> bool" where
  "on_way bs t rest \<longleftrightarrow> copied t \<le> length bs \<and> (\<not> finished t \<longrightarrow>
     (case t of Writing n xs \<Rightarrow> xs | _ \<Rightarrow> []) @ rest = drop (copied t) bs)"

definition run_inv :: "'c \<Rightarrow> 's \<Rightarrow> ('c, 's) pipe \<Rightarrow> bool" where
  "run_inv c s p \<longleftrightarrow> cready (pp_client p) \<and> sready (pp_server p)
     \<and> on_way (cpend c) (pp_up p) (cpend (pp_client p)) \<and> on_way (spend s) (pp_down p) (spend (pp_server p))
     \<and> ssent s (take (copied (pp_up p)) (cpend c)) (pp_server p)
     \<and> csent c (take (copied (pp_down p)) (spend s)) (pp_client p)"

end

text \<open>One step of a thread, seen from its two connections.\<close>

context copy_ends
begin

lemma copy_step_progress:
  assumes "copy_step rd wr t a b = (t', a', b')" "\<not> finished t" "wready b"
    and "copied t \<le> length bs" "unwritten t @ pend a = drop (copied t) bs"
  shows "copied t' \<le> length bs \<and> (\<not> finished t' \<longrightarrow> unwritten t' @ pend a' = drop (copied t') bs)
    \<and> wready b' \<and> wpend b' = wpend b \<and> rsent a [] a' \<and> (rready a \<longrightarrow> rready a')
    \<and> (\<exists>xs. take (copied t') bs = take (copied t) bs @ xs \<and> wsent b xs b')"
proof (cases t)
  case (Reading n)
  obtain r a2 where r: "rd copy_buf a = (r, a2)" by force
  have k: "rsent a [] a2" "rready a \<longrightarrow> rready a2"
    using src.rd_sent [OF r] src.rd_ready [OF r] by blast+
  have p: "xs @ pend a2 = pend a" if "r = Inr xs" for xs
    using src.rd_prefix that r by blast
  show ?thesis
    using assms Reading r k p by (cases r) (auto intro!: exI [of _ "[]"] dst.sent_refl split: if_splits)
next
  case (Writing n xs)
  obtain b2 where w: "wr xs b = ((length xs, True), b2)" "wready b2" "wsent b xs b2"
    using dst.wr_ready [OF assms(3)] by blast
  have t': "t' = Reading (n + length xs)" "a' = a" "b' = b2"
    using assms(1) Writing w by simp_all
  have x: "xs @ pend a = drop n bs" "n \<le> length bs"
    using assms(4,5) Writing by simp_all
  then have "length xs \<le> length bs - n"
    by (metis length_append length_drop le_add1)
  moreover have "take (n + length xs) bs = take n bs @ xs"
    using x(1) by (metis append_eq_conv_conj take_add)
  moreover have "pend a = drop (n + length xs) bs"
    using x(1) by (metis append_eq_conv_conj drop_drop add.commute)
  ultimately show ?thesis
    using t' w x(2) Writing dst.wr_keeps [OF w(1)] src.sent_refl by auto
qed (use assms in auto)

end

context full_pipe
begin

lemma run_inv_up:
  assumes "run_inv c s p" "\<not> finished (pp_up p)"
  shows "run_inv c s (up_step crd swr p)"
proof -
  obtain t c1 s1 where st: "copy_step crd swr (pp_up p) (pp_client p) (pp_server p) = (t, c1, s1)"
    by (metis prod_cases3)
  have u: "there.unwritten t = (case t of Writing n xs \<Rightarrow> xs | _ \<Rightarrow> [])" for t
    by (cases t) simp_all
  have "copied t \<le> length (cpend c) \<and> (\<not> finished t \<longrightarrow> there.unwritten t @ cpend c1 = drop (copied t) (cpend c))
    \<and> sready s1 \<and> spend s1 = spend (pp_server p) \<and> csent (pp_client p) [] c1 \<and> (cready (pp_client p) \<longrightarrow> cready c1)
    \<and> (\<exists>xs. take (copied t) (cpend c) = take (copied (pp_up p)) (cpend c) @ xs \<and> ssent (pp_server p) xs s1)"
    using assms by (intro there.copy_step_progress [OF st]) (auto simp: run_inv_def on_way_def u)
  with st assms(1) show ?thesis
    using there.src.sent_trans [of c "take (copied (pp_down p)) (spend s)" "pp_client p" "[]" c1]
      there.dst.sent_trans [of s "take (copied (pp_up p)) (cpend c)" "pp_server p" _ s1]
    by (auto simp: run_inv_def on_way_def up_step_def u)
qed

lemma run_inv_down:
  assumes "run_inv c s p" "\<not> finished (pp_down p)"
  shows "run_inv c s (down_step srd cwr p)"
proof -
  obtain t s1 c1 where st: "copy_step srd cwr (pp_down p) (pp_server p) (pp_client p) = (t, s1, c1)"
    by (metis prod_cases3)
  have u: "again.unwritten t = (case t of Writing n xs \<Rightarrow> xs | _ \<Rightarrow> [])" for t
    by (cases t) simp_all
  have "copied t \<le> length (spend s) \<and> (\<not> finished t \<longrightarrow> again.unwritten t @ spend s1 = drop (copied t) (spend s))
    \<and> cready c1 \<and> cpend c1 = cpend (pp_client p) \<and> ssent (pp_server p) [] s1 \<and> (sready (pp_server p) \<longrightarrow> sready s1)
    \<and> (\<exists>xs. take (copied t) (spend s) = take (copied (pp_down p)) (spend s) @ xs \<and> csent (pp_client p) xs c1)"
    using assms by (intro again.copy_step_progress [OF st]) (auto simp: run_inv_def on_way_def u)
  with st assms(1) show ?thesis
    using there.dst.sent_trans [of s "take (copied (pp_up p)) (cpend c)" "pp_server p" "[]" s1]
      there.src.sent_trans [of c "take (copied (pp_down p)) (spend s)" "pp_client p" _ c1]
    by (auto simp: run_inv_def on_way_def down_step_def u)
qed

lemma run_inv_reachable:
  assumes "(pipe_step crd cwr srd swr)\<^sup>*\<^sup>* (pipe_start c s) p" "cready c" "sready s"
  shows "run_inv c s p"
  using assms(1)
proof (induction rule: rtranclp_induct)
  case base
  then show ?case
    using assms(2,3) by (simp add: run_inv_def on_way_def pipe_start_def there.src.sent_refl there.dst.sent_refl)
next
  case (step p q)
  then show ?case by (auto elim!: pipe_stepE intro: run_inv_up run_inv_down)
qed

lemma partial_delivery:
  assumes "(pipe_step crd cwr srd swr)\<^sup>*\<^sup>* (pipe_start c s) p" "cready c" "sready s"
  shows "copied (pp_up p) \<le> length (cpend c)" "copied (pp_down p) \<le> length (spend s)"
    "ssent s (take (copied (pp_up p)) (cpend c)) (pp_server p)" "csent c (take (copied (pp_down p)) (spend s)) (pp_client p)"
  using run_inv_reachable [OF assms] by (simp_all add: run_inv_def on_way_def)

end

section \<open>The connections that are piped\<close>

subsection \<open>TCP\<close>

definition tcp_read :: "(stream \<Rightarrow> nat) \<Rightarrow> (stream \<times> sink) reader" where
  "tcp_read sched n c = (case c of (s, k) \<Rightarrow> (case conn_read sched n s of (r, s') \<Rightarrow> (r, s', k)))"

definition tcp_write :: "(stream \<times> sink) writer" where
  "tcp_write b c = (case c of (s, k) \<Rightarrow>
     (case sink_write b k of (ok, k') \<Rightarrow>
        ((case sk_room k of None \<Rightarrow> length b | Some m \<Rightarrow> min m (length b), ok), s, k')))"

definition tcp_sent :: "stream \<times> sink \<Rightarrow> bytes \<Rightarrow> stream \<times> sink \<Rightarrow> bool" where
  "tcp_sent c b c' \<longleftrightarrow> sk_out (snd c') = sk_out (snd c) @ b"

definition tcp_ready :: "stream \<times> sink \<Rightarrow> bool" where
  "tcp_ready c \<longleftrightarrow> sk_room (snd c) = None"

lemmas tcp_defs = tcp_read_def tcp_write_def tcp_sent_def tcp_ready_def

interpretation tcp: full_duplex "tcp_read sched" "\<lambda>c. st_in (fst c)" "\<lambda>c. length (st_in (fst c))"
  tcp_write tcp_ready tcp_sent for sched
  by unfold_locales
    (auto simp: tcp_defs conn_read_def sink_write_def Let_def split: if_splits option.splits prod.splits)

subsection \<open>A recorded connection\<close>

text \<open>The client of a rejected handshake, read through its \<open>ReadRecorder\<close>.\<close>

definition rr_rd :: "(stream \<Rightarrow> nat) \<Rightarrow> (ReadRecorder \<times> sink) reader" where
  "rr_rd sched n c = (case c of (r, k) \<Rightarrow> (case rr_read sched n r of (x, r') \<Rightarrow> (x, r', k)))"

definition rr_wr :: "(ReadRecorder \<times> sink) writer" where
  "rr_wr b c = (case c of (r, k) \<Rightarrow>
     (case sink_write b k of (ok, k') \<Rightarrow>
        ((case sk_room k of None \<Rightarrow> length b | Some m \<Rightarrow> min m (length b), ok), r, k')))"

definition rr_pend :: "ReadRecorder \<times> sink \<Rightarrow> bytes" where
  "rr_pend c = rr_pending (fst c) @ st_in (rr_conn (fst c))"

definition rr_sent :: "ReadRecorder \<times> sink \<Rightarrow> bytes \<Rightarrow> ReadRecorder \<times> sink \<Rightarrow> bool" where
  "rr_sent c b c' \<longleftrightarrow> sk_out (snd c') = sk_out (snd c) @ b"

definition rr_ready :: "ReadRecorder \<times> sink \<Rightarrow> bool" where
  "rr_ready c \<longleftrightarrow> sk_room (snd c) = None"

lemmas rr_defs = rr_rd_def rr_wr_def rr_pend_def rr_sent_def rr_ready_def

interpretation recorded: full_duplex "rr_rd sched" rr_pend "\<lambda>c. length (rr_pend c)" rr_wr rr_ready rr_sent for sched
  by unfold_locales
    (auto simp: rr_defs rr_read_def conn_read_def sink_write_def Let_def split: if_splits option.splits prod.splits)

subsection \<open>TLS records\<close>

text \<open>The record connection with the random tape its writes draw from.\<close>

definition rec_rd :: "(RecordConn \<times> nat list) reader" where
  "rec_rd n ct = (case ct of (c, t) \<Rightarrow> (case rec_read n c of (r, c') \<Rightarrow> (r, c', t)))"

definition rec_wr :: "(RecordConn \<times> nat list) writer" where
  "rec_wr b ct = (case ct of (c, t) \<Rightarrow> (case rec_write b c t of (n, err, c', t') \<Rightarrow> ((n, err = None), c', t')))"

definition rec_pend :: "RecordConn \<times> nat list \<Rightarrow> bytes" where
  "rec_pend ct = readBuf (fst ct) @ payloads (st_in (rc_in (fst ct)))"

definition rec_sent :: "RecordConn \<times> nat list \<Rightarrow> bytes \<Rightarrow> RecordConn \<times> nat list \<Rightarrow> bool" where
  "rec_sent c b c' \<longleftrightarrow> (\<exists>ks. sk_out (rc_sink (fst c')) = sk_out (rc_sink (fst c)) @ concat (map app_record ks)
     \<and> concat ks = b \<and> (\<forall>k \<in> set ks. length k \<le> maxRecordPayload))"

definition rec_ready :: "RecordConn \<times> nat list \<Rightarrow> bool" where
  "rec_ready c \<longleftrightarrow> sk_room (rc_sink (fst c)) = None"

lemma rec_read_side:
  assumes "rec_read n c = (r, c')"
  shows "rc_sink c' = rc_sink c"
    "rc_in d = rc_in c \<Longrightarrow> readBuf d = readBuf c \<Longrightarrow> rec_read n d = (r, d\<lparr>rc_in := rc_in c', readBuf := readBuf c'\<rparr>)"
    "c' = c\<lparr>rc_in := rc_in c', readBuf := readBuf c'\<rparr>"
  using assms
  by (cases "next_record (rc_in c)"; cases "fst (next_record (rc_in c))"; force simp: rec_read_def split: if_splits)+

lemma writeRecordLocked_side:
  "writeRecordLocked chunk (c\<lparr>rc_in := s, readBuf := x\<rparr>) =
     (case writeRecordLocked chunk c of (r, c') \<Rightarrow> (r, c'\<lparr>rc_in := s, readBuf := x\<rparr>))"
  "writeRecordLocked chunk c = (r, c') \<Longrightarrow> rc_in c' = rc_in c \<and> readBuf c' = readBuf c"
  by (auto simp: writeRecordLocked_def split: prod.splits bool.splits if_splits)

lemma outboundChunkSize_side:
  "outboundChunkSize (c\<lparr>rc_in := s, readBuf := x\<rparr>) p n t = outboundChunkSize c p n t"
  by (simp add: outboundChunkSize_def)

lemma write_loop_side:
  "write_loop b m (c\<lparr>rc_in := s, readBuf := x\<rparr>) t =
     (case write_loop b m c t of (n, err, c', t') \<Rightarrow> (n, err, c'\<lparr>rc_in := s, readBuf := x\<rparr>, t'))
   \<and> (case write_loop b m c t of (n, err, c', t') \<Rightarrow> rc_in c' = rc_in c \<and> readBuf c' = readBuf c)"
proof (induction b m c t rule: write_loop.induct)
  case (1 b m c t)
  show ?case
  proof (cases "b = []")
    case True
    then show ?thesis by (simp add: write_loop.simps)
  next
    case False
    let ?p = "Normalize (Policy c)"
    obtain sz t1 where sz: "outboundChunkSize c ?p (int (length b)) (jitter_draw ?p t) = (sz, t1)" by force
    obtain r c1 where w: "writeRecordLocked (take (nat sz) b) c = (r, c1)" by force
    note side = writeRecordLocked_side(1) [where chunk = "take (nat sz) b" and c = c and s = s and x = x, unfolded w prod.case]
      writeRecordLocked_side(2) [OF w]
    show ?thesis
    proof (cases r)
      case (Ok k)
      have "write_loop b m c t = write_loop (drop (nat sz) b) (m + k) c1 t1"
        "write_loop b m (c\<lparr>rc_in := s, readBuf := x\<rparr>) t
          = write_loop (drop (nat sz) b) (m + k) (c1\<lparr>rc_in := s, readBuf := x\<rparr>) t1"
        using False sz w Ok side by (simp_all add: write_loop.simps [of b] outboundChunkSize_side)
      with 1 [OF False refl refl sz [symmetric] w [symmetric] Ok] side show ?thesis
        by (auto split: prod.splits)
    qed (use False sz w side in \<open>simp_all add: write_loop.simps [of b] outboundChunkSize_side\<close>)
  qed
qed

lemma rec_write_side:
  assumes "rec_write b c t = (n, err, c', t')"
  shows "rec_write b (c\<lparr>rc_in := s, readBuf := x\<rparr>) t = (n, err, c'\<lparr>rc_in := s, readBuf := x\<rparr>, t')"
    "rc_in c' = rc_in c" "readBuf c' = readBuf c"
proof -
  obtain r c1 where w: "writeRecordLocked (take 1 b) c = (r, c1)" by force
  note side = writeRecordLocked_side(1) [where chunk = "take 1 b" and c = c and s = s and x = x, unfolded w prod.case]
    writeRecordLocked_side(2) [OF w]
  have e: "c1\<lparr>rc_in := s, readBuf := x, splitDone := True\<rparr> = c1\<lparr>splitDone := True, rc_in := s, readBuf := x\<rparr>"
    by simp
  have "rec_write b (c\<lparr>rc_in := s, readBuf := x\<rparr>) t = (n, err, c'\<lparr>rc_in := s, readBuf := x\<rparr>, t')
      \<and> rc_in c' = rc_in c \<and> readBuf c' = readBuf c"
    using assms side w write_loop_side [where b = b and m = 0 and c = c and s = s and x = x and t = t]
      write_loop_side [where b = "drop 1 b" and m = "case r of Ok k \<Rightarrow> k" and c = "c1\<lparr>splitDone := True\<rparr>" and s = s and x = x and t = t]
    by (cases r) (auto simp: rec_write_def e split: if_splits prod.splits)
  then show "rec_write b (c\<lparr>rc_in := s, readBuf := x\<rparr>) t = (n, err, c'\<lparr>rc_in := s, readBuf := x\<rparr>, t')"
    "rc_in c' = rc_in c" "readBuf c' = readBuf c" by simp_all
qed

lemma rec_write_ready:
  assumes "sk_room (rc_sink c) = None"
  obtains ks c' t' where "rec_write b c t = (length b, None, c', t')" "sk_room (rc_sink c') = None"
    "sk_out (rc_sink c') = sk_out (rc_sink c) @ concat (map app_record ks)" "concat ks = b"
    "\<forall>k \<in> set ks. length k \<le> maxRecordPayload"
proof -
  obtain n err c' t' where w: "rec_write b c t = (n, err, c', t')" by (metis prod_cases4)
  with rec_write_spec [OF w] assms obtain wire where
    "sk_out (rc_sink c') = sk_out (rc_sink c) @ wire" "write_spec b n None wire" "err = None" "sk_room (rc_sink c') = None"
    by auto
  with w that show ?thesis
    by (auto simp: write_spec_def)
qed

interpretation records: full_duplex rec_rd rec_pend "\<lambda>ct. length (st_in (rc_in (fst ct)))" rec_wr rec_ready rec_sent
proof unfold_locales
  fix n xs and ct ct' :: "RecordConn \<times> nat list"
  assume r: "rec_rd n ct = (Inr xs, ct')"
  obtain c t where ct: "ct = (c, t)" by force
  obtain c' where c': "rec_read n c = (Inr xs, c')" "ct' = (c', t)"
    using r ct by (auto simp: rec_rd_def split: prod.splits)
  show "xs @ rec_pend ct' = rec_pend ct \<and> length xs \<le> n"
    using record_reader.rd_prefix [OF c'(1)] ct c' by (simp add: rec_pend_def)
  show "length (st_in (rc_in (fst ct'))) < length (st_in (rc_in (fst ct)))" if "rec_pend ct = []" "0 < n"
    using that c' ct next_record_payloads [of "rc_in c"]
    by (auto simp: rec_pend_def rec_read_def split: prod.splits sum.splits)
next
  fix n :: nat and ct :: "RecordConn \<times> nat list"
  assume "rec_pend ct \<noteq> []" "0 < n"
  then show "\<exists>xs ct'. rec_rd n ct = (Inr xs, ct')
      \<and> (xs \<noteq> [] \<or> length (st_in (rc_in (fst ct'))) < length (st_in (rc_in (fst ct))))"
    using record_reader.rd_progress [of "fst ct" n]
    by (auto simp: rec_rd_def rec_pend_def case_prod_beta)
next
  fix b w and ct ct' :: "RecordConn \<times> nat list"
  assume "rec_wr b ct = (w, ct')"
  then obtain n err where "rec_write b (fst ct) (snd ct) = (n, err, ct')"
    by (auto simp: rec_wr_def split: prod.splits)
  then have "rc_in (fst ct') = rc_in (fst ct)" "readBuf (fst ct') = readBuf (fst ct)"
    using rec_write_side [of b "fst ct" "snd ct" n err "fst ct'" "snd ct'"] by simp_all
  then show "rec_pend ct' = rec_pend ct \<and> length (st_in (rc_in (fst ct'))) = length (st_in (rc_in (fst ct)))"
    by (simp add: rec_pend_def)
next
  fix n b r w and ct ct1 ct2 :: "RecordConn \<times> nat list"
  assume r: "rec_rd n ct = (r, ct1)" and w: "rec_wr b ct = (w, ct2)"
  obtain c t where ct: "ct = (c, t)" by force
  obtain c1 where c1: "rec_read n c = (r, c1)" "ct1 = (c1, t)"
    using r ct by (auto simp: rec_rd_def split: prod.splits)
  obtain k err c2 t2 where c2: "rec_write b c t = (k, err, c2, t2)" "w = (k, err = None)" "ct2 = (c2, t2)"
    using w ct by (auto simp: rec_wr_def split: prod.splits)
  have "rec_write b c1 t = (k, err, c2\<lparr>rc_in := rc_in c1, readBuf := readBuf c1\<rparr>, t2)"
    using rec_write_side(1) [OF c2(1), where s = "rc_in c1" and x = "readBuf c1"] rec_read_side(3) [OF c1(1)] by simp
  moreover have "rec_read n c2 = (r, c2\<lparr>rc_in := rc_in c1, readBuf := readBuf c1\<rparr>)"
    using rec_read_side(2) [OF c1(1)] rec_write_side(2,3) [OF c2(1)] by blast
  ultimately show "\<exists>ct3. rec_wr b ct1 = (w, ct3) \<and> rec_rd n ct2 = (r, ct3)"
    using c1 c2 by (simp add: rec_rd_def rec_wr_def)
next
  fix b and ct :: "RecordConn \<times> nat list"
  assume "rec_ready ct"
  then have "sk_room (rc_sink (fst ct)) = None" by (simp add: rec_ready_def)
  then show "\<exists>ct'. rec_wr b ct = ((length b, True), ct') \<and> rec_ready ct' \<and> rec_sent ct b ct'"
    by (rule rec_write_ready [where b = b and t = "snd ct"])
      (auto simp: rec_wr_def rec_ready_def rec_sent_def case_prod_beta)
next
  fix a b and d d' d'' :: "RecordConn \<times> nat list"
  assume "rec_sent d a d'" "rec_sent d' b d''"
  then obtain ks ls where "sk_out (rc_sink (fst d'')) = sk_out (rc_sink (fst d)) @ concat (map app_record (ks @ ls))"
    "concat (ks @ ls) = a @ b" "\<forall>k \<in> set (ks @ ls). length k \<le> maxRecordPayload"
    unfolding rec_sent_def by (elim exE) auto
  then show "rec_sent d (a @ b) d''"
    unfolding rec_sent_def by blast
next
  fix n r and ct ct' :: "RecordConn \<times> nat list"
  assume "rec_rd n ct = (r, ct')"
  then have "rec_read n (fst ct) = (r, fst ct')"
    by (auto simp: rec_rd_def split: prod.splits)
  then have "rc_sink (fst ct') = rc_sink (fst ct)"
    by (rule rec_read_side(1))
  then show "rec_sent ct [] ct'" "rec_ready ct \<Longrightarrow> rec_ready ct'"
    by (auto simp: rec_sent_def rec_ready_def intro!: exI [of _ "[]"])
qed (auto simp: rec_sent_def intro!: exI [of _ "[]"])

subsection \<open>Obfuscated2\<close>

definition obf_pend :: "keystream \<Rightarrow> ('s \<Rightarrow> bytes) \<Rightarrow> obf_conn \<times> 's \<Rightarrow> bytes" where
  "obf_pend ks pend cs = fst (XORKeyStream ks (oc_dec (fst cs)) (pend (snd cs)))"

definition obf_sent ::
  "keystream \<Rightarrow> ('s \<Rightarrow> bytes \<Rightarrow> 's \<Rightarrow> bool) \<Rightarrow> obf_conn \<times> 's \<Rightarrow> bytes \<Rightarrow> obf_conn \<times> 's \<Rightarrow> bool" where
  "obf_sent ks sent cs b cs' \<longleftrightarrow> sent (snd cs) (fst (XORKeyStream ks (oc_enc (fst cs)) b)) (snd cs')
     \<and> oc_enc (fst cs') = snd (XORKeyStream ks (oc_enc (fst cs)) b)"

lemma XORKeyStream_Nil [simp]: "XORKeyStream ks st [] = ([], st)"
  by (simp add: XORKeyStream_def xor_bytes_def)

context full_duplex
begin

lemma ctr_full_duplex:
  "full_duplex (obf_read ks rd) (obf_pend ks pending) (\<lambda>cs. wait (snd cs)) (obf_write ks wr)
     (\<lambda>cs. ready (snd cs)) (obf_sent ks sent)"
proof -
  have br: "byte_reader (obf_read ks rd) (obf_pend ks pending) (\<lambda>cs. wait (snd cs))"
    using ctr_layer [of ks] by (simp add: obf_pend_def [abs_def] case_prod_beta')
  show ?thesis
  proof (intro full_duplex.intro duplex.intro ending_reader.intro br; unfold_locales)
    fix cs cs' :: "obf_conn \<times> 's" and n xs
    assume p: "obf_pend ks pending cs = []" "0 < n" and r: "obf_read ks rd n cs = (Inr xs, cs')"
    have "pending (snd cs) = []"
      using p XORKeyStream_length [of ks "oc_dec (fst cs)" "pending (snd cs)"] by (simp add: obf_pend_def)
    moreover obtain us where "rd n (snd cs) = (Inr us, snd cs')"
      using r by (auto simp: obf_read_def split: prod.splits sum.splits)
    ultimately show "wait (snd cs') < wait (snd cs)"
      using rd_ends p(2) by blast
  next
    fix b w and cs cs' :: "obf_conn \<times> 's"
    assume "obf_write ks wr b cs = (w, cs')"
    then have "wr (fst (XORKeyStream ks (oc_enc (fst cs)) b)) (snd cs) = (w, snd cs')" "oc_dec (fst cs') = oc_dec (fst cs)"
      by (auto simp: obf_write_def split: prod.splits)
    then show "obf_pend ks pending cs' = obf_pend ks pending cs \<and> wait (snd cs') = wait (snd cs)"
      using wr_keeps by (simp add: obf_pend_def)
  next
    fix n b r w and cs cs1 cs2 :: "obf_conn \<times> 's"
    assume r: "obf_read ks rd n cs = (r, cs1)" and w: "obf_write ks wr b cs = (w, cs2)"
    obtain c s where cs: "cs = (c, s)" by force
    obtain r0 s1 where r0: "rd n s = (r0, s1)" by force
    obtain buf enc where x: "XORKeyStream ks (oc_enc c) b = (buf, enc)" by force
    obtain s2 where w0: "wr buf s = (w, s2)" "cs2 = (c\<lparr>oc_enc := enc\<rparr>, s2)"
      using w cs x by (auto simp: obf_write_def split: prod.splits)
    obtain s3 where "wr buf s1 = (w, s3)" "rd n s2 = (r0, s3)"
      using rd_wr_commute [OF r0 w0(1)] by blast
    with r cs r0 x w0 show "\<exists>cs3. obf_write ks wr b cs1 = (w, cs3) \<and> obf_read ks rd n cs2 = (r, cs3)"
      by (cases r0) (auto simp: obf_write_def obf_read_def split: prod.splits)
  next
    fix b and cs :: "obf_conn \<times> 's"
    assume "ready (snd cs)"
    then obtain s' where "wr (fst (XORKeyStream ks (oc_enc (fst cs)) b)) (snd cs) = ((length b, True), s')" "ready s'"
      "sent (snd cs) (fst (XORKeyStream ks (oc_enc (fst cs)) b)) s'"
      using wr_ready [of "snd cs" "fst (XORKeyStream ks (oc_enc (fst cs)) b)"] by (auto simp: XORKeyStream_length)
    then show "\<exists>cs'. obf_write ks wr b cs = ((length b, True), cs') \<and> ready (snd cs') \<and> obf_sent ks sent cs b cs'"
      by (auto simp: obf_write_def obf_sent_def case_prod_beta)
  next
    fix d d' d'' :: "obf_conn \<times> 's" and a b
    assume "obf_sent ks sent d a d'" "obf_sent ks sent d' b d''"
    then show "obf_sent ks sent d (a @ b) d''"
      using sent_trans by (auto simp: obf_sent_def XORKeyStream_append case_prod_beta Let_def)
  next
    fix n r and d d' :: "obf_conn \<times> 's"
    assume "obf_read ks rd n d = (r, d')"
    then obtain r0 where "rd n (snd d) = (r0, snd d')" "oc_enc (fst d') = oc_enc (fst d)"
      by (auto simp: obf_read_def split: prod.splits sum.splits)
    then show "obf_sent ks sent d [] d'" "ready (snd d) \<Longrightarrow> ready (snd d')"
      using rd_sent rd_ready by (auto simp: obf_sent_def)
  qed (simp add: obf_sent_def sent_refl)
qed

end

interpretation obf_over_tls: full_duplex "obf_read ks rec_rd" "obf_pend ks rec_pend"
  "\<lambda>cs. length (st_in (rc_in (fst (snd cs))))" "obf_write ks rec_wr" "\<lambda>cs. rec_ready (snd cs)" "obf_sent ks rec_sent" for ks
  by (rule records.ctr_full_duplex)

interpretation obf_over_tcp: full_duplex "obf_read ks (tcp_read sched)" "obf_pend ks (\<lambda>c. st_in (fst c))"
  "\<lambda>cs. length (st_in (fst (snd cs)))" "obf_write ks tcp_write" "\<lambda>cs. tcp_ready (snd cs)" "obf_sent ks tcp_sent" for ks sched
  by (rule tcp.ctr_full_duplex)

subsection \<open>The relay tunnel\<close>

definition frame_wr :: "(bytes \<Rightarrow> bytes \<Rightarrow> bytes \<Rightarrow> bytes) \<Rightarrow> frameConn writer" where
  "frame_wr seal b c = (case frame_write seal b 0 c of (n, ok, c') \<Rightarrow> ((n, ok), c'))"

definition frame_pend :: "(bytes \<Rightarrow> bytes \<Rightarrow> bytes \<Rightarrow> bytes option) \<Rightarrow> frameConn \<Rightarrow> bytes" where
  "frame_pend unseal c = fc_rbuf c @ frames_plain unseal (fc_key c) (fc_in c)"

definition frame_sent :: "(bytes \<Rightarrow> bytes \<Rightarrow> bytes \<Rightarrow> bytes) \<Rightarrow> frameConn \<Rightarrow> bytes \<Rightarrow> frameConn \<Rightarrow> bool" where
  "frame_sent seal c b c' \<longleftrightarrow> fc_key c' = fc_key c \<and> (\<exists>ps. concat ps = b
     \<and> sk_out (fc_sink c') = sk_out (fc_sink c) @ frame_list seal (fc_key c) (fc_nonce c) ps
     \<and> fc_nonce c' = fc_nonce c + of_nat (length ps) \<and> (\<forall>p \<in> set ps. length p \<le> maxFrameLen - 32))"

definition frame_ready :: "frameConn \<Rightarrow> bool" where
  "frame_ready c \<longleftrightarrow> sk_room (fc_sink c) = None"

lemma frame_list_append:
  "frame_list seal key n (ps @ qs) = frame_list seal key n ps @ frame_list seal key (n + of_nat (length ps)) qs"
  by (induction ps arbitrary: n) (simp_all add: add.assoc)

lemma frame_read_side:
  assumes "frame_read unseal n c = (r, c')"
  shows "fc_sink c' = fc_sink c" "fc_key c' = fc_key c" "fc_nonce c' = fc_nonce c"
    "fc_in d = fc_in c \<Longrightarrow> fc_rbuf d = fc_rbuf c \<Longrightarrow> fc_key d = fc_key c \<Longrightarrow>
       frame_read unseal n d = (r, d\<lparr>fc_in := fc_in c', fc_rbuf := fc_rbuf c'\<rparr>)"
    "c' = c\<lparr>fc_in := fc_in c', fc_rbuf := fc_rbuf c'\<rparr>"
  using assms
  by (cases "next_frame unseal (fc_key c) (fc_in c)"; cases "fst (next_frame unseal (fc_key c) (fc_in c))";
      force simp: frame_read_def split: if_splits)+

lemma writeFrameLocked_side:
  "writeFrameLocked seal chunk (c\<lparr>fc_in := s, fc_rbuf := x\<rparr>) =
     (case writeFrameLocked seal chunk c of (ok, c') \<Rightarrow> (ok, c'\<lparr>fc_in := s, fc_rbuf := x\<rparr>))"
  "writeFrameLocked seal chunk c = (ok, c') \<Longrightarrow>
     fc_in c' = fc_in c \<and> fc_rbuf c' = fc_rbuf c \<and> fc_key c' = fc_key c"
  by (auto simp: writeFrameLocked_def Let_def split: prod.splits)

lemma frame_write_side:
  "frame_write seal b m (c\<lparr>fc_in := s, fc_rbuf := x\<rparr>) =
     (case frame_write seal b m c of (n, ok, c') \<Rightarrow> (n, ok, c'\<lparr>fc_in := s, fc_rbuf := x\<rparr>))
   \<and> (case frame_write seal b m c of (n, ok, c') \<Rightarrow> fc_in c' = fc_in c \<and> fc_rbuf c' = fc_rbuf c \<and> fc_key c' = fc_key c)"
proof (induction seal b m c rule: frame_write.induct)
  case (1 seal b m c)
  show ?case
  proof (cases "b = []")
    case True
    then show ?thesis by (simp add: frame_write.simps)
  next
    case False
    define chunk where "chunk = (if length b > maxFrameLen - 32 then take (maxFrameLen - 32) b else b)"
    obtain ok c1 where w: "writeFrameLocked seal chunk c = (ok, c1)" by force
    note side = writeFrameLocked_side(1) [where seal = seal and chunk = chunk and c = c and s = s and x = x, unfolded w prod.case]
      writeFrameLocked_side(2) [OF w]
    show ?thesis
    proof (cases ok)
      case True
      have "frame_write seal b m c = frame_write seal (drop (length chunk) b) (m + length chunk) c1"
        "frame_write seal b m (c\<lparr>fc_in := s, fc_rbuf := x\<rparr>)
          = frame_write seal (drop (length chunk) b) (m + length chunk) (c1\<lparr>fc_in := s, fc_rbuf := x\<rparr>)"
        using False w True side by (simp_all add: frame_write.simps [of seal b] chunk_def [symmetric] Let_def)
      with 1 [OF False chunk_def w [symmetric] eqTrueI [OF True]] side show ?thesis
        by (auto split: prod.splits)
    qed (use False w side in \<open>simp_all add: frame_write.simps [of seal b] chunk_def [symmetric] Let_def\<close>)
  qed
qed

lemma frame_write_open:
  "sk_room (fc_sink c) = None \<Longrightarrow> \<exists>c' ps. frame_write seal b m c = (m + length b, True, c') \<and> sk_room (fc_sink c') = None
     \<and> fc_key c' = fc_key c \<and> concat ps = b \<and> (\<forall>p \<in> set ps. length p \<le> maxFrameLen - 32)
     \<and> sk_out (fc_sink c') = sk_out (fc_sink c) @ frame_list seal (fc_key c) (fc_nonce c) ps
     \<and> fc_nonce c' = fc_nonce c + of_nat (length ps)"
proof (induction seal b m c rule: frame_write.induct)
  case (1 seal b m c)
  show ?case
  proof (cases "b = []")
    case True
    with 1(2) show ?thesis by (intro exI [of _ c] exI [of _ "[]"]) (simp add: frame_write.simps)
  next
    case False
    define chunk where "chunk = (if length b > maxFrameLen - 32 then take (maxFrameLen - 32) b else b)"
    have ck: "length chunk \<le> maxFrameLen - 32" "chunk @ drop (length chunk) b = b" "length chunk \<le> length b"
      by (auto simp: chunk_def min_def)
    define sk where "sk = (fc_sink c)\<lparr>sk_out := sk_out (fc_sink c) @ frame_of seal (fc_key c) (fc_nonce c + 1) chunk\<rparr>"
    define c1 where "c1 = c\<lparr>fc_nonce := fc_nonce c + 1, fc_sink := sk\<rparr>"
    have w: "writeFrameLocked seal chunk c = (True, c1)"
      using 1(2) by (simp add: writeFrameLocked_def sink_write_def sk_def c1_def Let_def)
    have step: "frame_write seal b m c = frame_write seal (drop (length chunk) b) (m + length chunk) c1"
      using False w by (simp add: frame_write.simps [of seal b] chunk_def [symmetric] Let_def)
    have "sk_room (fc_sink c1) = None" using 1(2) by (simp add: c1_def sk_def)
    from 1(1) [OF False chunk_def w [symmetric] refl this] obtain c' ps where
      c': "frame_write seal (drop (length chunk) b) (m + length chunk) c1 = (m + length b, True, c')" "sk_room (fc_sink c') = None"
      "fc_key c' = fc_key c1" "concat ps = drop (length chunk) b" "\<forall>p \<in> set ps. length p \<le> maxFrameLen - 32"
      "sk_out (fc_sink c') = sk_out (fc_sink c1) @ frame_list seal (fc_key c1) (fc_nonce c1) ps"
      "fc_nonce c' = fc_nonce c1 + of_nat (length ps)"
      using ck(3) by auto
    with ck show ?thesis
      unfolding step by (intro exI [of _ c'] exI [of _ "chunk # ps"]) (simp add: c1_def sk_def add.assoc)
  qed
qed

lemma frame_sent_trans:
  assumes "frame_sent seal d a d'" "frame_sent seal d' b d''"
  shows "frame_sent seal d (a @ b) d''"
proof -
  obtain ps where p: "fc_key d' = fc_key d" "concat ps = a" "fc_nonce d' = fc_nonce d + of_nat (length ps)"
    "sk_out (fc_sink d') = sk_out (fc_sink d) @ frame_list seal (fc_key d) (fc_nonce d) ps"
    "\<forall>p \<in> set ps. length p \<le> maxFrameLen - 32"
    using assms(1) unfolding frame_sent_def by blast
  obtain qs where q: "fc_key d'' = fc_key d'" "concat qs = b" "fc_nonce d'' = fc_nonce d' + of_nat (length qs)"
    "sk_out (fc_sink d'') = sk_out (fc_sink d') @ frame_list seal (fc_key d') (fc_nonce d') qs"
    "\<forall>p \<in> set qs. length p \<le> maxFrameLen - 32"
    using assms(2) unfolding frame_sent_def by blast
  have "fc_nonce d'' = fc_nonce d + of_nat (length (ps @ qs))"
    using p(3) q(3) by (simp add: add.assoc)
  moreover have "sk_out (fc_sink d'') = sk_out (fc_sink d) @ frame_list seal (fc_key d) (fc_nonce d) (ps @ qs)"
    using p q by (simp add: frame_list_append)
  ultimately show ?thesis
    using p q unfolding frame_sent_def by (intro conjI exI [of _ "ps @ qs"]) auto
qed

interpretation frames: full_duplex "frame_read unseal" "frame_pend unseal" "\<lambda>c. length (st_in (fc_in c))"
  "frame_wr seal" frame_ready "frame_sent seal" for unseal seal
proof -
  have br: "byte_reader (frame_read unseal) (frame_pend unseal) (\<lambda>c. length (st_in (fc_in c)))"
    using frame_reader.byte_reader_axioms [of unseal] by (simp add: frame_pend_def [abs_def])
  show "full_duplex (frame_read unseal) (frame_pend unseal) (\<lambda>c. length (st_in (fc_in c)))
    (frame_wr seal) frame_ready (frame_sent seal)"
  proof (intro full_duplex.intro duplex.intro ending_reader.intro br; unfold_locales)
    fix c c' :: frameConn and n xs
    assume "frame_pend unseal c = []" "0 < n" "frame_read unseal n c = (Inr xs, c')"
    then show "length (st_in (fc_in c')) < length (st_in (fc_in c))"
      using next_frame_plain [of unseal "fc_key c" "fc_in c"]
      by (auto simp: frame_pend_def frame_read_def split: prod.splits sum.splits)
  next
    fix b w and c c' :: frameConn
    assume "frame_wr seal b c = (w, c')"
    then show "frame_pend unseal c' = frame_pend unseal c \<and> length (st_in (fc_in c')) = length (st_in (fc_in c))"
      using frame_write_side [where seal = seal and b = b and m = 0 and c = c] by (auto simp: frame_wr_def frame_pend_def split: prod.splits)
  next
    fix n b r w and c c1 c2 :: frameConn
    assume r: "frame_read unseal n c = (r, c1)" and w: "frame_wr seal b c = (w, c2)"
    obtain k ok where k: "frame_write seal b 0 c = (k, ok, c2)" "w = (k, ok)"
      using w by (auto simp: frame_wr_def split: prod.splits)
    have "frame_write seal b 0 c1 = (k, ok, c2\<lparr>fc_in := fc_in c1, fc_rbuf := fc_rbuf c1\<rparr>)"
      using frame_write_side [where seal = seal and b = b and m = 0 and c = c and s = "fc_in c1" and x = "fc_rbuf c1"]
        frame_read_side(5) [OF r] k by simp
    moreover have "frame_read unseal n c2 = (r, c2\<lparr>fc_in := fc_in c1, fc_rbuf := fc_rbuf c1\<rparr>)"
      using frame_read_side(4) [OF r, of c2] frame_write_side [where seal = seal and b = b and m = 0 and c = c] k by auto
    ultimately show "\<exists>c3. frame_wr seal b c1 = (w, c3) \<and> frame_read unseal n c2 = (r, c3)"
      using k by (simp add: frame_wr_def)
  next
    fix b and c :: frameConn
    assume "frame_ready c"
    then show "\<exists>c'. frame_wr seal b c = ((length b, True), c') \<and> frame_ready c' \<and> frame_sent seal c b c'"
      using frame_write_open [of c seal b 0] by (auto simp: frame_wr_def frame_ready_def frame_sent_def)
  next
    fix d d' d'' :: frameConn and a b
    assume "frame_sent seal d a d'" "frame_sent seal d' b d''"
    then show "frame_sent seal d (a @ b) d''"
      by (rule frame_sent_trans)
  next
    fix n r and d d' :: frameConn
    assume r: "frame_read unseal n d = (r, d')"
    show "frame_sent seal d [] d'" "frame_ready d \<Longrightarrow> frame_ready d'"
      using frame_read_side(1-3) [OF r] by (auto simp: frame_sent_def frame_ready_def intro!: exI [of _ "[]"])
  qed (auto simp: frame_sent_def intro!: exI [of _ "[]"])
qed

section \<open>The pipes of the proxy\<close>

text \<open>Fake TLS or dd clients to a data centre, to a back proxy, and a back proxy's tunnel to a data centre.\<close>

interpretation tls_direct: full_pipe "obf_read ks rec_rd" "obf_pend ks rec_pend" "\<lambda>cs. length (st_in (rc_in (fst (snd cs))))"
  "obf_write ks rec_wr" "\<lambda>cs. rec_ready (snd cs)" "obf_sent ks rec_sent"
  "obf_read ks (tcp_read sched)" "obf_pend ks (\<lambda>c. st_in (fst c))" "\<lambda>cs. length (st_in (fst (snd cs)))"
  "obf_write ks tcp_write" "\<lambda>cs. tcp_ready (snd cs)" "obf_sent ks tcp_sent" for ks sched
  by unfold_locales

interpretation secure_direct: full_pipe "obf_read ks (tcp_read sched)" "obf_pend ks (\<lambda>c. st_in (fst c))" "\<lambda>cs. length (st_in (fst (snd cs)))"
  "obf_write ks tcp_write" "\<lambda>cs. tcp_ready (snd cs)" "obf_sent ks tcp_sent"
  "obf_read ks (tcp_read sched')" "obf_pend ks (\<lambda>c. st_in (fst c))" "\<lambda>cs. length (st_in (fst (snd cs)))"
  "obf_write ks tcp_write" "\<lambda>cs. tcp_ready (snd cs)" "obf_sent ks tcp_sent" for ks sched sched'
  by unfold_locales

interpretation tls_front: full_pipe "obf_read ks rec_rd" "obf_pend ks rec_pend" "\<lambda>cs. length (st_in (rc_in (fst (snd cs))))"
  "obf_write ks rec_wr" "\<lambda>cs. rec_ready (snd cs)" "obf_sent ks rec_sent"
  "frame_read unseal" "frame_pend unseal" "\<lambda>c. length (st_in (fc_in c))" "frame_wr seal" frame_ready "frame_sent seal"
  for ks unseal seal
  by unfold_locales

interpretation back_direct: full_pipe "frame_read unseal" "frame_pend unseal" "\<lambda>c. length (st_in (fc_in c))"
  "frame_wr seal" frame_ready "frame_sent seal"
  "obf_read ks (tcp_read sched)" "obf_pend ks (\<lambda>c. st_in (fst c))" "\<lambda>cs. length (st_in (fst (snd cs)))"
  "obf_write ks tcp_write" "\<lambda>cs. tcp_ready (snd cs)" "obf_sent ks tcp_sent" for ks sched unseal seal
  by unfold_locales

interpretation splice: full_pipe "rr_rd sched" rr_pend "\<lambda>c. length (rr_pend c)" rr_wr rr_ready rr_sent
  "tcp_read sched'" "\<lambda>c. st_in (fst c)" "\<lambda>c. length (st_in (fst c))" tcp_write tcp_ready tcp_sent for sched sched'
  by unfold_locales

text \<open>
  \<open>SpliceToHost\<close>: the bytes read so far are sent to the host, then both directions are copied until the
  first of the two threads ends. \<open>dial\<close> is the connection to the host, if it can be made; the relation
  gives every state the two threads can be in when the call returns.
\<close>

definition splice_port :: "int \<Rightarrow> int" where
  "splice_port port = (if port \<le> 0 then 443 else port)"

definition splice_target :: "string \<Rightarrow> int \<Rightarrow> string" where
  "splice_target host port = host @ '':'' @ dec_int (splice_port port)"

inductive SpliceToHost ::
  "(stream \<Rightarrow> nat) \<Rightarrow> (stream \<Rightarrow> nat) \<Rightarrow> (string \<Rightarrow> (stream \<times> sink) option) \<Rightarrow> ReadRecorder \<times> sink \<Rightarrow> bytes \<Rightarrow> string \<Rightarrow> int
     \<Rightarrow> (ReadRecorder \<times> sink, stream \<times> sink) pipe \<Rightarrow> bool"
  for sched sched' dial client prefix host port where
  spliced: "host \<noteq> [] \<Longrightarrow> dial (splice_target host port) = Some upstream \<Longrightarrow>
     tcp_write prefix upstream = ((n, True), upstream') \<Longrightarrow>
     (pipe_step (rr_rd sched) rr_wr (tcp_read sched') tcp_write)\<^sup>*\<^sup>* (pipe_start client upstream') q \<Longrightarrow>
     finished (pp_up q) \<or> finished (pp_down q) \<Longrightarrow>
     SpliceToHost sched sched' dial client prefix host port q"

section \<open>What a session delivers\<close>

text \<open>
  A session delivers everything in both directions. When the connections take what is written, a
  session between a Fake TLS client and a data centre moves exactly the bytes that the client's
  records carry, decrypted with its key stream and encrypted with the data centre's, and back the
  bytes of the data centre as TLS application records; the counts are the lengths of the two streams.
\<close>

lemma tls_session_delivers:
  assumes "rec_ready (snd client)" "tcp_ready (snd dc)"
  shows "\<exists>client' dc'. pipeTraffic (obf_read ks rec_rd) (obf_write ks rec_wr) (obf_read ks (tcp_read sched)) (obf_write ks tcp_write)
      client dc = Some (length (rec_pend (snd client)), length (st_in (fst (snd dc))), client', dc')
    \<and> sk_out (snd (snd dc')) = sk_out (snd (snd dc))
        @ fst (XORKeyStream ks (oc_enc (fst dc)) (fst (XORKeyStream ks (oc_dec (fst client)) (rec_pend (snd client)))))
    \<and> (\<exists>wire. sk_out (rc_sink (fst (snd client'))) = sk_out (rc_sink (fst (snd client))) @ wire
        \<and> payloads wire = fst (XORKeyStream ks (oc_enc (fst client)) (fst (XORKeyStream ks (oc_dec (fst dc)) (st_in (fst (snd dc)))))))"
proof -
  obtain client' dc' where p: "pipeTraffic (obf_read ks rec_rd) (obf_write ks rec_wr) (obf_read ks (tcp_read sched)) (obf_write ks tcp_write)
      client dc = Some (length (obf_pend ks rec_pend client), length (obf_pend ks (\<lambda>c. st_in (fst c)) dc), client', dc')"
    "obf_sent ks tcp_sent dc (obf_pend ks rec_pend client) dc'"
    "obf_sent ks rec_sent client (obf_pend ks (\<lambda>c. st_in (fst c)) dc) client'"
    using tls_direct.pipeTraffic_delivers [of client dc ks sched] assms by blast
  from p(3) obtain ls where l: "sk_out (rc_sink (fst (snd client'))) = sk_out (rc_sink (fst (snd client))) @ concat (map app_record ls)"
    "concat ls = fst (XORKeyStream ks (oc_enc (fst client)) (obf_pend ks (\<lambda>c. st_in (fst c)) dc))"
    "\<forall>k \<in> set ls. length k \<le> maxRecordPayload"
    by (auto simp: obf_sent_def rec_sent_def)
  then have "payloads (concat (map app_record ls)) = fst (XORKeyStream ks (oc_enc (fst client)) (obf_pend ks (\<lambda>c. st_in (fst c)) dc))"
    using payloads_app_records [of ls "[]"] by simp
  with p l(1) show ?thesis
    by (auto simp: obf_sent_def tcp_sent_def obf_pend_def XORKeyStream_length)
qed

text \<open>
  Splicing is transparent. When a rejected client is spliced to the mask host, whatever the schedule
  and whichever thread ends first, the host has received exactly the recorded prefix followed by a
  part of what the client sends next, in order and without a gap, and the client has received an
  initial part of what the host sent. So a prober sees the real host.
\<close>

lemma splice_delivers:
  assumes "SpliceToHost sched sched' dial client prefix host port q" "rr_ready client"
    and "\<And>u. dial (splice_target host port) = Some u \<Longrightarrow> tcp_ready u"
  shows "\<exists>u n m. dial (splice_target host port) = Some u \<and> n \<le> length (rr_pend client) \<and> m \<le> length (st_in (fst u))
    \<and> sk_out (snd (pp_server q)) = sk_out (snd u) @ prefix @ take n (rr_pend client)
    \<and> sk_out (snd (pp_client q)) = sk_out (snd client) @ take m (st_in (fst u))"
  using assms(1)
proof (cases rule: SpliceToHost.cases)
  case (spliced u n u')
  have u: "tcp_ready u" using assms(3) spliced by blast
  have u': "sk_out (snd u') = sk_out (snd u) @ prefix" "st_in (fst u') = st_in (fst u)" "tcp_ready u'"
    using spliced(3) u by (auto simp: tcp_defs sink_write_def split: prod.splits)
  show ?thesis
    using splice.partial_delivery [OF spliced(4) assms(2) u'(3)] spliced(2) u'
    by (intro exI [of _ u] exI [of _ "copied (pp_up q)"] exI [of _ "copied (pp_down q)"])
      (simp add: tcp_sent_def rr_sent_def)
qed

section \<open>Properties\<close>


text \<open>
  C13. A piped session does not depend on the schedule: every run in which both threads end leaves the
  two connections, and the counts of bytes moved up and down, as \<open>pipeTraffic\<close> gives them for the
  schedule that runs the upload first. Reading and writing a connection at the same time loses nothing.
\<close>

theorem pipe_schedules_agree_tls:
  assumes "(pipe_step (obf_read ks rec_rd) (obf_write ks rec_wr) (obf_read ks (tcp_read sched)) (obf_write ks tcp_write))\<^sup>*\<^sup>*
      (pipe_start client dc) q"
    and "finished (pp_up q)" "finished (pp_down q)"
  shows "pipeTraffic (obf_read ks rec_rd) (obf_write ks rec_wr) (obf_read ks (tcp_read sched)) (obf_write ks tcp_write) client dc
    = Some (copied (pp_up q), copied (pp_down q), pp_client q, pp_server q)"
  using tls_direct.pipe_schedules_agree [OF assms] .

text \<open>A client and a data centre for the witnesses: a recorded payload, an answer, both with open sinks.\<close>

definition client_example :: "obf_conn \<times> RecordConn \<times> nat list" where
  "client_example = (\<lparr>oc_enc = newCTR [1] [2], oc_dec = newCTR [3] [4]\<rparr>,
     \<lparr>rc_in = \<lparr>st_in = app_record [10, 11, 12], st_end = EOF\<rparr>, rc_sink = \<lparr>sk_out = [], sk_room = None\<rparr>, readBuf = [9],
      Policy = DefaultRecordPolicy, recordsWritten = 0, bytesWritten = 0, splitDone = False\<rparr>, [])"

definition dc_example :: "obf_conn \<times> stream \<times> sink" where
  "dc_example = (\<lparr>oc_enc = newCTR [5] [6], oc_dec = newCTR [7] [8]\<rparr>, \<lparr>st_in = [20, 21], st_end = EOF\<rparr>,
     \<lparr>sk_out = [0], sk_room = None\<rparr>)"

theorem pipe_schedules_agree_tls_witness:
  "\<exists>q. (pipe_step (obf_read (\<lambda>k v i. 1) rec_rd) (obf_write (\<lambda>k v i. 1) rec_wr) (obf_read (\<lambda>k v i. 1) (tcp_read (\<lambda>_. 0)))
        (obf_write (\<lambda>k v i. 1) tcp_write))\<^sup>*\<^sup>* (pipe_start client_example dc_example) q
     \<and> pipeTraffic (obf_read (\<lambda>k v i. 1) rec_rd) (obf_write (\<lambda>k v i. 1) rec_wr) (obf_read (\<lambda>k v i. 1) (tcp_read (\<lambda>_. 0)))
        (obf_write (\<lambda>k v i. 1) tcp_write) client_example dc_example
        = Some (copied (pp_up q), copied (pp_down q), pp_client q, pp_server q)"
proof -
  let ?R = "pipe_step (obf_read (\<lambda>k v i. 1) rec_rd) (obf_write (\<lambda>k v i. 1) rec_wr) (obf_read (\<lambda>k v i. 1) (tcp_read (\<lambda>_. 0)))
        (obf_write (\<lambda>k v i. 1) tcp_write)"
  obtain q where q: "?R\<^sup>*\<^sup>* (pipe_start client_example dc_example) q" "\<nexists>q'. ?R q q'"
    using tls_direct.every_run_stops [of "\<lambda>k v i. 1" "\<lambda>_. 0" "pipe_start client_example dc_example"] by blast
  then have f: "finished (pp_up q)" "finished (pp_down q)"
    using tls_direct.pipe_stuck_iff by blast+
  show ?thesis
    using q(1) pipe_schedules_agree_tls [OF q(1) f] by blast
qed

end
