(* ===== verification/ProxyNet.thy ===== *)
theory ProxyNet
  imports Config Limiter
begin

text \<open>
  Addresses and listening: \<open>internal/proxy\<close> (\<open>netutil.go\<close>, \<open>listen.go\<close>, \<open>proxyproto.go\<close>, the address helpers of
  \<open>server.go\<close>), \<open>internal/telegram/dc.go\<close> and \<open>internal/upstream/dial.go\<close>. Strings are byte strings, as in
  Go; \<open>net.SplitHostPort\<close> is in \<open>Limiter\<close>. What the operating system does (\<open>net.Listen\<close>, dialling) is an
  argument.
\<close>

section \<open>Addresses\<close>

definition JoinHostPort :: "string \<Rightarrow> string \<Rightarrow> string" where
  "JoinHostPort host port =
     (if CHR '':'' \<in> set host then ''['' @ host @ '']:'' @ port else host @ '':'' @ port)"

definition stripBrackets :: "string \<Rightarrow> string" where
  "stripBrackets host =
     (if length host \<ge> 2 \<and> hd host = CHR ''['' \<and> last host = CHR '']'' then butlast (tl host) else host)"

text \<open>The digits of a port, in Go's 64-bit \<open>int\<close>.\<close>

fun port_digits :: "string \<Rightarrow> int \<Rightarrow> int" where
  "port_digits [] p = p"
| "port_digits (c # cs) p =
     (let n = (of_char c :: int) in
      if n < 48 \<or> n > 57 then p else port_digits cs (int64_of (p * 10 + (n - 48))))"

definition splitHostPort :: "string \<Rightarrow> string \<times> int" where
  "splitHostPort remote =
     (if remote = [] then (''127.0.0.1'', 0)
      else case SplitHostPort remote of
             None \<Rightarrow> (remote, 0)
           | Some (host, portStr) \<Rightarrow> (stripBrackets host, port_digits portStr 0))"

definition formatClientRemote :: "string \<Rightarrow> int \<Rightarrow> string" where
  "formatClientRemote ip port =
     (if ip = [] \<or> ip = ''0.0.0.0'' then []
      else if port \<le> 0 then ip else JoinHostPort ip (dec_int port))"

text \<open>\<open>remoteAddr\<close>: \<open>None\<close> for a connection without an address.\<close>

definition remoteAddr :: "string option \<Rightarrow> string" where
  "remoteAddr conn = (case conn of None \<Rightarrow> [] | Some a \<Rightarrow> a)"

section \<open>The listening address\<close>

definition trim_prefix1 :: "char \<Rightarrow> string \<Rightarrow> string" where
  "trim_prefix1 c s = (if s \<noteq> [] \<and> hd s = c then tl s else s)"

definition trim_suffix1 :: "char \<Rightarrow> string \<Rightarrow> string" where
  "trim_suffix1 c s = (if s \<noteq> [] \<and> last s = c then butlast s else s)"

definition normalizeListenAddr :: "string \<Rightarrow> string" where
  "normalizeListenAddr addr =
     (case SplitHostPort addr of
        None \<Rightarrow> addr
      | Some (host, port) \<Rightarrow>
          let host = trim_suffix1 (CHR '']'') (trim_prefix1 (CHR ''['') host);
              host = (if host \<in> {[], ''0.0.0.0'', ''::'', ''::0''} then ''*'' else host)
          in JoinHostPort host port)"

definition listenAddrsEqual :: "string \<Rightarrow> string \<Rightarrow> bool" where
  "listenAddrsEqual a b \<longleftrightarrow> normalizeListenAddr a = normalizeListenAddr b"

text \<open>
  \<open>RebindListenIfNeeded\<close>: \<open>ln\<close> is the address of the current listener, if any; \<open>listen\<close> gives the address of a
  new listener. The result is whether it was rebound, and the listener afterwards; \<open>Err\<close> carries the
  wanted address.
\<close>

definition RebindListenIfNeeded ::
  "(string \<Rightarrow> string option) \<Rightarrow> Config \<Rightarrow> string option \<Rightarrow> (string, bool) res \<times> string option" where
  "RebindListenIfNeeded listen cfg ln =
     (let want = cfg_Addr cfg in
      if (case ln of Some cur \<Rightarrow> listenAddrsEqual cur want | None \<Rightarrow> False) then (Ok False, ln)
      else case listen want of
             None \<Rightarrow> (Err want, ln)
           | Some new \<Rightarrow> (Ok True, Some new))"

section \<open>PROXY protocol\<close>

text \<open>\<open>strings.Split(s, " ")\<close>.\<close>

fun split_on :: "char \<Rightarrow> string \<Rightarrow> string list" where
  "split_on c [] = [[]]"
| "split_on c (x # xs) =
     (if x = c then [] # split_on c xs
      else case split_on c xs of y # ys \<Rightarrow> (x # y) # ys | [] \<Rightarrow> [[x]])"

text \<open>
  A connection as the handlers see it: what can be read from it, and its remote address. A connection
  that is read through a \<open>bufio.Reader\<close> delivers the buffered bytes and then the rest, so it is again
  such a connection.
\<close>

record net_conn =
  nc_in :: stream
  nc_remote :: "string option"

datatype proxy_proto_error = PeekFailed io_error | LineFailed io_error | BadProxyLine

text \<open>
  \<open>acceptWithProxyProtocol\<close>. \<open>Peek(6)\<close> fails when fewer bytes arrive; when the stream ends there, the plain
  connection is returned and what was peeked is gone. A connection whose address is asked for has one.
\<close>

definition acceptWithProxyProtocol ::
  "bool \<Rightarrow> net_conn \<Rightarrow> (proxy_proto_error, net_conn) res" where
  "acceptWithProxyProtocol enabled conn =
     (if \<not> enabled then Ok conn
      else let s = nc_in conn in
        if length (st_in s) < 6
        then (if st_end s = EOF then Ok (conn\<lparr>nc_in := s\<lparr>st_in := []\<rparr>\<rparr>) else Err (PeekFailed (st_end s)))
        else if take 6 (st_in s) \<noteq> bytes_of_string ''PROXY '' then Ok conn
        else let line = takeWhile (\<lambda>b. b \<noteq> 10) (st_in s) in
          if length line = length (st_in s) then Err (LineFailed (st_end s))
          else let parts = split_on (CHR '' '') (trim_space (string_of_bytes line @ [char_of (10 :: nat)])) in
            if length parts < 6 then Err BadProxyLine
            else Ok \<lparr>nc_in = s\<lparr>st_in := drop (Suc (length line)) (st_in s)\<rparr>,
                     nc_remote = (if parts ! 1 = ''TCP4'' \<or> parts ! 1 = ''TCP6''
                                  then Some (JoinHostPort (parts ! 2) (parts ! 4)) else nc_remote conn)\<rparr>)"

text \<open>
  What the accept loop does with a connection when the PROXY protocol is on: on an error the returned
  connection is nil, and closing it panics.
\<close>

definition accept_conn :: "Config \<Rightarrow> net_conn \<Rightarrow> (proxy_proto_error, net_conn) res" where
  "accept_conn cfg conn =
     (if lis_ProxyProtocol (cfg_Listen cfg)
      then (case acceptWithProxyProtocol True conn of Ok c \<Rightarrow> Ok c | Err _ \<Rightarrow> Panic | Panic \<Rightarrow> Panic)
      else Ok conn)"

section \<open>Data centres and dialling\<close>

definition dcAddresses :: "int \<Rightarrow> string list option" where
  "dcAddresses = map_of
    [(1, [''149.154.175.50:443'', ''149.154.175.53:443'']),
     (2, [''149.154.167.51:443'', ''95.161.76.100:443'']),
     (3, [''149.154.175.100:443'']),
     (4, [''149.154.167.91:443'']),
     (5, [''149.154.171.5:443'', ''91.108.56.100:443'']),
     (- 1, [''149.154.175.52:443'']),
     (- 2, [''149.154.167.151:443'', ''149.154.167.222:443'', ''149.154.167.223:443'']),
     (- 3, [''149.154.175.102:443'']),
     (- 4, [''149.154.164.250:443'', ''149.154.166.120:443'', ''149.154.167.118:443'']),
     (- 5, [''91.108.56.102:443'', ''91.108.56.128:443'', ''91.108.56.151:443''])]"

datatype resolve_error = UnknownDC int

definition ResolveAddr :: "int \<Rightarrow> string \<Rightarrow> (resolve_error, string) res" where
  "ResolveAddr dcID backend =
     (if backend \<noteq> [] then Ok backend
      else let i = (if dcID = 0 then 2 else dcID) in
        case dcAddresses i of
          Some (a # _) \<Rightarrow> Ok a
        | _ \<Rightarrow> Err (UnknownDC dcID))"

definition resolveNetwork :: "string \<Rightarrow> string \<Rightarrow> string" where
  "resolveNetwork network prefer =
     (let prefer = to_lower (trim_space prefer) in
      if prefer \<in> {''only-ipv4'', ''ipv4''} then (if network = ''tcp'' then ''tcp4'' else network)
      else if prefer \<in> {''only-ipv6'', ''ipv6''} then (if network = ''tcp'' then ''tcp6'' else network)
      else network)"

record Dialer =
  dl_SOCKS5 :: string
  dl_PreferIP :: string
  dl_Timeout :: int

text \<open>
  What dialling does: \<open>dw_socks\<close> makes a dialler for a SOCKS5 server, or fails with a message;
  \<open>dw_dial\<close> dials through it (\<open>None\<close> is the direct dialler with its timeout) for a network and an address.
\<close>

record 'c dial_world =
  dw_socks :: "string \<Rightarrow> string option"
  dw_dial :: "string option \<Rightarrow> int \<Rightarrow> string \<Rightarrow> string \<Rightarrow> string + 'c"

definition DialContext :: "'c dial_world \<Rightarrow> Dialer option \<Rightarrow> string \<Rightarrow> string \<Rightarrow> string + 'c" where
  "DialContext w d network addr =
     (let d = (case d of None \<Rightarrow> \<lparr>dl_SOCKS5 = [], dl_PreferIP = [], dl_Timeout = 0\<rparr> | Some d \<Rightarrow> d);
          timeout = (if dl_Timeout d \<le> 0 then 10000000000 else dl_Timeout d);
          network = resolveNetwork network (dl_PreferIP d)
      in if dl_SOCKS5 d \<noteq> [] then
           (case dw_socks w (dl_SOCKS5 d) of
              Some msg \<Rightarrow> Inl (''SOCKS5 '' @ dl_SOCKS5 d @ '': '' @ msg)
            | None \<Rightarrow> dw_dial w (Some (dl_SOCKS5 d)) timeout network addr)
         else dw_dial w None timeout network addr)"

section \<open>Facts\<close>

lemma of_char_dec_digit: "n < 10 \<Longrightarrow> (of_char (dec_digit n) :: int) = 48 + int n"
proof -
  assume "n < 10"
  then have "(of_char (dec_digit n) :: nat) = 48 + n" by (simp add: dec_digit_def)
  then show ?thesis by (metis of_nat_add of_nat_numeral of_nat_of_char)
qed

lemma dec_nat_digits: "c \<in> set (dec_nat n) \<Longrightarrow> \<exists>d < 10. c = dec_digit d"
proof (induction n rule: dec_nat.induct)
  case (1 n)
  then show ?case
    using mod_less_divisor [of 10 n] by (cases "n < 10") (auto simp: dec_nat.simps [of n] simp del: mod_less_divisor)
qed

lemma port_digits_dec_nat:
  "n < 9223372036854775808 \<Longrightarrow> port_digits (dec_nat n @ cs) 0 = port_digits cs (int n)"
proof (induction n arbitrary: cs rule: dec_nat.induct)
  case (1 n)
  show ?case
  proof (cases "n < 10")
    case True
    then show ?thesis
      by (simp add: dec_nat.simps [of n] of_char_dec_digit Let_def)
  next
    case False
    have "int (n div 10) * 10 + int (n mod 10) = int n"
      by (metis div_mult_mod_eq of_nat_add of_nat_mult of_nat_numeral)
    moreover have "port_digits (dec_nat n @ cs) 0 = port_digits (dec_digit (n mod 10) # cs) (int (n div 10))"
      using 1(1) [OF False, of "dec_digit (n mod 10) # cs"] 1(2) False by (simp add: dec_nat.simps [of n])
    moreover have "n mod 10 < 10" "\<not> 9 < n mod 10" using mod_less_divisor [of 10 n] by linarith+
    ultimately show ?thesis
      using 1(2) by (simp add: of_char_dec_digit Let_def)
  qed
qed

lemma dec_digit_plain: "d < 10 \<Longrightarrow> dec_digit d \<notin> {CHR '':'', CHR ''['', CHR '']''}"
proof -
  assume "d < 10"
  then have "(of_char (dec_digit d) :: int) < 58" by (simp add: of_char_dec_digit)
  moreover have "(of_char (CHR '':'') :: int) = 58" "(of_char (CHR ''['') :: int) = 91" "(of_char (CHR '']'') :: int) = 93"
    by simp_all
  ultimately show ?thesis by auto
qed

lemma dec_nat_plain: "c \<in> {CHR '':'', CHR ''['', CHR '']''} \<Longrightarrow> c \<notin> set (dec_nat n)"
proof
  assume c: "c \<in> {CHR '':'', CHR ''['', CHR '']''}" "c \<in> set (dec_nat n)"
  then obtain d where "d < 10" "c = dec_digit d" using dec_nat_digits by blast
  with c(1) dec_digit_plain [of d] show False by simp
qed

lemma last_colon_append: "CHR '':'' \<notin> set ys \<Longrightarrow> last_colon (xs @ CHR '':'' # ys) = Some (length xs)"
proof -
  assume y: "CHR '':'' \<notin> set ys"
  then have "takeWhile (\<lambda>c. c \<noteq> CHR '':'') (rev ys @ CHR '':'' # rev xs) = rev ys"
    by (subst takeWhile_append2) auto
  then show ?thesis by (simp add: last_colon_def)
qed

text \<open>\<open>SplitHostPort\<close> undoes \<open>JoinHostPort\<close>.\<close>

lemma SplitHostPort_Join:
  assumes "CHR ''['' \<notin> set host" "CHR '']'' \<notin> set host"
    and "CHR '':'' \<notin> set port" "CHR ''['' \<notin> set port" "CHR '']'' \<notin> set port"
  shows "SplitHostPort (JoinHostPort host port) = Some (host, port)"
proof (cases "CHR '':'' \<in> set host")
  case False
  have "last_colon (host @ CHR '':'' # port) = Some (length host)"
    by (rule last_colon_append [OF assms(3)])
  moreover have "take 1 (host @ CHR '':'' # port) \<noteq> ''[''"
    using assms(1) by (cases host) auto
  ultimately show ?thesis
    using False assms by (simp add: SplitHostPort_def JoinHostPort_def)
next
  case True
  let ?hp = "CHR ''['' # host @ CHR '']'' # CHR '':'' # port"
  have c: "last_colon ?hp = Some (length host + 2)"
    using last_colon_append [OF assms(3), of "CHR ''['' # host @ [CHR '']'']"] by simp
  have e: "takeWhile (\<lambda>c. c \<noteq> CHR '']'') (host @ CHR '']'' # CHR '':'' # port) = host"
    using assms(2) by (subst takeWhile_append2) auto
  show ?thesis
    using True assms c by (simp add: SplitHostPort_def JoinHostPort_def e)
qed

lemma acceptWithProxyProtocol_no_panic: "acceptWithProxyProtocol enabled conn \<noteq> Panic"
  unfolding acceptWithProxyProtocol_def Let_def by (auto split: if_split)

lemma acceptWithProxyProtocol_Err:
  "(\<exists>e. acceptWithProxyProtocol True conn = Err e) \<longleftrightarrow>
     length (st_in (nc_in conn)) < 6 \<and> st_end (nc_in conn) \<noteq> EOF
     \<or> \<not> length (st_in (nc_in conn)) < 6 \<and> take 6 (st_in (nc_in conn)) = bytes_of_string ''PROXY ''
       \<and> (length (takeWhile (\<lambda>b. b \<noteq> 10) (st_in (nc_in conn))) = length (st_in (nc_in conn))
         \<or> length (split_on (CHR '' '') (trim_space (string_of_bytes (takeWhile (\<lambda>b. b \<noteq> 10) (st_in (nc_in conn)))
              @ [char_of (10 :: nat)]))) < 6)"
proof -
  define P where "P = bytes_of_string ''PROXY ''"
  define L where "L = takeWhile (\<lambda>b. b \<noteq> 10) (st_in (nc_in conn))"
  define ps where "ps = split_on (CHR '' '') (trim_space (string_of_bytes L @ [char_of (10 :: nat)]))"
  show ?thesis
    unfolding acceptWithProxyProtocol_def Let_def P_def [symmetric] L_def [symmetric] ps_def [symmetric] by auto
qed

section \<open>Properties\<close>

text \<open>
  The client's address survives the relay: an address that the back proxy formats for the middle
  proxy is taken apart into the same host and port, for IPv4 and IPv6 addresses and every port;
  without a port it stands for port 0.
\<close>

theorem client_remote_roundtrip:
  assumes "ip \<noteq> []" "ip \<noteq> ''0.0.0.0''" "CHR ''['' \<notin> set ip" "CHR '']'' \<notin> set ip" "0 < port" "port < 2 ^ 63"
  shows "splitHostPort (formatClientRemote ip port) = (ip, port)"
proof -
  have p: "dec_int port = dec_nat (nat port)" using assms(5) by (simp add: dec_int_def)
  have "SplitHostPort (JoinHostPort ip (dec_nat (nat port))) = Some (ip, dec_nat (nat port))"
    using assms(3,4) by (intro SplitHostPort_Join) (simp_all add: dec_nat_plain)
  moreover have "JoinHostPort ip (dec_nat (nat port)) \<noteq> []"
    by (simp add: JoinHostPort_def)
  moreover have "stripBrackets ip = ip"
    using assms(1,3) by (cases ip) (auto simp: stripBrackets_def)
  moreover have "port_digits (dec_nat (nat port)) 0 = port"
    using port_digits_dec_nat [of "nat port" "[]"] assms(5,6) by simp
  ultimately show ?thesis
    using assms(1,2,5) by (simp add: splitHostPort_def formatClientRemote_def p)
qed

theorem client_remote_roundtrip_witness:
  "splitHostPort (formatClientRemote ''2001:db8::1'' 443) = (''2001:db8::1'', 443)"
  by (rule client_remote_roundtrip) simp_all

text \<open>
  C38. The accept loop dies on a bad PROXY header. With the PROXY protocol on, a connection that is reset
  before six bytes arrive, or whose first line starts with \<open>PROXY \<close> but is cut off or has fewer than six
  fields, makes the loop close a nil connection, which panics; nothing else does. No secret is needed.
\<close>

theorem accept_panics_iff:
  assumes "lis_ProxyProtocol (cfg_Listen cfg)"
  shows "accept_conn cfg conn = Panic \<longleftrightarrow>
    length (st_in (nc_in conn)) < 6 \<and> st_end (nc_in conn) \<noteq> EOF
    \<or> (\<exists>rest. st_in (nc_in conn) = bytes_of_string ''PROXY '' @ rest \<and>
         (10 \<notin> set rest \<or> length (split_on (CHR '' '') (trim_space (string_of_bytes
             (takeWhile (\<lambda>b. b \<noteq> 10) (st_in (nc_in conn))) @ [char_of (10 :: nat)]))) < 6))"
proof -
  define bs where "bs = st_in (nc_in conn)"
  define P where "P = bytes_of_string ''PROXY ''"
  define L where "L = takeWhile (\<lambda>b. b \<noteq> 10) bs"
  define few where "few \<longleftrightarrow> length (split_on (CHR '' '') (trim_space (string_of_bytes L @ [char_of (10 :: nat)]))) < 6"
  have P: "length P = 6" "10 \<notin> set P" by (simp_all add: P_def bytes_of_string_def)
  have nl: "length L = length bs \<longleftrightarrow> 10 \<notin> set bs"
  proof
    assume "length L = length bs"
    moreover have "L @ dropWhile (\<lambda>b. b \<noteq> 10) bs = bs" by (simp add: L_def)
    ultimately have "L = bs" by (metis append_eq_conv_conj take_all order_refl)
    then show "10 \<notin> set bs" unfolding L_def by (metis (mono_tags) set_takeWhileD)
  next
    assume "10 \<notin> set bs"
    then have "takeWhile (\<lambda>b. b \<noteq> 10) bs = bs" by (intro takeWhile_eq_all_conv [THEN iffD2]) auto
    then show "length L = length bs" unfolding L_def by (rule arg_cong)
  qed
  have pre: "(\<not> length bs < 6 \<and> take 6 bs = P \<and> (length L = length bs \<or> few)) \<longleftrightarrow> (\<exists>rest. bs = P @ rest \<and> (10 \<notin> set rest \<or> few))"
  proof
    assume a: "\<not> length bs < 6 \<and> take 6 bs = P \<and> (length L = length bs \<or> few)"
    then have "bs = P @ drop 6 bs" by (metis append_take_drop_id)
    moreover have "10 \<notin> set (drop 6 bs) \<or> few" using a nl by (auto dest: in_set_dropD)
    ultimately show "\<exists>rest. bs = P @ rest \<and> (10 \<notin> set rest \<or> few)" by blast
  next
    assume "\<exists>rest. bs = P @ rest \<and> (10 \<notin> set rest \<or> few)"
    then obtain rest where "bs = P @ rest" "10 \<notin> set rest \<or> few" by blast
    with P nl show "\<not> length bs < 6 \<and> take 6 bs = P \<and> (length L = length bs \<or> few)" by auto
  qed
  have "accept_conn cfg conn = Panic \<longleftrightarrow> (\<exists>e. acceptWithProxyProtocol True conn = Err e)"
    using assms acceptWithProxyProtocol_no_panic [of True conn]
    by (cases "acceptWithProxyProtocol True conn") (simp_all add: accept_conn_def)
  then show ?thesis
    unfolding acceptWithProxyProtocol_Err bs_def [symmetric] P_def [symmetric] L_def [symmetric] few_def [symmetric] pre .
qed

text \<open>The header \<open>PROXY UNKNOWN\<close>, which the protocol allows, has two fields.\<close>

theorem accept_panics_iff_witness:
  "accept_conn ((sample_config [])\<lparr>cfg_Listen := \<lparr>lis_Host = [], lis_Port = 443, lis_ProxyProtocol = True\<rparr>\<rparr>)
     \<lparr>nc_in = \<lparr>st_in = bytes_of_string ''PROXY '' @ bytes_of_string ''UNKNOWN'' @ [13, 10], st_end = EOF\<rparr>, nc_remote = Some ''1.2.3.4:5''\<rparr> = Panic"
proof -
  let ?cfg = "(sample_config [])\<lparr>cfg_Listen := \<lparr>lis_Host = [], lis_Port = 443, lis_ProxyProtocol = True\<rparr>\<rparr>"
  let ?bs = "bytes_of_string ''PROXY '' @ bytes_of_string ''UNKNOWN'' @ [13, 10]"
  let ?conn = "\<lparr>nc_in = \<lparr>st_in = ?bs, st_end = EOF\<rparr>, nc_remote = Some ''1.2.3.4:5''\<rparr>"
  have "split_on (CHR '' '') (trim_space (string_of_bytes (takeWhile (\<lambda>b. b \<noteq> 10) ?bs) @ [char_of (10 :: nat)])) = [''PROXY'', ''UNKNOWN'']"
    by code_simp
  then show ?thesis
    using accept_panics_iff [of ?cfg ?conn] by simp
qed

text \<open>
  Rebinding. After \<open>RebindListenIfNeeded\<close> without an error the listener is on the configured address, up to
  the spelling of the wildcard host; the old listener is kept exactly when it already was, and an error
  leaves it in place. This relies on a new listener having the address it was asked for.
\<close>

lemma rebind_follows_config:
  assumes "\<And>a b. listen a = Some b \<Longrightarrow> listenAddrsEqual b a"
  shows "case RebindListenIfNeeded listen cfg ln of
      (Ok rebound, ln') \<Rightarrow> (\<exists>cur. ln' = Some cur \<and> listenAddrsEqual cur (cfg_Addr cfg))
         \<and> (rebound \<longleftrightarrow> \<not> (\<exists>cur. ln = Some cur \<and> listenAddrsEqual cur (cfg_Addr cfg))) \<and> (\<not> rebound \<longrightarrow> ln' = ln)
    | (_, ln') \<Rightarrow> ln' = ln \<and> listen (cfg_Addr cfg) = None"
  using assms by (auto simp: RebindListenIfNeeded_def Let_def split: option.splits if_splits)

text \<open>
  Data centres: an identifier has an address exactly when a backend is configured or it is between -5 and
  5; zero is data centre 2; and without a backend a media centre never gets the address of a main one.
\<close>

theorem dc_addresses:
  "((\<exists>a. ResolveAddr dc backend = Ok a) \<longleftrightarrow> backend \<noteq> [] \<or> \<bar>dc\<bar> \<le> 5)
   \<and> ResolveAddr 0 backend = ResolveAddr 2 backend
   \<and> (backend = [] \<and> dc < 0 \<and> 0 \<le> dc' \<and> ResolveAddr dc backend = Ok a \<longrightarrow> ResolveAddr dc' backend \<noteq> Ok a)"
proof -
  have cases: "dc = - 5 \<or> dc = - 4 \<or> dc = - 3 \<or> dc = - 2 \<or> dc = - 1 \<or> dc = 0 \<or> dc = 1 \<or> dc = 2 \<or> dc = 3 \<or> dc = 4 \<or> dc = 5"
    if "\<bar>dc\<bar> \<le> 5" for dc :: int
    using that by presburger
  have none: "dcAddresses dc = None" if "\<not> \<bar>dc\<bar> \<le> 5" for dc
    using that by (auto simp: dcAddresses_def)
  have known: "(\<exists>a. ResolveAddr dc [] = Ok a) \<longleftrightarrow> \<bar>dc\<bar> \<le> 5" for dc
    using none [of dc] cases [of dc] by (cases "\<bar>dc\<bar> \<le> 5") (auto simp: ResolveAddr_def dcAddresses_def)
  have media: "ResolveAddr dc' [] \<noteq> Ok a" if "dc < 0" "0 \<le> dc'" "ResolveAddr dc [] = Ok a" for dc dc'
  proof
    assume m: "ResolveAddr dc' [] = Ok a"
    then have "\<bar>dc\<bar> \<le> 5" "\<bar>dc'\<bar> \<le> 5" using that known by blast+
    then have "dc \<in> {- 5, - 4, - 3, - 2, - 1}" "dc' \<in> {0, 1, 2, 3, 4, 5}"
      using that cases [of dc] cases [of dc'] by auto
    with that(3) m show False
      by (auto simp: ResolveAddr_def dcAddresses_def)
  qed
  show ?thesis
  proof (cases "backend = []")
    case True
    moreover have "ResolveAddr 0 [] = ResolveAddr 2 []" by (simp add: ResolveAddr_def dcAddresses_def)
    ultimately show ?thesis using known [of dc] media [of dc dc'] by simp
  qed (simp add: ResolveAddr_def)
qed

theorem dc_addresses_witness:
  "ResolveAddr (- 2) [] = Ok ''149.154.167.151:443'' \<and> ResolveAddr 2 [] \<noteq> Ok ''149.154.167.151:443''"
  using dc_addresses [of "- 2" "[]" 2 "''149.154.167.151:443''"] by (simp add: ResolveAddr_def dcAddresses_def)

end
