(* ===== verification/Metrics.thy ===== *)
theory Metrics
  imports Config Stats
begin

text \<open>
  The Prometheus metrics, \<open>internal/metrics/prometheus.go\<close>. The client library and the HTTP endpoint are not
  modelled; a counter is the sum of what was added to it (exact as long as it stays below \<open>2 ^ 53\<close>,
  where \<open>float64\<close> starts to round). Registration refuses two collectors of one name.
\<close>

section \<open>Counters\<close>

record Metrics =
  mc_activeConns :: int
  mc_uploadBytes :: int
  mc_downloadBytes :: int
  mc_replayAttacks :: int
  mc_frontingConns :: int
  mc_fakeTLSRejected :: int
  mc_probeRequests :: int
  mc_probeBlacklisted :: int
  mc_tlsRejectReasons :: "string \<Rightarrow> int"

definition metric_names :: "string list" where
  "metric_names = [''phantom_active_connections'', ''phantom_connections_total'', ''phantom_upload_bytes_total'',
     ''phantom_download_bytes_total'', ''phantom_replay_attacks_total'', ''phantom_fronting_connections_total'',
     ''phantom_fake_tls_rejected_total'', ''phantom_probe_requests_total'', ''phantom_probe_blacklisted_total'',
     ''phantom_tls_reject_reason_total'', ''phantom_decoy_records_total'']"

text \<open>\<open>MustRegister\<close> panics on a name that is registered already.\<close>

fun MustRegister :: "string list \<Rightarrow> string list \<Rightarrow> ('e, string list) res" where
  "MustRegister reg [] = Ok reg"
| "MustRegister reg (n # ns) = (if n \<in> set reg then Panic else MustRegister (reg @ [n]) ns)"

definition zero_metrics :: Metrics where
  "zero_metrics = \<lparr>mc_activeConns = 0, mc_uploadBytes = 0, mc_downloadBytes = 0, mc_replayAttacks = 0,
     mc_frontingConns = 0, mc_fakeTLSRejected = 0, mc_probeRequests = 0, mc_probeBlacklisted = 0,
     mc_tlsRejectReasons = (\<lambda>_. 0)\<rparr>"

definition met_New :: "('e, Metrics) res" where
  "met_New = bind_res (MustRegister [] metric_names) (\<lambda>_. Ok zero_metrics)"

definition RecordTLSReject :: "string \<Rightarrow> Metrics \<Rightarrow> Metrics" where
  "RecordTLSReject reason m = m\<lparr>mc_tlsRejectReasons := (mc_tlsRejectReasons m)(reason := mc_tlsRejectReasons m reason + 1)\<rparr>"

definition RecordTraffic :: "int \<Rightarrow> int \<Rightarrow> Metrics \<Rightarrow> Metrics" where
  "RecordTraffic upload download m =
     (let m = (if upload > 0 then m\<lparr>mc_uploadBytes := mc_uploadBytes m + upload\<rparr> else m)
      in if download > 0 then m\<lparr>mc_downloadBytes := mc_downloadBytes m + download\<rparr> else m)"

text \<open>\<open>Sync\<close>; \<open>order\<close> is the order in which the statistics are visited (see \<open>Stats\<close>).\<close>

definition Sync :: "string list \<Rightarrow> Tracker \<Rightarrow> Metrics \<Rightarrow> (unit, Metrics) res" where
  "Sync order t m = bind_res (Snapshot_stats order t) (\<lambda>snap. Ok (m\<lparr>mc_activeConns := sint (ss_ActiveConnections snap)\<rparr>))"

section \<open>Configuration\<close>

definition Enabled :: "MetricsConfig \<Rightarrow> bool" where
  "Enabled cfg \<longleftrightarrow> met_Port cfg > 0"

definition AddrOrEmpty :: "MetricsConfig \<Rightarrow> string" where
  "AddrOrEmpty cfg = (if \<not> Enabled cfg then [] else met_Addr cfg)"

definition FormatAddr :: "MetricsConfig \<Rightarrow> string" where
  "FormatAddr cfg = (if \<not> Enabled cfg then ''disabled'' else met_Addr cfg)"

datatype metrics_error = NegativePort

definition Validate :: "MetricsConfig \<Rightarrow> (metrics_error, unit) res" where
  "Validate cfg = (if met_Port cfg < 0 then Err NegativePort else Ok ())"

lemma MustRegister_distinct: "MustRegister reg ns = (if distinct ns \<and> set reg \<inter> set ns = {} then Ok (reg @ ns) else Panic)"
  by (induction ns arbitrary: reg) auto

text \<open>The registration in \<open>New\<close> does not panic: no two collectors share a name.\<close>

lemma met_New_ok: "met_New = Ok zero_metrics"
  by (simp add: met_New_def MustRegister_distinct metric_names_def)

end
