(* ===== verification/ProxyServer.thy ===== *)
theory ProxyServer
  imports Runtime Pipe ProxyNet MiddleProxy Metrics
begin

text \<open>
  The proxy server, \<open>internal/proxy\<close> (\<open>server.go\<close>, \<open>errors.go\<close>, \<open>relay.go\<close>): what happens to one accepted
  connection, from the first byte to the relayed session or the treatment of a stranger. The handlers
  are functions of the runtime, the metrics and the world; the world gives what a connection meets:
  clock readings, random numbers, the scheduler, and what dialling gives. Logging and read
  deadlines are left out (a deadline that expires is the \<open>Timeout\<close> at the end of a stream).
\<close>

section \<open>The world\<close>

datatype clock = AtBlock | AtReplay | AtMatch | AtHello | AtFingerprint | AtServerHello | AtProbe | AtSNI

record world =
  w_prims :: prims
  w_clock :: "clock \<Rightarrow> int"
  w_spare :: "nat \<Rightarrow> nat"
  w_victim :: "(string \<times> int) list \<Rightarrow> nat"
  w_sched :: "stream \<Rightarrow> nat"
  w_upsched :: "stream \<Rightarrow> nat"
  w_helloTape :: "nat list"
  w_helloRand :: bytes
  w_padding :: bytes
  w_recordTape :: "nat list"
  w_sniTape :: "nat list"
  w_headers :: "bytes list"
  w_dial :: "(stream \<times> sink) dial_world"
  w_front :: "(stream \<times> sink) option"
  w_frontRand :: "bytes option"
  w_seal :: "bytes \<Rightarrow> bytes \<Rightarrow> bytes \<Rightarrow> bytes"
  w_unseal :: "bytes \<Rightarrow> bytes \<Rightarrow> bytes \<Rightarrow> bytes option"
  w_mp :: mp_env
  w_to16 :: ip_parser
  w_mpnow :: "int \<times> int"
  w_pid :: nat
  w_attempt :: "Endpoint \<Rightarrow> attempt"
  w_errText :: string

text \<open>The server's own state: the runtime and, when they are on, the metrics.\<close>

record server =
  s_rt :: Runtime
  s_metrics :: "Metrics option"

definition upd_metrics :: "(Metrics \<Rightarrow> Metrics) \<Rightarrow> server \<Rightarrow> server" where
  "upd_metrics f s = s\<lparr>s_metrics := map_option f (s_metrics s)\<rparr>"

definition upd_stats :: "(Tracker \<Rightarrow> Tracker) \<Rightarrow> server \<Rightarrow> server" where
  "upd_stats f s = s\<lparr>s_rt := (s_rt s)\<lparr>rt_Stats := f (rt_Stats (s_rt s))\<rparr>\<rparr>"

section \<open>Errors\<close>

text \<open>
  The errors of a handshake. Where the message of the system is part of the error's text, the
  constructor carries that text.
\<close>

datatype proxy_error =
    PeHello hello_error
  | PeReplay
  | PePolicy RejectReason
  | PeMatch user_error
  | PeServerHello server_hello_error
  | PeObf obf_error
  | PePSK psk_error
  | PeNoPeer
  | PeRelayFront relay_error string
  | PeAdTag ad_tag_error
  | PeMiddle int mp_error string
  | PeResolve resolve_error
  | PeDial string string
  | PeHeader obf_error
  | PeHeaderWrite

definition contains :: "string \<Rightarrow> string \<Rightarrow> bool" where
  "contains s sub \<longleftrightarrow> (\<exists>i \<in> set [0..<Suc (length s)]. take (length sub) (drop i s) = sub)"

text \<open>UTF-8 text given by the hexadecimal digits of its bytes.\<close>

definition utf8 :: "string \<Rightarrow> string" where
  "utf8 h = (case hex_decode h of Some bs \<Rightarrow> string_of_bytes bs | None \<Rightarrow> [])"

text \<open>The Russian for: white list, secret, time stamp.\<close>

definition kw_whitelist :: string where "kw_whitelist = utf8 ''d0b1d0b5d0bbd0bed0bc20d181d0bfd0b8d181d0bad0b5''"
definition kw_secret :: string where "kw_secret = utf8 ''d181d0b5d0bad180d0b5d182''"
definition kw_timestamp :: string where "kw_timestamp = utf8 ''d0bcd0b5d182d0bad0b020d0b2d180d0b5d0bcd0b5d0bdd0b8''"

text \<open>The classification of a message by the words in it.\<close>

definition classify_text :: "string \<Rightarrow> RejectReason" where
  "classify_text text =
     (let msg = to_lower text in
      if contains msg ''replay'' then RejectReasonReplay
      else if contains msg ''ja3'' \<or> contains msg ''ja4'' \<or> contains msg kw_whitelist then RejectReasonFingerprint
      else if contains msg kw_secret \<or> contains msg ''hmac'' \<or> contains msg kw_timestamp then RejectReasonSecret
      else if contains msg ''clienthello'' \<or> contains msg ''tls'' then RejectReasonParse
      else RejectReasonSecret)"

text \<open>
  \<open>classifyHandshakeError\<close>. The texts of the program's own errors are fixed: those of the parser name TLS or
  ClientHello, a white list refusal names JA3 or JA4, the others contain none of the words except that a
  refused secret names it.
\<close>

fun classifyHandshakeError :: "proxy_error \<Rightarrow> RejectReason" where
  "classifyHandshakeError (PePolicy reason) = reason"
| "classifyHandshakeError PeReplay = RejectReasonReplay"
| "classifyHandshakeError (PeMatch (JA3NotAllowed _)) = RejectReasonFingerprint"
| "classifyHandshakeError (PeMatch (JA4NotAllowed _)) = RejectReasonFingerprint"
| "classifyHandshakeError (PeHello _) = RejectReasonParse"
| "classifyHandshakeError (PeRelayFront RelayDialFailed text) = classify_text (''relay front: relay dial: '' @ text)"
| "classifyHandshakeError (PeMiddle dc MpDialFailed text) = classify_text (''middle proxy DC '' @ dec_int dc @ '': '' @ text)"
| "classifyHandshakeError (PeDial addr text) = classify_text (''DC '' @ addr @ '': '' @ text)"
| "classifyHandshakeError _ = RejectReasonSecret"

fun reason_text :: "RejectReason \<Rightarrow> string" where
  "reason_text RejectReasonParse = ''parse''"
| "reason_text RejectReasonReplay = ''replay''"
| "reason_text RejectReasonSecret = ''secret''"
| "reason_text RejectReasonFingerprint = ''fingerprint''"
| "reason_text RejectReasonECH = ''ech''"
| "reason_text RejectReasonPolicy = ''policy''"

text \<open>\<open>isIOTimeoutErr\<close>: the text contains the word timeout.\<close>

fun isIOTimeoutErr :: "proxy_error \<Rightarrow> bool" where
  "isIOTimeoutErr (PeHello (HelloIO e)) = (e = Timeout)"
| "isIOTimeoutErr (PeObf (ObfIO e)) = (e = Timeout)"
| "isIOTimeoutErr (PeRelayFront RelayDialFailed text) = contains text ''timeout''"
| "isIOTimeoutErr (PeMiddle dc MpDialFailed text) = contains text ''timeout''"
| "isIOTimeoutErr (PeMiddle dc (MpIO e) text) = (e = Timeout)"
| "isIOTimeoutErr (PeDial addr text) = (contains addr ''timeout'' \<or> contains text ''timeout'')"
| "isIOTimeoutErr _ = False"

definition recordTLSReject :: "proxy_error \<Rightarrow> server \<Rightarrow> server" where
  "recordTLSReject err s =
     upd_metrics (\<lambda>m. (RecordTLSReject (reason_text (classifyHandshakeError err)) m)
       \<lparr>mc_fakeTLSRejected := mc_fakeTLSRejected m + 1\<rparr>) s"

definition onHandshakeFailure :: "world \<Rightarrow> proxy_error \<Rightarrow> server \<Rightarrow> ('e, server) res" where
  "onHandshakeFailure w err s =
     bind_res (fr_RecordFailure (w_clock w AtFingerprint) (rt_FingerprintRotator (s_rt s))) (\<lambda>fp.
     bind_res (sh_RecordFailure (w_clock w AtServerHello) (rt_ServerHelloRotator (s_rt s))) (\<lambda>sh.
       Ok (recordTLSReject err
         (s\<lparr>s_rt := (s_rt s)\<lparr>rt_FingerprintRotator := fp, rt_ServerHelloRotator := sh\<rparr>\<rparr>))))"

definition onHandshakeSuccess :: "server \<Rightarrow> server" where
  "onHandshakeSuccess s =
     s\<lparr>s_rt := (s_rt s)\<lparr>rt_FingerprintRotator := fr_RecordSuccess (rt_FingerprintRotator (s_rt s)),
        rt_ServerHelloRotator := sh_RecordSuccess (rt_ServerHelloRotator (s_rt s))\<rparr>\<rparr>"

definition recordProbe :: "world \<Rightarrow> string option \<Rightarrow> server \<Rightarrow> server" where
  "recordProbe w remote s =
     (case rt_ProbeBlacklist (s_rt s) of
        None \<Rightarrow> s
      | Some b \<Rightarrow>
          (case RecordProbe (w_clock w AtProbe) (ClientIP remote) (Some b) of
             (blocked, bo) \<Rightarrow>
               let s = s\<lparr>s_rt := (s_rt s)\<lparr>rt_ProbeBlacklist := bo\<rparr>\<rparr> in
               if blocked then upd_metrics (\<lambda>m. m\<lparr>mc_probeBlacklisted := mc_probeBlacklisted m + 1\<rparr>) s else s))"

section \<open>Towards Telegram\<close>

text \<open>The connection a middle proxy gives, read and written by the copying threads. A read that never
  returns is one that gives nothing and leaves the connection as it is, so the copy never ends either.\<close>

definition ic_rd :: "(bytes \<Rightarrow> bytes \<Rightarrow> bytes) \<Rightarrow> intermediateConn reader" where
  "ic_rd D n c =
     (case ic_Read D n c of
        None \<Rightarrow> (Inr [], c)
      | Some (Inl e, c') \<Rightarrow> (Inl (case e of MpIO x \<Rightarrow> x | _ \<Rightarrow> ConnReset), c')
      | Some (Inr xs, c') \<Rightarrow> (Inr xs, c'))"

definition ic_wr :: "(bytes \<Rightarrow> bytes \<Rightarrow> bytes) \<Rightarrow> ip_parser \<Rightarrow> ip_parser \<Rightarrow> intermediateConn writer" where
  "ic_wr E to4 to16 b c =
     (case ic_Write E to4 to16 b c of (None, c') \<Rightarrow> ((length b, True), c') | (Some e, c') \<Rightarrow> ((0, False), c'))"

datatype dc_conn = DirectConn "obf_conn \<times> stream \<times> sink" | MiddleConn intermediateConn | TunnelConn frameConn

definition dialDirectDC :: "world \<Rightarrow> Config \<Rightarrow> int \<Rightarrow> (proxy_error, dc_conn) res" where
  "dialDirectDC w cfg dcID =
     (case ResolveAddr dcID (mt_Backend (cfg_MTProto cfg)) of
        Err e \<Rightarrow> Err (PeResolve e)
      | Panic \<Rightarrow> Panic
      | Ok dcAddr \<Rightarrow>
          (case DialContext (w_dial w) (Some \<lparr>dl_SOCKS5 = ups_SOCKS5 (cfg_Upstream cfg), dl_PreferIP = ups_PreferIP (cfg_Upstream cfg),
                    dl_Timeout = 10000000000\<rparr>) ''tcp'' dcAddr of
             Inl text \<Rightarrow> Err (PeDial dcAddr text)
           | Inr (s, k) \<Rightarrow>
               (case OutgoingHeader (pr_ks (w_prims w)) (pr_sha (w_prims w)) (w_headers w) dcID of
                  Err e \<Rightarrow> Err (PeHeader e)
                | Panic \<Rightarrow> Panic
                | Ok (hdr, enc, dec) \<Rightarrow>
                    (case sink_write hdr k of
                       (False, _) \<Rightarrow> Err PeHeaderWrite
                     | (True, k') \<Rightarrow> Ok (DirectConn (\<lparr>oc_enc = enc, oc_dec = dec\<rparr>, s, k'))))))"

text \<open>Whether the middle proxy is used, from the parsed ad tag.\<close>

definition use_middle :: "Config \<Rightarrow> bytes \<Rightarrow> bool" where
  "use_middle cfg adTag \<longleftrightarrow> (mt_UseMiddleProxy (cfg_MTProto cfg) \<or> length adTag > 0) \<and> ups_SOCKS5 (cfg_Upstream cfg) = []"

definition dial_middle :: "world \<Rightarrow> Config \<Rightarrow> int \<Rightarrow> bytes \<Rightarrow> string \<Rightarrow> (mp_error, intermediateConn) res option" where
  "dial_middle w cfg dcID adTag remote =
     (case splitHostPort remote of (ip, port) \<Rightarrow>
        Dial (w_mp w) (fst (w_mpnow w)) (snd (w_mpnow w)) (w_pid w) (w_attempt w)
          \<lparr>do_DCID = dcID, do_ClientIP = ip, do_ClientPort = port,
           do_LocalIP = mt_MiddleProxyNatIP (cfg_MTProto cfg), do_AdTag = adTag, do_ProxySecret = []\<rparr>)"

text \<open>\<open>dialDC\<close>, and with the error wrapped as \<open>relayMTProto\<close> does, the dialling part of \<open>relayMTProto\<close>.\<close>

definition dialDC :: "world \<Rightarrow> Config \<Rightarrow> int \<Rightarrow> string \<Rightarrow> (proxy_error, dc_conn) res option" where
  "dialDC w cfg dcID remote =
     (case ParseAdTag (mt_AdTag (cfg_MTProto cfg)) of
        Err e \<Rightarrow> Some (Err (PeAdTag e))
      | Panic \<Rightarrow> Some Panic
      | Ok adTag \<Rightarrow>
          if use_middle cfg adTag then
            Option.bind (dial_middle w cfg dcID adTag remote) (\<lambda>r.
              Some (case r of Ok c \<Rightarrow> Ok (MiddleConn c) | Err e \<Rightarrow> Err (PeMiddle dcID e (w_errText w)) | Panic \<Rightarrow> Panic))
          else Some (dialDirectDC w cfg dcID))"

definition relayBackendLabel :: "Config \<Rightarrow> int \<Rightarrow> string" where
  "relayBackendLabel cfg dcID =
     (case ParseAdTag (mt_AdTag (cfg_MTProto cfg)) of
        Ok adTag \<Rightarrow>
          if use_middle cfg adTag then ''middle-proxy''
          else (case ResolveAddr dcID (mt_Backend (cfg_MTProto cfg)) of Ok a \<Rightarrow> a | _ \<Rightarrow> ''direct-dc'')
      | _ \<Rightarrow> ''unknown'')"

section \<open>Sessions\<close>

text \<open>A session that was relayed: whose, to which data centre, over which connection and with how
  many bytes; the two connections as they are at its end.\<close>

record 'c session =
  se_user :: string
  se_dc :: int
  se_up :: nat
  se_down :: nat
  se_client :: 'c
  se_server :: dc_conn

fun pipe_to :: "world \<Rightarrow> 'c reader \<Rightarrow> 'c writer \<Rightarrow> 'c \<Rightarrow> dc_conn \<Rightarrow> (nat \<times> nat \<times> 'c \<times> dc_conn) option" where
  "pipe_to w crd cwr c (DirectConn s) =
     map_option (\<lambda>(u, d, c', s'). (u, d, c', DirectConn s'))
       (pipeTraffic crd cwr (obf_read (pr_ks (w_prims w)) (tcp_read (w_upsched w))) (obf_write (pr_ks (w_prims w)) tcp_write) c s)"
| "pipe_to w crd cwr c (MiddleConn s) =
     map_option (\<lambda>(u, d, c', s'). (u, d, c', MiddleConn s'))
       (pipeTraffic crd cwr (ic_rd (env_D (w_mp w))) (ic_wr (env_E (w_mp w)) (env_to4 (w_mp w)) (w_to16 w)) c s)"
| "pipe_to w crd cwr c (TunnelConn s) =
     map_option (\<lambda>(u, d, c', s'). (u, d, c', TunnelConn s'))
       (pipeTraffic crd cwr (frame_read (w_unseal w)) (frame_wr (w_seal w)) c s)"

text \<open>
  The end of \<open>relayMTProto\<close> and \<open>relayBackToDC\<close>, once there is a connection: the statistics before, the
  pipe, the statistics after and the deferred disconnect.
\<close>

definition run_session ::
  "world \<Rightarrow> 'c reader \<Rightarrow> 'c writer \<Rightarrow> 'c \<Rightarrow> dc_conn \<Rightarrow> string \<Rightarrow> int \<Rightarrow> server \<Rightarrow> ('c session \<times> server) option" where
  "run_session w crd cwr c dc user dcID s =
     (let s = upd_stats (OnConnect user) s in
      Option.bind (pipe_to w crd cwr c dc) (\<lambda>(up, down, c', dc').
        let s = upd_stats (AddTraffic user (int up) (int down)) s;
            s = upd_metrics (RecordTraffic (int up) (int down)) s;
            s = upd_stats (OnDisconnect user) s
        in Some (\<lparr>se_user = user, se_dc = dcID, se_up = up, se_down = down, se_client = c', se_server = dc'\<rparr>, s)))"

text \<open>\<open>relayMTProto\<close>. The fingerprint of the hello is computed for the log, and may panic.\<close>

definition relayMTProto ::
  "world \<Rightarrow> 'c reader \<Rightarrow> 'c writer \<Rightarrow> 'c \<Rightarrow> int \<Rightarrow> string \<Rightarrow> client_hello option \<Rightarrow> string \<Rightarrow> server
     \<Rightarrow> ((proxy_error, 'c session) res \<times> server) option" where
  "relayMTProto w crd cwr c dcID user ch remote s =
     (let cfg = rt_Snapshot (s_rt s) in
      if IsFront (cfg_Relay cfg) then
        (case PSKBytes (cfg_Relay cfg) of
           Err e \<Rightarrow> Some (Err (PePSK e), s)
         | Panic \<Rightarrow> Some (Panic, s)
         | Ok psk \<Rightarrow>
             if rel_PeerAddr (cfg_Relay cfg) = [] then Some (Err PeNoPeer, s)
             else (case DialFront (pr_hmac (w_prims w)) (env_to4 (w_mp w)) (w_front w) (w_frontRand w) psk dcID remote of
                     Err e \<Rightarrow> Some (Err (PeRelayFront e (w_errText w)), s)
                   | Panic \<Rightarrow> Some (Panic, s)
                   | Ok relayConn \<Rightarrow>
                       Option.bind (run_session w crd cwr c (TunnelConn relayConn) user dcID s) (\<lambda>(se, s'). Some (Ok se, s'))))
      else
        Option.bind (dialDC w cfg dcID remote) (\<lambda>r.
          case r of
            Err e \<Rightarrow> Some (Err e, s)
          | Panic \<Rightarrow> Some (Panic, s)
          | Ok dcConn \<Rightarrow>
              (case (case ch of None \<Rightarrow> Ok [] | Some ch \<Rightarrow> JA3 (pr_md5 (w_prims w)) (ch_raw ch)) of
                 (Ok _ :: (unit, string) res) \<Rightarrow>
                   Option.bind (run_session w crd cwr c dcConn user dcID s) (\<lambda>(se, s'). Some (Ok se, s'))
               | _ \<Rightarrow> Some (Panic, upd_stats (OnConnect user) s))))"

definition relayBackToDC ::
  "world \<Rightarrow> Meta \<Rightarrow> frameConn \<Rightarrow> string \<Rightarrow> server \<Rightarrow> ((proxy_error, frameConn session) res \<times> server) option" where
  "relayBackToDC w meta stream user s =
     (let cfg = rt_Snapshot (s_rt s);
          remote = formatClientRemote (me_ClientIP meta) (me_ClientPort meta)
      in Option.bind (dialDC w cfg (me_DCID meta) remote) (\<lambda>r.
          case r of
            Err e \<Rightarrow> Some (Err e, s)
          | Panic \<Rightarrow> Some (Panic, s)
          | Ok dcConn \<Rightarrow>
              Option.bind (run_session w (frame_read (w_unseal w)) (frame_wr (w_seal w)) stream dcConn user (me_DCID meta) s)
                (\<lambda>(se, s'). Some (Ok se, s'))))"

text \<open>
  What \<open>serveRelayBack\<close> does with one connection of a front proxy; \<open>arrived\<close> as in \<open>acceptBack\<close>. \<open>None\<close> is a
  session that never ends.
\<close>

definition serve_back_conn ::
  "world \<Rightarrow> nat \<Rightarrow> stream \<Rightarrow> sink \<Rightarrow> server
     \<Rightarrow> (psk_error + relay_error, ((proxy_error, frameConn session) res \<times> server) option) res" where
  "serve_back_conn w arrived st sk s =
     (let cfg = rt_Snapshot (s_rt s) in
      case PSKBytes (cfg_Relay cfg) of
        Err e \<Rightarrow> Err (Inl e)
      | Panic \<Rightarrow> Panic
      | Ok psk \<Rightarrow>
          (case ServeBack_conn (pr_hmac (w_prims w)) (\<lambda>meta framed. relayBackToDC w meta framed ''relay'' s) arrived st sk psk of
             Ok r \<Rightarrow> Ok r | Err e \<Rightarrow> Err (Inr e) | Panic \<Rightarrow> Panic))"

section \<open>Recorded reads\<close>

text \<open>
  Reading through a \<open>ReadRecorder\<close>: the stream it delivers, and the recorder once that stream has been
  read down to \<open>st\<close> (\<open>rr_read_full\<close> below shows that this is what \<open>io.ReadFull\<close> does to it).
\<close>

definition rr_stream :: "ReadRecorder \<Rightarrow> stream" where
  "rr_stream r = (rr_conn r)\<lparr>st_in := rr_pending r @ st_in (rr_conn r)\<rparr>"

definition rr_skip :: "nat \<Rightarrow> ReadRecorder \<Rightarrow> ReadRecorder" where
  "rr_skip k r =
     (let j = k - length (rr_pending r) in
      r\<lparr>rr_pending := drop k (rr_pending r), rr_capture := rr_capture r @ take j (st_in (rr_conn r)),
        rr_conn := (rr_conn r)\<lparr>st_in := drop j (st_in (rr_conn r))\<rparr>\<rparr>)"

definition rr_advance :: "ReadRecorder \<Rightarrow> stream \<Rightarrow> ReadRecorder" where
  "rr_advance r st = rr_skip (length (st_in (rr_stream r)) - length (st_in st)) r"

section \<open>Handlers\<close>

record Options =
  op_Upstream :: string
  op_Honeypot :: bool

definition fallbackOpts :: "Config \<Rightarrow> Options" where
  "fallbackOpts cfg = \<lparr>op_Upstream = fal_Upstream (cfg_Fallback cfg), op_Honeypot = fal_Honeypot (cfg_Fallback cfg)\<rparr>"

type_synonym tls_client = "obf_conn \<times> RecordConn \<times> nat list"
type_synonym tcp_client = "obf_conn \<times> stream \<times> sink"

text \<open>
  How a connection ends: dropped, relayed, spliced to a host (\<open>SpliceToHost\<close> with these arguments), handed to
  the HTTP fallback with what it can still read, or redirected.
\<close>

datatype ending =
    Dropped
  | RelayedTLS "tls_client session"
  | RelayedSecure "tcp_client session"
  | Spliced "ReadRecorder \<times> sink" bytes string int
  | FallbackServed stream sink Options
  | Redirected bool sink

text \<open>\<open>handleRejectedTLS\<close>\<close>

definition handleRejectedTLS ::
  "world \<Rightarrow> ReadRecorder \<Rightarrow> sink \<Rightarrow> client_hello option \<Rightarrow> server \<Rightarrow> (unit, ending) res \<times> server" where
  "handleRejectedTLS w rec sk ch s =
     (let cfg = rt_Snapshot (s_rt s) in
      case PickMaskSNI (w_clock w AtSNI) (w_sniTape w) (MaskHost (rt_Users (s_rt s))) (s_rt s) of
        (picked, rt) \<Rightarrow>
          let s = s\<lparr>s_rt := rt\<rparr> in
          (case bind_res picked (\<lambda>host.
                  case ch of None \<Rightarrow> Ok host
                  | Some ch \<Rightarrow> bind_res (SNI ch) (\<lambda>sni. Ok (if sni \<noteq> [] then sni else host))) of
             Ok host \<Rightarrow>
               let prefix = Snapshot rec in
               if FrontingAction cfg = ''splice'' then
                 (Ok (Spliced (rec, sk) prefix host (FrontingPort cfg)),
                  upd_metrics (\<lambda>m. m\<lparr>mc_frontingConns := mc_frontingConns m + 1\<rparr>) s)
               else if FrontingAction cfg = ''fallback'' then
                 (Ok (FallbackServed (rr_stream rec) sk (fallbackOpts cfg)),
                  upd_metrics (\<lambda>m. m\<lparr>mc_probeRequests := mc_probeRequests m + 1\<rparr>) s)
               else (case RedirectToDomain host sk of (ok, sk') \<Rightarrow> (Ok (Redirected ok sk'), s))
           | Err e \<Rightarrow> (Err e, s)
           | Panic \<Rightarrow> (Panic, s)))"

text \<open>
  The closure in \<open>handleFakeTLSPath\<close>: its error, and the hello and the recorder that the outer function
  sees afterwards. The recorder and the sink are those of the client's connection.
\<close>

record tls_state =
  ts_rec :: ReadRecorder
  ts_sink :: sink
  ts_hello :: "client_hello option"
  ts_server :: server

definition tls_greet ::
  "world \<Rightarrow> client_hello \<Rightarrow> tls_state \<Rightarrow> (proxy_error, User) res \<times> tls_state" where
  "tls_greet w ch t =
     (let s = ts_server t; cfg = rt_Snapshot (s_rt s) in
      case CheckClientHelloPolicy (Some ch) (tls_ClientHelloPolicy (cfg_TLS cfg)) of
        Err reason \<Rightarrow> (Err (PePolicy reason), t)
      | Panic \<Rightarrow> (Panic, t)
      | Ok _ \<Rightarrow>
          (case (if tls_ClientHelloPolicy (cfg_TLS cfg) = ''log'' then HasECH (Some ch) else Ok False) of
             (Ok _ :: (unit, bool) res) \<Rightarrow>
               (case MatchClientHello (w_prims w) (w_clock w AtMatch) ch (rt_Users (s_rt s)) of
                  Err e \<Rightarrow> (Err (PeMatch e), t)
                | Panic \<Rightarrow> (Panic, t)
                | Ok matched \<Rightarrow>
                    (case WriteServerHelloWithNoise (pr_hmac (w_prims w)) (w_clock w AtHello) (w_helloTape w) (w_helloRand w)
                            (w_padding w) ch (s_key (u_Secret matched)) (cfg_NoiseParams cfg)
                            (rt_ServerHelloRotator (s_rt s)) (ts_sink t) of
                       (r, rot, sk) \<Rightarrow>
                         let t = t\<lparr>ts_sink := sk, ts_server := s\<lparr>s_rt := (s_rt s)\<lparr>rt_ServerHelloRotator := rot\<rparr>\<rparr>\<rparr> in
                         (case r of Err e \<Rightarrow> (Err (PeServerHello e), t) | Panic \<Rightarrow> (Panic, t) | Ok _ \<Rightarrow> (Ok matched, t))))
           | _ \<Rightarrow> (Panic, t)))"

definition tls_session ::
  "world \<Rightarrow> client_hello \<Rightarrow> User \<Rightarrow> string \<Rightarrow> tls_state
     \<Rightarrow> ((proxy_error, tls_client session) res \<times> tls_state) option" where
  "tls_session w ch matched remote t =
     (let p = w_prims w; cfg = rt_Snapshot (s_rt (ts_server t));
          tlsConn = \<lparr>rc_in = rr_stream (ts_rec t), rc_sink = ts_sink t, readBuf = [], Policy = cfg_RecordPolicy cfg,
                     recordsWritten = 0, bytesWritten = 0, splitDone = False\<rparr>
      in Option.bind (Handshake (pr_ks p) (pr_sha p) rec_read tlsConn (Some (s_key (u_Secret matched)))) (\<lambda>(r, tlsConn).
           let t = t\<lparr>ts_rec := rr_advance (ts_rec t) (rc_in tlsConn)\<rparr> in
           case r of
             Err e \<Rightarrow> Some (Err (PeObf e), t)
           | Panic \<Rightarrow> Some (Panic, t)
           | Ok (obf, dcID) \<Rightarrow>
               Option.bind (relayMTProto w (obf_read (pr_ks p) rec_rd) (obf_write (pr_ks p) rec_wr) (obf, tlsConn, w_recordTape w)
                   dcID (u_Name matched) (Some ch) remote (ts_server t)) (\<lambda>(r, s).
                 Some (r, t\<lparr>ts_server := s\<rparr>))))"

definition tls_closure ::
  "world \<Rightarrow> string \<Rightarrow> tls_state \<Rightarrow> ((proxy_error, tls_client session) res \<times> tls_state) option" where
  "tls_closure w remote t =
     (case parseClientHello (w_spare w) (rr_stream (ts_rec t)) of
        (r, st) \<Rightarrow>
          let t = t\<lparr>ts_rec := rr_advance (ts_rec t) st\<rparr> in
          (case r of
             Err e \<Rightarrow> Some (Err (PeHello e), t)
           | Panic \<Rightarrow> Some (Panic, t)
           | Ok ch \<Rightarrow>
               let t = t\<lparr>ts_hello := Some ch\<rparr>; rt = s_rt (ts_server t);
                   (replayed, cache) = (case rt_Replay rt of
                      None \<Rightarrow> (False, None)
                    | Some c \<Rightarrow> (case Check (pr_sha (w_prims w)) (w_victim w) (w_clock w AtReplay) (Some ch) c of (b, c') \<Rightarrow> (b, Some c')));
                   t = t\<lparr>ts_server := (ts_server t)\<lparr>s_rt := rt\<lparr>rt_Replay := cache\<rparr>\<rparr>\<rparr>
               in if replayed
                  then Some (Err PeReplay, t\<lparr>ts_server :=
                         upd_metrics (\<lambda>m. m\<lparr>mc_replayAttacks := mc_replayAttacks m + 1\<rparr>) (ts_server t)\<rparr>)
                  else (case tls_greet w ch t of
                          (Err e, t) \<Rightarrow> Some (Err e, t)
                        | (Panic, t) \<Rightarrow> Some (Panic, t)
                        | (Ok matched, t) \<Rightarrow> tls_session w ch matched remote t)))"

definition handleFakeTLSPath ::
  "world \<Rightarrow> ReadRecorder \<Rightarrow> sink \<Rightarrow> string option \<Rightarrow> server \<Rightarrow> ((unit, ending) res \<times> server) option" where
  "handleFakeTLSPath w rec sk raddr s =
     Option.bind (tls_closure w (remoteAddr raddr) \<lparr>ts_rec = rec, ts_sink = sk, ts_hello = None, ts_server = s\<rparr>) (\<lambda>(r, t).
       case r of
         Ok se \<Rightarrow> Some (Ok (RelayedTLS se), onHandshakeSuccess (ts_server t))
       | Panic \<Rightarrow> Some (Panic, ts_server t)
       | Err err \<Rightarrow>
           (case onHandshakeFailure w err (ts_server t) of
              Ok s \<Rightarrow>
                let s = (if \<not> isIOTimeoutErr err then recordProbe w raddr s else s)
                in Some (handleRejectedTLS w (ts_rec t) (ts_sink t) (ts_hello t) s)
            | Err e \<Rightarrow> Some (Err e, ts_server t)
            | Panic \<Rightarrow> Some (Panic, ts_server t)))"

definition handleSecure ::
  "world \<Rightarrow> stream \<Rightarrow> sink \<Rightarrow> bytes \<Rightarrow> string \<Rightarrow> server \<Rightarrow> ((proxy_error, tcp_client session) res \<times> server) option" where
  "handleSecure w st sk header remote s =
     (let p = w_prims w in
      case MatchSecureHeader p header (rt_Users (s_rt s)) of
        Err e \<Rightarrow> Some (Err (PeMatch e), s)
      | Panic \<Rightarrow> Some (Panic, s)
      | Ok (matched, dcID) \<Rightarrow>
          (case ConnFromHeader (pr_ks p) (pr_sha p) header (s_key (u_Secret matched)) of
             Err e \<Rightarrow> Some (Err (PeObf e), s)
           | Panic \<Rightarrow> Some (Panic, s)
           | Ok (obf, _) \<Rightarrow>
               relayMTProto w (obf_read (pr_ks p) (tcp_read (w_sched w))) (obf_write (pr_ks p) tcp_write) (obf, st, sk)
                 dcID (u_Name matched) None remote s))"

text \<open>The end of \<open>handleConnection\<close> for a stranger: only the first byte is put back.\<close>

definition serve_stranger :: "world \<Rightarrow> byte \<Rightarrow> stream \<Rightarrow> sink \<Rightarrow> string option \<Rightarrow> server \<Rightarrow> (unit, ending) res \<times> server" where
  "serve_stranger w first st sk raddr s =
     (let cfg = rt_Snapshot (s_rt s);
          s = recordProbe w raddr s;
          s = upd_metrics (\<lambda>m. m\<lparr>mc_probeRequests := mc_probeRequests m + 1\<rparr>) s
      in (Ok (FallbackServed (st\<lparr>st_in := first # st_in st\<rparr>) sk (fallbackOpts cfg)), s))"

definition handleConnection ::
  "world \<Rightarrow> net_conn \<Rightarrow> sink \<Rightarrow> server \<Rightarrow> ((unit, ending) res \<times> server) option" where
  "handleConnection w conn sk s =
     (let cfg = rt_Snapshot (s_rt s); raddr = nc_remote conn;
          (blocked, bl) = IsBlocked (w_clock w AtBlock) (ClientIP raddr) (rt_ProbeBlacklist (s_rt s));
          s = s\<lparr>s_rt := (s_rt s)\<lparr>rt_ProbeBlacklist := bl\<rparr>\<rparr>
      in if blocked
         then Some (Ok Dropped, upd_metrics (\<lambda>m. m\<lparr>mc_probeBlacklisted := mc_probeBlacklisted m + 1\<rparr>) s)
         else (case conn_read (w_sched w) 1 (nc_in conn) of
                 (Inl e, _) \<Rightarrow> Some (Ok Dropped, s)
               | (Inr bs, st) \<Rightarrow>
                   let first = hd bs in
                   if pro_FakeTLS (cfg_Protocols cfg) \<and> IsHandshakeRecord first
                   then handleFakeTLSPath w (Prepend [first] \<lparr>rr_conn = st, rr_capture = [], rr_pending = []\<rparr>) sk raddr s
                   else if pro_Secure (cfg_Protocols cfg)
                   then (case read_full 63 st of
                           (Inl _, st) \<Rightarrow> Some (serve_stranger w first st sk raddr s)
                         | (Inr rest, st) \<Rightarrow>
                             Option.bind (handleSecure w st sk (first # rest) (remoteAddr raddr) s) (\<lambda>(r, s).
                               case r of
                                 Ok se \<Rightarrow> Some (Ok (RelayedSecure se), s)
                               | Err _ \<Rightarrow> Some (serve_stranger w first st sk raddr s)
                               | Panic \<Rightarrow> Some (Panic, s)))
                   else Some (serve_stranger w first st sk raddr s)))"

section \<open>Accepting\<close>

text \<open>
  One turn of the accept loop of \<open>Serve\<close>: \<open>None\<close> when the connection is refused by the limiter, else the
  connection that \<open>handleConnection\<close> gets in its own thread. When that thread is done the limiter gets the
  place back.
\<close>

definition accept_turn :: "net_conn \<Rightarrow> server \<Rightarrow> (proxy_proto_error, net_conn option) res \<times> server" where
  "accept_turn conn s =
     (case accept_conn (rt_Snapshot (s_rt s)) conn of
        Err e \<Rightarrow> (Err e, s)
      | Panic \<Rightarrow> (Panic, s)
      | Ok conn \<Rightarrow>
          (case Acquire (nc_remote conn) (rt_Limiter (s_rt s)) of
             (ok, lim) \<Rightarrow> (Ok (if ok then Some conn else None), s\<lparr>s_rt := (s_rt s)\<lparr>rt_Limiter := lim\<rparr>\<rparr>)))"

definition conn_done :: "net_conn \<Rightarrow> server \<Rightarrow> server" where
  "conn_done conn s = s\<lparr>s_rt := (s_rt s)\<lparr>rt_Limiter := Release (nc_remote conn) (rt_Limiter (s_rt s))\<rparr>\<rparr>"

end
