(* ===== verification/ProxyGuarantees.thy ===== *)
theory ProxyGuarantees
  imports ProxyServer
begin

text \<open>
  What the handlers of \<open>ProxyServer\<close> guarantee: who gets relayed, what a stranger sees, that the runtime
  stays sound and the statistics balanced through every connection, and that an honest client is served.
  The first sections take the handlers apart, one lemma per handler.
\<close>

section \<open>The recorder\<close>

lemma rr_skip_total: "rr_capture (rr_skip k r) @ st_in (rr_conn (rr_skip k r)) = rr_capture r @ st_in (rr_conn r)"
  by (simp add: rr_skip_def Let_def)

lemma rr_skip_stream: "rr_stream (rr_skip k r) = (rr_stream r)\<lparr>st_in := drop k (st_in (rr_stream r))\<rparr>"
  by (simp add: rr_skip_def rr_stream_def Let_def)

lemma rr_skip_pending: "length (rr_pending r) \<le> k \<Longrightarrow> rr_pending (rr_skip k r) = []"
  by (simp add: rr_skip_def Let_def)

lemma rr_skip_0 [simp]: "rr_skip 0 r = r"
  by (simp add: rr_skip_def Let_def)

lemma rr_skip_add: "rr_skip (j + k) r = rr_skip k (rr_skip j r)"
proof (cases "j \<le> length (rr_pending r)")
  case True
  then show ?thesis by (simp add: rr_skip_def Let_def add.commute)
next
  case False
  then have "take (j + k - length (rr_pending r)) xs = take (j - length (rr_pending r)) xs @ take k (drop (j - length (rr_pending r)) xs)" for xs :: bytes
    by (simp flip: take_add)
  with False show ?thesis by (simp add: rr_skip_def Let_def add.commute)
qed

lemma rr_read_skips:
  assumes "0 < n" "st_in (rr_stream r) \<noteq> []"
  obtains k where "0 < k" "k \<le> n" "k \<le> length (st_in (rr_stream r))"
    "rr_read sched n r = (Inr (take k (st_in (rr_stream r))), rr_skip k r)"
proof (cases "rr_pending r = []")
  case True
  let ?k = "min (min n (Suc (sched (rr_conn r)))) (length (st_in (rr_conn r)))"
  have "st_in (rr_conn r) \<noteq> []" using True assms(2) by (simp add: rr_stream_def)
  with True assms(1) show ?thesis
    by (intro that [of ?k]) (simp_all add: rr_read_def conn_read_def rr_stream_def rr_skip_def Let_def min_def)
next
  case False
  let ?k = "min n (length (rr_pending r))"
  show ?thesis
    using False assms(1) by (intro that [of ?k]) (simp_all add: rr_read_def rr_stream_def rr_skip_def Let_def min_def)
qed

text \<open>\<open>io.ReadFull\<close> on a recorder reads its stream and leaves the advanced recorder.\<close>

lemma rr_read_full_acc:
  "length acc \<le> n \<Longrightarrow> n \<le> length acc + length (st_in (rr_stream r)) \<Longrightarrow>
     io_read_full (rr_read sched) n acc r =
       Some (Inr (acc @ take (n - length acc) (st_in (rr_stream r))), rr_skip (n - length acc) r)"
proof (induction "n - length acc" arbitrary: acc r rule: less_induct)
  case less
  show ?case
  proof (cases "n = length acc")
    case True
    then show ?thesis by (simp add: io_read_full.simps)
  next
    case False
    then have "0 < n - length acc" "st_in (rr_stream r) \<noteq> []" using less.prems by auto
    then obtain k where k: "0 < k" "k \<le> n - length acc" "k \<le> length (st_in (rr_stream r))"
      "rr_read sched (n - length acc) r = (Inr (take k (st_in (rr_stream r))), rr_skip k r)"
      by (rule rr_read_skips)
    let ?acc = "acc @ take k (st_in (rr_stream r))"
    have l: "length ?acc = length acc + k" using k by simp
    have "io_read_full (rr_read sched) n acc r = io_read_full (rr_read sched) n ?acc (rr_skip k r)"
      using False less.prems k by (subst io_read_full.simps) simp
    also have "\<dots> = Some (Inr (?acc @ take (n - length ?acc) (st_in (rr_stream (rr_skip k r)))), rr_skip (n - length ?acc) (rr_skip k r))"
      using k l less.prems by (intro less.hyps) (auto simp: rr_skip_stream)
    also have "?acc @ take (n - length ?acc) (st_in (rr_stream (rr_skip k r))) = acc @ take (n - length acc) (st_in (rr_stream r))"
      using k l by (simp add: rr_skip_stream flip: take_add)
    also have "rr_skip (n - length ?acc) (rr_skip k r) = rr_skip (n - length acc) r"
      using k l by (simp flip: rr_skip_add)
    finally show ?thesis .
  qed
qed

lemma rr_read_full:
  assumes "n \<le> length (st_in (rr_stream r))"
  shows "io_read_full (rr_read sched) n [] r =
    Some (fst (read_full n (rr_stream r)), rr_advance r (snd (read_full n (rr_stream r))))"
  using rr_read_full_acc [of "[]" n r sched] assms by (simp add: rr_advance_def)

lemma rr_advance_total:
  "rr_capture (rr_advance r st) @ st_in (rr_conn (rr_advance r st)) = rr_capture r @ st_in (rr_conn r)"
  by (simp add: rr_advance_def rr_skip_total)

lemma rr_advance_pending:
  "length (st_in st) + length (rr_pending r) \<le> length (st_in (rr_stream r)) \<Longrightarrow> rr_pending (rr_advance r st) = []"
  by (simp add: rr_advance_def rr_skip_pending)

lemma rr_stream_advance:
  assumes "st_in (rr_stream r) = xs @ st_in st" "st_end st = st_end (rr_conn r)"
  shows "rr_stream (rr_advance r st) = st"
  using assms by (simp add: rr_advance_def rr_skip_stream) (simp add: rr_stream_def)

section \<open>Sessions\<close>

text \<open>The statistics after a session that has ended.\<close>

definition session_stats :: "string \<Rightarrow> nat \<Rightarrow> nat \<Rightarrow> Tracker \<Rightarrow> Tracker" where
  "session_stats user up down t = OnDisconnect user (AddTraffic user (int up) (int down) (OnConnect user t))"

lemma upd_simps [simp]:
  "s_rt (upd_metrics f s) = s_rt s" "s_metrics (upd_stats g s) = s_metrics s"
  "s_rt (upd_stats g s) = (s_rt s)\<lparr>rt_Stats := g (rt_Stats (s_rt s))\<rparr>"
  by (simp_all add: upd_metrics_def upd_stats_def)

lemma run_session_Some:
  assumes "run_session w crd cwr c dc user dcID s = Some (se, s')"
  shows "se_user se = user" "se_dc se = dcID"
    "s_rt s' = (s_rt s)\<lparr>rt_Stats := session_stats user (se_up se) (se_down se) (rt_Stats (s_rt s))\<rparr>"
    "pipe_to w crd cwr c dc = Some (se_up se, se_down se, se_client se, se_server se)"
  using assms by (auto simp: run_session_def session_stats_def Let_def bind_eq_Some_conv)

lemma relayMTProto_cases:
  assumes "relayMTProto w crd cwr c dcID user ch remote s = Some (r, s')"
  obtains (refused) e where "r = Err e" "s' = s"
  | (crashed) f where "r = Panic" "s_rt s' = (s_rt s)\<lparr>rt_Stats := f\<rparr>"
  | (relayed) se dc where "r = Ok se" "se_user se = user" "se_dc se = dcID"
      "s_rt s' = (s_rt s)\<lparr>rt_Stats := session_stats user (se_up se) (se_down se) (rt_Stats (s_rt s))\<rparr>"
      "pipe_to w crd cwr c dc = Some (se_up se, se_down se, se_client se, se_server se)"
proof -
  have crash: thesis if "r = Panic" "s' = s"
    using crashed [of "rt_Stats (s_rt s)"] that by simp
  have run: thesis if x: "Option.bind (run_session w crd cwr c dc user dcID s) (\<lambda>(se, s'). Some (Ok se, s')) = Some (r, s')" for dc
  proof -
    from x obtain se where se: "run_session w crd cwr c dc user dcID s = Some (se, s')" "r = Ok se"
      by (auto simp: bind_eq_Some_conv)
    show thesis by (rule relayed [OF se(2) run_session_Some [OF se(1)]])
  qed
  show thesis
  proof (cases "IsFront (cfg_Relay (rt_Snapshot (s_rt s)))")
    case True
    show thesis
    proof (cases "PSKBytes (cfg_Relay (rt_Snapshot (s_rt s)))")
      case (Ok psk)
      show thesis
      proof (cases "rel_PeerAddr (cfg_Relay (rt_Snapshot (s_rt s))) = []")
        case peer: False
        show thesis
          using assms True Ok peer run refused crash
          by (cases "DialFront (pr_hmac (w_prims w)) (env_to4 (w_mp w)) (w_front w) (w_frontRand w) psk dcID remote")
            (auto simp: relayMTProto_def)
      qed (use assms True Ok refused in \<open>auto simp: relayMTProto_def\<close>)
    qed (use assms True refused crash in \<open>auto simp: relayMTProto_def\<close>)
  next
    case False
    then obtain d where d: "dialDC w (rt_Snapshot (s_rt s)) dcID remote = Some d"
      using assms by (auto simp: relayMTProto_def bind_eq_Some_conv)
    show thesis
    proof (cases d)
      case (Ok dc)
      let ?j = "(case ch of None \<Rightarrow> Ok [] | Some ch \<Rightarrow> JA3 (pr_md5 (w_prims w)) (ch_raw ch)) :: (unit, string) res"
      show thesis
        using assms False d Ok run crashed
        by (cases ?j) (auto simp: relayMTProto_def)
    qed (use assms False d refused crash in \<open>auto simp: relayMTProto_def\<close>)
  qed
qed

section \<open>How the runtime changes\<close>

text \<open>What no connection changes of the runtime, and that it stays sound.\<close>

definition parts_ok :: "Runtime \<Rightarrow> bool" where
  "parts_ok r \<longleftrightarrow> rt_Replay r \<noteq> None \<and> rt_Limiter r \<noteq> None \<and> features_ok r"

definition rt_evolves :: "Runtime \<Rightarrow> Runtime \<Rightarrow> bool" where
  "rt_evolves r r' \<longleftrightarrow> rt_Config r' = rt_Config r \<and> rt_Users r' = rt_Users r \<and> rt_Limiter r' = rt_Limiter r
     \<and> rt_LimiterID r' = rt_LimiterID r \<and> (parts_ok r \<longrightarrow> parts_ok r')"

lemma rt_evolves_inv: "rt_evolves r r' \<Longrightarrow> rt_inv r \<Longrightarrow> rt_inv r'"
  by (simp add: rt_evolves_def parts_ok_def rt_inv_def)

lemma rt_evolves_refl [simp]: "rt_evolves r r"
  by (simp add: rt_evolves_def)

lemma rt_evolves_trans [trans]: "rt_evolves r r' \<Longrightarrow> rt_evolves r' r'' \<Longrightarrow> rt_evolves r r''"
  by (simp add: rt_evolves_def)

definition bl_sound :: "Blacklist option \<Rightarrow> bool" where
  "bl_sound bo \<longleftrightarrow> (\<forall>b. bo = Some b \<longrightarrow> bl_inv b)"

definition sh_sound :: "ServerHelloRotator option \<Rightarrow> bool" where
  "sh_sound ro \<longleftrightarrow> ro \<noteq> None \<and> sh_valid ro"

definition fr_sound :: "FingerprintRotator option \<Rightarrow> bool" where
  "fr_sound ro \<longleftrightarrow> ro \<noteq> None \<and> fr_valid ro"

lemma parts_ok_sound:
  "parts_ok r \<longleftrightarrow> rt_Replay r \<noteq> None \<and> rt_Limiter r \<noteq> None \<and> fr_sound (rt_FingerprintRotator r)
     \<and> sh_sound (rt_ServerHelloRotator r) \<and> sr_valid (rt_SNIRotator r) \<and> bl_sound (rt_ProbeBlacklist r)"
  unfolding parts_ok_def features_ok_def bl_sound_def sh_sound_def fr_sound_def by blast

lemma rt_evolves_upd:
  "rt_evolves r (r\<lparr>rt_Stats := t\<rparr>)"
  "(rt_Replay r = None \<or> c \<noteq> None) \<Longrightarrow> rt_evolves r (r\<lparr>rt_Replay := c\<rparr>)"
  "(sh_sound (rt_ServerHelloRotator r) \<Longrightarrow> sh_sound sh) \<Longrightarrow> rt_evolves r (r\<lparr>rt_ServerHelloRotator := sh\<rparr>)"
  "(fr_sound (rt_FingerprintRotator r) \<Longrightarrow> fr_sound fp) \<Longrightarrow> rt_evolves r (r\<lparr>rt_FingerprintRotator := fp\<rparr>)"
  "(sr_valid (rt_SNIRotator r) \<Longrightarrow> sr_valid sr) \<Longrightarrow> rt_evolves r (r\<lparr>rt_SNIRotator := sr\<rparr>)"
  "(bl_sound (rt_ProbeBlacklist r) \<Longrightarrow> bl_sound bl) \<Longrightarrow> rt_evolves r (r\<lparr>rt_ProbeBlacklist := bl\<rparr>)"
  by (auto simp: rt_evolves_def parts_ok_sound)

lemma sh_Pick_None: "sh_Pick now tape ro = (x, ro', tape') \<Longrightarrow> (ro' = None) = (ro = None)"
  by (auto simp: sh_Pick_def Let_def split: option.splits if_splits prod.splits)

lemma WriteServerHello_rotator:
  assumes "WriteServerHelloWithNoise hmac now tape ent pads ch secret noise ro conn = (r, ro', conn')"
  shows "sh_valid ro \<Longrightarrow> sh_valid ro' \<and> r \<noteq> Panic" "(ro' = None) = (ro = None)"
proof -
  obtain x ro1 tape1 where p: "sh_Pick now tape ro = (x :: (server_hello_error, string) res, ro1, tape1)" by (metis prod_cases3)
  have e: "ro' = ro1 \<and> (\<forall>y. x = Ok y \<longrightarrow> r \<noteq> Panic)"
  proof (cases x)
    case (Ok profile)
    obtain padLen rest where pl: "paddingLen noise tape1 = (padLen, rest)" by force
    obtain ok conn1 where sw: "sink_write (seal_packet hmac secret (ch_random ch)
        (handshake_packet (buildServerHello ch profile ent) (take (nat padLen) pads))) conn = (ok, conn1)" by force
    show ?thesis
      using assms unfolding WriteServerHelloWithNoise_def p Ok Let_def pl prod.case res.case sw
      by (cases ok) (auto split: if_splits)
  qed (use assms in \<open>simp_all add: WriteServerHelloWithNoise_def p\<close>)
  show "sh_valid ro' \<and> r \<noteq> Panic" if "sh_valid ro"
  proof -
    have "\<exists>y ro2 tape2. sh_Pick now tape ro = (Ok y :: (server_hello_error, string) res, ro2, tape2) \<and> sh_valid ro2"
      using sh_Pick_valid [OF that] by blast
    with p e show ?thesis by auto
  qed
  show "(ro' = None) = (ro = None)"
    using sh_Pick_None [OF p] e by simp
qed

lemma tls_greet_facts:
  assumes "tls_greet w ch t = (r, t')"
  shows "ts_rec t' = ts_rec t" "ts_hello t' = ts_hello t"
    "rt_evolves (s_rt (ts_server t)) (s_rt (ts_server t'))" "rt_Stats (s_rt (ts_server t')) = rt_Stats (s_rt (ts_server t))"
    "r = Ok u \<Longrightarrow> CheckClientHelloPolicy (Some ch) (tls_ClientHelloPolicy (cfg_TLS (rt_Config (s_rt (ts_server t))))) = Ok ()
       \<and> MatchClientHello (w_prims w) (w_clock w AtMatch) ch (rt_Users (s_rt (ts_server t))) = Ok u"
proof -
  let ?s = "ts_server t"
  let ?rt = "s_rt ?s"
  define W where "W v = WriteServerHelloWithNoise (pr_hmac (w_prims w)) (w_clock w AtHello) (w_helloTape w) (w_helloRand w)
      (w_padding w) ch (s_key (u_Secret v)) (cfg_NoiseParams (rt_Config ?rt)) (rt_ServerHelloRotator ?rt) (ts_sink t)" for v :: User
  define rot sk where "rot v = fst (snd (W v))" and "sk v = snd (snd (W v))" for v :: User
  have ws: "WriteServerHelloWithNoise (pr_hmac (w_prims w)) (w_clock w AtHello) (w_helloTape w) (w_helloRand w)
      (w_padding w) ch (s_key (u_Secret v)) (cfg_NoiseParams (rt_Config ?rt)) (rt_ServerHelloRotator ?rt) (ts_sink t)
      = (fst (W v), rot v, sk v)" for v
    by (simp add: W_def rot_def sk_def)
  have ev: "rt_evolves ?rt (?rt\<lparr>rt_ServerHelloRotator := rot v\<rparr>)" for v
    using WriteServerHello_rotator [OF ws [of v]] by (intro rt_evolves_upd(3)) (auto simp: sh_sound_def)
  have "(\<exists>e. r = Err e \<or> r = Panic) \<and> t' = t \<or> (\<exists>v. MatchClientHello (w_prims w) (w_clock w AtMatch) ch (rt_Users ?rt) = Ok v
      \<and> CheckClientHelloPolicy (Some ch) (tls_ClientHelloPolicy (cfg_TLS (rt_Config ?rt))) = Ok ()
      \<and> t' = t\<lparr>ts_sink := sk v, ts_server := ?s\<lparr>s_rt := ?rt\<lparr>rt_ServerHelloRotator := rot v\<rparr>\<rparr>\<rparr> \<and> (r = Ok v \<or> (\<forall>u. r \<noteq> Ok u)))"
    using assms by (auto simp: tls_greet_def ws rt_Snapshot_def Let_def split: res.splits)
  then show "ts_rec t' = ts_rec t" "ts_hello t' = ts_hello t"
    "rt_evolves (s_rt (ts_server t)) (s_rt (ts_server t'))" "rt_Stats (s_rt (ts_server t')) = rt_Stats (s_rt (ts_server t))"
    "r = Ok u \<Longrightarrow> CheckClientHelloPolicy (Some ch) (tls_ClientHelloPolicy (cfg_TLS (rt_Config (s_rt (ts_server t))))) = Ok ()
       \<and> MatchClientHello (w_prims w) (w_clock w AtMatch) ch (rt_Users (s_rt (ts_server t))) = Ok u"
    using ev by auto
qed

lemma tls_session_facts:
  assumes "tls_session w ch u remote t = Some (r, t')"
  shows "\<exists>st. ts_rec t' = rr_advance (ts_rec t) st" "ts_hello t' = ts_hello t" "ts_sink t' = ts_sink t"
    "rt_evolves (s_rt (ts_server t)) (s_rt (ts_server t'))"
    "r = Err e \<Longrightarrow> rt_Stats (s_rt (ts_server t')) = rt_Stats (s_rt (ts_server t))"
    "r = Ok se \<Longrightarrow> se_user se = u_Name u \<and> rt_Stats (s_rt (ts_server t'))
       = session_stats (u_Name u) (se_up se) (se_down se) (rt_Stats (s_rt (ts_server t)))"
proof -
  let ?p = "w_prims w"
  let ?tc = "\<lparr>rc_in = rr_stream (ts_rec t), rc_sink = ts_sink t, readBuf = [], Policy = cfg_RecordPolicy (rt_Snapshot (s_rt (ts_server t))),
       recordsWritten = 0, bytesWritten = 0, splitDone = False\<rparr>"
  from assms obtain h tc where h: "Handshake (pr_ks ?p) (pr_sha ?p) rec_read ?tc (Some (s_key (u_Secret u))) = Some (h, tc)"
    by (auto simp: tls_session_def Let_def bind_eq_Some_conv)
  let ?t = "t\<lparr>ts_rec := rr_advance (ts_rec t) (rc_in tc)\<rparr>"
  consider (fail) e where "r = Err e \<or> r = Panic" "t' = ?t"
    | (relay) obf dc s' where "relayMTProto w (obf_read (pr_ks ?p) rec_rd) (obf_write (pr_ks ?p) rec_wr) (obf, tc, w_recordTape w)
        dc (u_Name u) (Some ch) remote (ts_server t) = Some (r, s')" "t' = ?t\<lparr>ts_server := s'\<rparr>"
    using assms h by (cases h) (auto simp: tls_session_def Let_def bind_eq_Some_conv)
  then have "\<exists>st. ts_rec t' = rr_advance (ts_rec t) st \<and> ts_hello t' = ts_hello t \<and> ts_sink t' = ts_sink t
    \<and> rt_evolves (s_rt (ts_server t)) (s_rt (ts_server t'))
    \<and> (\<forall>e. r = Err e \<longrightarrow> rt_Stats (s_rt (ts_server t')) = rt_Stats (s_rt (ts_server t)))
    \<and> (\<forall>se. r = Ok se \<longrightarrow> se_user se = u_Name u \<and> rt_Stats (s_rt (ts_server t'))
       = session_stats (u_Name u) (se_up se) (se_down se) (rt_Stats (s_rt (ts_server t))))"
  proof cases
    case fail
    then show ?thesis by auto
  next
    case relay
    from relay(1) show ?thesis
      by (cases rule: relayMTProto_cases) (use relay(2) in \<open>auto simp: rt_evolves_upd(1)\<close>)
  qed
  then show "\<exists>st. ts_rec t' = rr_advance (ts_rec t) st" "ts_hello t' = ts_hello t" "ts_sink t' = ts_sink t"
    "rt_evolves (s_rt (ts_server t)) (s_rt (ts_server t'))"
    "r = Err e \<Longrightarrow> rt_Stats (s_rt (ts_server t')) = rt_Stats (s_rt (ts_server t))"
    "r = Ok se \<Longrightarrow> se_user se = u_Name u \<and> rt_Stats (s_rt (ts_server t'))
       = session_stats (u_Name u) (se_up se) (se_down se) (rt_Stats (s_rt (ts_server t)))"
    by auto
qed

section \<open>The handshake\<close>

lemma parseClientHello_consumes:
  assumes "parseClientHello spare s = (r, s')" "st_in s \<noteq> []"
  shows "length (st_in s') < length (st_in s)"
  using assms by (auto simp: parseClientHello_def read_full_def Let_def split: if_splits)

text \<open>What the closure leaves: the recorder has lost no byte of the client, and the runtime has evolved.\<close>

text \<open>The closure once the hello is parsed: the look at the replay cache, then the greeting and the session.\<close>

lemma tls_closure_hello:
  assumes "parseClientHello (w_spare w) (rr_stream (ts_rec t)) = (Ok ch, st)"
  obtains replayed cache t2 where
    "t2 = t\<lparr>ts_rec := rr_advance (ts_rec t) st, ts_hello := Some ch, ts_server := (ts_server t)\<lparr>s_rt := (s_rt (ts_server t))\<lparr>rt_Replay := cache\<rparr>\<rparr>\<rparr>"
    "rt_evolves (s_rt (ts_server t)) (s_rt (ts_server t2))"
    "replayed \<longleftrightarrow> (\<exists>c. rt_Replay (s_rt (ts_server t)) = Some c \<and> fst (Check (pr_sha (w_prims w)) (w_victim w) (w_clock w AtReplay) (Some ch) c))"
    "tls_closure w remote t = (if replayed then Some (Err PeReplay, t2\<lparr>ts_server :=
        upd_metrics (\<lambda>m. m\<lparr>mc_replayAttacks := mc_replayAttacks m + 1\<rparr>) (ts_server t2)\<rparr>)
      else (case tls_greet w ch t2 of (Err e, t) \<Rightarrow> Some (Err e, t) | (Panic, t) \<Rightarrow> Some (Panic, t)
            | (Ok matched, t) \<Rightarrow> tls_session w ch matched remote t))"
proof -
  let ?rt = "s_rt (ts_server t)"
  obtain replayed cache where c: "(case rt_Replay ?rt of None \<Rightarrow> (False, None)
      | Some c \<Rightarrow> (case Check (pr_sha (w_prims w)) (w_victim w) (w_clock w AtReplay) (Some ch) c of (b, c') \<Rightarrow> (b, Some c')))
      = (replayed, cache)" by force
  show thesis
  proof (rule that [of _ cache, OF refl])
    show "replayed \<longleftrightarrow> (\<exists>c. rt_Replay ?rt = Some c \<and> fst (Check (pr_sha (w_prims w)) (w_victim w) (w_clock w AtReplay) (Some ch) c))"
      using c by (auto split: option.splits prod.splits)
  qed (use c in \<open>auto simp: tls_closure_def assms Let_def intro!: rt_evolves_upd(2) split: option.splits prod.splits\<close>)
qed

lemma tls_closure_facts:
  assumes "tls_closure w remote t = Some (r, t')" "length (rr_pending (ts_rec t)) \<le> 1" "st_in (rr_stream (ts_rec t)) \<noteq> []"
  shows "rr_capture (ts_rec t') @ st_in (rr_conn (ts_rec t')) = rr_capture (ts_rec t) @ st_in (rr_conn (ts_rec t))"
    "rr_pending (ts_rec t') = []"
    "rt_evolves (s_rt (ts_server t)) (s_rt (ts_server t'))"
    "r = Err e \<Longrightarrow> rt_Stats (s_rt (ts_server t')) = rt_Stats (s_rt (ts_server t))"
    "r = Ok se \<Longrightarrow> rt_Stats (s_rt (ts_server t'))
       = session_stats (se_user se) (se_up se) (se_down se) (rt_Stats (s_rt (ts_server t)))"
    "r = Ok se \<Longrightarrow> \<exists>ch u st. parseClientHello (w_spare w) (rr_stream (ts_rec t)) = (Ok ch, st)
       \<and> (\<forall>c. rt_Replay (s_rt (ts_server t)) = Some c \<longrightarrow>
            \<not> fst (Check (pr_sha (w_prims w)) (w_victim w) (w_clock w AtReplay) (Some ch) c))
       \<and> CheckClientHelloPolicy (Some ch) (tls_ClientHelloPolicy (cfg_TLS (rt_Config (s_rt (ts_server t))))) = Ok ()
       \<and> MatchClientHello (w_prims w) (w_clock w AtMatch) ch (rt_Users (s_rt (ts_server t))) = Ok u \<and> se_user se = u_Name u"
proof -
  let ?s = "ts_server t"
  let ?rt = "s_rt ?s"
  obtain p st where p: "parseClientHello (w_spare w) (rr_stream (ts_rec t)) = (p, st)" by force
  define t1 where "t1 = t\<lparr>ts_rec := rr_advance (ts_rec t) st\<rparr>"
  have "length (st_in st) < length (st_in (rr_stream (ts_rec t)))"
    using parseClientHello_consumes [OF p assms(3)] .
  then have t1: "rr_capture (ts_rec t1) @ st_in (rr_conn (ts_rec t1)) = rr_capture (ts_rec t) @ st_in (rr_conn (ts_rec t))"
    "rr_pending (ts_rec t1) = []"
    using assms(2) by (auto simp: t1_def rr_advance_total intro!: rr_advance_pending)
  have *: "rr_capture (ts_rec t') @ st_in (rr_conn (ts_rec t')) = rr_capture (ts_rec t) @ st_in (rr_conn (ts_rec t))
    \<and> rr_pending (ts_rec t') = [] \<and> rt_evolves ?rt (s_rt (ts_server t'))
    \<and> (\<forall>e. r = Err e \<longrightarrow> rt_Stats (s_rt (ts_server t')) = rt_Stats ?rt)
    \<and> (\<forall>se. r = Ok se \<longrightarrow> rt_Stats (s_rt (ts_server t')) = session_stats (se_user se) (se_up se) (se_down se) (rt_Stats ?rt)
        \<and> (\<exists>ch u. p = Ok ch \<and> (\<forall>c. rt_Replay ?rt = Some c \<longrightarrow>
            \<not> fst (Check (pr_sha (w_prims w)) (w_victim w) (w_clock w AtReplay) (Some ch) c))
          \<and> CheckClientHelloPolicy (Some ch) (tls_ClientHelloPolicy (cfg_TLS (rt_Config ?rt))) = Ok ()
          \<and> MatchClientHello (w_prims w) (w_clock w AtMatch) ch (rt_Users ?rt) = Ok u \<and> se_user se = u_Name u))"
  proof (cases p)
    case (Ok ch)
    obtain replayed cache t2 where
      t2_def: "t2 = t\<lparr>ts_rec := rr_advance (ts_rec t) st, ts_hello := Some ch, ts_server := ?s\<lparr>s_rt := ?rt\<lparr>rt_Replay := cache\<rparr>\<rparr>\<rparr>"
      and e2: "rt_evolves ?rt (s_rt (ts_server t2))"
      and replayed: "replayed \<longleftrightarrow> (\<exists>c. rt_Replay ?rt = Some c \<and> fst (Check (pr_sha (w_prims w)) (w_victim w) (w_clock w AtReplay) (Some ch) c))"
      and cl: "tls_closure w remote t = (if replayed then Some (Err PeReplay, t2\<lparr>ts_server :=
          upd_metrics (\<lambda>m. m\<lparr>mc_replayAttacks := mc_replayAttacks m + 1\<rparr>) (ts_server t2)\<rparr>)
        else (case tls_greet w ch t2 of (Err e, t) \<Rightarrow> Some (Err e, t) | (Panic, t) \<Rightarrow> Some (Panic, t)
              | (Ok matched, t) \<Rightarrow> tls_session w ch matched remote t))"
      by (rule tls_closure_hello [OF p [unfolded Ok], of remote])
    have t2: "ts_rec t2 = ts_rec t1" "rt_Stats (s_rt (ts_server t2)) = rt_Stats ?rt" "rt_Users (s_rt (ts_server t2)) = rt_Users ?rt"
      "rt_Config (s_rt (ts_server t2)) = rt_Config ?rt"
      by (simp_all add: t1_def t2_def)
    have nr: "\<not> replayed \<Longrightarrow> rt_Replay ?rt = Some d \<Longrightarrow>
        \<not> fst (Check (pr_sha (w_prims w)) (w_victim w) (w_clock w AtReplay) (Some ch) d)" for d
      using replayed by blast
    show ?thesis
    proof (cases replayed)
      case True
      with cl assms(1) e2 t1 t2 show ?thesis by auto
    next
      case False
      obtain g t3 where g: "tls_greet w ch t2 = (g, t3)" by force
      note gf = tls_greet_facts [OF g]
      have e3: "rt_evolves ?rt (s_rt (ts_server t3))"
        using e2 gf(3) by (rule rt_evolves_trans)
      show ?thesis
      proof (cases g)
        case (Ok u)
        with cl assms(1) False g have se: "tls_session w ch u remote t3 = Some (r, t')" by simp
        note sf = tls_session_facts [OF se]
        obtain st' where st': "ts_rec t' = rr_advance (ts_rec t1) st'"
          using sf(1) gf(1) t2(1) by auto
        have "rr_pending (ts_rec t') = []"
          using t1(2) by (simp add: st' rr_advance_def rr_skip_pending)
        moreover have "rt_evolves ?rt (s_rt (ts_server t'))"
          using e3 sf(4) by (rule rt_evolves_trans)
        moreover have "r = Ok s1 \<Longrightarrow> se_user s1 = u_Name u \<and> rt_Stats (s_rt (ts_server t'))
            = session_stats (u_Name u) (se_up s1) (se_down s1) (rt_Stats ?rt)" for s1
          using sf(6) [of s1] gf(4) t2(2) by simp
        ultimately show ?thesis
          using t1(1) sf(5) gf(4) gf(5) [OF Ok] t2 nr [OF False] \<open>p = res.Ok ch\<close> by (auto simp: st' rr_advance_total)
      qed (use cl assms(1) False g gf t1 t2 e3 in auto)
    qed
  qed (use assms(1) t1 in \<open>auto simp: tls_closure_def p t1_def\<close>)
  from * show "rr_capture (ts_rec t') @ st_in (rr_conn (ts_rec t')) = rr_capture (ts_rec t) @ st_in (rr_conn (ts_rec t))"
    "rr_pending (ts_rec t') = []"
    "rt_evolves (s_rt (ts_server t)) (s_rt (ts_server t'))"
    "r = Err e \<Longrightarrow> rt_Stats (s_rt (ts_server t')) = rt_Stats (s_rt (ts_server t))"
    "r = Ok se \<Longrightarrow> rt_Stats (s_rt (ts_server t'))
       = session_stats (se_user se) (se_up se) (se_down se) (rt_Stats (s_rt (ts_server t)))"
    by blast+
  show "\<exists>ch u st. parseClientHello (w_spare w) (rr_stream (ts_rec t)) = (Ok ch, st)
       \<and> (\<forall>c. rt_Replay (s_rt (ts_server t)) = Some c \<longrightarrow>
            \<not> fst (Check (pr_sha (w_prims w)) (w_victim w) (w_clock w AtReplay) (Some ch) c))
       \<and> CheckClientHelloPolicy (Some ch) (tls_ClientHelloPolicy (cfg_TLS (rt_Config (s_rt (ts_server t))))) = Ok ()
       \<and> MatchClientHello (w_prims w) (w_clock w AtMatch) ch (rt_Users (s_rt (ts_server t))) = Ok u \<and> se_user se = u_Name u"
    if "r = Ok se" using * p that by auto
qed

section \<open>Rejection\<close>

lemma fr_RecordFailure_None: "fr_RecordFailure now ro = Ok ro' \<Longrightarrow> (ro' = None) = (ro = None)"
  by (auto simp: fr_RecordFailure_def Let_def split: option.splits if_splits)

lemma sh_RecordFailure_None: "sh_RecordFailure now ro = Ok ro' \<Longrightarrow> (ro' = None) = (ro = None)"
  by (auto simp: sh_RecordFailure_def Let_def split: option.splits if_splits)

lemma rotator_feedback_sound:
  "fr_RecordFailure now ro = (Ok fp :: ('e, FingerprintRotator option) res) \<Longrightarrow> fr_sound ro \<Longrightarrow> fr_sound fp"
  "sh_RecordFailure now rs = (Ok sh :: ('e, ServerHelloRotator option) res) \<Longrightarrow> sh_sound rs \<Longrightarrow> sh_sound sh"
  "fr_sound ro \<Longrightarrow> fr_sound (fr_RecordSuccess ro)" "sh_sound rs \<Longrightarrow> sh_sound (sh_RecordSuccess rs)"
proof -
  assume f: "fr_RecordFailure now ro = (Ok fp :: ('e, FingerprintRotator option) res)" "fr_sound ro"
  then have "\<exists>ro'. fr_RecordFailure now ro = (Ok ro' :: ('e, FingerprintRotator option) res) \<and> fr_valid ro'"
    using fr_feedback_valid(1) unfolding fr_sound_def by blast
  with f fr_RecordFailure_None [OF f(1)] show "fr_sound fp" by (auto simp: fr_sound_def)
next
  assume f: "sh_RecordFailure now rs = (Ok sh :: ('e, ServerHelloRotator option) res)" "sh_sound rs"
  then have "\<exists>ro'. sh_RecordFailure now rs = (Ok ro' :: ('e, ServerHelloRotator option) res) \<and> sh_valid ro'"
    using sh_feedback_valid(1) unfolding sh_sound_def by blast
  with f sh_RecordFailure_None [OF f(1)] show "sh_sound sh" by (auto simp: sh_sound_def)
next
  assume "fr_sound ro"
  then show "fr_sound (fr_RecordSuccess ro)"
    using fr_feedback_valid(2) [of ro] by (auto simp: fr_sound_def fr_RecordSuccess_def split: option.splits if_splits)
next
  assume "sh_sound rs"
  then show "sh_sound (sh_RecordSuccess rs)"
    using sh_feedback_valid(2) [of rs] by (auto simp: sh_sound_def sh_RecordSuccess_def split: option.splits if_splits)
qed

lemma onHandshakeFailure_facts:
  assumes "onHandshakeFailure w err s = Ok s'"
  shows "rt_evolves (s_rt s) (s_rt s')" "rt_Stats (s_rt s') = rt_Stats (s_rt s)"
proof -
  obtain fp sh where f: "fr_RecordFailure (w_clock w AtFingerprint) (rt_FingerprintRotator (s_rt s)) = (Ok fp :: ('a, _) res)"
    "sh_RecordFailure (w_clock w AtServerHello) (rt_ServerHelloRotator (s_rt s)) = (Ok sh :: ('a, _) res)"
    "s_rt s' = (s_rt s)\<lparr>rt_FingerprintRotator := fp, rt_ServerHelloRotator := sh\<rparr>"
    using assms by (auto simp: onHandshakeFailure_def recordTLSReject_def res_simps)
  have "rt_evolves (s_rt s) ((s_rt s)\<lparr>rt_FingerprintRotator := fp\<rparr>)"
    using rotator_feedback_sound(1) [OF f(1)] by (intro rt_evolves_upd(4))
  also have "rt_evolves \<dots> ((s_rt s)\<lparr>rt_FingerprintRotator := fp, rt_ServerHelloRotator := sh\<rparr>)"
    using rotator_feedback_sound(2) [OF f(2)] by (intro rt_evolves_upd(3)) simp
  finally show "rt_evolves (s_rt s) (s_rt s')" by (simp add: f(3))
  show "rt_Stats (s_rt s') = rt_Stats (s_rt s)" by (simp add: f(3))
qed

lemma onHandshakeSuccess_facts:
  "rt_evolves (s_rt s) (s_rt (onHandshakeSuccess s))" "rt_Stats (s_rt (onHandshakeSuccess s)) = rt_Stats (s_rt s)"
proof -
  let ?fp = "fr_RecordSuccess (rt_FingerprintRotator (s_rt s))" and ?sh = "sh_RecordSuccess (rt_ServerHelloRotator (s_rt s))"
  have "rt_evolves (s_rt s) ((s_rt s)\<lparr>rt_FingerprintRotator := ?fp\<rparr>)"
    by (intro rt_evolves_upd(4) rotator_feedback_sound(3))
  also have "rt_evolves \<dots> ((s_rt s)\<lparr>rt_FingerprintRotator := ?fp, rt_ServerHelloRotator := ?sh\<rparr>)"
    using rotator_feedback_sound(4) by (intro rt_evolves_upd(3)) simp
  finally show "rt_evolves (s_rt s) (s_rt (onHandshakeSuccess s))" by (simp add: onHandshakeSuccess_def)
  show "rt_Stats (s_rt (onHandshakeSuccess s)) = rt_Stats (s_rt s)" by (simp add: onHandshakeSuccess_def)
qed

lemma bl_step_sound: "bl_sound bo \<Longrightarrow> bl_sound (snd (bl_step ev bo))"
proof (cases bo)
  case None
  then show ?thesis by (cases ev) (simp_all add: bl_step_defs bl_sound_def)
next
  case (Some b)
  assume "bl_sound bo"
  with Some bl_step_inv [of b ev] show ?thesis by (auto simp: bl_sound_def)
qed

lemma recordProbe_facts:
  "rt_evolves (s_rt s) (s_rt (recordProbe w raddr s))" "rt_Stats (s_rt (recordProbe w raddr s)) = rt_Stats (s_rt s)"
proof -
  obtain bk bo where r: "RecordProbe (w_clock w AtProbe) (ClientIP raddr) (rt_ProbeBlacklist (s_rt s)) = (bk, bo)" by force
  then have "bl_sound (rt_ProbeBlacklist (s_rt s)) \<Longrightarrow> bl_sound bo"
    using bl_step_sound [of _ "ProbeAt (w_clock w AtProbe) (ClientIP raddr)"] by force
  then have e: "rt_evolves (s_rt s) ((s_rt s)\<lparr>rt_ProbeBlacklist := bo\<rparr>)"
    by (intro rt_evolves_upd(6))
  have "s_rt (recordProbe w raddr s) = s_rt s \<or> s_rt (recordProbe w raddr s) = (s_rt s)\<lparr>rt_ProbeBlacklist := bo\<rparr>"
    using r by (auto simp: recordProbe_def Let_def split: option.splits)
  with e show "rt_evolves (s_rt s) (s_rt (recordProbe w raddr s))" "rt_Stats (s_rt (recordProbe w raddr s)) = rt_Stats (s_rt s)"
    by auto
qed

lemma sr_Pick_keeps: "sr_Pick fallback now tape ro = (x :: ('e, string) res, ro', tape') \<Longrightarrow> sr_valid ro \<Longrightarrow> sr_valid ro'"
proof -
  assume p: "sr_Pick fallback now tape ro = (x, ro', tape')" and v: "sr_valid ro"
  have "\<exists>y ro2 tape2. sr_Pick fallback now tape ro = (Ok y :: ('e, string) res, ro2, tape2) \<and> sr_valid ro2"
    using sr_Pick_valid [OF v] by blast
  with p show "sr_valid ro'" by auto
qed

lemma PickMaskSNI_facts:
  assumes "PickMaskSNI now tape fallback r = (h :: ('e, string) res, r')"
  shows "rt_evolves r r' \<and> rt_Stats r' = rt_Stats r"
proof (cases "rt_SNIRotator r")
  case None
  with assms show ?thesis by (simp add: PickMaskSNI_def)
next
  case (Some ro)
  obtain x ro' tape' where p: "sr_Pick fallback now tape (Some ro) = (x :: ('e, string) res, ro', tape')" by (metis prod_cases3)
  have "rt_evolves r (r\<lparr>rt_SNIRotator := ro'\<rparr>)"
    using Some sr_Pick_keeps [OF p] by (intro rt_evolves_upd(5)) simp
  moreover have "r' = r\<lparr>rt_SNIRotator := ro'\<rparr>"
    using assms Some p by (simp add: PickMaskSNI_def)
  ultimately show ?thesis by simp
qed

lemma handleRejectedTLS_facts:
  assumes "handleRejectedTLS w rec sk ch s = (r, s')"
  shows "rt_evolves (s_rt s) (s_rt s')" "rt_Stats (s_rt s') = rt_Stats (s_rt s)"
    "r = Ok (Spliced c prefix host port) \<Longrightarrow> c = (rec, sk) \<and> prefix = Snapshot rec \<and> port = FrontingPort (rt_Config (s_rt s))
       \<and> FrontingAction (rt_Config (s_rt s)) = ''splice''"
    "r \<noteq> Ok (RelayedTLS se)" "r \<noteq> Ok (RelayedSecure se')"
proof -
  obtain h rt where p: "PickMaskSNI (w_clock w AtSNI) (w_sniTape w) (MaskHost (rt_Users (s_rt s))) (s_rt s) = (h :: (unit, string) res, rt)" by force
  have "s_rt s' = rt \<and> (\<forall>c prefix host port. r = Ok (Spliced c prefix host port) \<longrightarrow> c = (rec, sk) \<and> prefix = Snapshot rec
       \<and> port = FrontingPort (rt_Config (s_rt s)) \<and> FrontingAction (rt_Config (s_rt s)) = ''splice'')
      \<and> r \<noteq> Ok (RelayedTLS se) \<and> r \<noteq> Ok (RelayedSecure se')"
    using assms by (auto simp: handleRejectedTLS_def p rt_Snapshot_def Let_def split: res.splits if_splits prod.splits)
  with PickMaskSNI_facts [OF p] show "rt_evolves (s_rt s) (s_rt s')" "rt_Stats (s_rt s') = rt_Stats (s_rt s)"
    "r = Ok (Spliced c prefix host port) \<Longrightarrow> c = (rec, sk) \<and> prefix = Snapshot rec \<and> port = FrontingPort (rt_Config (s_rt s))
       \<and> FrontingAction (rt_Config (s_rt s)) = ''splice''"
    "r \<noteq> Ok (RelayedTLS se)" "r \<noteq> Ok (RelayedSecure se')"
    by auto
qed

section \<open>Whole connections\<close>

text \<open>Who may be relayed: the conditions on a hello that lead to a session for a user.\<close>

definition hello_admitted :: "world \<Rightarrow> Runtime \<Rightarrow> client_hello \<Rightarrow> User \<Rightarrow> bool" where
  "hello_admitted w rt ch u \<longleftrightarrow>
     (\<forall>c. rt_Replay rt = Some c \<longrightarrow> \<not> fst (Check (pr_sha (w_prims w)) (w_victim w) (w_clock w AtReplay) (Some ch) c))
     \<and> CheckClientHelloPolicy (Some ch) (tls_ClientHelloPolicy (cfg_TLS (rt_Config rt))) = Ok ()
     \<and> MatchClientHello (w_prims w) (w_clock w AtMatch) ch (rt_Users rt) = Ok u"

fun is_session :: "ending \<Rightarrow> bool" where
  "is_session (RelayedTLS se) = True"
| "is_session (RelayedSecure se) = True"
| "is_session _ = False"

lemma handleFakeTLSPath_facts:
  assumes "handleFakeTLSPath w rec sk raddr s = Some (r, s')" "length (rr_pending rec) \<le> 1" "st_in (rr_stream rec) \<noteq> []"
  shows "rt_evolves (s_rt s) (s_rt s')"
    "r = Ok (RelayedTLS se) \<Longrightarrow> rt_Stats (s_rt s') = session_stats (se_user se) (se_up se) (se_down se) (rt_Stats (s_rt s))
       \<and> (\<exists>ch u st. parseClientHello (w_spare w) (rr_stream rec) = (Ok ch, st) \<and> hello_admitted w (s_rt s) ch u \<and> se_user se = u_Name u)"
    "r = Ok e \<Longrightarrow> \<not> is_session e \<Longrightarrow> rt_Stats (s_rt s') = rt_Stats (s_rt s)"
    "r = Ok (Spliced c prefix host port) \<Longrightarrow> prefix @ rr_pend c = rr_capture rec @ st_in (rr_conn rec)
       \<and> port = FrontingPort (rt_Config (s_rt s)) \<and> FrontingAction (rt_Config (s_rt s)) = ''splice''"
    "r \<noteq> Ok (RelayedSecure se')"
proof -
  let ?t0 = "\<lparr>ts_rec = rec, ts_sink = sk, ts_hello = None, ts_server = s\<rparr>"
  from assms(1) obtain q t where q: "tls_closure w (remoteAddr raddr) ?t0 = Some (q, t)"
    by (auto simp: handleFakeTLSPath_def bind_eq_Some_conv)
  note cf = tls_closure_facts [OF q, simplified, OF assms(2) [simplified] assms(3)]
  have "rt_evolves (s_rt s) (s_rt s')
    \<and> (\<forall>se. r = Ok (RelayedTLS se) \<longrightarrow> rt_Stats (s_rt s') = session_stats (se_user se) (se_up se) (se_down se) (rt_Stats (s_rt s))
       \<and> (\<exists>ch u st. parseClientHello (w_spare w) (rr_stream rec) = (Ok ch, st) \<and> hello_admitted w (s_rt s) ch u \<and> se_user se = u_Name u))
    \<and> (\<forall>e. r = Ok e \<longrightarrow> \<not> is_session e \<longrightarrow> rt_Stats (s_rt s') = rt_Stats (s_rt s))
    \<and> (\<forall>c prefix host port. r = Ok (Spliced c prefix host port) \<longrightarrow> prefix @ rr_pend c = rr_capture rec @ st_in (rr_conn rec)
       \<and> port = FrontingPort (rt_Config (s_rt s)) \<and> FrontingAction (rt_Config (s_rt s)) = ''splice'')
    \<and> (\<forall>se. r \<noteq> Ok (RelayedSecure se))"
  proof (cases q)
    case (Ok s1)
    then have r: "r = Ok (RelayedTLS s1)" "s' = onHandshakeSuccess (ts_server t)"
      using assms(1) q by (auto simp: handleFakeTLSPath_def)
    have "rt_evolves (s_rt s) (s_rt s')"
      using rt_evolves_trans [OF cf(3) onHandshakeSuccess_facts(1)] r(2) by simp
    with r cf(5,6) [OF Ok] show ?thesis
      by (auto simp: onHandshakeSuccess_facts(2) hello_admitted_def)
  next
    case (Err err)
    show ?thesis
    proof (cases "onHandshakeFailure w err (ts_server t) :: (unit, server) res")
      case (Ok s2)
      define s3 where "s3 = (if \<not> isIOTimeoutErr err then recordProbe w raddr s2 else s2)"
      have hr: "handleRejectedTLS w (ts_rec t) (ts_sink t) (ts_hello t) s3 = (r, s')"
        using assms(1) q Err Ok by (simp add: handleFakeTLSPath_def s3_def Let_def)
      have "rt_evolves (s_rt s) (s_rt s2)"
        using rt_evolves_trans [OF cf(3) onHandshakeFailure_facts(1) [OF Ok]] .
      moreover have "rt_evolves (s_rt s2) (s_rt s3)" "rt_Stats (s_rt s3) = rt_Stats (s_rt s2)"
        by (simp_all add: s3_def recordProbe_facts)
      ultimately have e3: "rt_evolves (s_rt s) (s_rt s3)" "rt_Stats (s_rt s3) = rt_Stats (s_rt s)"
        using rt_evolves_trans onHandshakeFailure_facts(2) [OF Ok] cf(4) [OF Err] by auto
      note hf = handleRejectedTLS_facts [OF hr]
      have e': "rt_evolves (s_rt s) (s_rt s')" "rt_Stats (s_rt s') = rt_Stats (s_rt s)"
        using rt_evolves_trans [OF e3(1) hf(1)] hf(2) e3(2) by simp_all
      have c3: "rt_Config (s_rt s3) = rt_Config (s_rt s)" using e3(1) by (simp add: rt_evolves_def)
      have "prefix @ rr_pend c = rr_capture rec @ st_in (rr_conn rec) \<and> port = FrontingPort (rt_Config (s_rt s))
          \<and> FrontingAction (rt_Config (s_rt s)) = ''splice''"
        if "r = Ok (Spliced c prefix host port)" for c prefix host port
        using hf(3) [OF that] cf(1,2) c3 by (auto simp: Snapshot_def rr_pend_def)
      with e' hf(4,5) show ?thesis by blast
    qed (use assms(1) q Err cf in \<open>auto simp: handleFakeTLSPath_def\<close>)
  next
    case Panic
    with assms(1) q cf show ?thesis by (auto simp: handleFakeTLSPath_def)
  qed
  then show "rt_evolves (s_rt s) (s_rt s')"
    "r = Ok (RelayedTLS se) \<Longrightarrow> rt_Stats (s_rt s') = session_stats (se_user se) (se_up se) (se_down se) (rt_Stats (s_rt s))
       \<and> (\<exists>ch u st. parseClientHello (w_spare w) (rr_stream rec) = (Ok ch, st) \<and> hello_admitted w (s_rt s) ch u \<and> se_user se = u_Name u)"
    "r = Ok e \<Longrightarrow> \<not> is_session e \<Longrightarrow> rt_Stats (s_rt s') = rt_Stats (s_rt s)"
    "r = Ok (Spliced c prefix host port) \<Longrightarrow> prefix @ rr_pend c = rr_capture rec @ st_in (rr_conn rec)
       \<and> port = FrontingPort (rt_Config (s_rt s)) \<and> FrontingAction (rt_Config (s_rt s)) = ''splice''"
    "r \<noteq> Ok (RelayedSecure se')"
    by blast+
qed

lemma handleSecure_facts:
  assumes "handleSecure w st sk header remote s = Some (r, s')"
  shows "rt_evolves (s_rt s) (s_rt s')" "r = Err e \<Longrightarrow> s' = s"
    "r = Ok se \<Longrightarrow> rt_Stats (s_rt s') = session_stats (se_user se) (se_up se) (se_down se) (rt_Stats (s_rt s))
       \<and> (\<exists>u. MatchSecureHeader (w_prims w) header (rt_Users (s_rt s)) = Ok (u, se_dc se) \<and> se_user se = u_Name u)"
proof -
  have "rt_evolves (s_rt s) (s_rt s') \<and> (\<forall>e. r = Err e \<longrightarrow> s' = s)
    \<and> (\<forall>se. r = Ok se \<longrightarrow> rt_Stats (s_rt s') = session_stats (se_user se) (se_up se) (se_down se) (rt_Stats (s_rt s))
       \<and> (\<exists>u. MatchSecureHeader (w_prims w) header (rt_Users (s_rt s)) = Ok (u, se_dc se) \<and> se_user se = u_Name u))"
  proof (cases "MatchSecureHeader (w_prims w) header (rt_Users (s_rt s))")
    case (Ok m)
    obtain u dc where m: "m = (u, dc)" by force
    show ?thesis
    proof (cases "ConnFromHeader (pr_ks (w_prims w)) (pr_sha (w_prims w)) header (s_key (u_Secret u))")
      case c: (Ok oc)
      obtain obf d where oc: "oc = (obf, d)" by force
      have "relayMTProto w (obf_read (pr_ks (w_prims w)) (tcp_read (w_sched w))) (obf_write (pr_ks (w_prims w)) tcp_write) (obf, st, sk)
          dc (u_Name u) None remote s = Some (r, s')"
        using assms Ok m c oc by (simp add: handleSecure_def Let_def)
      then show ?thesis
        by (cases rule: relayMTProto_cases) (use Ok m in \<open>auto simp: rt_evolves_upd(1)\<close>)
    qed (use assms Ok m in \<open>auto simp: handleSecure_def Let_def\<close>)
  qed (use assms in \<open>auto simp: handleSecure_def Let_def\<close>)
  then show "rt_evolves (s_rt s) (s_rt s')" "r = Err e \<Longrightarrow> s' = s"
    "r = Ok se \<Longrightarrow> rt_Stats (s_rt s') = session_stats (se_user se) (se_up se) (se_down se) (rt_Stats (s_rt s))
       \<and> (\<exists>u. MatchSecureHeader (w_prims w) header (rt_Users (s_rt s)) = Ok (u, se_dc se) \<and> se_user se = u_Name u)"
    by blast+
qed

lemma serve_stranger_facts:
  assumes "serve_stranger w first st sk raddr s = (r, s')"
  shows "rt_evolves (s_rt s) (s_rt s') \<and> rt_Stats (s_rt s') = rt_Stats (s_rt s)
    \<and> r = Ok (FallbackServed (st\<lparr>st_in := first # st_in st\<rparr>) sk (fallbackOpts (rt_Config (s_rt s))))"
  using assms recordProbe_facts by (auto simp: serve_stranger_def rt_Snapshot_def Let_def)

lemma match_secure_loop_Ok:
  "match_secure_loop p header us = Ok (u, dc) \<Longrightarrow> u \<in> set us \<and> u_Enabled u \<and> IsSecure (u_Secret u)
     \<and> TryParseHeader (pr_ks p) (pr_sha p) header (s_key (u_Secret u)) = Some dc"
  by (induction us) (auto split: if_splits option.splits)

text \<open>A connection that does not go the way of Fake TLS.\<close>

lemma plain_cases:
  assumes "(if sec then (case read_full 63 st of
        (Inl _, st) \<Rightarrow> Some (serve_stranger w first st sk raddr s1)
      | (Inr rest, st) \<Rightarrow> Option.bind (handleSecure w st sk (first # rest) (remoteAddr raddr) s1) (\<lambda>(r, s).
          case r of Ok se \<Rightarrow> Some (Ok (RelayedSecure se), s)
          | Err _ \<Rightarrow> Some (serve_stranger w first st sk raddr s)
          | Panic \<Rightarrow> Some (Panic, s)))
    else Some (serve_stranger w first st sk raddr s1)) = Some (r, s')"
  obtains (secure) rest st' se where "sec" "read_full 63 st = (Inr rest, st')"
      "handleSecure w st' sk (first # rest) (remoteAddr raddr) s1 = Some (Ok se, s')" "r = Ok (RelayedSecure se)"
  | (crashed) st' header where "handleSecure w st' sk header (remoteAddr raddr) s1 = Some (Panic, s')" "r = Panic"
  | (stranger) st' where "serve_stranger w first st' sk raddr s1 = (r, s')"
proof (cases "sec \<and> (\<exists>rest st'. read_full 63 st = (Inr rest, st'))")
  case True
  then obtain rest st' where rf: "sec" "read_full 63 st = (Inr rest, st')" by blast
  then obtain q s2 where q: "handleSecure w st' sk (first # rest) (remoteAddr raddr) s1 = Some (q, s2)"
    using assms by (auto simp: bind_eq_Some_conv)
  show thesis
  proof (cases q)
    case (Err e)
    have "s2 = s1" using handleSecure_facts(2) [OF q] Err by blast
    then show thesis using assms rf q Err by (intro stranger [of st']) simp
  next
    case Panic
    then show thesis using assms rf q by (intro crashed) simp_all
  next
    case (Ok se)
    then show thesis using assms rf q by (intro secure) auto
  qed
next
  case False
  then show thesis using assms by (cases "read_full 63 st"; cases "fst (read_full 63 st)") (auto intro: stranger split: if_splits)
qed

text \<open>The handler after its look at the blacklist and at the first byte.\<close>

lemma handleConnection_first:
  assumes "st_in (nc_in conn) = first # rest" "\<not> fst (IsBlocked (w_clock w AtBlock) (ClientIP (nc_remote conn)) (rt_ProbeBlacklist (s_rt s)))"
    and "s1 = s\<lparr>s_rt := (s_rt s)\<lparr>rt_ProbeBlacklist := snd (IsBlocked (w_clock w AtBlock) (ClientIP (nc_remote conn)) (rt_ProbeBlacklist (s_rt s)))\<rparr>\<rparr>"
  shows "handleConnection w conn sk s =
    (if pro_FakeTLS (cfg_Protocols (rt_Config (s_rt s))) \<and> IsHandshakeRecord first
     then handleFakeTLSPath w (Prepend [first] \<lparr>rr_conn = (nc_in conn)\<lparr>st_in := rest\<rparr>, rr_capture = [], rr_pending = []\<rparr>) sk (nc_remote conn) s1
     else if pro_Secure (cfg_Protocols (rt_Config (s_rt s)))
     then (case read_full 63 ((nc_in conn)\<lparr>st_in := rest\<rparr>) of
             (Inl _, st) \<Rightarrow> Some (serve_stranger w first st sk (nc_remote conn) s1)
           | (Inr rest, st) \<Rightarrow> Option.bind (handleSecure w st sk (first # rest) (remoteAddr (nc_remote conn)) s1) (\<lambda>(r, s).
               case r of Ok se \<Rightarrow> Some (Ok (RelayedSecure se), s)
               | Err _ \<Rightarrow> Some (serve_stranger w first st sk (nc_remote conn) s)
               | Panic \<Rightarrow> Some (Panic, s)))
     else Some (serve_stranger w first ((nc_in conn)\<lparr>st_in := rest\<rparr>) sk (nc_remote conn) s1))"
proof -
  obtain bo where b: "IsBlocked (w_clock w AtBlock) (ClientIP (nc_remote conn)) (rt_ProbeBlacklist (s_rt s)) = (False, bo)"
    using assms(2) by (cases "IsBlocked (w_clock w AtBlock) (ClientIP (nc_remote conn)) (rt_ProbeBlacklist (s_rt s))") simp
  have rd: "conn_read (w_sched w) 1 (nc_in conn) = (Inr [first], (nc_in conn)\<lparr>st_in := rest\<rparr>)"
    using assms(1) by (simp add: conn_read_def Let_def)
  show ?thesis
    unfolding handleConnection_def rt_Snapshot_def assms(3) Let_def b rd prod.case sum.case fst_conv snd_conv list.sel(1) by simp
qed

text \<open>The cases of \<open>handleConnection\<close>; \<open>s1\<close> is the server after the look at the blacklist.\<close>

lemma handleConnection_cases:
  assumes "handleConnection w conn sk s = Some (r, s')"
  obtains (dropped) "r = Ok Dropped" "rt_evolves (s_rt s) (s_rt s')" "rt_Stats (s_rt s') = rt_Stats (s_rt s)"
  | (tls) rest s1 where "st_in (nc_in conn) = recordHandshake # rest" "pro_FakeTLS (cfg_Protocols (rt_Config (s_rt s)))"
      "handleFakeTLSPath w \<lparr>rr_conn = (nc_in conn)\<lparr>st_in := rest\<rparr>, rr_capture = [recordHandshake], rr_pending = [recordHandshake]\<rparr>
         sk (nc_remote conn) s1 = Some (r, s')"
      "s_rt s1 = (s_rt s)\<lparr>rt_ProbeBlacklist := snd (IsBlocked (w_clock w AtBlock) (ClientIP (nc_remote conn)) (rt_ProbeBlacklist (s_rt s)))\<rparr>"
      "rt_evolves (s_rt s) (s_rt s1)"
      "\<not> fst (IsBlocked (w_clock w AtBlock) (ClientIP (nc_remote conn)) (rt_ProbeBlacklist (s_rt s)))"
  | (secure) first rest s1 se where "st_in (nc_in conn) = first # rest" "63 \<le> length rest" "pro_Secure (cfg_Protocols (rt_Config (s_rt s)))"
      "s_rt s1 = (s_rt s)\<lparr>rt_ProbeBlacklist := snd (IsBlocked (w_clock w AtBlock) (ClientIP (nc_remote conn)) (rt_ProbeBlacklist (s_rt s)))\<rparr>"
      "rt_evolves (s_rt s) (s_rt s1)" "\<not> fst (IsBlocked (w_clock w AtBlock) (ClientIP (nc_remote conn)) (rt_ProbeBlacklist (s_rt s)))"
      "handleSecure w ((nc_in conn)\<lparr>st_in := drop 63 rest\<rparr>) sk (first # take 63 rest) (remoteAddr (nc_remote conn)) s1 = Some (Ok se, s')"
      "r = Ok (RelayedSecure se)"
  | (crashed) st header s1 where "rt_evolves (s_rt s) (s_rt s1)"
      "handleSecure w st sk header (remoteAddr (nc_remote conn)) s1 = Some (Panic, s')" "r = Panic"
  | (stranger) st first opts where "r = Ok (FallbackServed (st\<lparr>st_in := first # st_in st\<rparr>) sk opts)"
      "rt_evolves (s_rt s) (s_rt s')" "rt_Stats (s_rt s') = rt_Stats (s_rt s)"
proof -
  let ?bl = "IsBlocked (w_clock w AtBlock) (ClientIP (nc_remote conn)) (rt_ProbeBlacklist (s_rt s))"
  define s1 where "s1 = s\<lparr>s_rt := (s_rt s)\<lparr>rt_ProbeBlacklist := snd ?bl\<rparr>\<rparr>"
  have e1: "rt_evolves (s_rt s) (s_rt s1)" "rt_Stats (s_rt s1) = rt_Stats (s_rt s)"
    using bl_step_sound [of "rt_ProbeBlacklist (s_rt s)" "IsBlockedAt (w_clock w AtBlock) (ClientIP (nc_remote conn))"]
    by (auto simp: s1_def intro!: rt_evolves_upd(6))
  show thesis
  proof (cases "fst ?bl \<or> st_in (nc_in conn) = []")
    case True
    obtain bk bo where b: "?bl = (bk, bo)" by force
    from True b assms have "r = Ok Dropped \<and> (s' = s1 \<or> (\<exists>f. s' = upd_metrics f s1))"
      by (cases bk) (auto simp: handleConnection_def rt_Snapshot_def s1_def conn_read_def Let_def)
    with e1 show thesis by (intro dropped) auto
  next
    case False
    then obtain first rest where c: "st_in (nc_in conn) = first # rest" and nb: "\<not> fst ?bl" by (cases "st_in (nc_in conn)") auto
    note h = handleConnection_first [OF c nb s1_def, of sk]
    show thesis
    proof (cases "pro_FakeTLS (cfg_Protocols (rt_Config (s_rt s))) \<and> IsHandshakeRecord first")
      case True
      then show thesis
        using assms h c nb e1(1) by (intro tls [of rest s1]) (auto simp: IsHandshakeRecord_def Prepend_def s1_def)
    next
      case nt: False
      from assms [unfolded h if_not_P [OF nt]] show thesis
      proof (cases rule: plain_cases)
        case (secure rest' st' se)
        then have "63 \<le> length rest" "rest' = take 63 rest" "st' = (nc_in conn)\<lparr>st_in := drop 63 rest\<rparr>"
          by (auto simp: read_full_def split: if_splits)
        with secure c nb e1(1) show thesis by (intro that(3) [of first rest s1 se]) (simp_all add: s1_def)
      next
        case (crashed st' header)
        with e1(1) show thesis by (intro that(4))
      next
        case (stranger st')
        from serve_stranger_facts [OF this] e1 show thesis by (intro that(5) [where st = st' and first = first]) (auto intro: rt_evolves_trans)
      qed
    qed
  qed
qed


section \<open>Strangers\<close>

text \<open>Nobody is admitted on this connection: its bytes hold no hello that authenticates a user.\<close>

definition is_stranger :: "world \<Rightarrow> Runtime \<Rightarrow> stream \<Rightarrow> bool" where
  "is_stranger w rt st \<longleftrightarrow> (\<forall>ch st' u. parseClientHello (w_spare w) st = (Ok ch, st') \<longrightarrow> \<not> hello_admitted w rt ch u)"

lemma tls_greet_stranger:
  assumes "\<And>u. \<not> (CheckClientHelloPolicy (Some ch) (tls_ClientHelloPolicy (cfg_TLS (rt_Config (s_rt (ts_server t))))) = Ok ()
      \<and> MatchClientHello (w_prims w) (w_clock w AtMatch) ch (rt_Users (s_rt (ts_server t))) = Ok u)"
  shows "\<exists>r. tls_greet w ch t = (r, t) \<and> (\<forall>u. r \<noteq> Ok u)"
  using assms by (auto simp: tls_greet_def rt_Snapshot_def Let_def split: res.splits)

lemma tls_closure_stranger:
  assumes "is_stranger w (s_rt (ts_server t)) (rr_stream (ts_rec t))"
  obtains r t' where "tls_closure w remote t = Some (r, t')" "\<And>se. r \<noteq> Ok se" "ts_sink t' = ts_sink t"
proof (cases "parseClientHello (w_spare w) (rr_stream (ts_rec t))")
  case (Pair p st)
  show thesis
  proof (cases p)
    case (Ok ch)
    let ?rt = "s_rt (ts_server t)"
    obtain replayed cache t2 where
      t2_def: "t2 = t\<lparr>ts_rec := rr_advance (ts_rec t) st, ts_hello := Some ch, ts_server := (ts_server t)\<lparr>s_rt := ?rt\<lparr>rt_Replay := cache\<rparr>\<rparr>\<rparr>"
      and "rt_evolves ?rt (s_rt (ts_server t2))"
      and replayed: "replayed \<longleftrightarrow> (\<exists>c. rt_Replay ?rt = Some c \<and> fst (Check (pr_sha (w_prims w)) (w_victim w) (w_clock w AtReplay) (Some ch) c))"
      and cl: "tls_closure w remote t = (if replayed then Some (Err PeReplay, t2\<lparr>ts_server :=
          upd_metrics (\<lambda>m. m\<lparr>mc_replayAttacks := mc_replayAttacks m + 1\<rparr>) (ts_server t2)\<rparr>)
        else (case tls_greet w ch t2 of (Err e, t) \<Rightarrow> Some (Err e, t) | (Panic, t) \<Rightarrow> Some (Panic, t)
              | (Ok matched, t) \<Rightarrow> tls_session w ch matched remote t))"
      by (rule tls_closure_hello [OF Pair [unfolded Ok], of remote])
    show thesis
    proof (cases replayed)
      case True
      show thesis by (rule that [OF cl [simplified True if_True]]) (simp_all add: t2_def)
    next
      case False
      have "\<not> hello_admitted w ?rt ch u" for u
        using assms Pair Ok by (auto simp: is_stranger_def)
      then have "\<exists>r. tls_greet w ch t2 = (r, t2) \<and> (\<forall>u. r \<noteq> Ok u)"
        using replayed False by (intro tls_greet_stranger) (auto simp: hello_admitted_def t2_def)
      then obtain r where r: "tls_greet w ch t2 = (r, t2)" "\<And>u. r \<noteq> Ok u" by blast
      show thesis
        using cl False r by (cases r) (auto intro!: that simp: t2_def)
    qed
  qed (use Pair in \<open>auto intro!: that simp: tls_closure_def\<close>)
qed

lemma bind_res_Err: "bind_res r f = Err e \<longleftrightarrow> r = Err e \<or> (\<exists>x. r = Ok x \<and> f x = Err e)"
  by (cases r) auto

lemma SNI_not_Err: "SNI ch \<noteq> Err e"
proof -
  have u: "slice_u16 h p \<noteq> Err e'" for h p and e' :: 'a
    by (auto simp: slice_u16_def bind_res_Err)
  have b: "hello_body raw \<noteq> Err e'" for raw and e' :: 'a
    by (auto simp: hello_body_def bind_res_Err)
  have x: "ext_block h \<noteq> Err e'" for h and e' :: 'a
    by (auto simp: ext_block_def bind_res_Err Let_def u split: if_splits)
  show ?thesis
    by (auto simp: SNI_def bind_res_Err b x split: option.splits if_splits)
qed

lemma PickMaskSNI_not_Err: "fst (PickMaskSNI now tape fallback r) \<noteq> Err e"
  by (auto simp: PickMaskSNI_def sr_Pick_def list_index_def Let_def split: option.splits prod.splits if_splits)

lemma onHandshakeFailure_not_Err: "onHandshakeFailure w err s \<noteq> Err e"
  by (auto simp: onHandshakeFailure_def bind_res_Err fr_RecordFailure_def sh_RecordFailure_def Let_def split: option.splits if_splits)

text \<open>A stranger that opens with a TLS record, on a server that fronts by splicing.\<close>

lemma handleFakeTLSPath_stranger:
  assumes "is_stranger w (s_rt s) (rr_stream rec)" "FrontingAction (rt_Config (s_rt s)) = ''splice''"
    "length (rr_pending rec) \<le> 1" "st_in (rr_stream rec) \<noteq> []"
  obtains (panics) s' where "handleFakeTLSPath w rec sk raddr s = Some (Panic, s')"
  | (spliced) c prefix host port s' where "handleFakeTLSPath w rec sk raddr s = Some (Ok (Spliced c prefix host port), s')"
      "snd c = sk" "prefix @ rr_pend c = rr_capture rec @ st_in (rr_conn rec)" "port = FrontingPort (rt_Config (s_rt s))"
proof -
  let ?t0 = "\<lparr>ts_rec = rec, ts_sink = sk, ts_hello = None, ts_server = s\<rparr>"
  obtain q t where q: "tls_closure w (remoteAddr raddr) ?t0 = Some (q, t)" "\<And>se. q \<noteq> Ok se" "ts_sink t = sk"
    using tls_closure_stranger [of w ?t0] assms(1) by auto
  have ev: "rt_evolves (s_rt s) (s_rt (ts_server t))"
    using tls_closure_facts(3) [OF q(1)] assms(3,4) by simp
  show thesis
  proof (cases q)
    case (Err err)
    show thesis
    proof (cases "onHandshakeFailure w err (ts_server t) :: (unit, server) res")
      case (Ok s2)
      define s3 where "s3 = (if \<not> isIOTimeoutErr err then recordProbe w raddr s2 else s2)"
      obtain r s' where hr: "handleRejectedTLS w (ts_rec t) (ts_sink t) (ts_hello t) s3 = (r, s')" by force
      have hf: "handleFakeTLSPath w rec sk raddr s = Some (r, s')"
        using q Err Ok hr by (simp add: handleFakeTLSPath_def s3_def Let_def)
      have "rt_evolves (s_rt (ts_server t)) (s_rt s3)"
        using rt_evolves_trans [OF onHandshakeFailure_facts(1) [OF Ok] recordProbe_facts(1)] onHandshakeFailure_facts(1) [OF Ok]
        by (simp add: s3_def)
      with ev have c3: "rt_Config (s_rt s3) = rt_Config (s_rt s)" by (simp add: rt_evolves_def)
      obtain h rt where p: "PickMaskSNI (w_clock w AtSNI) (w_sniTape w) (MaskHost (rt_Users (s_rt s3))) (s_rt s3) = (h :: (unit, string) res, rt)" by force
      have "h \<noteq> Err ()" using PickMaskSNI_not_Err p by (metis fst_conv)
      then have "(\<exists>host. r = Ok (Spliced (ts_rec t, sk) (Snapshot (ts_rec t)) host (FrontingPort (rt_Config (s_rt s))))) \<or> r = Panic"
        using hr assms(2) q(3) c3
        by (auto simp: handleRejectedTLS_def rt_Snapshot_def Let_def p bind_res_Err SNI_not_Err split: res.splits option.splits)
      then show thesis
      proof (elim disjE exE)
        fix host assume r: "r = Ok (Spliced (ts_rec t, sk) (Snapshot (ts_rec t)) host (FrontingPort (rt_Config (s_rt s))))"
        show thesis
          using handleFakeTLSPath_facts(4) [OF hf assms(3,4)] hf r by (intro spliced) auto
      qed (use panics hf in simp)
    qed (use q Err panics in \<open>auto simp: handleFakeTLSPath_def onHandshakeFailure_not_Err\<close>)
  qed (use q panics in \<open>auto simp: handleFakeTLSPath_def\<close>)
qed

section \<open>Clients with a valid hello\<close>

abbreviation blocked_at :: "world \<Rightarrow> net_conn \<Rightarrow> Runtime \<Rightarrow> bool" where
  "blocked_at w conn rt \<equiv> fst (IsBlocked (w_clock w AtBlock) (ClientIP (nc_remote conn)) (rt_ProbeBlacklist rt))"

text \<open>The server after the look at the blacklist, and the recorder after the first byte.\<close>

definition after_block :: "world \<Rightarrow> net_conn \<Rightarrow> server \<Rightarrow> server" where
  "after_block w conn s = s\<lparr>s_rt := (s_rt s)\<lparr>rt_ProbeBlacklist :=
     snd (IsBlocked (w_clock w AtBlock) (ClientIP (nc_remote conn)) (rt_ProbeBlacklist (s_rt s)))\<rparr>\<rparr>"

definition first_read :: "stream \<Rightarrow> ReadRecorder" where
  "first_read st = \<lparr>rr_conn = st\<lparr>st_in := tl (st_in st)\<rparr>, rr_capture = [hd (st_in st)], rr_pending = [hd (st_in st)]\<rparr>"

lemma first_read_simps:
  assumes "st_in st \<noteq> []"
  shows "rr_stream (first_read st) = st" "rr_capture (first_read st) @ st_in (rr_conn (first_read st)) = st_in st"
    "length (rr_pending (first_read st)) \<le> 1"
  using assms by (simp_all add: first_read_def rr_stream_def)

lemma handleConnection_tls:
  assumes "\<not> blocked_at w conn (s_rt s)" "pro_FakeTLS (cfg_Protocols (rt_Config (s_rt s)))" "st_in (nc_in conn) = recordHandshake # rest"
  shows "handleConnection w conn sk s = handleFakeTLSPath w (first_read (nc_in conn)) sk (nc_remote conn) (after_block w conn s)"
proof -
  obtain bl where b: "IsBlocked (w_clock w AtBlock) (ClientIP (nc_remote conn)) (rt_ProbeBlacklist (s_rt s)) = (False, bl)"
    using assms(1) by (metis prod.collapse)
  have "conn_read (w_sched w) 1 (nc_in conn) = (Inr [recordHandshake], (nc_in conn)\<lparr>st_in := rest\<rparr>)"
    using assms(3) by (simp add: conn_read_def Let_def)
  then show ?thesis
    using assms(2,3)
    by (simp add: handleConnection_def rt_Snapshot_def b Let_def IsHandshakeRecord_def Prepend_def first_read_def after_block_def)
qed

lemma after_block_simps [simp]:
  "rt_Config (s_rt (after_block w conn s)) = rt_Config (s_rt s)" "rt_Users (s_rt (after_block w conn s)) = rt_Users (s_rt s)"
  "rt_Stats (s_rt (after_block w conn s)) = rt_Stats (s_rt s)" "rt_Replay (s_rt (after_block w conn s)) = rt_Replay (s_rt s)"
  "rt_ServerHelloRotator (s_rt (after_block w conn s)) = rt_ServerHelloRotator (s_rt s)"
  "hello_admitted w (s_rt (after_block w conn s)) = hello_admitted w (s_rt s)"
  "is_stranger w (s_rt (after_block w conn s)) = is_stranger w (s_rt s)"
  by (simp_all add: after_block_def hello_admitted_def fun_eq_iff is_stranger_def)

lemma parsed_hello_first:
  assumes "parseClientHello spare st = (Ok ch, st')"
  obtains rest where "st_in st = recordHandshake # rest" "st_in st = slice_bytes (ch_raw ch) @ st_in st'" "st_end st' = st_end st"
proof -
  obtain header payload where h: "st_in st = header @ payload @ st_in st'" "length header = 5" "header ! 0 = recordHandshake"
    "parse_hello_payload (raw_record spare (header @ payload)) payload = Ok ch" "st_end st' = st_end st"
    using assms by (rule parseClientHello_OkD)
  show thesis
    using h(1,2,3,5) parse_hello_Ok_fields(1) [OF h(4)]
    by (intro that [of "tl header @ payload @ st_in st'"]) (cases header, simp_all)
qed

lemma WriteServerHello_succeeds:
  assumes "sh_valid ro" "\<And>tape. nat (fst (paddingLen noise tape)) \<le> length pads" "sk_room conn = None"
  obtains rot conn' packet where "WriteServerHelloWithNoise hmac now tape ent pads ch secret noise ro conn = (Ok (), rot, conn')"
    "sk_room conn' = None" "sk_out conn' = sk_out conn @ packet"
proof -
  obtain profile rot tape1 where p: "sh_Pick now tape ro = (Ok profile :: (server_hello_error, string) res, rot, tape1)"
    using sh_Pick_valid [OF assms(1)] by blast
  obtain padLen rest where pl: "paddingLen noise tape1 = (padLen, rest)" by force
  have "\<not> length pads < nat padLen" using assms(2) [of tape1] pl by simp
  then show thesis
    using assms(3) that by (simp add: WriteServerHelloWithNoise_def p pl sink_write_def Let_def)
qed

lemma tls_greet_serves:
  assumes "CheckClientHelloPolicy (Some ch) (tls_ClientHelloPolicy (cfg_TLS (rt_Config (s_rt (ts_server t))))) = Ok ()
      \<and> MatchClientHello (w_prims w) (w_clock w AtMatch) ch (rt_Users (s_rt (ts_server t))) = Ok u"
    and "sh_valid (rt_ServerHelloRotator (s_rt (ts_server t)))" "HasECH (Some ch) = (Ok b :: (unit, bool) res)" "sk_room (ts_sink t) = None"
    and "\<And>tape. nat (fst (paddingLen (cfg_NoiseParams (rt_Config (s_rt (ts_server t)))) tape)) \<le> length (w_padding w)"
  obtains t' packet where "tls_greet w ch t = (Ok u, t')" "ts_rec t' = ts_rec t" "sk_room (ts_sink t') = None"
    "sk_out (ts_sink t') = sk_out (ts_sink t) @ packet" "rt_Config (s_rt (ts_server t')) = rt_Config (s_rt (ts_server t))"
proof -
  obtain rot sk packet where ws: "WriteServerHelloWithNoise (pr_hmac (w_prims w)) (w_clock w AtHello) (w_helloTape w) (w_helloRand w)
      (w_padding w) ch (s_key (u_Secret u)) (cfg_NoiseParams (rt_Config (s_rt (ts_server t)))) (rt_ServerHelloRotator (s_rt (ts_server t)))
      (ts_sink t) = (Ok (), rot, sk)" "sk_room sk = None" "sk_out sk = sk_out (ts_sink t) @ packet"
    using WriteServerHello_succeeds [OF assms(2,5,4)] by blast
  show thesis
    by (rule that [of "t\<lparr>ts_sink := sk, ts_server := (ts_server t)\<lparr>s_rt := (s_rt (ts_server t))\<lparr>rt_ServerHelloRotator := rot\<rparr>\<rparr>\<rparr>" packet])
      (use assms(1,3) ws in \<open>simp_all add: tls_greet_def rt_Snapshot_def Let_def\<close>)
qed

text \<open>
  The data centre is reached directly: no relay and no middle proxy, its address resolves, it answers the
  dial with the connection \<open>(dst, dsk)\<close>, and a header \<open>h\<close> is drawn for it with its two key streams.
\<close>

definition dc_reached :: "world \<Rightarrow> Config \<Rightarrow> int \<Rightarrow> stream \<Rightarrow> sink \<Rightarrow> bytes \<Rightarrow> obf_conn \<Rightarrow> bool" where
  "dc_reached w cfg dcID dst dsk h o_dc \<longleftrightarrow> \<not> IsFront (cfg_Relay cfg) \<and> sk_room dsk = None
     \<and> (\<exists>adTag. ParseAdTag (mt_AdTag (cfg_MTProto cfg)) = Ok adTag \<and> \<not> use_middle cfg adTag)
     \<and> (\<exists>addr. ResolveAddr dcID (mt_Backend (cfg_MTProto cfg)) = Ok addr
          \<and> DialContext (w_dial w) (Some \<lparr>dl_SOCKS5 = ups_SOCKS5 (cfg_Upstream cfg), dl_PreferIP = ups_PreferIP (cfg_Upstream cfg),
              dl_Timeout = 10000000000\<rparr>) ''tcp'' addr = Inr (dst, dsk))
     \<and> OutgoingHeader (pr_ks (w_prims w)) (pr_sha (w_prims w)) (w_headers w) dcID = Ok (h, oc_enc o_dc, oc_dec o_dc)"

lemma dialDC_reached:
  assumes "dc_reached w cfg dcID dst dsk h o_dc"
  shows "dialDC w cfg dcID remote = Some (Ok (DirectConn (o_dc, dst, dsk\<lparr>sk_out := sk_out dsk @ h\<rparr>)))"
  using assms by (auto simp: dc_reached_def dialDC_def dialDirectDC_def sink_write_def)

text \<open>A session that is relayed directly moves everything in both directions.\<close>

definition session_complete ::
  "world \<Rightarrow> obf_conn \<Rightarrow> bytes \<Rightarrow> stream \<Rightarrow> sink \<Rightarrow> bytes \<Rightarrow> obf_conn \<Rightarrow> bytes \<Rightarrow> tls_client session \<Rightarrow> bool" where
  "session_complete w o_client body dst dsk h o_dc greeting se \<longleftrightarrow>
     se_up se = length body \<and> se_down se = length (st_in dst)
     \<and> (\<exists>obf' st' sk'. se_server se = DirectConn (obf', st', sk') \<and> sk_out sk' = sk_out dsk @ h
          @ fst (XORKeyStream (pr_ks (w_prims w)) (oc_enc o_dc) (fst (XORKeyStream (pr_ks (w_prims w)) (oc_dec o_client) body))))
     \<and> (\<exists>wire. sk_out (rc_sink (fst (snd (se_client se)))) = greeting @ wire
          \<and> payloads wire = fst (XORKeyStream (pr_ks (w_prims w)) (oc_enc o_client)
              (fst (XORKeyStream (pr_ks (w_prims w)) (oc_dec o_dc) (st_in dst)))))"

lemma relayMTProto_serves:
  assumes "dc_reached w (rt_Config (s_rt s)) dcID dst dsk h o_dc"
    and "JA3 (pr_md5 (w_prims w)) (ch_raw ch) = (Ok ja3 :: (unit, string) res)" "rec_ready (tc, tape)"
  obtains se s' where "relayMTProto w (obf_read (pr_ks (w_prims w)) rec_rd) (obf_write (pr_ks (w_prims w)) rec_wr) (o_client, tc, tape)
      dcID user (Some ch) remote s = Some (Ok se, s')" "se_user se = user" "se_dc se = dcID"
    "session_complete w o_client (rec_pend (tc, tape)) dst dsk h o_dc (sk_out (rc_sink tc)) se"
proof -
  let ?ks = "pr_ks (w_prims w)"
  let ?dc = "(o_dc, dst, dsk\<lparr>sk_out := sk_out dsk @ h\<rparr>)"
  obtain client' obf' st' sk' where p: "pipeTraffic (obf_read ?ks rec_rd) (obf_write ?ks rec_wr) (obf_read ?ks (tcp_read (w_upsched w)))
      (obf_write ?ks tcp_write) (o_client, tc, tape) ?dc = Some (length (rec_pend (tc, tape)), length (st_in dst), client', obf', st', sk')"
    "sk_out sk' = (sk_out dsk @ h) @ fst (XORKeyStream ?ks (oc_enc o_dc) (fst (XORKeyStream ?ks (oc_dec o_client) (rec_pend (tc, tape)))))"
    "\<exists>wire. sk_out (rc_sink (fst (snd client'))) = sk_out (rc_sink tc) @ wire
        \<and> payloads wire = fst (XORKeyStream ?ks (oc_enc o_client) (fst (XORKeyStream ?ks (oc_dec o_dc) (st_in dst))))"
    using tls_session_delivers [of "(o_client, tc, tape)" ?dc ?ks "w_upsched w"] assms(1,3)
    by (auto simp: dc_reached_def tcp_ready_def)
  let ?se = "\<lparr>se_user = user, se_dc = dcID, se_up = length (rec_pend (tc, tape)), se_down = length (st_in dst), se_client = client',
      se_server = DirectConn (obf', st', sk')\<rparr>"
  have "\<exists>s'. relayMTProto w (obf_read ?ks rec_rd) (obf_write ?ks rec_wr) (o_client, tc, tape) dcID user (Some ch) remote s = Some (Ok ?se, s')"
    using assms(1,2) p(1) dialDC_reached [OF assms(1), of remote]
    by (simp add: relayMTProto_def run_session_def rt_Snapshot_def dc_reached_def Let_def)
  then show thesis
    using that [of ?se] p(2,3) by (auto simp: session_complete_def)
qed

lemma io_read_full_keeps:
  "io_read_full rd n acc s = Some y \<Longrightarrow> (\<And>n s r s'. rd n s = (r, s') \<Longrightarrow> f s' = f s) \<Longrightarrow> f (snd y) = f s"
proof (induction rule: io_read_full.raw_induct [rotated 1, consumes 1, case_names step])
  case (step F rd n acc s y)
  obtain r s' where r: "rd (n - length acc) s = (r, s')" by force
  have s': "f s' = f s" using r step.prems by blast
  have ih: "F rd n acc s = Some y \<Longrightarrow> f (snd y) = f s" for n acc s y
    using step.IH step.prems by blast
  show ?case
  proof (cases "n \<le> length acc")
    case False
    then show ?thesis
      using step.hyps r s' ih by (cases r) auto
  qed (use step.hyps in auto)
qed

lemma Handshake_keeps_sink: "Handshake ks sha rec_read s secret = Some (r, s') \<Longrightarrow> rc_sink s' = rc_sink s"
  using io_read_full_keeps [where rd = rec_read and f = rc_sink and n = 64 and acc = "[]" and s = s, OF _ rec_read_side(1)]
  by (force simp: Handshake_def split: option.splits sum.splits)

lemma tls_session_serves:
  assumes "payloads (st_in (rr_stream (ts_rec t))) = header @ body" "length header = 64"
    and "accept_header (pr_ks (w_prims w)) (pr_sha (w_prims w)) header (Some (s_key (u_Secret u))) = Ok (o_client, dcID)"
    and "dc_reached w (rt_Config (s_rt (ts_server t))) dcID dst dsk h o_dc"
    and "JA3 (pr_md5 (w_prims w)) (ch_raw ch) = (Ok ja3 :: (unit, string) res)" "sk_room (ts_sink t) = None"
  obtains se t' where "tls_session w ch u remote t = Some (Ok se, t')" "se_user se = u_Name u" "se_dc se = dcID"
    "session_complete w o_client body dst dsk h o_dc (sk_out (ts_sink t)) se"
proof -
  let ?p = "w_prims w"
  let ?tc = "\<lparr>rc_in = rr_stream (ts_rec t), rc_sink = ts_sink t, readBuf = [], Policy = cfg_RecordPolicy (rt_Snapshot (s_rt (ts_server t))),
       recordsWritten = 0, bytesWritten = 0, splitDone = False\<rparr>"
  obtain tc where tc: "Handshake (pr_ks ?p) (pr_sha ?p) rec_read ?tc (Some (s_key (u_Secret u))) = Some (Ok (o_client, dcID), tc)"
    "readBuf tc @ payloads (st_in (rc_in tc)) = body"
    using Handshake_tls [of ?tc header body "pr_ks ?p" "pr_sha ?p" "Some (s_key (u_Secret u))"] assms(1-3) by auto
  have sink: "rc_sink tc = ts_sink t"
    using Handshake_keeps_sink [OF tc(1)] by simp
  then have "rec_ready (tc, w_recordTape w)" using assms(6) by (simp add: rec_ready_def)
  with assms(4,5) obtain se s' where "relayMTProto w (obf_read (pr_ks ?p) rec_rd) (obf_write (pr_ks ?p) rec_wr) (o_client, tc, w_recordTape w)
      dcID (u_Name u) (Some ch) remote (ts_server t) = Some (Ok se, s')" "se_user se = u_Name u" "se_dc se = dcID"
    "session_complete w o_client (rec_pend (tc, w_recordTape w)) dst dsk h o_dc (sk_out (rc_sink tc)) se"
    by (rule relayMTProto_serves)
  then show thesis
    using that tc sink by (simp add: tls_session_def rec_pend_def Let_def)
qed

text \<open>
  What a well-behaved client and its surroundings provide: the hello is parsed and its fingerprint can be
  computed, the padding of the greeting is there, and after the hello the records carry an obfuscated2
  header for the data centre \<open>dcID\<close> and then \<open>body\<close>.
\<close>

definition honest_client ::
  "world \<Rightarrow> Runtime \<Rightarrow> stream \<Rightarrow> client_hello \<Rightarrow> User \<Rightarrow> int \<Rightarrow> obf_conn \<Rightarrow> bytes \<Rightarrow> bool" where
  "honest_client w rt st ch u dcID o_client body \<longleftrightarrow>
     hello_admitted w rt ch u
     \<and> (\<exists>st' header. parseClientHello (w_spare w) st = (Ok ch, st') \<and> payloads (st_in st') = header @ body \<and> length header = 64
         \<and> accept_header (pr_ks (w_prims w)) (pr_sha (w_prims w)) header (Some (s_key (u_Secret u))) = Ok (o_client, dcID))
     \<and> (\<exists>b. HasECH (Some ch) = (Ok b :: (unit, bool) res))
     \<and> (\<exists>ja3. JA3 (pr_md5 (w_prims w)) (ch_raw ch) = (Ok ja3 :: (unit, string) res))
     \<and> sh_valid (rt_ServerHelloRotator rt)
     \<and> (\<forall>tape. nat (fst (paddingLen (cfg_NoiseParams (rt_Config rt)) tape)) \<le> length (w_padding w))"

lemma tls_closure_serves:
  assumes "honest_client w (s_rt (ts_server t)) (rr_stream (ts_rec t)) ch u dcID o_client body" "sk_room (ts_sink t) = None"
    and "dc_reached w (rt_Config (s_rt (ts_server t))) dcID dst dsk h o_dc"
  obtains se t' greeting where "tls_closure w remote t = Some (Ok se, t')" "se_user se = u_Name u" "se_dc se = dcID"
    "session_complete w o_client body dst dsk h o_dc (sk_out (ts_sink t) @ greeting) se"
proof -
  let ?rt = "s_rt (ts_server t)"
  obtain st header b ja3 where p: "parseClientHello (w_spare w) (rr_stream (ts_rec t)) = (Ok ch, st)" "payloads (st_in st) = header @ body"
    "length header = 64" "accept_header (pr_ks (w_prims w)) (pr_sha (w_prims w)) header (Some (s_key (u_Secret u))) = Ok (o_client, dcID)"
    "HasECH (Some ch) = (Ok b :: (unit, bool) res)" "JA3 (pr_md5 (w_prims w)) (ch_raw ch) = (Ok ja3 :: (unit, string) res)"
    using assms(1) by (auto simp: honest_client_def)
  obtain replayed cache t2 where
    t2_def: "t2 = t\<lparr>ts_rec := rr_advance (ts_rec t) st, ts_hello := Some ch, ts_server := (ts_server t)\<lparr>s_rt := ?rt\<lparr>rt_Replay := cache\<rparr>\<rparr>\<rparr>"
    and "rt_evolves ?rt (s_rt (ts_server t2))"
    and replayed: "replayed \<longleftrightarrow> (\<exists>c. rt_Replay ?rt = Some c \<and> fst (Check (pr_sha (w_prims w)) (w_victim w) (w_clock w AtReplay) (Some ch) c))"
    and clo: "tls_closure w remote t = (if replayed then Some (Err PeReplay, t2\<lparr>ts_server :=
        upd_metrics (\<lambda>m. m\<lparr>mc_replayAttacks := mc_replayAttacks m + 1\<rparr>) (ts_server t2)\<rparr>)
      else (case tls_greet w ch t2 of (Err e, t) \<Rightarrow> Some (Err e, t) | (Panic, t) \<Rightarrow> Some (Panic, t)
            | (Ok matched, t) \<Rightarrow> tls_session w ch matched remote t))"
    by (rule tls_closure_hello [OF p(1), of remote])
  have "\<not> replayed" using replayed assms(1) by (auto simp: honest_client_def hello_admitted_def)
  note cl = clo [unfolded if_not_P [OF this]]
  obtain t3 packet where t3: "tls_greet w ch t2 = (Ok u, t3)" "ts_rec t3 = ts_rec t2" "sk_room (ts_sink t3) = None"
    "sk_out (ts_sink t3) = sk_out (ts_sink t) @ packet" "rt_Config (s_rt (ts_server t3)) = rt_Config ?rt"
    using tls_greet_serves [of ch t2 w u b] assms(1,2) p(5) by (auto simp: honest_client_def hello_admitted_def t2_def)
  have "rr_stream (ts_rec t3) = st"
    using t3(2) parsed_hello_first [OF p(1)] rr_stream_advance [of "ts_rec t" "slice_bytes (ch_raw ch)" st]
    by (auto simp: t2_def rr_stream_def)
  then obtain se t' where "tls_session w ch u remote t3 = Some (Ok se, t')" "se_user se = u_Name u" "se_dc se = dcID"
    "session_complete w o_client body dst dsk h o_dc (sk_out (ts_sink t3)) se"
    using tls_session_serves [of t3 header body w u o_client dcID dst dsk h o_dc ch ja3 remote] p assms(3) t3 by auto
  with cl t3 show thesis by (intro that) simp_all
qed

lemma handleConnection_serves:
  assumes "honest_client w (s_rt s) (nc_in conn) ch u dcID o_client body" "sk_room sk = None"
    and "dc_reached w (rt_Config (s_rt s)) dcID dst dsk h o_dc"
    and "\<not> blocked_at w conn (s_rt s)" "pro_FakeTLS (cfg_Protocols (rt_Config (s_rt s)))"
  obtains se s' greeting where "handleConnection w conn sk s = Some (Ok (RelayedTLS se), s')" "se_user se = u_Name u" "se_dc se = dcID"
    "session_complete w o_client body dst dsk h o_dc (sk_out sk @ greeting) se"
proof -
  obtain st' rest where r: "st_in (nc_in conn) = recordHandshake # rest"
    using assms(1) parsed_hello_first unfolding honest_client_def by metis
  let ?t = "\<lparr>ts_rec = first_read (nc_in conn), ts_sink = sk, ts_hello = None, ts_server = after_block w conn s\<rparr>"
  have "honest_client w (s_rt (after_block w conn s)) (rr_stream (first_read (nc_in conn))) ch u dcID o_client body"
    using assms(1) r by (simp add: honest_client_def first_read_simps)
  then obtain se t' greeting where c: "tls_closure w (remoteAddr (nc_remote conn)) ?t = Some (Ok se, t')" "se_user se = u_Name u" "se_dc se = dcID"
    "session_complete w o_client body dst dsk h o_dc (sk_out sk @ greeting) se"
    using tls_closure_serves [of w ?t ch u dcID o_client body dst dsk h o_dc "remoteAddr (nc_remote conn)"] assms(2,3) by auto
  then show thesis
    using that handleConnection_tls [OF assms(4,5) r] by (simp add: handleFakeTLSPath_def)
qed

end
