(* ===== verification/ProxyProperties.thy ===== *)
theory ProxyProperties
  imports ProxyGuarantees
begin

text \<open>
  The properties of one whole connection, over \<open>handleConnection\<close>: who is relayed, what a stranger meets,
  that an honest client is served, and what a connection does to the runtime and to the statistics.
\<close>

section \<open>A server for the witnesses\<close>

text \<open>
  A runtime made by \<open>rt_New\<close> from the default configuration and two users, a world in which every dial
  reaches the same data centre, and a client: its hello, then one record with a header for data centre
  2 under the second user's key and three bytes of data.
\<close>

definition example_runtime :: Runtime where
  "example_runtime = rt_New 5 ''c.yaml'' (sample_config []) mgr_example Stats.New"

definition example_server :: server where
  "example_server = \<lparr>s_rt = example_runtime, s_metrics = None\<rparr>"

definition example_dc :: "stream \<times> sink" where
  "example_dc = (\<lparr>st_in = [20, 21], st_end = EOF\<rparr>, \<lparr>sk_out = [], sk_room = None\<rparr>)"

definition example_sink :: sink where
  "example_sink = \<lparr>sk_out = [], sk_room = None\<rparr>"

definition example_mp :: mp_env where
  "example_mp = \<lparr>env_md5 = \<lambda>b. b, env_sha1 = \<lambda>b. b, env_E = \<lambda>k b. b, env_D = \<lambda>k b. b, env_to4 = \<lambda>s. None, env_sched = \<lambda>s. 0\<rparr>"

definition example_world :: world where
  "example_world = \<lparr>w_prims = prims_example, w_clock = \<lambda>c. 0, w_spare = \<lambda>n. 3, w_victim = \<lambda>es. 0, w_sched = \<lambda>s. 0,
     w_upsched = \<lambda>s. 0, w_helloTape = [], w_helloRand = [], w_padding = replicate 4000 0, w_recordTape = [], w_sniTape = [],
     w_headers = [block_example], w_dial = \<lparr>dw_socks = \<lambda>s. None, dw_dial = \<lambda>p t n a. Inr example_dc\<rparr>, w_front = None,
     w_frontRand = None, w_seal = \<lambda>k n b. b, w_unseal = \<lambda>k n b. Some b, w_mp = example_mp, w_to16 = \<lambda>s. None, w_mpnow = (0, 0),
     w_pid = 1, w_attempt = \<lambda>e. \<lparr>at_conn = None, at_nonce = None, at_connID = None\<rparr>, w_errText = []\<rparr>"

definition example_conn :: "bytes \<Rightarrow> net_conn" where
  "example_conn bs = \<lparr>nc_in = \<lparr>st_in = bs, st_end = EOF\<rparr>, nc_remote = Some ''10.0.0.1:5000''\<rparr>"

lemma example_header:
  obtains h enc dec where "outgoingHeader ks_example (\<lambda>m. take 32 m) [block_example] 2 secret = Ok (h, enc, dec)" "length h = 64"
    "accept_header ks_example (\<lambda>m. take 32 m) h (secret_opt secret) = Ok (\<lparr>oc_enc = dec, oc_dec = enc\<rparr>, 2)"
proof -
  have "\<exists>h enc dec. outgoingHeader ks_example (\<lambda>m. take 32 m) [block_example] 2 secret = Ok (h, enc, dec)"
    by (auto simp: outgoingHeader_def block_example_ok Let_def split: prod.splits)
  then obtain h enc dec where h: "outgoingHeader ks_example (\<lambda>m. take 32 m) [block_example] 2 secret = Ok (h, enc, dec)" by blast
  show thesis
    using header_accepted [OF h] block_example_ok(1) by (intro that [OF h]) auto
qed

lemma example_fields:
  "rt_Config example_runtime = sample_config []" "rt_Users example_runtime = mgr_example" "rt_Stats example_runtime = Stats.New"
  "rt_Replay example_runtime = Some (NewReplayCache (AntireplayMaxEntries (sample_config [])) two_minutes)"
  "rt_ProbeBlacklist example_runtime = None" "sh_valid (rt_ServerHelloRotator example_runtime)"
proof -
  have "sec_ProbeBlacklistThreshold (cfg_Security (sample_config [])) = 0" "tls_ServerHelloPool (cfg_TLS (sample_config [])) = []"
    by (simp_all add: sample_config_def)
  then show "rt_Config example_runtime = sample_config []" "rt_Users example_runtime = mgr_example" "rt_Stats example_runtime = Stats.New"
    "rt_Replay example_runtime = Some (NewReplayCache (AntireplayMaxEntries (sample_config [])) two_minutes)"
    "rt_ProbeBlacklist example_runtime = None" "sh_valid (rt_ServerHelloRotator example_runtime)"
    by (simp_all add: example_runtime_def rt_New_def applySecurityFeatures_def NewBlacklist_def sh_valid_def
        NewServerHelloRotator_def defaultServerHelloProfiles_def Let_def)
qed

lemma example_not_blocked: "\<not> blocked_at example_world (example_conn bs) example_runtime"
  by (simp add: example_fields IsBlocked_def)

lemma example_ECH: "HasECH (Some ch_example) = Ok (extECH \<in> fst ` set (hs_exts hello_example))"
  by (simp add: HasECH_def ch_example_def hasExtension_enc [OF hello_example_wf])

lemma example_admitted: "hello_admitted example_world example_runtime ch_example (user_example ''b'' True)"
proof -
  have "MatchClientHello prims_example 0 ch_example mgr_example = Ok (user_example ''b'' True)"
    using hello_valid_example [of "''b''"]
    by (simp add: MatchClientHello_def checkFingerprints_def mgr_example_def hello_valid_def) (simp add: user_example_def)
  moreover have "\<not> fst (Check (pr_sha prims_example) (\<lambda>es. 0) 0 (Some ch_example) (NewReplayCache n d))" for n d
    by (simp add: Check_def NewReplayCache_def evict_def Let_def)
  ultimately show ?thesis
    by (simp add: hello_admitted_def example_fields example_world_def CheckClientHelloPolicy_def sample_config_def example_ECH)
qed

lemma example_honest:
  assumes "length h = 64" "accept_header ks_example (\<lambda>m. take 32 m) h (Some (replicate 16 1)) = Ok (o_client, 2)"
  shows "honest_client example_world example_runtime \<lparr>st_in = enc_record hello_example @ app_record (h @ [7, 8, 9]), st_end = EOF\<rparr>
    ch_example (user_example ''b'' True) 2 o_client [7, 8, 9]"
proof -
  let ?st' = "\<lparr>st_in = app_record (h @ [7, 8, 9]), st_end = EOF\<rparr>"
  have "parseClientHello (\<lambda>n. 3) \<lparr>st_in = enc_record hello_example @ app_record (h @ [7, 8, 9]), st_end = EOF\<rparr> = (Ok ch_example, ?st')"
    using parse_record_enc [OF hello_example_wf, of _ "app_record (h @ [7, 8, 9])" "\<lambda>n. 3"]
    by (simp add: ch_example_def hello_example_def)
  moreover have "payloads (app_record (h @ [7, 8, 9])) = h @ [7, 8, 9]"
    using payloads_app_records [of "[h @ [7, 8, 9]]" "[]"] assms(1) by (simp add: maxRecordPayload_def)
  moreover have "\<exists>b. HasECH (Some ch_example) = (Ok b :: (unit, bool) res)"
    by (simp add: example_ECH)
  moreover have "\<exists>ja3. JA3 md5 (ch_raw ch_example) = (Ok ja3 :: (unit, string) res)" for md5
  proof -
    have "list_all ext_fits (hs_exts hello_example)"
      by (simp add: hello_example_def ext_fits_def extSupportedGroups_def extECPointFormats_def)
    then show ?thesis by (simp add: ch_example_def JA3_enc [OF hello_example_wf])
  qed
  moreover have "nat (fst (paddingLen (cfg_NoiseParams (sample_config [])) tape)) \<le> 4000" for tape
    using paddingLen_bounds(3) [of "cfg_NoiseParams (sample_config [])" tape]
    by (cases "paddingLen (cfg_NoiseParams (sample_config [])) tape") (auto simp: cfg_NoiseParams_def sample_config_def nat_le_iff)
  ultimately show ?thesis
    using assms example_admitted example_fields(6)
    by (simp add: honest_client_def example_fields(1)) (simp add: example_world_def prims_example_def user_example_def)
qed

lemma example_dc_reached:
  "\<exists>h o_dc. dc_reached example_world (rt_Config example_runtime) 2 (fst example_dc) (snd example_dc) h o_dc"
proof -
  obtain h enc dec where "outgoingHeader ks_example (\<lambda>m. take 32 m) [block_example] 2 [] = Ok (h, enc, dec)"
    by (rule example_header)
  moreover have "trim_space [] = []" by code_simp
  ultimately show ?thesis
    by (intro exI [of _ h] exI [of _ "\<lparr>oc_enc = enc, oc_dec = dec\<rparr>"])
      (simp add: dc_reached_def example_fields example_world_def sample_config_def IsFront_def example_dc_def ParseAdTag_def
        use_middle_def ResolveAddr_def dcAddresses_def DialContext_def OutgoingHeader_def prims_example_def Let_def)
qed

lemma example_user_header:
  obtains h enc dec where "length h = 64"
    "accept_header ks_example (\<lambda>m. take 32 m) h (Some (replicate 16 1)) = Ok (\<lparr>oc_enc = dec, oc_dec = enc\<rparr>, 2)"
proof -
  have so: "secret_opt (replicate 16 1) = Some (replicate 16 1)" by (simp add: secret_opt_def)
  show thesis by (rule example_header [of "replicate 16 1", unfolded so]) (rule that)
qed

lemma example_relayed:
  obtains bs se s' where "handleConnection example_world (example_conn bs) example_sink example_server = Some (Ok (RelayedTLS se), s')"
    "se_user se = ''b''" "bs = enc_record hello_example @ drop (length (enc_record hello_example)) bs"
proof -
  obtain h enc dec where h: "length h = 64"
    "accept_header ks_example (\<lambda>m. take 32 m) h (Some (replicate 16 1)) = Ok (\<lparr>oc_enc = dec, oc_dec = enc\<rparr>, 2)"
    by (rule example_user_header)
  obtain h' o_dc where d: "dc_reached example_world (rt_Config example_runtime) 2 (fst example_dc) (snd example_dc) h' o_dc"
    using example_dc_reached by blast
  let ?bs = "enc_record hello_example @ app_record (h @ [7, 8, 9])"
  show thesis
    by (rule handleConnection_serves [of example_world example_server "example_conn ?bs" ch_example "user_example ''b'' True" 2
          "\<lparr>oc_enc = dec, oc_dec = enc\<rparr>" "[7, 8, 9]" example_sink "fst example_dc" "snd example_dc" h' o_dc])
      (use example_honest [OF h] d example_not_blocked in \<open>auto simp: example_server_def example_conn_def example_sink_def example_fields
        sample_config_def user_example_def intro!: that [of ?bs]\<close>)
qed

section \<open>Properties\<close>



text \<open>
  C3. Only an authenticated client is relayed in the Fake TLS mode. When a connection ends in a relayed
  session, Fake TLS is on, the address is not blocked, the stream opens with a ClientHello that is
  not a replay and passes the policy, and the session is counted for an enabled Fake TLS user
  whose key the hello's HMAC, its time stamp and its server name match.
\<close>

theorem relayed_tls_is_authentic:
  assumes "handleConnection w conn sk s = Some (Ok (RelayedTLS se), s')"
  shows "pro_FakeTLS (cfg_Protocols (rt_Config (s_rt s))) \<and> \<not> blocked_at w conn (s_rt s)
    \<and> (\<exists>ch st u. parseClientHello (w_spare w) (nc_in conn) = (Ok ch, st) \<and> st_in (nc_in conn) = slice_bytes (ch_raw ch) @ st_in st
        \<and> (\<forall>c. rt_Replay (s_rt s) = Some c \<longrightarrow> \<not> fst (Check (pr_sha (w_prims w)) (w_victim w) (w_clock w AtReplay) (Some ch) c))
        \<and> CheckClientHelloPolicy (Some ch) (tls_ClientHelloPolicy (cfg_TLS (rt_Config (s_rt s)))) = Ok ()
        \<and> u \<in> set (m_users (rt_Users (s_rt s))) \<and> u_Enabled u \<and> IsFakeTLS (u_Secret u) \<and> se_user se = u_Name u
        \<and> ValidateClientHello (pr_hmac (w_prims w)) (w_clock w AtMatch) ch (s_key (u_Secret u)) (s_host (u_Secret u)) = Ok ())"
  using assms
proof (cases rule: handleConnection_cases)
  case (tls rest s1)
  let ?rec = "\<lparr>rr_conn = (nc_in conn)\<lparr>st_in := rest\<rparr>, rr_capture = [recordHandshake], rr_pending = [recordHandshake]\<rparr>"
  have rs: "rr_stream ?rec = nc_in conn" using tls(1) by (simp add: rr_stream_def)
  obtain ch u st where a: "parseClientHello (w_spare w) (nc_in conn) = (Ok ch, st)" "hello_admitted w (s_rt s1) ch u" "se_user se = u_Name u"
    using handleFakeTLSPath_facts(2) [OF tls(3), of se] tls(1) rs by auto
  have "u \<in> set (m_users (rt_Users (s_rt s))) \<and> hello_valid (w_prims w) (w_clock w AtMatch) ch u"
    using a(2) tls(4) by (auto simp: hello_admitted_def MatchClientHello_def bind_res_Ok_iff match_hello_loop_Ok)
  moreover have "st_in (nc_in conn) = slice_bytes (ch_raw ch) @ st_in st"
    using parsed_hello_first [OF a(1)] by metis
  moreover have "hello_admitted w (s_rt s) ch u" using a(2) tls(4) by (simp add: hello_admitted_def)
  ultimately show ?thesis
    using a tls by (auto simp: hello_valid_def hello_admitted_def)
qed simp_all

theorem relayed_tls_is_authentic_witness:
  "\<exists>bs se s' u. handleConnection example_world (example_conn bs) example_sink example_server = Some (Ok (RelayedTLS se), s')
     \<and> u \<in> set (m_users mgr_example) \<and> u_Enabled u \<and> se_user se = u_Name u"
proof -
  obtain bs se s' where h: "handleConnection example_world (example_conn bs) example_sink example_server = Some (Ok (RelayedTLS se), s')"
    by (rule example_relayed)
  show ?thesis
    using h relayed_tls_is_authentic [OF h] by (auto simp: example_server_def example_fields)
qed

text \<open>
  Only an authenticated client is relayed in the plain mode: the first 64 bytes are a header that
  decrypts, under the key of an enabled user of that mode, to the expected connection type, and the
  session is this user's with the data centre that the header names.
\<close>

lemma relayed_secure_is_authentic:
  assumes "handleConnection w conn sk s = Some (Ok (RelayedSecure se), s')"
  shows "pro_Secure (cfg_Protocols (rt_Config (s_rt s))) \<and> \<not> blocked_at w conn (s_rt s) \<and> 64 \<le> length (st_in (nc_in conn))
    \<and> (\<exists>u \<in> set (m_users (rt_Users (s_rt s))). u_Enabled u \<and> IsSecure (u_Secret u) \<and> se_user se = u_Name u
        \<and> TryParseHeader (pr_ks (w_prims w)) (pr_sha (w_prims w)) (take 64 (st_in (nc_in conn))) (s_key (u_Secret u)) = Some (se_dc se))"
  using assms
proof (cases rule: handleConnection_cases)
  case (tls rest s1)
  then show ?thesis using handleFakeTLSPath_facts(5) [OF tls(3), of se] by (simp add: rr_stream_def)
next
  case (secure first rest s1 se1)
  then obtain u where "match_secure_loop (w_prims w) (first # take 63 rest) (m_users (rt_Users (s_rt s))) = Ok (u, se_dc se)" "se_user se = u_Name u"
    using handleSecure_facts(3) [OF secure(7) refl] by (auto simp: MatchSecureHeader_def)
  then show ?thesis
    using secure match_secure_loop_Ok [of "w_prims w" "first # take 63 rest" "m_users (rt_Users (s_rt s))" u "se_dc se"] by auto
qed simp_all

definition example_secure_server :: server where
  "example_secure_server = \<lparr>s_rt = example_runtime\<lparr>rt_Users := mgr_example\<lparr>m_users := [user_dd]\<rparr>,
     rt_Config := (sample_config [])\<lparr>cfg_Protocols := \<lparr>pro_FakeTLS = False, pro_Secure = True\<rparr>\<rparr>, rt_ProbeBlacklist := None\<rparr>, s_metrics = None\<rparr>"

lemma example_secure_relayed:
  obtains bs se s' where "handleConnection example_world (example_conn bs) example_sink example_secure_server = Some (Ok (RelayedSecure se), s')"
proof -
  have so: "replicate 16 (1 :: byte) \<noteq> []" by simp
  obtain h enc dec where h: "outgoingHeader ks_example (\<lambda>m. take 32 m) [block_example] 2 (replicate 16 1) = Ok (h, enc, dec)" "length h = 64"
    by (rule example_header)
  have tp: "TryParseHeader ks_example (\<lambda>m. take 32 m) h (replicate 16 1) = Some 2"
    using header_accepted(2) [OF h(1)] so block_example_ok(1) by simp
  obtain o_c where cf: "ConnFromHeader ks_example (\<lambda>m. take 32 m) h (replicate 16 1) = Ok (o_c, 2)"
    by (simp add: ConnFromHeader_def tp Let_def)
  obtain first rest where fr: "h = first # rest" "length rest = 63" using h(2) by (cases h) auto
  let ?st = "\<lparr>st_in = [], st_end = EOF\<rparr>"
  obtain h' o_dc where d: "dc_reached example_world (rt_Config example_runtime) 2 (fst example_dc) (snd example_dc) h' o_dc"
    using example_dc_reached by blast
  then have d': "dc_reached example_world (rt_Config (s_rt example_secure_server)) 2 (fst example_dc) (snd example_dc) h' o_dc"
    by (simp add: dc_reached_def example_secure_server_def example_fields use_middle_def)
  let ?dc = "(o_dc, fst example_dc, (snd example_dc)\<lparr>sk_out := sk_out (snd example_dc) @ h'\<rparr>)"
  have "\<exists>u dn c' s'. pipeTraffic (obf_read ks_example (tcp_read (\<lambda>s. 0))) (obf_write ks_example tcp_write)
      (obf_read ks_example (tcp_read (\<lambda>s. 0))) (obf_write ks_example tcp_write) (o_c, ?st, example_sink) ?dc = Some (u, dn, c', s')"
    using secure_direct.pipeTraffic_delivers [of "(o_c, ?st, example_sink)" ?dc ks_example "\<lambda>s. 0" "\<lambda>s. 0"]
    by (auto simp: tcp_ready_def example_sink_def example_dc_def)
  then obtain u dn c' s' where p: "pipeTraffic (obf_read ks_example (tcp_read (\<lambda>s. 0))) (obf_write ks_example tcp_write)
      (obf_read ks_example (tcp_read (\<lambda>s. 0))) (obf_write ks_example tcp_write) (o_c, ?st, example_sink) ?dc = Some (u, dn, c', s')" by blast
  have pr: "pr_ks (w_prims example_world) = ks_example" "pr_sha (w_prims example_world) = (\<lambda>m. take 32 m)"
    "w_sched example_world = (\<lambda>s. 0)" "w_upsched example_world = (\<lambda>s. 0)"
    by (simp_all add: example_world_def prims_example_def)
  have m: "MatchSecureHeader (w_prims example_world) h (rt_Users (s_rt example_secure_server)) = Ok (user_dd, 2)"
    by (simp add: MatchSecureHeader_def example_secure_server_def pr tp) (simp add: user_dd_def IsSecure_def tp)
  have k: "s_key (u_Secret user_dd) = replicate 16 1" "u_Name user_dd = ''dd''" by (simp_all add: user_dd_def)
  have "\<exists>se s'. handleSecure example_world ?st example_sink h (remoteAddr (Some ''10.0.0.1:5000'')) example_secure_server = Some (Ok se, s')"
    using d' p dialDC_reached [OF d'] by (simp add: handleSecure_def m k cf pr relayMTProto_def rt_Snapshot_def dc_reached_def run_session_def Let_def)
  then obtain se s2 where "handleSecure example_world ?st example_sink h (remoteAddr (Some ''10.0.0.1:5000'')) example_secure_server = Some (Ok se, s2)"
    by blast
  moreover have "handleConnection example_world (example_conn h) example_sink example_secure_server =
      Option.bind (handleSecure example_world ?st example_sink h (remoteAddr (Some ''10.0.0.1:5000'')) example_secure_server)
        (\<lambda>(r, s). case r of Ok se \<Rightarrow> Some (Ok (RelayedSecure se), s)
           | Err _ \<Rightarrow> Some (serve_stranger example_world first ?st example_sink (Some ''10.0.0.1:5000'') s) | Panic \<Rightarrow> Some (Panic, s))"
    using fr by (simp add: handleConnection_def rt_Snapshot_def example_secure_server_def example_fields IsBlocked_def example_conn_def conn_read_def
        read_full_def Let_def)
  ultimately show thesis
    by (intro that) simp
qed

text \<open>
  With the obfuscated mode on, 64 bytes are read before the header is refused, and only the first of them is put
  back: the HTTP fallback sees the request of a stranger with the 63 bytes after the first cut out.
\<close>

lemma refused_header_is_cut_out:
  assumes "\<not> blocked_at w conn (s_rt s)" "pro_Secure (cfg_Protocols (rt_Config (s_rt s)))"
    and "st_in (nc_in conn) = first # lost @ rest" "length lost = 63" "\<not> IsHandshakeRecord first"
    and "MatchSecureHeader (w_prims w) (first # lost) (rt_Users (s_rt s)) = Err e"
  shows "\<exists>s'. handleConnection w conn sk s =
    Some (Ok (FallbackServed ((nc_in conn)\<lparr>st_in := first # rest\<rparr>) sk (fallbackOpts (rt_Config (s_rt s)))), s')"
proof -
  obtain bl where b: "IsBlocked (w_clock w AtBlock) (ClientIP (nc_remote conn)) (rt_ProbeBlacklist (s_rt s)) = (False, bl)"
    using assms(1) by (cases "IsBlocked (w_clock w AtBlock) (ClientIP (nc_remote conn)) (rt_ProbeBlacklist (s_rt s))") simp
  have "conn_read (w_sched w) 1 (nc_in conn) = (Inr [first], (nc_in conn)\<lparr>st_in := lost @ rest\<rparr>)"
    by (simp add: conn_read_def assms(3) Let_def)
  with b assms show ?thesis
    by (simp add: handleConnection_def rt_Snapshot_def read_full_def handleSecure_def serve_stranger_def Let_def)
qed


lemma example_stranger: "is_stranger w rt \<lparr>st_in = [recordHandshake, 3], st_end = EOF\<rparr>"
  by (auto simp: is_stranger_def parseClientHello_def read_full_def)


definition charged :: "nat \<Rightarrow> nat \<Rightarrow> userCounters \<Rightarrow> userCounters" where
  "charged up down c = c\<lparr>uc_total := uc_total c + 1, uc_upload := uc_upload c + word_of_nat up, uc_download := uc_download c + word_of_nat down\<rparr>"

fun account :: "ending \<Rightarrow> string \<Rightarrow> userCounters \<Rightarrow> userCounters" where
  "account (RelayedTLS se) name c = (if name = se_user se then charged (se_up se) (se_down se) c else c)"
| "account (RelayedSecure se) name c = (if name = se_user se then charged (se_up se) (se_down se) c else c)"
| "account _ name c = c"

lemma session_stats_counters:
  "counters_of n (session_stats user up down t) = (if n = user then charged up down (counters_of n t) else counters_of n t)"
proof -
  have step: "counters_of n (stats_step ev u) = (if n = ev_name ev then add_delta (ev_delta ev) (counters_of n u) else counters_of n u)" for ev u
    by (simp add: counters_of_def stats_step_counts)
  have "session_stats user up down t = stats_step (Disconnected user) (stats_step (Traffic user (int up) (int down)) (stats_step (Connected user) t))"
    by (simp add: session_stats_def)
  then show ?thesis
    by (simp only: step) (simp add: add_delta_def charged_def)
qed

text \<open>
  The statistics are exact and balanced. A connection that ends without a panic leaves the counters
  of every user as they were, except that a relayed session has added one connection and its bytes to
  its own user; in particular no user's number of active connections has changed.
\<close>

lemma connection_accounting:
  assumes "handleConnection w conn sk s = Some (Ok e, s')"
  shows "counters_of name (rt_Stats (s_rt s')) = account e name (counters_of name (rt_Stats (s_rt s)))
    \<and> uc_active (counters_of name (rt_Stats (s_rt s'))) = uc_active (counters_of name (rt_Stats (s_rt s)))"
proof -
  have "counters_of name (rt_Stats (s_rt s')) = account e name (counters_of name (rt_Stats (s_rt s)))"
    using assms
  proof (cases rule: handleConnection_cases)
    case (tls rest s1)
    note facts = handleFakeTLSPath_facts [OF tls(3), simplified, unfolded rr_stream_def, simplified]
    have "rt_Stats (s_rt s1) = rt_Stats (s_rt s)" using tls(4) by simp
    then show ?thesis
      using facts(2,3,5) by (cases e) (auto simp: session_stats_counters)
  next
    case (secure first rest s1 se)
    then show ?thesis
      using handleSecure_facts(3) [OF secure(7) refl] by (simp add: session_stats_counters)
  qed auto
  then show ?thesis
    by (cases e) (simp_all add: charged_def)
qed

lemma handleConnection_evolves:
  assumes "handleConnection w conn sk s = Some (r, s')"
  shows "rt_evolves (s_rt s) (s_rt s')"
  using assms
proof (cases rule: handleConnection_cases)
  case (tls rest s1)
  then show ?thesis
    using rt_evolves_trans [OF tls(5) handleFakeTLSPath_facts(1) [OF tls(3)]] by (simp add: rr_stream_def)
next
  case (secure first rest s1 se)
  then show ?thesis using rt_evolves_trans [OF secure(5) handleSecure_facts(1) [OF secure(7)]] by simp
next
  case (crashed st header s1)
  then show ?thesis using rt_evolves_trans [OF crashed(1) handleSecure_facts(1) [OF crashed(2)]] by simp
qed

text \<open>
  The server at work: its accept loop and the threads of its connections, in any order. \<open>live\<close> holds the
  addresses of the connections that are being handled. A handler that panics ends the program, so
  only handlers that return take a step.
\<close>

inductive serving :: "server \<Rightarrow> server \<Rightarrow> string option list \<Rightarrow> bool" for s0 where
  started: "serving s0 s0 []"
| accepted: "serving s0 s live \<Longrightarrow> accept_turn conn s = (Ok (Some conn'), s') \<Longrightarrow> serving s0 s' (nc_remote conn' # live)"
| refused: "serving s0 s live \<Longrightarrow> accept_turn conn s = (Ok None, s') \<Longrightarrow> serving s0 s' live"
| handled: "serving s0 s live \<Longrightarrow> nc_remote conn \<in> set live \<Longrightarrow> handleConnection w conn sk s = Some (Ok e, s') \<Longrightarrow>
    serving s0 (conn_done conn s') (remove1 (nc_remote conn) live)"

lemma accept_turn_Ok:
  assumes "accept_turn conn s = (Ok o_conn, s')"
  obtains conn' ok lim where "Acquire (nc_remote conn') (rt_Limiter (s_rt s)) = (ok, lim)" "s_rt s' = (s_rt s)\<lparr>rt_Limiter := lim\<rparr>"
    "o_conn = (if ok then Some conn' else None)"
proof (cases "accept_conn (rt_Snapshot (s_rt s)) conn")
  case (Ok c)
  obtain ok lim where a: "Acquire (nc_remote c) (rt_Limiter (s_rt s)) = (ok, lim)" by force
  show thesis
    using assms Ok a by (intro that [of c ok lim]) (auto simp: accept_turn_def split: if_splits)
qed (use assms in \<open>auto simp: accept_turn_def\<close>)

lemma rt_inv_Limiter: "rt_inv r \<Longrightarrow> lim \<noteq> None \<Longrightarrow> rt_inv (r\<lparr>rt_Limiter := lim\<rparr>)"
  by (simp add: rt_inv_def features_ok_def)

lemma lim_inv_not_None: "lim_inv mx lo live \<Longrightarrow> lo \<noteq> None"
  by (auto simp: lim_inv_def)

lemma serving_inv:
  "serving s0 s live \<Longrightarrow> rt_inv (s_rt s0) \<Longrightarrow> rt_Limiter (s_rt s0) = Some (NewConnLimiter mx) \<Longrightarrow>
     rt_inv (s_rt s) \<and> lim_inv mx (rt_Limiter (s_rt s)) live \<and> rt_Config (s_rt s) = rt_Config (s_rt s0)"
proof (induction rule: serving.induct)
  case started
  then show ?case by (simp add: lim_inv_def NewConnLimiter_def live_counts_Nil live_from_def)
next
  case (accepted s live conn conn' s')
  from accepted(2) obtain c ok lim where a: "Acquire (nc_remote c) (rt_Limiter (s_rt s)) = (ok, lim)" "s_rt s' = (s_rt s)\<lparr>rt_Limiter := lim\<rparr>"
    "Some conn' = (if ok then Some c else None)"
    by (rule accept_turn_Ok)
  have "lim_inv mx lim (nc_remote conn' # live)"
    using lim_inv_Acquire [OF _ a(1), of mx live] accepted a(3) by (simp split: if_splits)
  with a accepted lim_inv_not_None rt_inv_Limiter show ?case by simp
next
  case (refused s live conn s')
  from refused(2) obtain c :: net_conn and ok lim where a: "Acquire (nc_remote c) (rt_Limiter (s_rt s)) = (ok, lim)" "s_rt s' = (s_rt s)\<lparr>rt_Limiter := lim\<rparr>"
    "None = (if ok then Some c else None)"
    by (rule accept_turn_Ok)
  have "lim_inv mx lim live"
    using lim_inv_Acquire [OF _ a(1), of mx live] refused a(3) by (simp split: if_splits)
  with a refused lim_inv_not_None rt_inv_Limiter show ?case by simp
next
  case (handled s live conn w sk e s')
  then have ev: "rt_evolves (s_rt s) (s_rt s')" by (intro handleConnection_evolves)
  then have "lim_inv mx (Release (nc_remote conn) (rt_Limiter (s_rt s'))) (remove1 (nc_remote conn) live)"
    using handled by (intro lim_inv_Release) (simp_all add: rt_evolves_def)
  with ev rt_evolves_inv [OF ev] handled lim_inv_not_None rt_inv_Limiter show ?case by (simp add: rt_evolves_def conn_done_def)
qed

text \<open>
  The server stays sound at work. From a fresh limiter and a sound runtime, in whatever order
  connections are accepted, refused and handled, the rotators, the replay cache, the blacklist and the
  users keep their invariants, the limiter's counters are exactly the numbers of live connections
  per address, and with a positive limit no address has more live connections than the limit.
\<close>

lemma server_stays_sound:
  assumes "serving s0 s live" "rt_inv (s_rt s0)" "rt_Limiter (s_rt s0) = Some (NewConnLimiter mx)"
  shows "rt_inv (s_rt s) \<and> rt_Config (s_rt s) = rt_Config (s_rt s0)
    \<and> (\<exists>l. rt_Limiter (s_rt s) = Some l \<and> (0 < mx \<longrightarrow> cl_counts l = live_counts live
        \<and> (\<forall>ip. ip \<noteq> [] \<longrightarrow> int (live_from ip live) \<le> mx)))"
  using serving_inv [OF assms] by (auto simp: lim_inv_def)

lemma example_inv: "rt_inv example_runtime"
  by (simp add: rt_inv_def example_runtime_def rt_New_def apply_features users_ok_def mgr_example_def user_example_def user_ok_def secret_wf_def KeyLength_def)

end
