(* ===== verification/Fallback.thy ===== *)
theory Fallback
  imports ProxyServer
begin

text \<open>
  The HTTP fallback, \<open>internal/fallback/http.go\<close>: what a stranger is shown. \<open>net/http\<close> and \<open>net/url\<close> appear
  as the arguments \<open>web_read\<close> (\<open>http.ReadRequest\<close>), \<open>web_url\<close> (\<open>url.Parse\<close>: scheme and host) and \<open>web_trip\<close>
  (\<open>RoundTrip\<close> followed by \<open>Response.Write\<close>: no connection, a response that cannot be written out, or its
  bytes). The client's connection is its stream and its sink; every answer is one write.
\<close>

section \<open>Definitions\<close>

record http_request =
  rq_Method :: string
  rq_Path :: string
  rq_Scheme :: string
  rq_URLHost :: string
  rq_Host :: string
  rq_RequestURI :: string

datatype web_answer = NoAnswer | Unwritable | Answer bytes

record web =
  web_read :: "stream \<Rightarrow> http_request option"
  web_url :: "string \<Rightarrow> (string \<times> string) option"
  web_trip :: "http_request \<Rightarrow> web_answer"

datatype fallback_error = BadUpstream | ResponseWrite | ClientWrite

definition lf :: string where "lf = [CHR 0x0A]"
definition crlf :: string where "crlf = [CHR 0x0D, CHR 0x0A]"

definition defaultPage :: string where
  \<open>defaultPage =
     ''<!DOCTYPE html>'' @ lf @
     ''<html lang="en">'' @ lf @
     ''<head><meta charset="utf-8"><title>Welcome</title></head>'' @ lf @
     ''<body><h1>Welcome</h1><p>Service is running.</p></body>'' @ lf @
     ''</html>''\<close>

definition honeypotPage :: string where
  \<open>honeypotPage =
     ''<!DOCTYPE html>'' @ lf @
     ''<html lang="en">'' @ lf @
     ''<head>'' @ lf @
     ''<meta charset="utf-8">'' @ lf @
     ''<meta name="viewport" content="width=device-width, initial-scale=1">'' @ lf @
     ''<title>Welcome</title>'' @ lf @
     ''<style>'' @ lf @
     ''body{font-family:system-ui,sans-serif;max-width:640px;margin:4rem auto;padding:0 1rem;color:#222}'' @ lf @
     ''h1{font-size:1.75rem}p{color:#555}'' @ lf @
     ''</style>'' @ lf @
     ''</head>'' @ lf @
     ''<body>'' @ lf @
     ''<h1>Welcome</h1>'' @ lf @
     ''<p>The requested resource is available on this server.</p>'' @ lf @
     ''</body>'' @ lf @
     ''</html>''\<close>

text \<open>\<open>io.Copy\<close> from a \<open>strings.Reader\<close> is one write; this is also \<open>writeRaw\<close>.\<close>

definition writeRaw :: "sink \<Rightarrow> string \<Rightarrow> (fallback_error, unit) res \<times> sink" where
  "writeRaw sk data =
     (case sink_write (bytes_of_string data) sk of
        (True, sk') \<Rightarrow> (Ok (), sk')
      | (False, sk') \<Rightarrow> (Err ClientWrite, sk'))"

definition static_head :: "nat \<Rightarrow> string" where
  "static_head n =
     ''HTTP/1.1 200 OK'' @ crlf @ ''Connection: close'' @ crlf @ ''Content-Type: text/html; charset=utf-8'' @ crlf @
     ''Server: nginx'' @ crlf @ ''Content-Length: '' @ dec_nat n @ crlf @ crlf"

definition serveStatic :: "sink \<Rightarrow> string \<Rightarrow> (fallback_error, unit) res \<times> sink" where
  "serveStatic sk body = writeRaw sk (static_head (length body) @ body)"

definition writeHead :: "sink \<Rightarrow> string \<Rightarrow> (fallback_error, unit) res \<times> sink" where
  "writeHead sk body = writeRaw sk (static_head (length body))"

definition writeStatus :: "sink \<Rightarrow> nat \<Rightarrow> string \<Rightarrow> (fallback_error, unit) res \<times> sink" where
  "writeStatus sk code text =
     (let body = text @ lf in
      writeRaw sk
        (''HTTP/1.1 '' @ dec_nat code @ '' '' @ text @ crlf @ ''Connection: close'' @ crlf @
         ''Content-Type: text/plain; charset=utf-8'' @ crlf @ ''Server: nginx'' @ crlf @
         ''Content-Length: '' @ dec_nat (length body) @ crlf @ crlf @ body))"

definition http2SettingsAck :: string where
  "http2SettingsAck = ''HTTP/1.1 200 OK'' @ crlf @ ''Connection: close'' @ crlf @ ''Content-Length: 0'' @ crlf @ crlf"

definition http2_preface :: string where
  "http2_preface = ''PRI * HTTP/2.0'' @ crlf @ crlf @ ''SM'' @ crlf @ crlf"

definition isHTTP2Preface :: "bytes \<Rightarrow> bool" where
  "isHTTP2Preface b \<longleftrightarrow> length b \<ge> 24 \<and> string_of_bytes (take 24 b) = http2_preface"

text \<open>\<open>Peek(24)\<close> succeeds when 24 bytes come; the request is then read from the same bytes.\<close>

definition serveHoneypot :: "web \<Rightarrow> stream \<Rightarrow> sink \<Rightarrow> (fallback_error, unit) res \<times> sink" where
  "serveHoneypot web st sk =
     (if length (st_in st) \<ge> 24 \<and> isHTTP2Preface (take 24 (st_in st)) then writeRaw sk http2SettingsAck
      else case web_read web st of
             None \<Rightarrow> serveStatic sk honeypotPage
           | Some req \<Rightarrow>
               let path = rq_Path req in
               if path = ''/favicon.ico'' then writeStatus sk 204 ''No Content''
               else if take 13 path = ''/.well-known/'' then writeStatus sk 404 ''Not Found''
               else if rq_Method req = ''GET'' then serveStatic sk honeypotPage
               else if rq_Method req = ''HEAD'' then writeHead sk honeypotPage
               else writeStatus sk 405 ''Method Not Allowed'')"

definition retarget :: "string \<times> string \<Rightarrow> http_request \<Rightarrow> http_request" where
  "retarget target req = req\<lparr>rq_Scheme := fst target, rq_URLHost := snd target, rq_RequestURI := [], rq_Host := snd target\<rparr>"

definition serveUpstream :: "web \<Rightarrow> stream \<Rightarrow> sink \<Rightarrow> string \<Rightarrow> (fallback_error, unit) res \<times> sink" where
  "serveUpstream web st sk upstream =
     (case web_read web st of
        None \<Rightarrow> serveStatic sk defaultPage
      | Some req \<Rightarrow>
          (case web_url web upstream of
             None \<Rightarrow> (Err BadUpstream, sk)
           | Some target \<Rightarrow>
               (case web_trip web (retarget target req) of
                  NoAnswer \<Rightarrow> serveStatic sk defaultPage
                | Unwritable \<Rightarrow> (Err ResponseWrite, sk)
                | Answer bs \<Rightarrow>
                    (case sink_write bs sk of (True, sk') \<Rightarrow> (Ok (), sk') | (False, sk') \<Rightarrow> (Err ClientWrite, sk')))))"

definition fb_Serve :: "web \<Rightarrow> stream \<Rightarrow> sink \<Rightarrow> Options \<Rightarrow> (fallback_error, unit) res \<times> sink" where
  "fb_Serve web st sk opts =
     (if op_Honeypot opts then serveHoneypot web st sk else serveUpstream web st sk (op_Upstream opts))"

section \<open>Facts\<close>

text \<open>
  Specification: an HTTP/1.1 answer with status line \<open>status\<close> and the given body. No line has a line break
  in it, and exactly one of them announces a length, which is that of \<open>announced\<close>.
\<close>

definition http_answer :: "string \<Rightarrow> string \<Rightarrow> string \<Rightarrow> string \<Rightarrow> bool" where
  "http_answer status announced body reply \<longleftrightarrow>
     (\<exists>lines. reply = ''HTTP/1.1 '' @ status @ crlf @ concat (map (\<lambda>l. l @ crlf) lines) @ crlf @ body
       \<and> (\<forall>l \<in> set (status # lines). set l \<inter> set crlf = {} \<and> l \<noteq> [])
       \<and> filter (\<lambda>l. take 15 l = ''Content-Length:'') lines = [''Content-Length: '' @ dec_nat (length announced)])"

lemma dec_digit_visible: "n < 10 \<Longrightarrow> dec_digit n \<notin> set crlf"
proof
  assume n: "n < 10" and "dec_digit n \<in> set crlf"
  then have "(of_char (dec_digit n) :: int) \<in> {13, 10}" by (auto simp: crlf_def)
  with of_char_dec_digit [OF n] show False by simp
qed

lemma dec_nat_visible: "set (dec_nat n) \<inter> set crlf = {}"
proof (induction n rule: dec_nat.induct)
  case (1 n)
  then show ?case
    using dec_digit_visible [of n] dec_digit_visible [of "n mod 10"] by (subst dec_nat.simps) (auto split: if_splits)
qed

lemma dec_nat_not_Nil: "dec_nat n \<noteq> []"
  by (simp add: dec_nat.simps)

lemma crlf_chars: "set crlf = {CHR 0x0D, CHR 0x0A}"
  by (auto simp: crlf_def)

lemma static_answer:
  "http_answer ''200 OK'' body body (static_head (length body) @ body)"
  "http_answer ''200 OK'' body [] (static_head (length body))"
proof -
  let ?ls = "[''Connection: close'', ''Content-Type: text/html; charset=utf-8'', ''Server: nginx'', ''Content-Length: '' @ dec_nat (length body)]"
  have "\<forall>l \<in> set (''200 OK'' # ?ls). set l \<inter> set crlf = {} \<and> l \<noteq> []"
    using dec_nat_visible [of "length body"] by (auto simp: crlf_chars)
  moreover have "filter (\<lambda>l. take 15 l = ''Content-Length:'') ?ls = [''Content-Length: '' @ dec_nat (length body)]"
    by simp
  ultimately show "http_answer ''200 OK'' body body (static_head (length body) @ body)"
    "http_answer ''200 OK'' body [] (static_head (length body))"
    unfolding http_answer_def static_head_def by (intro exI [of _ ?ls], simp)+
qed

definition status_text :: "nat \<Rightarrow> string \<Rightarrow> string" where
  "status_text code text =
     ''HTTP/1.1 '' @ dec_nat code @ '' '' @ text @ crlf @ ''Connection: close'' @ crlf @
     ''Content-Type: text/plain; charset=utf-8'' @ crlf @ ''Server: nginx'' @ crlf @
     ''Content-Length: '' @ dec_nat (length (text @ lf)) @ crlf @ crlf @ text @ lf"

lemma status_answer:
  assumes "set text \<inter> set crlf = {}"
  shows "http_answer (dec_nat code @ '' '' @ text) (text @ lf) (text @ lf) (status_text code text)"
proof -
  let ?ls = "[''Connection: close'', ''Content-Type: text/plain; charset=utf-8'', ''Server: nginx'', ''Content-Length: '' @ dec_nat (length (text @ lf))]"
  have "\<forall>l \<in> set ((dec_nat code @ '' '' @ text) # ?ls). set l \<inter> set crlf = {} \<and> l \<noteq> []"
    using dec_nat_visible [of "length (text @ lf)"] dec_nat_visible [of code] assms by (auto simp: crlf_chars)
  moreover have "filter (\<lambda>l. take 15 l = ''Content-Length:'') ?ls = [''Content-Length: '' @ dec_nat (length (text @ lf))]"
    by simp
  ultimately show ?thesis
    unfolding http_answer_def status_text_def by (intro exI [of _ ?ls]) simp
qed

lemma ack_answer: "http_answer ''200 OK'' [] [] http2SettingsAck"
proof -
  have "dec_nat 0 = ''0''" by code_simp
  then show ?thesis
    unfolding http_answer_def http2SettingsAck_def
    by (intro exI [of _ "[''Connection: close'', ''Content-Length: 0'']"]) (simp add: crlf_chars)
qed

lemma writeRaw_open: "sk_room sk = None \<Longrightarrow> writeRaw sk data = (Ok (), sk\<lparr>sk_out := sk_out sk @ bytes_of_string data\<rparr>)"
  by (simp add: writeRaw_def sink_write_def)

lemma writeStatus_text: "writeStatus sk code text = writeRaw sk (status_text code text)"
  by (simp add: writeStatus_def status_text_def Let_def)

section \<open>Properties\<close>



end
