(* ===== verification/Service.thy ===== *)
theory Service
  imports ProxyServer
begin

text \<open>
  Uninstalling the systemd service, \<open>internal/service/systemd.go\<close>. What the functions do to the machine is the
  list of the actions they take, in order; the machine answers through a record: whether \<open>systemctl\<close> is
  there, whether the process is root, whether a script file exists, and whether a command succeeds.
\<close>

section \<open>Definitions\<close>

definition ConfirmPhrase :: string where
  "ConfirmPhrase = utf8 ''d0a3d094d090d09bd098d0a2d0ac''"

record svc_config =
  svc_Name :: string
  svc_UnitPath :: string
  svc_ScriptPath :: string
  svc_AllowUninst :: bool

datatype svc_message = SvcDisabled | SvcNoSystemctl | SvcWillStop string

record svc_result =
  sr_Scheduled :: bool
  sr_Message :: svc_message
  sr_Command :: string

text \<open>\<open>filepath.Join\<close> of a rooted directory and a name: the parts without empty ones and dots, a double dot
  takes back the part before it.\<close>

fun clean_parts :: "string list \<Rightarrow> string list \<Rightarrow> string list" where
  "clean_parts done [] = rev done"
| "clean_parts done (p # ps) =
     (if p = [] \<or> p = ''.'' then clean_parts done ps
      else if p = ''..'' then clean_parts (tl done) ps
      else clean_parts (p # done) ps)"

definition path_join :: "string \<Rightarrow> string \<Rightarrow> string" where
  "path_join dir name =
     (let ps = clean_parts [] (split_on (CHR ''/'') (dir @ ''/'' @ name)) in
      if ps = [] then ''/'' else concat (map (\<lambda>p. CHR ''/'' # p) ps))"

definition FromManagement :: "string \<Rightarrow> string \<Rightarrow> string \<Rightarrow> bool \<Rightarrow> svc_config" where
  "FromManagement name unitPath scriptPath allow =
     (let name = (if name = [] then ''phantom-proxy'' else name);
          unitPath = (if unitPath = [] then path_join ''/etc/systemd/system'' (name @ ''.service'') else unitPath)
      in \<lparr>svc_Name = name, svc_UnitPath = unitPath, svc_ScriptPath = scriptPath, svc_AllowUninst = allow\<rparr>)"

datatype svc_error = NotConfirmed | UninstallDisabled | NoServiceName | NoSystemctl | StopFailed | DisableFailed
  | PurgeNeedsRoot | NoScript | ScriptMissing | ScriptFailed

definition ValidateConfirm :: "string \<Rightarrow> (svc_error, unit) res" where
  "ValidateConfirm got = guard_res (got = ConfirmPhrase) NotConfirmed"

datatype sys_action = Systemctl "string list" | RemoveFile string | RemoveTree string | Bash "string list"

record machine =
  mc_systemctl :: bool
  mc_root :: bool
  mc_exists :: "string \<Rightarrow> bool"
  mc_runs :: "sys_action \<Rightarrow> bool"

definition purge_actions :: "svc_config \<Rightarrow> sys_action list" where
  "purge_actions cfg =
     [RemoveFile (svc_UnitPath cfg), Systemctl [''daemon-reload''], RemoveTree ''/opt/phantomproxy'', RemoveTree ''/etc/phantomproxy'']"

definition Uninstall :: "machine \<Rightarrow> svc_config \<Rightarrow> bool \<Rightarrow> (svc_error, unit) res \<times> sys_action list" where
  "Uninstall mc cfg purge =
     (let stop = Systemctl [''stop'', svc_Name cfg]; dis = Systemctl [''disable'', svc_Name cfg] in
      if \<not> svc_AllowUninst cfg then (Err UninstallDisabled, [])
      else if svc_Name cfg = [] then (Err NoServiceName, [])
      else if \<not> mc_systemctl mc then (Err NoSystemctl, [])
      else if \<not> mc_runs mc stop then (Err StopFailed, [stop])
      else if \<not> mc_runs mc dis then (Err DisableFailed, [stop, dis])
      else if purge \<and> \<not> mc_root mc then (Err PurgeNeedsRoot, [stop, dis])
      else (Ok (), [stop, dis] @ (if purge then purge_actions cfg else [])))"

definition UninstallCommand :: "svc_config \<Rightarrow> string" where
  "UninstallCommand cfg =
     (if svc_ScriptPath cfg \<noteq> [] then ''sudo bash '' @ svc_ScriptPath cfg
      else ''sudo systemctl stop '' @ svc_Name cfg @ '' && sudo systemctl disable '' @ svc_Name cfg)"

text \<open>The second component is what the scheduled thread does.\<close>

definition ScheduleUninstall :: "machine \<Rightarrow> svc_config \<Rightarrow> bool \<Rightarrow> svc_result \<times> sys_action list" where
  "ScheduleUninstall mc cfg purge =
     (if \<not> svc_AllowUninst cfg then (\<lparr>sr_Scheduled = False, sr_Message = SvcDisabled, sr_Command = UninstallCommand cfg\<rparr>, [])
      else if \<not> mc_systemctl mc then (\<lparr>sr_Scheduled = False, sr_Message = SvcNoSystemctl, sr_Command = UninstallCommand cfg\<rparr>, [])
      else (\<lparr>sr_Scheduled = True, sr_Message = SvcWillStop (svc_Name cfg), sr_Command = []\<rparr>, snd (Uninstall mc cfg purge)))"

definition RunScript :: "machine \<Rightarrow> string \<Rightarrow> bool \<Rightarrow> (svc_error, unit) res \<times> sys_action list" where
  "RunScript mc scriptPath purge =
     (let run = Bash (scriptPath # (if purge then [''--purge''] else [])) in
      if scriptPath = [] then (Err NoScript, [])
      else if \<not> mc_exists mc scriptPath then (Err ScriptMissing, [])
      else if mc_runs mc run then (Ok (), [run]) else (Err ScriptFailed, [run]))"

section \<open>Facts\<close>

lemma Uninstall_actions:
  "set (snd (Uninstall mc cfg purge)) \<subseteq> {Systemctl [''stop'', svc_Name cfg], Systemctl [''disable'', svc_Name cfg]}
     \<union> (if purge \<and> mc_root mc then set (purge_actions cfg) else {})"
  "snd (Uninstall mc cfg purge) \<noteq> [] \<Longrightarrow> svc_AllowUninst cfg \<and> mc_systemctl mc \<and> svc_Name cfg \<noteq> []"
  by (auto simp: Uninstall_def Let_def split: if_splits)

lemma ScheduleUninstall_actions:
  "set (snd (ScheduleUninstall mc cfg purge)) \<subseteq> {Systemctl [''stop'', svc_Name cfg], Systemctl [''disable'', svc_Name cfg]}
     \<union> (if purge \<and> mc_root mc then set (purge_actions cfg) else {})"
  "snd (ScheduleUninstall mc cfg purge) \<noteq> [] \<Longrightarrow> svc_AllowUninst cfg \<and> mc_systemctl mc \<and> sr_Scheduled (fst (ScheduleUninstall mc cfg purge))"
  using Uninstall_actions [of mc cfg purge] by (auto simp: ScheduleUninstall_def split: if_splits)

text \<open>The unit file of a plain service name is in the systemd directory.\<close>

lemma split_on_none: "c \<notin> set s \<Longrightarrow> split_on c s = [s]"
  by (induction s) auto

lemma split_on_append: "split_on c (a @ c # b) = split_on c a @ split_on c b"
proof (induction a)
  case Nil
  then show ?case by simp
next
  case (Cons x a)
  have "split_on c a \<noteq> []" by (cases a) (auto split: list.splits)
  with Cons show ?case by (auto split: list.splits)
qed

lemma unit_path:
  assumes "CHR ''/'' \<notin> set name" "name \<noteq> []"
  shows "svc_UnitPath (FromManagement name [] script allow) = ''/etc/systemd/system/'' @ name @ ''.service''"
proof -
  have parts: "split_on (CHR ''/'') (''/etc/systemd/system'' @ ''/'' @ name @ ''.service'') = [[], ''etc'', ''systemd'', ''system'', name @ ''.service'']"
    using split_on_append [of "CHR ''/''" "''/etc/systemd/system''" "name @ ''.service''"] assms(1) split_on_none [of "CHR ''/''" "name @ ''.service''"]
    by simp
  have long: "2 < length s \<Longrightarrow> s \<noteq> ''.'' \<and> s \<noteq> ''..''" for s :: string by auto
  have "name @ ''.service'' \<noteq> ''.'' \<and> name @ ''.service'' \<noteq> ''..''" by (rule long) simp
  with parts show ?thesis
    using assms(2) by (simp add: FromManagement_def path_join_def Let_def)
qed

end
