(* ===== verification/Admin.thy ===== *)
theory Admin
  imports ProxyNet Runtime Service
begin

text \<open>
  The management API, \<open>internal/admin/server.go\<close>. A handler takes a request and the state of the program it
  works on: the runtime, the management settings it was made with, the listener, the configuration file
  and the uninstall actions that were started. A request carries its method, path, headers, query, form
  and cookie as \<open>net/http\<close> gives them. \<open>encoding/json\<close> is an argument: one decoder per kind of body. Error
  texts are values of a datatype. A configuration write that fails leaves the file as it was; what reading the
  file gives may depend on what was last written to it.
\<close>

section \<open>Requests, replies and the state\<close>

record api_request =
  ar_Method :: string
  ar_Path :: string
  ar_Header :: "string \<Rightarrow> string"
  ar_Query :: "string \<Rightarrow> string"
  ar_Form :: "(string \<Rightarrow> string) option"
  ar_Cookie :: "string option"
  ar_Body :: bytes

record createUserRequest =
  cu_Name :: string
  cu_Secret :: string
  cu_Host :: string
  cu_Enabled :: "bool option"

record updateUserRequest =
  uu_Secret :: string
  uu_Enabled :: "bool option"

record uninstallRequest =
  un_Confirm :: string
  un_Purge :: bool

record admin_world =
  aw_now :: int
  aw_write :: file_writer
  aw_viper :: "Config option \<Rightarrow> viper"
  aw_listen :: "(string \<Rightarrow> string option) option"
  aw_rand :: "bytes option"
  aw_machine :: machine
  aw_order :: "Tracker \<Rightarrow> string list"
  aw_create :: "bytes \<Rightarrow> createUserRequest option"
  aw_update :: "bytes \<Rightarrow> updateUserRequest option"
  aw_uninstall :: "bytes \<Rightarrow> uninstallRequest option"
  aw_settings :: "bytes \<Rightarrow> SettingsView option"

record admin_state =
  as_rt :: Runtime
  as_mgmt :: ManagementConfig
  as_listener :: "string option"
  as_disk :: "Config option"
  as_actions :: "sys_action list"

datatype api_error = WrongToken | MethodUnsupported | UserMissing | BadJSON | NameRequired | BadSecret secret_error
  | UserFailed user_error | SaveFailed runtime_error | StatsMissing | UninstallOff | ServiceFailed svc_error | BadForm

datatype rebind_report = NoRebind | Rebound string | RebindFailed string

record api_status =
  st_UptimeSeconds :: int
  st_ListenAddr :: string
  st_MaskHost :: string
  st_Backend :: string
  st_UsersCount :: nat
  st_ActiveConnections :: "64 word"
  st_TotalConnections :: "64 word"
  st_UploadBytes :: "64 word"
  st_DownloadBytes :: "64 word"

text \<open>The data of the pages of the web interface.\<close>

record dash_data =
  da_Stats :: StatsSnapshot
  da_UsersCount :: nat
  da_UptimeText :: string
  da_ListenAddr :: string
  da_MaskHost :: string

datatype shown_error = ErrorOf api_error | ErrorText string

record users_data =
  ud_Users :: "UserView list"
  ud_Flash :: string
  ud_Error :: shown_error

record settings_data =
  sd_Settings :: SettingsView
  sd_AllowServiceUninstall :: bool
  sd_ServiceName :: string
  sd_Flash :: string
  sd_Error :: shown_error

text \<open>What the web interface tells after a change.\<close>

datatype ui_note = UserCreated | ChangesSaved | SettingsSaved rebind_report | ConfigReloaded rebind_report
  | UninstallNote svc_result | ErrorNote api_error

text \<open>Pages of the web interface carry their data; the dashboard and its parts also the name of the template.\<close>

datatype payload =
    Healthy
  | Failure api_error
  | StatusOf api_status
  | UserViews "UserView list"
  | OneView UserView
  | Statistics StatsSnapshot
  | UserStatistics UserStats
  | Reloaded rebind_report
  | Settings SettingsView
  | Applied SettingsView rebind_report
  | Uninstalling svc_result
  | Empty
  | NotFoundPage
  | MovedTo string
  | LoginFirst string
  | Noted string ui_note
  | LoginPage "api_error option"
  | LoggedIn string string
  | StaticFile string
  | Dashboard string dash_data
  | UsersPage users_data
  | SettingsPage settings_data
  | Crashed

type_synonym response = "nat \<times> payload"

section \<open>Helpers\<close>

definition checkToken :: "api_request \<Rightarrow> string \<Rightarrow> bool" where
  "checkToken r token =
     (let auth = ar_Header r ''Authorization'' in
      if take 7 auth = ''Bearer '' then drop 7 auth = token else ar_Header r ''X-API-Token'' = token)"

definition withAuth :: "(api_request \<Rightarrow> admin_state \<Rightarrow> response \<times> admin_state) \<Rightarrow> api_request \<Rightarrow> admin_state \<Rightarrow> response \<times> admin_state" where
  "withAuth handler r s =
     (if man_Token (as_mgmt s) \<noteq> [] \<and> \<not> checkToken r (man_Token (as_mgmt s)) then ((401, Failure WrongToken), s)
      else handler r s)"

text \<open>\<open>strconv.Atoi\<close> for 64-bit integers: the value, and whether there was no error. Out of range it is the bound,
  and it is only out of range if the digits up to the overflow are digits.\<close>

datatype digits = Syntax | Overflow | Value nat

fun scan_digits :: "nat \<Rightarrow> string \<Rightarrow> digits" where
  "scan_digits n [] = Value n"
| "scan_digits n (c # cs) =
     (let d = of_char c :: nat in
      if d < 48 \<or> 57 < d then Syntax
      else if 2 ^ 64 \<le> 10 * n + (d - 48) then Overflow
      else scan_digits (10 * n + (d - 48)) cs)"

definition Atoi :: "string \<Rightarrow> int \<times> bool" where
  "Atoi s =
     (let neg = (s \<noteq> [] \<and> hd s = CHR ''-'');
          t = (if s \<noteq> [] \<and> (hd s = CHR ''-'' \<or> hd s = CHR ''+'') then tl s else s);
          big = (if neg then (- (2 ^ 63), False) else (2 ^ 63 - 1, False))
      in if t = [] then (0, False)
         else case scan_digits 0 t of
                Syntax \<Rightarrow> (0, False)
              | Overflow \<Rightarrow> big
              | Value n \<Rightarrow>
                  if neg then (if int n > 2 ^ 63 then big else (- int n, True))
                  else (if int n \<ge> 2 ^ 63 then big else (int n, True)))"

definition publicEndpoint :: "Config \<Rightarrow> string \<times> int" where
  "publicEndpoint cfg =
     (let server = man_PublicServer (cfg_Management cfg);
          host = lis_Host (cfg_Listen cfg);
          server = (if server = [] then (if host = [] \<or> host = ''0.0.0.0'' then ''127.0.0.1'' else host) else server)
      in (server, lis_Port (cfg_Listen cfg)))"

definition proxyEndpoint :: "api_request \<Rightarrow> Config \<Rightarrow> string \<times> int" where
  "proxyEndpoint r cfg =
     (let server = ar_Query r ''server''; p = ar_Query r ''port'' in
      if server \<noteq> []
      then (server, if p \<noteq> [] \<and> snd (Atoi p) then fst (Atoi p) else lis_Port (cfg_Listen cfg))
      else publicEndpoint cfg)"

definition status_of :: "admin_world \<Rightarrow> Runtime \<Rightarrow> (unit, api_status) res" where
  "status_of w rt =
     bind_res (Snapshot_stats (aw_order w (rt_Stats rt)) (rt_Stats rt)) (\<lambda>snap.
       Ok \<lparr>st_UptimeSeconds = Uptime (aw_now w) rt div 1000000000, st_ListenAddr = cfg_Addr (rt_Snapshot rt),
           st_MaskHost = MaskHost (rt_Users rt), st_Backend = mt_Backend (cfg_MTProto (rt_Snapshot rt)),
           st_UsersCount = length (Users (rt_Users rt)), st_ActiveConnections = ss_ActiveConnections snap,
           st_TotalConnections = ss_TotalConnections snap, st_UploadBytes = ss_UploadBytes snap,
           st_DownloadBytes = ss_DownloadBytes snap\<rparr>)"

text \<open>Saving the users, with the effect on the file.\<close>

definition persist :: "admin_world \<Rightarrow> admin_state \<Rightarrow> (runtime_error, unit) res \<times> admin_state" where
  "persist w s =
     (case PersistUsers (aw_write w) (as_rt s) of
        (r, rt, saved) \<Rightarrow>
          (r, s\<lparr>as_rt := rt, as_disk := (case saved of None \<Rightarrow> as_disk s | Some cfg \<Rightarrow> Some cfg)\<rparr>))"

definition rebind :: "admin_world \<Rightarrow> admin_state \<Rightarrow> rebind_report \<times> admin_state" where
  "rebind w s =
     (case aw_listen w of
        None \<Rightarrow> (NoRebind, s)
      | Some listen \<Rightarrow>
          (case RebindListenIfNeeded listen (rt_Snapshot (as_rt s)) (as_listener s) of
             (Ok True, ln) \<Rightarrow> (Rebound (cfg_Addr (rt_Snapshot (as_rt s))), s\<lparr>as_listener := ln\<rparr>)
           | (Ok False, ln) \<Rightarrow> (NoRebind, s\<lparr>as_listener := ln\<rparr>)
           | (Err a, ln) \<Rightarrow> (RebindFailed a, s\<lparr>as_listener := ln\<rparr>)
           | (Panic, ln) \<Rightarrow> (NoRebind, s\<lparr>as_listener := ln\<rparr>)))"

definition apply_settings :: "admin_world \<Rightarrow> SettingsView \<Rightarrow> admin_state \<Rightarrow> (runtime_error, unit) res \<times> admin_state" where
  "apply_settings w settings s =
     (case UpdateSettings (aw_write w) (aw_now w) settings (as_rt s) of
        (r, rt, saved) \<Rightarrow>
          (r, s\<lparr>as_rt := rt, as_disk := (case saved of None \<Rightarrow> as_disk s | Some cfg \<Rightarrow> Some cfg)\<rparr>))"

definition upd_users :: "(Manager \<Rightarrow> Manager) \<Rightarrow> admin_state \<Rightarrow> admin_state" where
  "upd_users f s = s\<lparr>as_rt := (as_rt s)\<lparr>rt_Users := f (rt_Users (as_rt s))\<rparr>\<rparr>"

text \<open>The reply with the view of a user; \<open>GetView\<close> gives the zero view for a name that is gone.\<close>

definition zero_view :: UserView where
  "zero_view = \<lparr>v_Name = [], v_Secret = [], v_Host = [], v_Enabled = False, v_TGLink = []\<rparr>"

definition view_of :: "api_request \<Rightarrow> string \<Rightarrow> admin_state \<Rightarrow> UserView" where
  "view_of r name s =
     (case proxyEndpoint r (rt_Snapshot (as_rt s)) of (server, port) \<Rightarrow>
        case GetView name server port (rt_Users (as_rt s)) of Some v \<Rightarrow> v | None \<Rightarrow> zero_view)"

section \<open>Handlers\<close>

type_synonym handler = "api_request \<Rightarrow> admin_state \<Rightarrow> response \<times> admin_state"

definition handleHealth :: handler where "handleHealth r s = ((200, Healthy), s)"

definition handleStatus :: "admin_world \<Rightarrow> handler" where
  "handleStatus w r s = ((case status_of w (as_rt s) of Ok st \<Rightarrow> (200, StatusOf st) | _ \<Rightarrow> (0, Crashed)), s)"

definition listUsers :: handler where
  "listUsers r s =
     (case proxyEndpoint r (rt_Snapshot (as_rt s)) of (server, port) \<Rightarrow>
        ((200, UserViews (ListViews (rt_Users (as_rt s)) server port)), s))"

definition getUser :: "string \<Rightarrow> handler" where
  "getUser name r s =
     (case proxyEndpoint r (rt_Snapshot (as_rt s)) of (server, port) \<Rightarrow>
        (case GetView name server port (rt_Users (as_rt s)) of
           None \<Rightarrow> ((404, Failure UserMissing), s)
         | Some v \<Rightarrow> ((200, OneView v), s)))"

text \<open>From a name, the text of a secret and the host for a generated one to the user: what \<open>createUser\<close> of
  the API and of the web interface share.\<close>

definition new_secret :: "admin_world \<Rightarrow> string \<Rightarrow> string \<Rightarrow> (nat \<times> api_error, secret) res" where
  "new_secret w secretText host =
     (case (if secretText = [] then bind_res (GenerateSecret (aw_rand w) host) (\<lambda>(_, text). Ok text) else Ok secretText) of
        Err e \<Rightarrow> Err (500, UserFailed e)
      | Panic \<Rightarrow> Panic
      | Ok t \<Rightarrow> (case ParseSecret t of Ok secret \<Rightarrow> Ok secret | Err e \<Rightarrow> Err (400, BadSecret e) | Panic \<Rightarrow> Panic))"

definition createUser :: "admin_world \<Rightarrow> handler" where
  "createUser w r s =
     (case aw_create w (ar_Body r) of
        None \<Rightarrow> ((400, Failure BadJSON), s)
      | Some req \<Rightarrow>
          if cu_Name req = [] then ((400, Failure NameRequired), s)
          else (case new_secret w (cu_Secret req) (cu_Host req) of
                  Err (code, e) \<Rightarrow> ((code, Failure e), s)
                | Panic \<Rightarrow> ((0, Crashed), s)
                | Ok secret \<Rightarrow>
                    (case AddUser \<lparr>u_Name = cu_Name req, u_Secret = secret,
                            u_Enabled = (case cu_Enabled req of None \<Rightarrow> True | Some e \<Rightarrow> e)\<rparr> (rt_Users (as_rt s)) of
                       (Err e, m) \<Rightarrow> ((409, Failure (UserFailed e)), upd_users (\<lambda>_. m) s)
                     | (Panic, m) \<Rightarrow> ((0, Crashed), upd_users (\<lambda>_. m) s)
                     | (Ok _, m) \<Rightarrow>
                         (case persist w (upd_users (\<lambda>_. m) s) of
                            (Err e, s') \<Rightarrow> ((500, Failure (SaveFailed e)), s')
                          | (Panic, s') \<Rightarrow> ((0, Crashed), s')
                          | (Ok _, s') \<Rightarrow> ((201, OneView (view_of r (cu_Name req) s')), s')))))"

definition updateUser :: "admin_world \<Rightarrow> string \<Rightarrow> handler" where
  "updateUser w name r s =
     (case aw_update w (ar_Body r) of
        None \<Rightarrow> ((400, Failure BadJSON), s)
      | Some req \<Rightarrow>
          (case (if uu_Secret req \<noteq> [] then bind_res (ParseSecret (uu_Secret req)) (\<lambda>x. Ok (Some x)) else Ok None) of
             Err e \<Rightarrow> ((400, Failure (BadSecret e)), s)
           | Panic \<Rightarrow> ((0, Crashed), s)
           | Ok secret \<Rightarrow>
               (case UpdateUser name secret (uu_Enabled req) (rt_Users (as_rt s)) of
                  (Err e, m) \<Rightarrow> ((404, Failure (UserFailed e)), upd_users (\<lambda>_. m) s)
                | (Panic, m) \<Rightarrow> ((0, Crashed), upd_users (\<lambda>_. m) s)
                | (Ok updated, m) \<Rightarrow>
                    (case persist w (upd_users (\<lambda>_. m) s) of
                       (Err e, s') \<Rightarrow> ((500, Failure (SaveFailed e)), s')
                     | (Panic, s') \<Rightarrow> ((0, Crashed), s')
                     | (Ok _, s') \<Rightarrow> ((200, OneView (view_of r (u_Name updated) s')), s')))))"

definition deleteUser :: "admin_world \<Rightarrow> string \<Rightarrow> handler" where
  "deleteUser w name r s =
     (case RemoveUser name (rt_Users (as_rt s)) of
        (Err e, m) \<Rightarrow> ((400, Failure (UserFailed e)), upd_users (\<lambda>_. m) s)
      | (Panic, m) \<Rightarrow> ((0, Crashed), upd_users (\<lambda>_. m) s)
      | (Ok _, m) \<Rightarrow>
          (case persist w (upd_users (\<lambda>_. m) s) of
             (Err e, s') \<Rightarrow> ((500, Failure (SaveFailed e)), s')
           | (Panic, s') \<Rightarrow> ((0, Crashed), s')
           | (Ok _, s') \<Rightarrow> ((204, Empty), s')))"

definition handleUsers :: "admin_world \<Rightarrow> handler" where
  "handleUsers w r s =
     (if ar_Method r = ''GET'' then listUsers r s
      else if ar_Method r = ''POST'' then createUser w r s
      else ((405, Failure MethodUnsupported), s))"

definition trim_prefix :: "string \<Rightarrow> string \<Rightarrow> string" where
  "trim_prefix p s = (if take (length p) s = p then drop (length p) s else s)"

definition handleUserByName :: "admin_world \<Rightarrow> handler" where
  "handleUserByName w r s =
     (let name = trim_prefix ''/api/v1/users/'' (ar_Path r) in
      if name = [] \<or> CHR ''/'' \<in> set name then ((404, Failure UserMissing), s)
      else if ar_Method r = ''GET'' then getUser name r s
      else if ar_Method r = ''PUT'' then updateUser w name r s
      else if ar_Method r = ''DELETE'' then deleteUser w name r s
      else ((405, Failure MethodUnsupported), s))"

definition handleStats :: "admin_world \<Rightarrow> handler" where
  "handleStats w r s =
     (if ar_Method r \<noteq> ''GET'' then ((405, Failure MethodUnsupported), s)
      else ((case Snapshot_stats (aw_order w (rt_Stats (as_rt s))) (rt_Stats (as_rt s)) of
               Ok snap \<Rightarrow> (200, Statistics snap) | _ \<Rightarrow> (0, Crashed)), s))"

definition handleStatsByName :: "admin_world \<Rightarrow> handler" where
  "handleStatsByName w r s =
     (if ar_Method r \<noteq> ''GET'' then ((405, Failure MethodUnsupported), s)
      else let name = trim_prefix ''/api/v1/stats/'' (ar_Path r) in
        if name = [] then handleStats w r s
        else (case User_stats name (rt_Stats (as_rt s)) of
                None \<Rightarrow> ((404, Failure StatsMissing), s)
              | Some st \<Rightarrow> ((200, UserStatistics st), s)))"

definition reload :: "admin_world \<Rightarrow> admin_state \<Rightarrow> (runtime_error, unit) res \<times> admin_state" where
  "reload w s = (case rt_Reload (aw_viper w (as_disk s)) (aw_now w) (as_rt s) of (r, rt) \<Rightarrow> (r, s\<lparr>as_rt := rt\<rparr>))"

definition handleReload :: "admin_world \<Rightarrow> handler" where
  "handleReload w r s =
     (if ar_Method r \<noteq> ''POST'' then ((405, Failure MethodUnsupported), s)
      else case reload w s of
             (Err e, s) \<Rightarrow> ((500, Failure (SaveFailed e)), s)
           | (Panic, s) \<Rightarrow> ((0, Crashed), s)
           | (Ok _, s) \<Rightarrow> (case rebind w s of (rep, s) \<Rightarrow> ((200, Reloaded rep), s)))"

definition applyConfigResponse :: "admin_world \<Rightarrow> SettingsView \<Rightarrow> admin_state \<Rightarrow> (runtime_error, SettingsView \<times> rebind_report) res \<times> admin_state" where
  "applyConfigResponse w settings s =
     (case apply_settings w settings s of
        (Err e, s) \<Rightarrow> (Err e, s)
      | (Panic, s) \<Rightarrow> (Panic, s)
      | (Ok _, s) \<Rightarrow>
          (case rebind w s of (rep, s) \<Rightarrow> (Ok (SettingsFromConfig (rt_Snapshot (as_rt s)), rep), s)))"

definition handleConfig :: "admin_world \<Rightarrow> handler" where
  "handleConfig w r s =
     (if ar_Method r = ''GET'' then ((200, Settings (SettingsFromConfig (rt_Snapshot (as_rt s)))), s)
      else if ar_Method r = ''PUT'' then
        (case aw_settings w (ar_Body r) of
           None \<Rightarrow> ((400, Failure BadJSON), s)
         | Some settings \<Rightarrow>
             (case applyConfigResponse w settings s of
                (Err e, s) \<Rightarrow> ((500, Failure (SaveFailed e)), s)
              | (Panic, s) \<Rightarrow> ((0, Crashed), s)
              | (Ok (view, rep), s) \<Rightarrow> ((200, Applied view rep), s)))
      else ((405, Failure MethodUnsupported), s))"

text \<open>Scheduling the removal, as the API and the web interface do it.\<close>

definition schedule_uninstall :: "admin_world \<Rightarrow> bool \<Rightarrow> admin_state \<Rightarrow> svc_result \<times> admin_state" where
  "schedule_uninstall w purge s =
     (let m = as_mgmt s;
          cfg = FromManagement (man_ServiceName m) (man_ServiceUnitPath m) (man_UninstallScript m) (man_AllowServiceUninstall m)
      in case ScheduleUninstall (aw_machine w) cfg purge of (res, acts) \<Rightarrow> (res, s\<lparr>as_actions := as_actions s @ acts\<rparr>))"

definition handleServiceUninstall :: "admin_world \<Rightarrow> handler" where
  "handleServiceUninstall w r s =
     (if ar_Method r \<noteq> ''POST'' then ((405, Failure MethodUnsupported), s)
      else if \<not> man_AllowServiceUninstall (as_mgmt s) then ((403, Failure UninstallOff), s)
      else case aw_uninstall w (ar_Body r) of
             None \<Rightarrow> ((400, Failure BadJSON), s)
           | Some req \<Rightarrow>
               (case ValidateConfirm (un_Confirm req) of
                  Err e \<Rightarrow> ((400, Failure (ServiceFailed e)), s)
                | Panic \<Rightarrow> ((0, Crashed), s)
                | Ok _ \<Rightarrow>
                    (case schedule_uninstall w (un_Purge req) s of
                       (res, s) \<Rightarrow> ((if sr_Scheduled res then 202 else 200, Uninstalling res), s))))"

end
