(* ===== verification/AdminUI.thy ===== *)
theory AdminUI
  imports Admin
begin

text \<open>
  The web interface, \<open>internal/admin/ui/handler.go\<close>, and the routes of the management server (\<open>New\<close> in
  \<open>internal/admin/server.go\<close>, \<open>Register\<close>). Templates and static files are not modelled: a page is its data.
\<close>

section \<open>Sessions\<close>

definition hasSession :: "api_request \<Rightarrow> admin_state \<Rightarrow> bool" where
  "hasSession r s \<longleftrightarrow> man_Token (as_mgmt s) = [] \<or> ar_Cookie r = Some (man_Token (as_mgmt s))"

definition withSession :: "handler \<Rightarrow> handler" where
  "withSession next r s =
     (if man_Token (as_mgmt s) \<noteq> [] \<and> \<not> hasSession r s then ((303, LoginFirst (ar_Path r)), s) else next r s)"

text \<open>\<open>LoggedIn\<close> carries the session cookie that is set and the page that is opened.\<close>

definition handleLogin :: handler where
  "handleLogin r s =
     (if man_Token (as_mgmt s) = [] \<or> hasSession r s then ((303, MovedTo ''/ui/''), s)
      else if ar_Method r = ''GET'' then ((200, LoginPage None), s)
      else if ar_Method r = ''POST'' then
        (case ar_Form r of
           None \<Rightarrow> ((200, LoginPage (Some BadForm)), s)
         | Some form \<Rightarrow>
             if form ''token'' \<noteq> man_Token (as_mgmt s) then ((200, LoginPage (Some WrongToken)), s)
             else ((303, LoggedIn (man_Token (as_mgmt s)) (if form ''next'' = [] then ''/ui/'' else form ''next'')), s))
      else ((405, Failure MethodUnsupported), s))"

section \<open>Pages\<close>

text \<open>\<open>formatDuration\<close>, in nanoseconds, for an uptime, which is not negative; the units are the Russian letters for hour, minute and second.\<close>

definition two_digits :: "nat \<Rightarrow> string" where
  "two_digits n = (if n < 10 then CHR ''0'' # dec_nat n else dec_nat n)"

definition formatDuration :: "nat \<Rightarrow> string" where
  "formatDuration d =
     (let secs = (d + 500000000) div 1000000000; h = secs div 3600; m = (secs div 60) mod 60; s = secs mod 60 in
      if h > 0 then dec_nat h @ utf8 ''d187'' @ '' '' @ two_digits m @ utf8 ''d0bc''
      else if m > 0 then dec_nat m @ utf8 ''d0bc'' @ '' '' @ two_digits s @ utf8 ''d181''
      else dec_nat s @ utf8 ''d181'')"

text \<open>The message of a handler, else the one that the address of the page carries.\<close>

definition firstNonEmpty :: "api_error option \<Rightarrow> string \<Rightarrow> shown_error" where
  "firstNonEmpty err query = (case err of Some e \<Rightarrow> ErrorOf e | None \<Rightarrow> ErrorText query)"

definition dashboardData :: "admin_world \<Rightarrow> Runtime \<Rightarrow> (unit, dash_data) res" where
  "dashboardData w rt =
     bind_res (Snapshot_stats (aw_order w (rt_Stats rt)) (rt_Stats rt)) (\<lambda>snap.
       Ok \<lparr>da_Stats = snap, da_UsersCount = length (Users (rt_Users rt)), da_UptimeText = formatDuration (nat (Uptime (aw_now w) rt)),
           da_ListenAddr = cfg_Addr (rt_Snapshot rt), da_MaskHost = MaskHost (rt_Users rt)\<rparr>)"

definition dashboard :: "string \<Rightarrow> admin_world \<Rightarrow> admin_state \<Rightarrow> response" where
  "dashboard template w s = (case dashboardData w (as_rt s) of Ok d \<Rightarrow> (200, Dashboard template d) | _ \<Rightarrow> (0, Crashed))"

definition handleDashboard :: "admin_world \<Rightarrow> handler" where
  "handleDashboard w r s =
     (if ar_Path r \<noteq> ''/ui/'' \<and> ar_Path r \<noteq> ''/ui'' then ((404, NotFoundPage), s) else (dashboard ''dashboard.html'' w s, s))"

definition handlePartialStats :: "admin_world \<Rightarrow> handler" where
  "handlePartialStats w r s = (dashboard ''stats_cards'' w s, s)"

definition handlePartialUsersStats :: "admin_world \<Rightarrow> handler" where
  "handlePartialUsersStats w r s = (dashboard ''users_stats_table'' w s, s)"

definition usersPageData :: "api_request \<Rightarrow> api_error option \<Rightarrow> admin_state \<Rightarrow> users_data" where
  "usersPageData r err s =
     (case publicEndpoint (rt_Snapshot (as_rt s)) of (server, port) \<Rightarrow>
        \<lparr>ud_Users = ListViews (rt_Users (as_rt s)) server port, ud_Flash = ar_Query r ''flash'',
         ud_Error = firstNonEmpty err (ar_Query r ''error'')\<rparr>)"

definition usersPage :: "api_request \<Rightarrow> api_error option \<Rightarrow> admin_state \<Rightarrow> response" where
  "usersPage r err s = (200, UsersPage (usersPageData r err s))"

definition settingsPageData :: "api_request \<Rightarrow> api_error option \<Rightarrow> admin_state \<Rightarrow> settings_data" where
  "settingsPageData r err s =
     \<lparr>sd_Settings = SettingsFromConfig (rt_Snapshot (as_rt s)), sd_AllowServiceUninstall = man_AllowServiceUninstall (as_mgmt s),
      sd_ServiceName = (if man_ServiceName (as_mgmt s) = [] then ''phantom-proxy'' else man_ServiceName (as_mgmt s)),
      sd_Flash = ar_Query r ''flash'', sd_Error = firstNonEmpty err (ar_Query r ''error'')\<rparr>"

definition settingsPage :: "api_request \<Rightarrow> api_error option \<Rightarrow> admin_state \<Rightarrow> response" where
  "settingsPage r err s = (200, SettingsPage (settingsPageData r err s))"

section \<open>Users\<close>

definition ui_createUser :: "admin_world \<Rightarrow> (string \<Rightarrow> string) \<Rightarrow> admin_state \<Rightarrow> (api_error, unit) res \<times> admin_state" where
  "ui_createUser w form s =
     (let name = trim_space (form ''name'') in
      if name = [] then (Err NameRequired, s)
      else case new_secret w (trim_space (form ''secret'')) (trim_space (form ''host'')) of
             Err (_, e) \<Rightarrow> (Err e, s)
           | Panic \<Rightarrow> (Panic, s)
           | Ok secret \<Rightarrow>
               (case AddUser \<lparr>u_Name = name, u_Secret = secret, u_Enabled = True\<rparr> (rt_Users (as_rt s)) of
                  (Err e, m) \<Rightarrow> (Err (UserFailed e), upd_users (\<lambda>_. m) s)
                | (Panic, m) \<Rightarrow> (Panic, upd_users (\<lambda>_. m) s)
                | (Ok _, m) \<Rightarrow>
                    (case persist w (upd_users (\<lambda>_. m) s) of
                       (Err e, s) \<Rightarrow> (Err (SaveFailed e), s) | (Panic, s) \<Rightarrow> (Panic, s) | (Ok _, s) \<Rightarrow> (Ok (), s))))"

definition ui_handleUsers :: "admin_world \<Rightarrow> handler" where
  "ui_handleUsers w r s =
     (if ar_Method r = ''GET'' then (usersPage r None s, s)
      else if ar_Method r = ''POST'' then
        (case ar_Form r of
           None \<Rightarrow> (usersPage r (Some BadForm) s, s)
         | Some form \<Rightarrow>
             (case ui_createUser w form s of
                (Err e, s) \<Rightarrow> (usersPage r (Some e) s, s)
              | (Panic, s) \<Rightarrow> ((0, Crashed), s)
              | (Ok _, s) \<Rightarrow> ((303, Noted ''/ui/users'' UserCreated), s)))
      else ((405, Failure MethodUnsupported), s))"

definition findUser :: "string \<Rightarrow> admin_state \<Rightarrow> User option" where
  "findUser name s = find (\<lambda>u. u_Name u = name) (Users (rt_Users (as_rt s)))"

text \<open>The change that an action makes, \<open>None\<close> for an unknown user or action. The error of saving is dropped.\<close>

definition user_action :: "string \<Rightarrow> string \<Rightarrow> admin_state \<Rightarrow> ((user_error, unit) res \<times> Manager) option" where
  "user_action name action s =
     (if action = ''toggle'' then
        map_option (\<lambda>u. case UpdateUser name None (Some (\<not> u_Enabled u)) (rt_Users (as_rt s)) of
            (r, m) \<Rightarrow> (bind_res r (\<lambda>_. Ok ()), m)) (findUser name s)
      else if action = ''delete'' then Some (RemoveUser name (rt_Users (as_rt s)))
      else None)"

definition handleUserAction :: "admin_world \<Rightarrow> handler" where
  "handleUserAction w r s =
     (if ar_Method r \<noteq> ''POST'' then ((405, Failure MethodUnsupported), s)
      else case split_on (CHR ''/'') (trim_prefix ''/ui/users/'' (ar_Path r)) of
             [name, action] \<Rightarrow>
               (case user_action name action s of
                  None \<Rightarrow> ((404, NotFoundPage), s)
                | Some (Err e, m) \<Rightarrow> ((303, Noted ''/ui/users'' (ErrorNote (UserFailed e))), upd_users (\<lambda>_. m) s)
                | Some (Panic, m) \<Rightarrow> ((0, Crashed), upd_users (\<lambda>_. m) s)
                | Some (Ok _, m) \<Rightarrow>
                    (case persist w (upd_users (\<lambda>_. m) s) of (_, s) \<Rightarrow> ((303, Noted ''/ui/users'' ChangesSaved), s)))
           | _ \<Rightarrow> ((404, NotFoundPage), s))"

section \<open>Settings\<close>

definition atoi :: "string \<Rightarrow> int" where "atoi v = fst (Atoi v)"

definition form_list :: "string \<Rightarrow> string list" where
  "form_list s = (let s = trim_space s in if s = [] then [] else nonempty (map trim_space (split_on (CHR '','') s)))"

text \<open>The settings of the form: what it does not have are zero values.\<close>

definition form_settings :: "(string \<Rightarrow> string) \<Rightarrow> SettingsView" where
  "form_settings form =
     \<lparr>sv_ListenHost = form ''listen_host'', sv_ListenPort = atoi (form ''listen_port''), sv_Backend = form ''backend'',
      sv_FallbackUpstream = form ''fallback_upstream'', sv_RecordMinChunk = atoi (form ''record_min_chunk''),
      sv_RecordMaxChunk = atoi (form ''record_max_chunk''), sv_NoiseMean = atoi (form ''noise_mean''),
      sv_NoiseJitter = atoi (form ''noise_jitter''), sv_AllowedJA3 = form_list (form ''allowed_ja3''), sv_AllowedJA4 = [],
      sv_PublicServer = form ''public_server'', sv_MaxConnectionsPerIP = 0, sv_UpstreamSOCKS5 = [], sv_FrontingAction = []\<rparr>"

definition saveSettings :: "admin_world \<Rightarrow> (string \<Rightarrow> string) \<Rightarrow> admin_state \<Rightarrow> (runtime_error, unit) res \<times> admin_state" where
  "saveSettings w form s = apply_settings w (form_settings form) s"

definition handleSettings :: "admin_world \<Rightarrow> handler" where
  "handleSettings w r s =
     (if ar_Method r = ''GET'' then (settingsPage r None s, s)
      else if ar_Method r = ''POST'' then
        (case ar_Form r of
           None \<Rightarrow> (settingsPage r (Some BadForm) s, s)
         | Some form \<Rightarrow>
             (case saveSettings w form s of
                (Err e, s) \<Rightarrow> (settingsPage r (Some (SaveFailed e)) s, s)
              | (Panic, s) \<Rightarrow> ((0, Crashed), s)
              | (Ok _, s) \<Rightarrow> (case rebind w s of (rep, s) \<Rightarrow> ((303, Noted ''/ui/settings'' (SettingsSaved rep)), s))))
      else ((405, Failure MethodUnsupported), s))"

definition ui_handleReload :: "admin_world \<Rightarrow> handler" where
  "ui_handleReload w r s =
     (if ar_Method r \<noteq> ''POST'' then ((405, Failure MethodUnsupported), s)
      else case reload w s of
             (Err e, s) \<Rightarrow> ((303, Noted ''/ui/settings'' (ErrorNote (SaveFailed e))), s)
           | (Panic, s) \<Rightarrow> ((0, Crashed), s)
           | (Ok _, s) \<Rightarrow> (case rebind w s of (rep, s) \<Rightarrow> ((303, Noted ''/ui/settings'' (ConfigReloaded rep)), s)))"

definition ui_handleServiceUninstall :: "admin_world \<Rightarrow> handler" where
  "ui_handleServiceUninstall w r s =
     (if ar_Method r \<noteq> ''POST'' then ((405, Failure MethodUnsupported), s)
      else if \<not> man_AllowServiceUninstall (as_mgmt s) then ((303, Noted ''/ui/settings'' (ErrorNote UninstallOff)), s)
      else case ar_Form r of
             None \<Rightarrow> ((303, Noted ''/ui/settings'' (ErrorNote BadForm)), s)
           | Some form \<Rightarrow>
               (case ValidateConfirm (form ''confirm'') of
                  Err e \<Rightarrow> ((303, Noted ''/ui/settings'' (ErrorNote (ServiceFailed e))), s)
                | Panic \<Rightarrow> ((0, Crashed), s)
                | Ok _ \<Rightarrow>
                    (case schedule_uninstall w (form ''purge'' = ''on'' \<or> form ''purge'' = ''true'') s of
                       (res, s) \<Rightarrow> ((303, Noted ''/ui/settings'' (UninstallNote res)), s))))"

section \<open>Routes\<close>

definition cleanPath :: "string \<Rightarrow> string" where
  "cleanPath p =
     (let ps = clean_parts [] (split_on (CHR ''/'') p) in
      if ps = [] then ''/''
      else concat (map (\<lambda>q. CHR ''/'' # q) ps) @ (if p \<noteq> [] \<and> last p = CHR ''/'' then ''/'' else []))"

definition under :: "string \<Rightarrow> string \<Rightarrow> bool" where
  "under dir p \<longleftrightarrow> take (length dir) p = dir"

text \<open>The handler of a clean path: an exact pattern first, then the longest directory.\<close>

definition route :: "admin_world \<Rightarrow> handler" where
  "route w r s =
     (let p = ar_Path r in
      if p = ''/api/v1/health'' then handleHealth r s
      else if p = ''/api/v1/status'' then withAuth (handleStatus w) r s
      else if p = ''/api/v1/users'' then withAuth (handleUsers w) r s
      else if under ''/api/v1/users/'' p then withAuth (handleUserByName w) r s
      else if p = ''/api/v1/stats'' then withAuth (handleStats w) r s
      else if under ''/api/v1/stats/'' p then withAuth (handleStatsByName w) r s
      else if p = ''/api/v1/reload'' then withAuth (handleReload w) r s
      else if p = ''/api/v1/config'' then withAuth (handleConfig w) r s
      else if p = ''/api/v1/service/uninstall'' then withAuth (handleServiceUninstall w) r s
      else if under ''/ui/static/'' p then ((200, StaticFile (drop 11 p)), s)
      else if p = ''/ui/login'' then handleLogin r s
      else if p = ''/ui/users'' then withSession (ui_handleUsers w) r s
      else if under ''/ui/users/'' p then withSession (handleUserAction w) r s
      else if p = ''/ui/settings'' then withSession (handleSettings w) r s
      else if p = ''/ui/reload'' then withSession (ui_handleReload w) r s
      else if p = ''/ui/service/uninstall'' then withSession (ui_handleServiceUninstall w) r s
      else if p = ''/ui/partials/stats'' then withSession (handlePartialStats w) r s
      else if p = ''/ui/partials/users-stats'' then withSession (handlePartialUsersStats w) r s
      else if under ''/ui/'' p then withSession (handleDashboard w) r s
      else if p \<noteq> ''/'' then ((404, NotFoundPage), s)
      else ((303, MovedTo ''/ui/''), s))"

definition serve_admin :: "admin_world \<Rightarrow> handler" where
  "serve_admin w r s =
     (let p = (if ar_Method r = ''CONNECT'' then ar_Path r else cleanPath (ar_Path r)) in
      if p \<in> {''/ui'', ''/ui/static''} then ((301, MovedTo (p @ ''/'')), s)
      else if p \<noteq> ar_Path r then ((301, MovedTo p), s)
      else route w r s)"

end
