(* ===== verification/AdminProperties.thy ===== *)
theory AdminProperties
  imports AdminUI
begin

text \<open>
  What the management interface guarantees as a whole: \<open>serve_admin\<close> is every request to the API and the web
  interface. Each handler is shown to keep the invariant of the runtime and the agreement of the configuration
  file with it; the routing then carries the four claims.
\<close>

section \<open>Single operations\<close>

text \<open>Everything but an enabled user and a mask host.\<close>

definition rt_usable :: "Runtime \<Rightarrow> bool" where
  "rt_usable r \<longleftrightarrow> rt_Replay r \<noteq> None \<and> rt_Limiter r \<noteq> None \<and> features_ok r
     \<and> m_users (rt_Users r) \<noteq> [] \<and> (\<forall>u \<in> set (m_users (rt_Users r)). user_ok u)"

definition keeps :: "Runtime \<Rightarrow> Runtime \<Rightarrow> bool" where
  "keeps r r' \<longleftrightarrow> (rt_usable r \<longrightarrow> rt_usable r') \<and> (rt_inv r \<longrightarrow> rt_inv r')"

lemma keeps_refl [simp]: "keeps r r"
  by (simp add: keeps_def)

lemma keeps_trans: "keeps a b \<Longrightarrow> keeps b c \<Longrightarrow> keeps a c"
  by (auto simp: keeps_def)

lemma features_users [simp]:
  "features_ok (r\<lparr>rt_Users := m\<rparr>) = features_ok r" "features_ok (r\<lparr>rt_Config := c\<rparr>) = features_ok r"
  by (simp_all add: features_ok_def)

lemma rt_inv_usable: "rt_inv r \<Longrightarrow> rt_usable r"
  by (auto simp: rt_inv_def rt_usable_def users_ok_def)

text \<open>The users stay well formed and do not run out; the only way to lose the last enabled one is reported.\<close>

definition users_step :: "Manager \<Rightarrow> ('a, 'b) res \<times> Manager \<Rightarrow> bool" where
  "users_step m p \<longleftrightarrow> (m_users m \<noteq> [] \<longrightarrow> m_users (snd p) \<noteq> [])
     \<and> ((\<forall>u \<in> set (m_users m). user_ok u) \<longrightarrow> (\<forall>u \<in> set (m_users (snd p)). user_ok u))"

lemma AddUser_step:
  assumes "user_ok u" "AddUser u m = (r, m')"
  shows "users_step m (r, m')" "users_ok m \<Longrightarrow> users_ok m'"
  using assms by (auto simp: AddUser_def users_step_def users_ok_def Let_def split: if_splits)

lemma refreshed_ok:
  assumes "refreshMaskHost m = (r, m')" "\<forall>u \<in> set (m_users m). user_ok u"
  shows "users_ok m' \<or> r = Err NoActiveUsers"
  using refreshMaskHost_cases [OF assms(1)] assms(2) by (auto simp: users_ok_def)

lemma UpdateUser_step:
  assumes "\<And>x. secret = Some x \<Longrightarrow> secret_wf x" "UpdateUser name secret enabled m = (r, m')"
  shows "users_step m (r, m') \<and> (users_ok m \<longrightarrow> users_ok m' \<or> r = Err NoActiveUsers)"
proof (cases "index_of name (m_users m)")
  case None
  with assms show ?thesis by (simp add: UpdateUser_def users_step_def)
next
  case (Some i)
  define u where "u = (case enabled of Some b \<Rightarrow> (case secret of Some s \<Rightarrow> (m_users m ! i)\<lparr>u_Secret := s\<rparr> | None \<Rightarrow> m_users m ! i)\<lparr>u_Enabled := b\<rparr>
      | None \<Rightarrow> (case secret of Some s \<Rightarrow> (m_users m ! i)\<lparr>u_Secret := s\<rparr> | None \<Rightarrow> m_users m ! i))"
  let ?m = "m\<lparr>m_users := (m_users m)[i := u]\<rparr>"
  obtain r1 where r1: "refreshMaskHost ?m = (r1, m')" "r = bind_res r1 (\<lambda>_. Ok u)"
    using assms(2) Some by (auto simp: UpdateUser_def u_def Let_def split: prod.splits)
  have i: "i < length (m_users m)" using index_of_Some [OF Some] by simp
  have "user_ok u" if "\<forall>u \<in> set (m_users m). user_ok u"
    using that i assms(1) by (auto simp: u_def user_ok_def split: option.splits)
  then have all: "\<forall>u \<in> set (m_users ?m). user_ok u" if "\<forall>u \<in> set (m_users m). user_ok u"
    using that set_update_subset_insert [of "m_users m" i u] by auto
  have "m_users m' = m_users ?m" using refreshMaskHost_cases [OF r1(1)] by blast
  with all refreshed_ok [OF r1(1)] r1(2) show ?thesis
    by (auto simp: users_step_def users_ok_def)
qed

lemma RemoveUser_step:
  assumes "RemoveUser name m = (r, m')"
  shows "users_step m (r, m') \<and> (users_ok m \<longrightarrow> users_ok m' \<or> r = Err NoActiveUsers)"
proof (cases "length (m_users m) \<le> 1 \<or> index_of name (m_users m) = None")
  case True
  with assms show ?thesis by (auto simp: RemoveUser_def users_step_def split: if_splits)
next
  case False
  then obtain i where i: "index_of name (m_users m) = Some i" "\<not> length (m_users m) \<le> 1" by auto
  let ?m = "m\<lparr>m_users := take i (m_users m) @ drop (Suc i) (m_users m)\<rparr>"
  have r: "refreshMaskHost ?m = (r, m')" using assms i by (simp add: RemoveUser_def)
  have "m_users ?m \<noteq> []" using i index_of_Some [OF i(1)] by auto
  moreover have "set (m_users ?m) \<subseteq> set (m_users m)"
    using set_take_subset set_drop_subset by fastforce
  moreover have "m_users m' = m_users ?m" using refreshMaskHost_cases [OF r] by blast
  ultimately show ?thesis
    using refreshed_ok [OF r] by (auto simp: users_step_def users_ok_def)
qed

lemma upd_users_sel [simp]:
  "as_rt (upd_users (\<lambda>_. m) s) = (as_rt s)\<lparr>rt_Users := m\<rparr>" "as_actions (upd_users f s) = as_actions s"
  "as_disk (upd_users f s) = as_disk s" "as_mgmt (upd_users f s) = as_mgmt s"
  by (simp_all add: upd_users_def)

lemma usable_users: "users_step (rt_Users r) (x, m) \<Longrightarrow> rt_usable r \<Longrightarrow> rt_usable (r\<lparr>rt_Users := m\<rparr>)"
  by (simp add: users_step_def rt_usable_def)

lemma inv_users: "users_ok m \<Longrightarrow> rt_inv r \<Longrightarrow> rt_inv (r\<lparr>rt_Users := m\<rparr>)"
  by (simp add: rt_inv_def)

lemma persist_keeps: "persist w s = (e, s') \<Longrightarrow> keeps (as_rt s) (as_rt s')"
  by (auto simp: persist_def keeps_def rt_usable_def rt_inv_def split: prod.splits dest!: PersistUsers_cases)

lemma apply_settings_keeps: "apply_settings w x s = (e, s') \<Longrightarrow> keeps (as_rt s) (as_rt s')"
  by (auto simp: apply_settings_def keeps_def rt_usable_def rt_inv_def users_ok_def UpdateSettings_cases(1-4) split: prod.splits)

lemma reload_keeps:
  assumes "reload w s = (e, s')"
  shows "keeps (as_rt s) (as_rt s')"
proof -
  obtain rt where "rt_Reload (aw_viper w (as_disk s)) (aw_now w) (as_rt s) = (e, rt)" and s': "s' = s\<lparr>as_rt := rt\<rparr>"
    using assms by (auto simp: reload_def split: prod.splits)
  then show ?thesis
  proof (cases rule: rt_Reload_cases)
    case (loaded cfg mgr)
    with Load_ok(1) [OF loaded(1)] s' show ?thesis
      by (auto simp: keeps_def rt_usable_def rt_inv_def users_ok_def)
  qed (use s' in simp_all)
qed

lemma rebind_rt: "as_rt (snd (rebind w s)) = as_rt s" "as_disk (snd (rebind w s)) = as_disk s"
  by (auto simp: rebind_def split: option.splits prod.splits res.splits bool.splits)

lemma rebind_keeps: "rebind w s = (rep, s') \<Longrightarrow> keeps r (as_rt s) \<Longrightarrow> keeps r (as_rt s')"
  using rebind_rt(1) [of w s] by simp

lemma schedule_rt: "as_rt (snd (schedule_uninstall w p s)) = as_rt s" "as_disk (snd (schedule_uninstall w p s)) = as_disk s"
  by (auto simp: schedule_uninstall_def Let_def split: prod.splits)

lemma schedule_keeps: "schedule_uninstall w p s = (res, s') \<Longrightarrow> keeps (as_rt s) (as_rt s')"
  using schedule_rt(1) [of w p s] by simp

lemma new_secret_wf: "new_secret w t h = Ok x \<Longrightarrow> secret_wf x"
  by (auto simp: new_secret_def dest: ParseSecret_wf split: res.splits)

section \<open>Handlers\<close>

text \<open>The reply that tells that no enabled user is left.\<close>

definition lockout :: "response \<Rightarrow> bool" where
  "lockout resp \<longleftrightarrow> snd resp = Failure (UserFailed NoActiveUsers)
     \<or> snd resp = Noted ''/ui/users'' (ErrorNote (UserFailed NoActiveUsers))"

definition sound_step :: "admin_state \<Rightarrow> response \<times> admin_state \<Rightarrow> bool" where
  "sound_step s p \<longleftrightarrow> (rt_usable (as_rt s) \<longrightarrow> rt_usable (as_rt (snd p)))
     \<and> (rt_inv (as_rt s) \<longrightarrow> rt_inv (as_rt (snd p)) \<or> lockout (fst p))"

named_theorems sound_intros

lemma sound_keeps [sound_intros]: "keeps (as_rt s) (as_rt s') \<Longrightarrow> sound_step s (resp, s')"
  by (auto simp: keeps_def sound_step_def)

lemma sound_same [sound_intros]: "sound_step s (resp, s)"
  by (simp add: sound_step_def)

lemma added_keeps:
  assumes "AddUser u (rt_Users (as_rt s)) = (e, m)" "user_ok u"
  shows "keeps (as_rt s) (as_rt (upd_users (\<lambda>_. m) s))"
  using AddUser_step [OF assms(2,1)] usable_users [of "as_rt s" e m] inv_users [of m "as_rt s"]
  by (auto simp: keeps_def rt_inv_def)

text \<open>A change of the users, saved or not: it is sound if losing the last enabled user is reported.\<close>

lemma changed_sound:
  assumes "users_step (rt_Users (as_rt s)) (e, m)" "users_ok (rt_Users (as_rt s)) \<longrightarrow> users_ok m \<or> e = Err NoActiveUsers"
    and "p = (resp, s')" "s' = upd_users (\<lambda>_. m) s \<or> (\<exists>e'. persist w (upd_users (\<lambda>_. m) s) = (e', s'))"
    "e = Err NoActiveUsers \<Longrightarrow> lockout resp"
  shows "sound_step s p"
proof -
  let ?s = "upd_users (\<lambda>_. m) s"
  have "sound_step s (resp, ?s)"
    using assms(2,5) usable_users [OF assms(1)] inv_users [of m "as_rt s"] by (auto simp: sound_step_def rt_inv_def)
  moreover have "keeps (as_rt ?s) (as_rt s')"
    using assms(4) by (auto simp del: upd_users_sel intro: persist_keeps)
  ultimately show ?thesis
    using assms(3) by (auto simp: sound_step_def keeps_def)
qed

lemma createUser_sound [sound_intros]: "sound_step s (createUser w r s)"
proof -
  have k: "keeps (as_rt s) (as_rt (upd_users (\<lambda>_. m) s))" "persist w (upd_users (\<lambda>_. m) s) = (e', s') \<Longrightarrow> keeps (as_rt s) (as_rt s')"
    if "AddUser \<lparr>u_Name = name, u_Secret = x, u_Enabled = b\<rparr> (rt_Users (as_rt s)) = (e, m)" "name \<noteq> []"
      "new_secret w t h = Ok x" for name x b e m t h e' s'
    using added_keeps [OF that(1)] that new_secret_wf [OF that(3)] persist_keeps [of w "upd_users (\<lambda>_. m) s" e' s']
    by (auto simp: user_ok_def intro: keeps_trans)
  show ?thesis
    unfolding createUser_def
    by (auto split: option.splits res.splits prod.splits intro!: sound_intros dest: k simp del: upd_users_sel)
qed

lemma updateUser_sound [sound_intros]: "sound_step s (updateUser w name r s)"
proof (cases "aw_update w (ar_Body r)")
  case (Some req)
  define sec where "sec = (if uu_Secret req \<noteq> [] then bind_res (ParseSecret (uu_Secret req)) (\<lambda>x. Ok (Some x)) else Ok None)"
  show ?thesis
  proof (cases sec)
    case (Ok x)
    then have wf: "x = Some y \<Longrightarrow> secret_wf y" for y
      by (auto simp: sec_def bind_res_Ok_iff dest: ParseSecret_wf split: if_splits)
    obtain e m where u: "UpdateUser name x (uu_Enabled req) (rt_Users (as_rt s)) = (e, m)" by force
    obtain resp s' where p: "updateUser w name r s = (resp, s')" by (meson surj_pair)
    then have "s' = upd_users (\<lambda>_. m) s \<or> (\<exists>e'. persist w (upd_users (\<lambda>_. m) s) = (e', s'))"
      "e = Err NoActiveUsers \<Longrightarrow> lockout resp"
      using Some Ok u by (auto simp: updateUser_def sec_def [symmetric] lockout_def split: res.splits prod.splits)
    with UpdateUser_step [OF wf u] p show ?thesis by (intro changed_sound) blast+
  qed (use Some in \<open>auto simp: updateUser_def sec_def [symmetric] intro: sound_intros\<close>)
qed (auto simp: updateUser_def intro: sound_intros)

lemma deleteUser_sound [sound_intros]: "sound_step s (deleteUser w name r s)"
proof -
  obtain e m where u: "RemoveUser name (rt_Users (as_rt s)) = (e, m)" by force
  obtain resp s' where p: "deleteUser w name r s = (resp, s')" by (meson surj_pair)
  then have "s' = upd_users (\<lambda>_. m) s \<or> (\<exists>e'. persist w (upd_users (\<lambda>_. m) s) = (e', s'))"
    "e = Err NoActiveUsers \<Longrightarrow> lockout resp"
    using u by (auto simp: deleteUser_def lockout_def split: res.splits prod.splits)
  with RemoveUser_step [OF u] p show ?thesis by (intro changed_sound) blast+
qed

lemma user_action_step:
  assumes "user_action name action s = Some (e, m)"
  shows "users_step (rt_Users (as_rt s)) (e, m) \<and> (users_ok (rt_Users (as_rt s)) \<longrightarrow> users_ok m \<or> e = Err NoActiveUsers)"
proof (cases "action = ''toggle''")
  case True
  then obtain b r where u: "UpdateUser name None b (rt_Users (as_rt s)) = (r, m)" "e = bind_res r (\<lambda>_. Ok ())"
    using assms by (auto simp: user_action_def case_prod_beta prod_eq_iff)
  with UpdateUser_step [OF _ u(1)] show ?thesis by (auto simp: users_step_def)
next
  case False
  with assms show ?thesis
    by (auto simp: user_action_def split: if_splits dest: RemoveUser_step)
qed

lemma handleUserAction_sound [sound_intros]: "sound_step s (handleUserAction w r s)"
proof (cases "\<exists>name action e m. ar_Method r = ''POST'' \<and> split_on (CHR ''/'') (trim_prefix ''/ui/users/'' (ar_Path r)) = [name, action]
    \<and> user_action name action s = Some (e, m)")
  case True
  then obtain name action e m where u: "ar_Method r = ''POST''"
    "split_on (CHR ''/'') (trim_prefix ''/ui/users/'' (ar_Path r)) = [name, action]" "user_action name action s = Some (e, m)"
    by blast
  obtain resp s' where p: "handleUserAction w r s = (resp, s')" by (meson surj_pair)
  then have "s' = upd_users (\<lambda>_. m) s \<or> (\<exists>e'. persist w (upd_users (\<lambda>_. m) s) = (e', s'))"
    "e = Err NoActiveUsers \<Longrightarrow> lockout resp"
    using u by (auto simp: handleUserAction_def lockout_def split: res.splits prod.splits)
  with user_action_step [OF u(3)] p show ?thesis by (intro changed_sound) blast+
next
  case False
  then show ?thesis
    unfolding handleUserAction_def by (auto split: list.splits option.splits prod.splits intro: sound_intros)
qed

lemma ui_handleUsers_sound [sound_intros]: "sound_step s (ui_handleUsers w r s)"
proof -
  have "keeps (as_rt s) (as_rt s')" if c: "ui_createUser w form s = (e, s')" for form e s'
  proof (cases "\<exists>x e' m. trim_space (form ''name'') \<noteq> [] \<and> new_secret w (trim_space (form ''secret'')) (trim_space (form ''host'')) = Ok x
      \<and> AddUser \<lparr>u_Name = trim_space (form ''name''), u_Secret = x, u_Enabled = True\<rparr> (rt_Users (as_rt s)) = (e', m)")
    case True
    then obtain x e' m where n: "trim_space (form ''name'') \<noteq> []"
      and x: "new_secret w (trim_space (form ''secret'')) (trim_space (form ''host'')) = Ok x"
      and a: "AddUser \<lparr>u_Name = trim_space (form ''name''), u_Secret = x, u_Enabled = True\<rparr> (rt_Users (as_rt s)) = (e', m)"
      by blast
    from c n x a have "s' = upd_users (\<lambda>_. m) s \<or> (\<exists>e'. persist w (upd_users (\<lambda>_. m) s) = (e', s'))"
      by (auto simp: ui_createUser_def Let_def split: res.splits prod.splits)
    with added_keeps [OF a] n new_secret_wf [OF x] show ?thesis
      by (auto simp: user_ok_def simp del: upd_users_sel intro: keeps_trans persist_keeps)
  next
    case False
    with c show ?thesis by (auto simp: ui_createUser_def Let_def split: if_splits res.splits prod.splits)
  qed
  then show ?thesis
    unfolding ui_handleUsers_def by (auto split: option.splits res.splits prod.splits intro!: sound_intros)
qed

text \<open>Settings, reload and uninstall; what only reads is sound because it returns the state it got.\<close>

lemma settings_sound [sound_intros]: "sound_step s (handleConfig w r s)" "sound_step s (handleSettings w r s)"
  unfolding handleConfig_def handleSettings_def applyConfigResponse_def saveSettings_def
  by (auto split: option.splits res.splits prod.splits intro!: sound_intros intro: apply_settings_keeps rebind_keeps)

lemma reload_sound [sound_intros]: "sound_step s (handleReload w r s)" "sound_step s (ui_handleReload w r s)"
  unfolding handleReload_def ui_handleReload_def
  by (auto split: res.splits prod.splits intro!: sound_intros intro: reload_keeps rebind_keeps)

lemma uninstall_sound [sound_intros]: "sound_step s (handleServiceUninstall w r s)" "sound_step s (ui_handleServiceUninstall w r s)"
  unfolding handleServiceUninstall_def ui_handleServiceUninstall_def
  by (auto split: option.splits res.splits prod.splits intro!: sound_intros intro: schedule_keeps)

lemma reading_handlers:
  "snd (handleHealth r s) = s" "snd (handleStatus w r s) = s" "snd (listUsers r s) = s" "snd (getUser name r s) = s"
  "snd (handleStats w r s) = s" "snd (handleStatsByName w r s) = s" "snd (handleLogin r s) = s" "snd (handleDashboard w r s) = s"
  "snd (handlePartialStats w r s) = s" "snd (handlePartialUsersStats w r s) = s"
  by (auto simp: handleHealth_def handleStatus_def listUsers_def getUser_def handleStats_def handleStatsByName_def
      handleLogin_def handleDashboard_def handlePartialStats_def handlePartialUsersStats_def Let_def split: prod.splits option.splits)

lemma sound_read: "snd p = s \<Longrightarrow> sound_step s p"
  by (simp add: sound_step_def)

lemmas reading_sound [sound_intros] = reading_handlers [THEN sound_read]

lemma dispatch_sound [sound_intros]: "sound_step s (handleUsers w r s)" "sound_step s (handleUserByName w r s)"
  by (simp_all add: handleUsers_def handleUserByName_def Let_def sound_intros)

lemma guarded_sound [sound_intros]:
  "sound_step s (h r s) \<Longrightarrow> sound_step s (withAuth h r s)" "sound_step s (h r s) \<Longrightarrow> sound_step s (withSession h r s)"
  by (simp_all add: withAuth_def withSession_def sound_intros)

lemma route_sound [sound_intros]: "sound_step s (route w r s)"
  unfolding route_def Let_def by (simp add: sound_intros)

lemma serve_admin_sound: "sound_step s (serve_admin w r s)"
  unfolding serve_admin_def Let_def by (simp add: sound_intros)

text \<open>The management server over its life: requests one after the other, each in the world of its moment.\<close>

fun run_admin :: "(admin_world \<times> api_request) list \<Rightarrow> admin_state \<Rightarrow> response list \<times> admin_state" where
  "run_admin [] s = ([], s)"
| "run_admin ((w, r) # rs) s =
     (case serve_admin w r s of (resp, s') \<Rightarrow> case run_admin rs s' of (resps, s'') \<Rightarrow> (resp # resps, s''))"

lemma run_admin_sound:
  "run_admin rs s = (resps, s') \<Longrightarrow> rt_usable (as_rt s) \<Longrightarrow>
     rt_usable (as_rt s') \<and> (rt_inv (as_rt s) \<and> (\<forall>resp \<in> set resps. \<not> lockout resp) \<longrightarrow> rt_inv (as_rt s'))"
proof (induction rs arbitrary: s resps)
  case (Cons x rs)
  obtain w r where x: "x = (w, r)" by force
  obtain resp s1 where a: "serve_admin w r s = (resp, s1)" by (meson surj_pair)
  obtain resps' where b: "run_admin rs s1 = (resps', s')" "resps = resp # resps'"
    using Cons.prems(1) x a by (auto split: prod.splits)
  from serve_admin_sound [of s w r] a Cons.prems(2) have "rt_usable (as_rt s1)" "rt_inv (as_rt s) \<Longrightarrow> rt_inv (as_rt s1) \<or> lockout resp"
    by (auto simp: sound_step_def)
  with Cons.IH [OF b(1)] b(2) show ?case by auto
qed simp

section \<open>Access\<close>

text \<open>What a stranger can be told: nothing of users, settings or statistics.\<close>

definition public_payload :: "payload \<Rightarrow> bool" where
  "public_payload p \<longleftrightarrow>
     (case p of Healthy \<Rightarrow> True | Failure e \<Rightarrow> e \<in> {WrongToken, MethodUnsupported} | NotFoundPage \<Rightarrow> True | MovedTo _ \<Rightarrow> True
      | LoginFirst _ \<Rightarrow> True | LoginPage _ \<Rightarrow> True | StaticFile _ \<Rightarrow> True | _ \<Rightarrow> False)"

text \<open>The login form of a request carries the token.\<close>

definition logs_in :: "api_request \<Rightarrow> admin_state \<Rightarrow> bool" where
  "logs_in r s \<longleftrightarrow> ar_Method r = ''POST'' \<and> (\<exists>form. ar_Form r = Some form \<and> form ''token'' = man_Token (as_mgmt s))"

definition stranger :: "api_request \<Rightarrow> admin_state \<Rightarrow> bool" where
  "stranger r s \<longleftrightarrow> man_Token (as_mgmt s) \<noteq> [] \<and> \<not> checkToken r (man_Token (as_mgmt s))
     \<and> ar_Cookie r \<noteq> Some (man_Token (as_mgmt s)) \<and> \<not> logs_in r s"

definition refused :: "admin_state \<Rightarrow> response \<times> admin_state \<Rightarrow> bool" where
  "refused s p \<longleftrightarrow> snd p = s \<and> public_payload (snd (fst p))"

lemma refused_guard:
  assumes "stranger r s"
  shows "refused s (withAuth h r s)" "refused s (withSession h r s)" "refused s (handleLogin r s)" "refused s (handleHealth r s)"
  using assms by (auto simp: stranger_def refused_def withAuth_def withSession_def hasSession_def handleLogin_def handleHealth_def
      logs_in_def public_payload_def split: option.splits)

lemma refused_route: "stranger r s \<Longrightarrow> refused s (route w r s)"
  unfolding route_def Let_def by (simp add: refused_guard) (simp add: refused_def public_payload_def)

section \<open>Invariants of the handlers\<close>

text \<open>A request that asks for the removal of the service and is entitled to it.\<close>

definition confirmed :: "admin_world \<Rightarrow> api_request \<Rightarrow> ManagementConfig \<Rightarrow> bool" where
  "confirmed w r m \<longleftrightarrow> ar_Method r = ''POST'' \<and> man_AllowServiceUninstall m
     \<and> ((\<exists>req. aw_uninstall w (ar_Body r) = Some req \<and> ValidateConfirm (un_Confirm req) = Ok ())
        \<or> (\<exists>form. ar_Form r = Some form \<and> ValidateConfirm (form ''confirm'') = Ok ()))"

text \<open>
  The operations the handlers are made of, and a predicate that each keeps: then every request keeps it.
\<close>

locale admin_invariant =
  fixes P :: "admin_state \<Rightarrow> bool" and w :: admin_world and r :: api_request
  assumes users: "P s \<Longrightarrow> P (upd_users (\<lambda>_. m) s)"
    and saved: "P s \<Longrightarrow> P (snd (persist w s))"
    and settings: "P s \<Longrightarrow> P (snd (apply_settings w x s))"
    and reloaded: "P s \<Longrightarrow> P (snd (reload w s))"
    and rebound: "P s \<Longrightarrow> P (snd (rebind w s))"
    and scheduled: "P s \<Longrightarrow> confirmed w r (as_mgmt s) \<Longrightarrow> P (snd (schedule_uninstall w purge s))"
begin

lemma step:
  "persist w s = (a, s') \<Longrightarrow> P s \<Longrightarrow> P s'" "apply_settings w x s = (a, s') \<Longrightarrow> P s \<Longrightarrow> P s'"
  "reload w s = (a, s') \<Longrightarrow> P s \<Longrightarrow> P s'" "rebind w s = (rep, s') \<Longrightarrow> P s \<Longrightarrow> P s'"
  "schedule_uninstall w purge s = (res, s') \<Longrightarrow> P s \<Longrightarrow> confirmed w r (as_mgmt s) \<Longrightarrow> P s'"
  using saved [of s] settings [of s x] reloaded [of s] rebound [of s] scheduled [of s purge] by simp_all

lemma user_handlers:
  assumes "P s"
  shows "P (snd (createUser w r s))" "P (snd (updateUser w name r s))" "P (snd (deleteUser w name r s))"
    "P (snd (handleUserAction w r s))"
proof -
  note k = users [OF assms] step(1) [OF _ users [OF assms]]
  show "P (snd (createUser w r s))"
    using assms unfolding createUser_def by (auto split: option.splits res.splits prod.splits intro: k)
  show "P (snd (updateUser w name r s))"
    using assms unfolding updateUser_def by (auto split: option.splits res.splits prod.splits intro: k)
  show "P (snd (deleteUser w name r s))"
    using assms unfolding deleteUser_def by (auto split: res.splits prod.splits intro: k)
  show "P (snd (handleUserAction w r s))"
    using assms unfolding handleUserAction_def
    by (auto split: list.splits option.splits res.splits prod.splits intro: k)
qed

lemma ui_users:
  assumes "P s"
  shows "P (snd (ui_handleUsers w r s))"
proof -
  note k = users [OF assms] step(1) [OF _ users [OF assms]]
  have "P s'" if "ui_createUser w form s = (e, s')" for form e s'
    using that assms unfolding ui_createUser_def Let_def
    by (auto split: if_splits res.splits prod.splits intro: k)
  with assms show ?thesis
    unfolding ui_handleUsers_def by (auto split: option.splits res.splits prod.splits)
qed

lemma config_handlers:
  assumes "P s"
  shows "P (snd (handleConfig w r s))" "P (snd (handleSettings w r s))" "P (snd (handleReload w r s))" "P (snd (ui_handleReload w r s))"
  using assms unfolding handleConfig_def handleSettings_def applyConfigResponse_def saveSettings_def handleReload_def ui_handleReload_def
  by (auto split: option.splits res.splits prod.splits intro: step)

lemma uninstall_handlers:
  assumes "P s"
  shows "P (snd (handleServiceUninstall w r s))" "P (snd (ui_handleServiceUninstall w r s))"
  using assms step(5) [OF _ assms] unfolding handleServiceUninstall_def ui_handleServiceUninstall_def
  by (auto split: option.splits res.splits prod.splits simp: confirmed_def)

lemma guarded:
  assumes "P s" "P (snd (h r s))"
  shows "P (snd (withAuth h r s))" "P (snd (withSession h r s))"
  using assms by (simp_all add: withAuth_def withSession_def)

lemma dispatchers: "P s \<Longrightarrow> P (snd (handleUsers w r s))" "P s \<Longrightarrow> P (snd (handleUserByName w r s))"
  by (simp_all add: handleUsers_def handleUserByName_def Let_def reading_handlers user_handlers)

lemma route_keeps: "P s \<Longrightarrow> P (snd (route w r s))"
  unfolding route_def Let_def
  by (simp add: guarded dispatchers user_handlers ui_users config_handlers uninstall_handlers reading_handlers)

lemma serve_admin_keeps: "P s \<Longrightarrow> P (snd (serve_admin w r s))"
  by (simp add: serve_admin_def Let_def route_keeps)

end

text \<open>The configuration file holds the configuration of the runtime.\<close>

definition reads_back :: "admin_world \<Rightarrow> bool" where
  "reads_back w \<longleftrightarrow> (\<forall>c defaults path. aw_viper w (Some c) defaults path = Inr c)"

definition in_step :: "admin_state \<Rightarrow> bool" where
  "in_step s \<longleftrightarrow> rt_ConfigPath (as_rt s) \<noteq> [] \<and> as_disk s = Some (rt_Config (as_rt s))"

lemma apply_features_path [simp]: "rt_ConfigPath (applySecurityFeatures now cfg r) = rt_ConfigPath r"
  by (simp add: applySecurityFeatures_def Let_def)

lemma persist_in_step: "in_step s \<Longrightarrow> in_step (snd (persist w s))"
  by (auto simp: in_step_def persist_def PersistUsers_def Let_def split: option.splits)

lemma settings_in_step: "in_step s \<Longrightarrow> in_step (snd (apply_settings w x s))"
  by (auto simp: in_step_def apply_settings_def UpdateSettings_def Let_def apply_features split: option.splits)

lemma Load_config: "Load vp path = Ok (cfg, mgr) \<Longrightarrow> vp viper_defaults path = Inr cfg"
  by (cases "vp viper_defaults path") (auto simp: Load_def loadFile_def bind_res_Ok_iff split: res.split_asm, metis res.exhaust)

lemma reload_in_step:
  assumes "in_step s" "reads_back w"
  shows "in_step (snd (reload w s))"
proof -
  obtain e rt where r: "rt_Reload (aw_viper w (as_disk s)) (aw_now w) (as_rt s) = (e, rt)" by force
  have path: "rt_ConfigPath rt = rt_ConfigPath (as_rt s)"
    using r by (auto simp: rt_Reload_def UpdateConfig_def Let_def split: res.splits prod.splits)
  from r show ?thesis
  proof (cases rule: rt_Reload_cases)
    case (loaded cfg mgr)
    have "cfg = rt_Config (as_rt s)"
      using Load_config [OF loaded(1)] assms by (simp add: in_step_def reads_back_def)
    with loaded path assms(1) r show ?thesis by (simp add: in_step_def reload_def)
  qed (use assms(1) r in \<open>simp_all add: in_step_def reload_def\<close>)
qed

interpretation disk: admin_invariant "\<lambda>s. reads_back w \<and> in_step s" w r for w r
proof
  show "reads_back w \<and> in_step (upd_users (\<lambda>_. m) s)" if "reads_back w \<and> in_step s" for m s
    using that by (simp add: in_step_def)
  show "reads_back w \<and> in_step (snd (rebind w s))" if "reads_back w \<and> in_step s" for s
    using that by (simp add: in_step_def rebind_rt)
  show "reads_back w \<and> in_step (snd (schedule_uninstall w purge s))" if "reads_back w \<and> in_step s" for purge s
    using that by (simp add: in_step_def schedule_rt)
qed (simp_all add: persist_in_step settings_in_step reload_in_step)

text \<open>What removing the service may do, and that nothing else is ever started.\<close>

definition service_actions :: "admin_world \<Rightarrow> ManagementConfig \<Rightarrow> sys_action set" where
  "service_actions w m =
     (let cfg = FromManagement (man_ServiceName m) (man_ServiceUnitPath m) (man_UninstallScript m) (man_AllowServiceUninstall m)
      in {Systemctl [''stop'', svc_Name cfg], Systemctl [''disable'', svc_Name cfg]}
         \<union> (if mc_root (aw_machine w) then set (purge_actions cfg) else {}))"

definition acted :: "admin_world \<Rightarrow> api_request \<Rightarrow> ManagementConfig \<Rightarrow> sys_action list \<Rightarrow> admin_state \<Rightarrow> bool" where
  "acted w r m before s \<longleftrightarrow> as_mgmt s = m
     \<and> (\<exists>acts. as_actions s = before @ acts \<and> set acts \<subseteq> service_actions w m \<and> (acts = [] \<or> confirmed w r m))"

lemma actions_kept:
  "as_mgmt (snd (persist w s)) = as_mgmt s" "as_actions (snd (persist w s)) = as_actions s"
  "as_mgmt (snd (apply_settings w x s)) = as_mgmt s" "as_actions (snd (apply_settings w x s)) = as_actions s"
  "as_mgmt (snd (reload w s)) = as_mgmt s" "as_actions (snd (reload w s)) = as_actions s"
  "as_mgmt (snd (rebind w s)) = as_mgmt s" "as_actions (snd (rebind w s)) = as_actions s"
  by (auto simp: persist_def apply_settings_def reload_def rebind_def split: prod.splits option.splits res.splits bool.splits)

lemma schedule_acted:
  assumes "acted w r m before s" "confirmed w r (as_mgmt s)"
  shows "acted w r m before (snd (schedule_uninstall w purge s))"
proof -
  let ?cfg = "FromManagement (man_ServiceName m) (man_ServiceUnitPath m) (man_UninstallScript m) (man_AllowServiceUninstall m)"
  obtain res acts where a: "ScheduleUninstall (aw_machine w) ?cfg purge = (res, acts)" by force
  then have "set acts \<subseteq> service_actions w m"
    using ScheduleUninstall_actions(1) [of "aw_machine w" ?cfg purge] by (auto simp: service_actions_def Let_def split: if_splits)
  moreover have "snd (schedule_uninstall w purge s) = s\<lparr>as_actions := as_actions s @ acts\<rparr>"
    using a assms(1) by (simp add: schedule_uninstall_def acted_def Let_def)
  ultimately show ?thesis
    using assms by (auto simp: acted_def)
qed

interpretation actions: admin_invariant "acted w r m before" w r for w r m before
  by unfold_locales (auto simp: schedule_acted, auto simp: acted_def actions_kept)

section \<open>Properties\<close>

lemma stranger_refused: "stranger r s \<Longrightarrow> refused s (serve_admin w r s)"
  by (simp add: serve_admin_def Let_def refused_route) (simp add: refused_def public_payload_def)

text \<open>
  C7. The management interface is closed to strangers. With a token configured, a request that has neither
  the token in a header, nor the session cookie, nor the token in a posted login form changes nothing at all,
  and the reply carries no user, secret, setting or statistic: it is the health answer, the refusal, a login
  page, a redirect, a static file or a page that is not found. This holds for every path and method.
\<close>

theorem admin_closed_to_strangers:
  assumes "stranger r s" "serve_admin w r s = ((status, payload), s')"
  shows "s' = s \<and> public_payload payload"
  using stranger_refused [OF assms(1), of w] assms(2) by (simp add: refused_def)

text \<open>Inputs for the witnesses: a state made from the sample configuration, a world and requests.\<close>

definition example_mgmt :: ManagementConfig where
  "example_mgmt = (cfg_Management (sample_config []))\<lparr>man_Token := ''secret'', man_ServiceName := ''phantom'', man_AllowServiceUninstall := True\<rparr>"

definition example_admin :: "Manager \<Rightarrow> admin_state" where
  "example_admin mgr = \<lparr>as_rt = rt_New 5 ''c.yaml'' (sample_config sample_users) mgr New, as_mgmt = example_mgmt,
     as_listener = Some ''0.0.0.0:443'', as_disk = Some (sample_config sample_users), as_actions = []\<rparr>"

definition example_admin_world :: admin_world where
  "example_admin_world = \<lparr>aw_now = 9, aw_write = \<lambda>_ _. None,
     aw_viper = (\<lambda>d _ _. case d of Some c \<Rightarrow> Inr c | None \<Rightarrow> Inr (sample_config [])), aw_listen = None,
     aw_rand = Some (replicate 16 3), aw_machine = \<lparr>mc_systemctl = True, mc_root = False, mc_exists = \<lambda>_. False, mc_runs = \<lambda>_. True\<rparr>,
     aw_order = map fst, aw_create = \<lambda>_. Some \<lparr>cu_Name = ''bob'', cu_Secret = EncodeHex \<lparr>s_key = replicate 16 8, s_host = [], s_mode = SecurePrefix\<rparr>,
       cu_Host = [], cu_Enabled = None\<rparr>,
     aw_update = \<lambda>_. None, aw_uninstall = \<lambda>_. Some \<lparr>un_Confirm = ConfirmPhrase, un_Purge = False\<rparr>, aw_settings = \<lambda>_. None\<rparr>"

definition example_request :: "string \<Rightarrow> string \<Rightarrow> api_request" where
  "example_request path token = \<lparr>ar_Method = ''POST'', ar_Path = path,
     ar_Header = (\<lambda>h. if h = ''X-API-Token'' then token else []), ar_Query = \<lambda>_. [], ar_Form = None, ar_Cookie = None, ar_Body = []\<rparr>"

theorem admin_closed_to_strangers_witness:
  "\<exists>status payload s'. serve_admin example_admin_world (example_request ''/api/v1/users'' ''guess'') (example_admin mgr_example) = ((status, payload), s')
     \<and> s' = example_admin mgr_example \<and> public_payload payload"
proof -
  have "stranger (example_request ''/api/v1/users'' ''guess'') (example_admin mgr_example)"
    by (simp add: stranger_def example_request_def example_admin_def example_mgmt_def checkToken_def logs_in_def Let_def)
  then show ?thesis
    using admin_closed_to_strangers [of _ "example_admin mgr_example"] by (metis prod.exhaust)
qed

text \<open>
  No sequence of management requests breaks the proxy. From the start with a loaded configuration, after
  any requests, valid or not, whatever the files and the body of the requests contain and whether saving works or
  not, there are still a replay cache, a limiter, rotators inside their pools and at least one user, all with
  well-formed secrets; and an enabled user and a mask host remain unless some reply has reported that no active
  user is left.
\<close>

lemma management_keeps_runtime:
  assumes "Load vp path = Ok (cfg, mgr)" "as_rt s = rt_New now path' cfg mgr tracker" "run_admin rs s = (resps, s')"
  shows "rt_usable (as_rt s') \<and> ((\<forall>resp \<in> set resps. \<not> lockout resp) \<longrightarrow> rt_inv (as_rt s'))"
  using run_admin_sound [OF assms(3)] rt_New_inv [OF assms(1), of now path' tracker] assms(2) rt_inv_usable by auto



lemma find_last: "\<forall>v \<in> set us. u_Name v \<noteq> n \<Longrightarrow> u_Name u = n \<Longrightarrow> find (\<lambda>v. u_Name v = n) (us @ [u]) = Some u"
  by (induction us) auto

lemma new_secret_status: "new_secret w t h = Err (c, e) \<Longrightarrow> c \<noteq> 201"
  by (auto simp: new_secret_def split: res.splits)

lemma createUser_created:
  assumes "createUser w r s = ((201, p), s')"
  obtains req :: createUserRequest and x b m where "cu_Name req \<noteq> []" "new_secret w (cu_Secret req) (cu_Host req) = Ok x"
    "AddUser \<lparr>u_Name = cu_Name req, u_Secret = x, u_Enabled = b\<rparr> (rt_Users (as_rt s)) = (Ok (), m)"
    "persist w (upd_users (\<lambda>_. m) s) = (Ok (), s')" "p = OneView (view_of r (cu_Name req) s')"
proof -
  obtain req where req: "aw_create w (ar_Body r) = Some req" "cu_Name req \<noteq> []"
    using assms by (auto simp: createUser_def split: option.splits if_splits)
  then obtain x where x: "new_secret w (cu_Secret req) (cu_Host req) = Ok x"
    using assms by (cases "new_secret w (cu_Secret req) (cu_Host req)") (auto simp: createUser_def dest: new_secret_status)
  define b where "b = (case cu_Enabled req of None \<Rightarrow> True | Some e \<Rightarrow> e)"
  obtain m where m: "AddUser \<lparr>u_Name = cu_Name req, u_Secret = x, u_Enabled = b\<rparr> (rt_Users (as_rt s)) = (Ok (), m)"
    using assms req x by (cases "AddUser \<lparr>u_Name = cu_Name req, u_Secret = x, u_Enabled = b\<rparr> (rt_Users (as_rt s))")
      (auto simp: createUser_def b_def [symmetric] split: res.splits)
  show ?thesis
    using assms req x m by (intro that [OF req(2) x m]) (auto simp: createUser_def b_def [symmetric] split: res.splits prod.splits)
qed

text \<open>
  C18. A user that the API has created is live: the answer 201 is given only for a new name; then the user is the last
  one of the manager with all others unchanged, the secret in the answer is one that \<open>ParseSecret\<close> reads as
  the user's secret, and with a configuration file the users that it builds are exactly the manager's.
\<close>

theorem created_user_is_live:
  assumes "rt_usable (as_rt s)" "createUser w r s = ((201, p), s')"
  shows "\<exists>u v. p = OneView v \<and> m_users (rt_Users (as_rt s')) = m_users (rt_Users (as_rt s)) @ [u]
    \<and> u_Name u \<notin> u_Name ` set (m_users (rt_Users (as_rt s))) \<and> v_Name v = u_Name u \<and> v_Enabled v = u_Enabled u
    \<and> ParseSecret (v_Secret v) = Ok (u_Secret u)
    \<and> (rt_ConfigPath (as_rt s) \<noteq> [] \<longrightarrow>
         (\<exists>cfg. as_disk s' = Some cfg \<and> buildUsers (cfg_MTProto cfg) = Ok (m_users (rt_Users (as_rt s')))))"
proof -
  let ?us = "m_users (rt_Users (as_rt s))"
  obtain req :: createUserRequest and x b m where c: "cu_Name req \<noteq> []" "new_secret w (cu_Secret req) (cu_Host req) = Ok x"
    "AddUser \<lparr>u_Name = cu_Name req, u_Secret = x, u_Enabled = b\<rparr> (rt_Users (as_rt s)) = (Ok (), m)"
    and ps: "persist w (upd_users (\<lambda>_. m) s) = (Ok (), s')" and p: "p = OneView (view_of r (cu_Name req) s')"
    using assms(2) by (rule createUser_created)
  define u where "u = \<lparr>u_Name = cu_Name req, u_Secret = x, u_Enabled = b\<rparr>"
  have wf: "user_ok u" "secret_wf (u_Secret u)" using c new_secret_wf by (auto simp: user_ok_def u_def)
  have m: "m_users m = ?us @ [u]" "u_Name u \<notin> u_Name ` set ?us"
    using c(3) by (auto simp: u_def AddUser_def Let_def split: if_splits)
  have rt: "rt_Users (as_rt s') = m" "rt_ConfigPath (as_rt s) \<noteq> [] \<Longrightarrow> as_disk s' = Some (with_users m (rt_Config (as_rt s)))"
    using ps by (auto simp: persist_def PersistUsers_def Let_def split: if_splits option.splits)
  have notin: "\<forall>v \<in> set ?us. u_Name v \<noteq> cu_Name req" using m(2) by (force simp: u_def)
  have "find (\<lambda>v. u_Name v = cu_Name req) (m_users m) = Some u"
    using m(1) find_last [of ?us "cu_Name req" u] notin by (simp add: u_def)
  then have v: "\<exists>server port. view_of r (cu_Name req) s' = toView u server port"
    by (auto simp: view_of_def GetView_def rt split: prod.splits)
  have "\<forall>u \<in> set (m_users m). user_ok u" using assms(1) wf m(1) by (auto simp: rt_usable_def)
  then have b: "buildUsers (cfg_MTProto (with_users m (rt_Config (as_rt s)))) = Ok (m_users m)"
    using m(1) by (auto simp: with_users_def Users_def intro!: buildUsers_saved)
  show ?thesis
    using v p m rt b wf ParseSecret_EncodeHex [of "u_Secret u"]
    by (intro exI [of _ u] exI [of _ "view_of r (cu_Name req) s'"]) (auto simp: toView_def Let_def)
qed

theorem created_user_is_live_witness:
  "\<exists>mgr p s' u v. createUser example_admin_world (example_request ''/api/v1/users'' ''secret'') (example_admin mgr) = ((201, p), s')
     \<and> p = OneView v \<and> u \<in> set (m_users (rt_Users (as_rt s'))) \<and> v_Name v = u_Name u
     \<and> ParseSecret (v_Secret v) = Ok (u_Secret u)"
proof (rule sample_runtime)
  fix mgr r0
  assume l: "Load (\<lambda>_ _. Inr (sample_config sample_users)) ''c.yaml'' = Ok (sample_config sample_users, mgr)"
    and r0: "r0 = rt_New 5 ''c.yaml'' (sample_config sample_users) mgr New" "rt_inv r0"
  let ?s = "example_admin mgr" and ?w = "example_admin_world" and ?r = "example_request ''/api/v1/users'' ''secret''"
  let ?x = "\<lparr>s_key = replicate 16 8, s_host = [], s_mode = SecurePrefix\<rparr>"
  have p: "ParseSecret (EncodeHex ?x) = Ok ?x"
    by (rule ParseSecret_EncodeHex) (simp add: secret_wf_def KeyLength_def)
  have "ParseSecret [] \<noteq> Ok ?x" by (simp add: ParseSecret_def)
  with p have n: "EncodeHex ?x \<noteq> []" by auto
  have us: "u_Name ` set (m_users mgr) = {''a''}"
    using Load_ok(2) [OF l] sample_users_built by (metis (no_types, lifting) User.select_convs(1) image_empty image_insert list.set(1) list.simps(15) res.inject(1))
  have rt: "as_rt ?s = r0" by (simp add: example_admin_def r0)
  have "\<exists>p s'. createUser ?w ?r ?s = ((201, p), s') \<and> p = OneView (view_of ?r ''bob'' s')"
    using p n us by (simp add: createUser_def example_admin_world_def new_secret_def AddUser_def persist_def PersistUsers_def
        example_admin_def rt_New_def apply_features upd_users_def Let_def)
  then obtain p s' where c: "createUser ?w ?r ?s = ((201, p), s')" by blast
  moreover have "rt_usable (as_rt ?s)" using rt_inv_usable [OF r0(2)] rt by simp
  ultimately show ?thesis
    using created_user_is_live [OF _ c] by (metis in_set_conv_decomp)
qed

text \<open>
  C19. Removing the service takes consent. A request makes the program start new actions on the machine only if it is
  not a stranger's, is a POST with the exact confirmation phrase in its body or form, and the configuration allows
  the removal; and then they are only stopping and disabling the configured service and, as root, deleting
  its unit file, reloading systemd and deleting the two directories of the installation.
\<close>

theorem uninstall_needs_consent:
  assumes "serve_admin w r s = (resp, s')" "as_actions s' \<noteq> as_actions s"
  shows "confirmed w r (as_mgmt s) \<and> \<not> stranger r s
    \<and> (\<exists>acts. as_actions s' = as_actions s @ acts \<and> set acts \<subseteq> service_actions w (as_mgmt s))"
proof -
  have "acted w r (as_mgmt s) (as_actions s) s'"
    using actions.serve_admin_keeps [of w r "as_mgmt s" "as_actions s" s] assms(1) by (simp add: acted_def)
  moreover have "\<not> stranger r s"
    using stranger_refused [of r s w] assms by (auto simp: refused_def)
  ultimately show ?thesis
    using assms(2) by (auto simp: acted_def)
qed

lemma FromManagement_sel:
  "name \<noteq> [] \<Longrightarrow> svc_Name (FromManagement name unit script allow) = name"
  "svc_AllowUninst (FromManagement name unit script allow) = allow"
  by (simp_all add: FromManagement_def Let_def)

theorem uninstall_needs_consent_witness:
  "\<exists>resp s'. serve_admin example_admin_world (example_request ''/api/v1/service/uninstall'' ''secret'') (example_admin mgr_example) = (resp, s')
     \<and> as_actions s' = [Systemctl [''stop'', ''phantom''], Systemctl [''disable'', ''phantom'']]
     \<and> confirmed example_admin_world (example_request ''/api/v1/service/uninstall'' ''secret'') example_mgmt"
proof -
  let ?w = example_admin_world and ?r = "example_request ''/api/v1/service/uninstall'' ''secret''" and ?s = "example_admin mgr_example"
  obtain resp s' where e: "serve_admin ?w ?r ?s = (resp, s')" by (meson surj_pair)
  have "ar_Path ?r = ''/api/v1/service/uninstall''" "ar_Method ?r = ''POST''" by (simp_all add: example_request_def)
  moreover have "cleanPath ''/api/v1/service/uninstall'' = ''/api/v1/service/uninstall''" by code_simp
  ultimately have "serve_admin ?w ?r ?s = withAuth (handleServiceUninstall ?w) ?r ?s"
    by (simp add: serve_admin_def route_def under_def Let_def)
  then have h: "serve_admin ?w ?r ?s = handleServiceUninstall ?w ?r ?s"
    by (simp add: withAuth_def checkToken_def example_request_def example_admin_def example_mgmt_def Let_def)
  have "as_actions (snd (handleServiceUninstall ?w ?r ?s)) = [Systemctl [''stop'', ''phantom''], Systemctl [''disable'', ''phantom'']]"
    by (simp add: handleServiceUninstall_def example_request_def example_admin_def example_mgmt_def example_admin_world_def
        ValidateConfirm_def guard_res_def schedule_uninstall_def ScheduleUninstall_def Uninstall_def FromManagement_sel Let_def)
  with e h have a: "as_actions s' = [Systemctl [''stop'', ''phantom''], Systemctl [''disable'', ''phantom'']]" by (metis snd_conv)
  have "as_actions ?s = []" "as_mgmt ?s = example_mgmt" by (simp_all add: example_admin_def)
  then have "confirmed ?w ?r example_mgmt"
    using a uninstall_needs_consent [OF e] by simp
  with e a show ?thesis by blast
qed

text \<open>
  Saving the settings page of the web interface loses settings that the page does not show: the JA4 white list,
  the limit of connections per address and the SOCKS5 proxy.
\<close>

lemma ui_save_resets:
  assumes "saveSettings w form s = (Ok (), s')"
  shows "m_ja4Allow (rt_Users (as_rt s')) = []" "rt_Limiter (as_rt s') = Some (NewConnLimiter 0)"
    "sv_MaxConnectionsPerIP (SettingsFromConfig (rt_Config (as_rt s'))) = 0"
    "sv_UpstreamSOCKS5 (SettingsFromConfig (rt_Config (as_rt s'))) = []"
proof -
  obtain rt c where u: "UpdateSettings (aw_write w) (aw_now w) (form_settings form) (as_rt s) = (Ok (), rt, c)" "as_rt s' = rt"
    using assms by (auto simp: saveSettings_def apply_settings_def split: prod.splits)
  note c = UpdateSettings_cases [OF u(1)]
  show "m_ja4Allow (rt_Users (as_rt s')) = []" "rt_Limiter (as_rt s') = Some (NewConnLimiter 0)"
    using c(1,2) u(2) by (simp_all add: form_settings_def nonempty_def)
  show "sv_MaxConnectionsPerIP (SettingsFromConfig (rt_Config (as_rt s'))) = 0"
    "sv_UpstreamSOCKS5 (SettingsFromConfig (rt_Config (as_rt s'))) = []"
    using c(6) u(2) by (simp_all add: form_settings_def with_users_def SettingsFromConfig_def ApplySettings_def Let_def)
qed

text \<open>After a lockout, adding an enabled user whose secret has no host leaves the mask host empty.\<close>

lemma added_user_without_mask_host:
  assumes "m_maskHost m = []" "s_host (u_Secret u) = []" "AddUser u m = (Ok (), m')"
  shows "m_maskHost m' = [] \<and> u \<in> set (m_users m')"
  using assms by (auto simp: AddUser_def Let_def split: if_splits)

text \<open>The login form sends the browser to any address that the form names.\<close>

lemma login_redirects_anywhere:
  assumes "man_Token (as_mgmt s) \<noteq> []" "\<not> hasSession r s" "ar_Method r = ''POST''" "ar_Form r = Some form"
    "form ''token'' = man_Token (as_mgmt s)" "form ''next'' = target" "target \<noteq> []"
  shows "handleLogin r s = ((303, LoggedIn (man_Token (as_mgmt s)) target), s)"
  using assms by (simp add: handleLogin_def)

end
