(* ===== verification/Startup.thy ===== *)
theory Startup
  imports ProxyProperties AdminProperties
begin

text \<open>
  The command line, \<open>cmd/proxy/main.go\<close>: the choice of the command, its flags (the package \<open>flag\<close> with
  \<open>ExitOnError\<close>), the commands, and how \<open>runServer\<close> puts the program together. The program at work is then the
  proxy and the management server on one runtime, in any interleaving of connections and requests. Printed
  texts are values; an exit status is a number. Waiting for a signal and the sockets themselves are not modelled:
  which event ends the program is an argument.
\<close>

section \<open>Flags\<close>

datatype flag_value = FString string | FBool bool
datatype flag_token = NotFlag | Terminator | BadFlag | FlagTok string "string option"

definition flag_token :: "string \<Rightarrow> flag_token" where
  "flag_token s =
     (if length s < 2 \<or> hd s \<noteq> CHR ''-'' then NotFlag
      else if s = ''--'' then Terminator
      else let name = (if s ! 1 = CHR ''-'' then drop 2 s else drop 1 s) in
        if hd name = CHR ''-'' \<or> hd name = CHR ''='' then BadFlag
        else if CHR ''='' \<in> set name then
          FlagTok (takeWhile (\<lambda>c. c \<noteq> CHR ''='') name) (Some (tl (dropWhile (\<lambda>c. c \<noteq> CHR ''='') name)))
        else FlagTok name None)"

definition ParseBool :: "string \<Rightarrow> bool option" where
  "ParseBool s =
     (if s \<in> {''1'', ''t'', ''T'', ''true'', ''TRUE'', ''True''} then Some True
      else if s \<in> {''0'', ''f'', ''F'', ''false'', ''FALSE'', ''False''} then Some False
      else None)"

type_synonym flag_set = "string \<rightharpoonup> flag_value"

text \<open>An error is the exit status: 0 when help is asked for, 2 otherwise.\<close>

fun parse_flags :: "flag_set \<Rightarrow> string list \<Rightarrow> (nat, flag_set) res" where
  "parse_flags fs [] = Ok fs"
| "parse_flags fs (s # args) =
     (case flag_token s of
        NotFlag \<Rightarrow> Ok fs
      | Terminator \<Rightarrow> Ok fs
      | BadFlag \<Rightarrow> Err 2
      | FlagTok name val \<Rightarrow>
          (case fs name of
             None \<Rightarrow> Err (if name = ''help'' \<or> name = ''h'' then 0 else 2)
           | Some (FBool _) \<Rightarrow>
               (case ParseBool (case val of None \<Rightarrow> ''true'' | Some v \<Rightarrow> v) of
                  None \<Rightarrow> Err 2
                | Some b \<Rightarrow> parse_flags (fs(name \<mapsto> FBool b)) args)
           | Some (FString _) \<Rightarrow>
               (case val of
                  Some v \<Rightarrow> parse_flags (fs(name \<mapsto> FString v)) args
                | None \<Rightarrow> (case args of [] \<Rightarrow> Err 2 | v # args' \<Rightarrow> parse_flags (fs(name \<mapsto> FString v)) args'))))"

definition string_flag :: "string \<Rightarrow> flag_set \<Rightarrow> string" where
  "string_flag name fs = (case fs name of Some (FString v) \<Rightarrow> v | _ \<Rightarrow> [])"

definition bool_flag :: "string \<Rightarrow> flag_set \<Rightarrow> bool" where
  "bool_flag name fs = (case fs name of Some (FBool b) \<Rightarrow> b | _ \<Rightarrow> False)"

definition default_path :: string where "default_path = ''configs/config.yaml''"

section \<open>Commands\<close>

record runFlags =
  rf_configPath :: string
  rf_logLevel :: string

datatype command = CmdRun runFlags | CmdCheck string | CmdGenerate "string list" | CmdUninstall string bool | CmdVersion | CmdUsage

definition parseRunFlags :: "string list \<Rightarrow> (nat, runFlags) res" where
  "parseRunFlags args =
     bind_res (parse_flags [''config'' \<mapsto> FString default_path, ''log-level'' \<mapsto> FString ''info''] args) (\<lambda>fs.
       Ok \<lparr>rf_configPath = string_flag ''config'' fs, rf_logLevel = string_flag ''log-level'' fs\<rparr>)"

definition legacyRun :: "string list \<Rightarrow> (nat, runFlags) res" where
  "legacyRun args =
     bind_res (parse_flags [''config'' \<mapsto> FString default_path] args) (\<lambda>fs.
       Ok \<lparr>rf_configPath = string_flag ''config'' fs, rf_logLevel = []\<rparr>)"

text \<open>\<open>main\<close> on the arguments after the program's name: the command that runs, or the exit status of the flags.\<close>

definition main_command :: "string list \<Rightarrow> (nat, command) res" where
  "main_command argv =
     (case argv of
        [] \<Rightarrow> Ok (CmdRun \<lparr>rf_configPath = default_path, rf_logLevel = []\<rparr>)
      | a # args \<Rightarrow>
          if a = ''run'' then bind_res (parseRunFlags args) (\<lambda>fl. Ok (CmdRun fl))
          else if a = ''check'' then
            bind_res (parse_flags [''config'' \<mapsto> FString default_path] args) (\<lambda>fs. Ok (CmdCheck (string_flag ''config'' fs)))
          else if a = ''generate'' then Ok (CmdGenerate args)
          else if a = ''uninstall'' then
            bind_res (parse_flags [''config'' \<mapsto> FString default_path, ''purge'' \<mapsto> FBool False] args) (\<lambda>fs.
              Ok (CmdUninstall (string_flag ''config'' fs) (bool_flag ''purge'' fs)))
          else if a = ''version'' \<or> a = ''-version'' then Ok CmdVersion
          else if a = ''help'' \<or> a = ''-h'' \<or> a = ''--help'' then Ok CmdUsage
          else if a = [] then Panic
          else if hd a = CHR ''-'' then bind_res (legacyRun argv) (\<lambda>fl. Ok (CmdRun fl))
          else Ok (CmdRun \<lparr>rf_configPath = default_path, rf_logLevel = []\<rparr>))"

text \<open>The log level; \<open>to_lower\<close> is that of ASCII.\<close>

datatype log_level = LevelDebug | LevelInfo | LevelWarn | LevelError

text \<open>The levels are ordered; the handler that \<open>setupLogging\<close> installs passes the records at its level and above.\<close>

instantiation log_level :: linorder
begin

fun log_rank :: "log_level \<Rightarrow> nat" where
  "log_rank LevelDebug = 0"
| "log_rank LevelInfo = 1"
| "log_rank LevelWarn = 2"
| "log_rank LevelError = 3"

definition less_eq_log_level :: "log_level \<Rightarrow> log_level \<Rightarrow> bool" where
  "less_eq_log_level a b \<longleftrightarrow> log_rank a \<le> log_rank b"

definition less_log_level :: "log_level \<Rightarrow> log_level \<Rightarrow> bool" where
  "less_log_level a b \<longleftrightarrow> log_rank a < log_rank b"

instance
proof
  fix a b :: log_level
  show "a = b" if "a \<le> b" "b \<le> a"
    using that by (cases a; cases b) (simp_all add: less_eq_log_level_def)
qed (auto simp: less_eq_log_level_def less_log_level_def)

end

definition setupLogging :: "string \<Rightarrow> log_level" where
  "setupLogging level =
     (let l = to_lower (trim_space level) in
      if l = ''debug'' then LevelDebug
      else if l = ''warn'' \<or> l = ''warning'' then LevelWarn
      else if l = ''error'' then LevelError
      else LevelInfo)"

definition logs :: "log_level \<Rightarrow> log_level \<Rightarrow> bool" where
  "logs lvl record_level \<longleftrightarrow> lvl \<le> record_level"

definition cmdCheck :: "viper \<Rightarrow> string \<Rightarrow> nat \<times> string list" where
  "cmdCheck vp path =
     (case Load vp path of
        Ok (cfg, users) \<Rightarrow>
          (0, [''OK listen='' @ cfg_Addr cfg @ '' users='' @ dec_nat (length (Users users)) @ '' relay='' @ rel_Mode (cfg_Relay cfg)])
      | _ \<Rightarrow> (1, []))"

definition cmdGenerate :: "bytes option \<Rightarrow> bytes option \<Rightarrow> string list \<Rightarrow> nat \<times> string list" where
  "cmdGenerate rnd rnd' args =
     (let host = (case args of [] \<Rightarrow> ''storage.googleapis.com'' | h # _ \<Rightarrow> h) in
      case GenerateSecret rnd host of
        Ok (secret, hex) \<Rightarrow>
          (let out = [''host='' @ s_host secret, ''ee_secret='' @ hex] in
           case GenerateSecureSecret rnd' of
             Ok (_, ddHex) \<Rightarrow> (0, out @ [''dd_secret='' @ ddHex])
           | _ \<Rightarrow> (1, out))
      | _ \<Rightarrow> (1, []))"

datatype uninstall_note = ServiceRemoved | RunByHand string

definition cmdUninstall :: "viper \<Rightarrow> machine \<Rightarrow> string \<Rightarrow> bool \<Rightarrow> nat \<times> uninstall_note option \<times> sys_action list" where
  "cmdUninstall vp mc path purge =
     (case Load vp path of
        Ok (cfg, _) \<Rightarrow>
          (let man = cfg_Management cfg;
               script = (if man_UninstallScript man = [] then ''deploy/uninstall.sh'' else man_UninstallScript man)
           in case RunScript mc script purge of
                (Ok _, acts) \<Rightarrow> (0, Some ServiceRemoved, acts)
              | (_, acts) \<Rightarrow>
                  (1, Some (RunByHand (UninstallCommand (FromManagement (man_ServiceName man) (man_ServiceUnitPath man) script True))), acts))
      | _ \<Rightarrow> (1, None, []))"

section \<open>The program\<close>

text \<open>The proxy and the management server share the runtime.\<close>

record program =
  pg_admin :: admin_state
  pg_metrics :: "Metrics option"
  pg_services :: "string list"
  pg_log :: log_level

definition pg_server :: "program \<Rightarrow> server" where
  "pg_server g = \<lparr>s_rt = as_rt (pg_admin g), s_metrics = pg_metrics g\<rparr>"

definition with_server :: "server \<Rightarrow> program \<Rightarrow> program" where
  "with_server s g = g\<lparr>pg_admin := (pg_admin g)\<lparr>as_rt := s_rt s\<rparr>, pg_metrics := s_metrics s\<rparr>"

definition runServer :: "viper \<Rightarrow> int \<Rightarrow> runFlags \<Rightarrow> (config_error, program) res" where
  "runServer vp now flags =
     bind_res (Load vp (rf_configPath flags)) (\<lambda>(cfg, users).
       let rt = rt_New now (rf_configPath flags) cfg users New; enabled = Enabled (cfg_Metrics cfg) in
       bind_res (if enabled then bind_res met_New (\<lambda>m. Ok (Some m)) else Ok None) (\<lambda>m.
         Ok \<lparr>pg_admin = \<lparr>as_rt = rt, as_mgmt = cfg_Management cfg, as_listener = None, as_disk = Some cfg, as_actions = []\<rparr>,
             pg_metrics = m,
             pg_services = ''proxy'' # (if man_IsEnabled (cfg_Management cfg) then [''admin''] else [])
               @ (if enabled then [''metrics''] else []),
             pg_log = setupLogging (rf_logLevel flags)\<rparr>))"

text \<open>The end: a signal, with whether the connections ended in time, or a server that stopped, with or without an error.\<close>

datatype stop_event = Signalled bool | ServerStopped bool

fun exit_status :: "stop_event \<Rightarrow> nat" where
  "exit_status (Signalled drained) = (if drained then 0 else 1)"
| "exit_status (ServerStopped failed) = (if failed then 1 else 0)"

text \<open>
  The program at work: the accept loop, the threads of the connections and the management requests, in any
  order, on the one runtime. The list holds the replies of the management interface, the last one first.
  A handler that panics ends the program, so only handlers that return take a step. The place of a connection that is over
  goes back to the limiter that its thread has seen, which a request may have replaced.
\<close>

inductive running :: "program \<Rightarrow> response list \<Rightarrow> program \<Rightarrow> bool" for g0 where
  booted: "running g0 [] g0"
| accepting: "running g0 reps g \<Longrightarrow> accept_turn conn (pg_server g) = (Ok o_conn, s') \<Longrightarrow> running g0 reps (with_server s' g)"
| handling: "running g0 reps g \<Longrightarrow> handleConnection w conn sk (pg_server g) = Some (Ok e, s') \<Longrightarrow>
    s2 \<in> {s', conn_done conn s'} \<Longrightarrow> running g0 reps (with_server s2 g)"
| managing: "running g0 reps g \<Longrightarrow> serve_admin w r (pg_admin g) = (resp, a) \<Longrightarrow> running g0 (resp # reps) (g\<lparr>pg_admin := a\<rparr>)"

section \<open>Facts\<close>

lemma pg_server_sel [simp]: "s_rt (pg_server g) = as_rt (pg_admin g)"
  by (simp add: pg_server_def)

lemma with_server_sel [simp]: "as_rt (pg_admin (with_server s g)) = s_rt s"
  by (simp add: with_server_def)

lemma usable_Limiter: "keeps r (r\<lparr>rt_Limiter := Some l\<rparr>)"
  by (simp add: keeps_def rt_usable_def rt_inv_def features_ok_def)

lemma limiter_keeps: "lim \<noteq> None \<Longrightarrow> keeps r (r\<lparr>rt_Limiter := lim\<rparr>)"
  using usable_Limiter by auto

lemma Acquire_not_None: "lo \<noteq> None \<Longrightarrow> Acquire a lo = (ok, lim) \<Longrightarrow> lim \<noteq> None"
  by (auto simp: Acquire_def Let_def split: option.splits if_splits)

lemma Release_not_None: "lo \<noteq> None \<Longrightarrow> Release a lo \<noteq> None"
  by (auto simp: Release_def Let_def split: option.splits if_splits)

lemma keepsI_usable: "(rt_usable r \<Longrightarrow> keeps r r') \<Longrightarrow> keeps r r'"
  using rt_inv_usable by (auto simp: keeps_def)

lemma accept_keeps:
  assumes "accept_turn conn s = (Ok o_conn, s')"
  shows "keeps (s_rt s) (s_rt s')"
proof (rule keepsI_usable)
  assume u: "rt_usable (s_rt s)"
  obtain c :: net_conn and ok lim where a: "Acquire (nc_remote c) (rt_Limiter (s_rt s)) = (ok, lim)" "s_rt s' = (s_rt s)\<lparr>rt_Limiter := lim\<rparr>"
    using assms by (rule accept_turn_Ok)
  then show "keeps (s_rt s) (s_rt s')"
    using u Acquire_not_None [OF _ a(1)] by (simp add: limiter_keeps rt_usable_def)
qed

lemma evolves_keeps: "rt_evolves r r' \<Longrightarrow> keeps r r'"
  using rt_evolves_inv [of r r'] by (auto simp: keeps_def rt_evolves_def rt_usable_def parts_ok_def)

lemma done_keeps: "keeps (s_rt s) (s_rt (conn_done conn s))"
  by (rule keepsI_usable) (simp add: conn_done_def limiter_keeps Release_not_None rt_usable_def)

lemma running_keeps:
  "running g0 reps g \<Longrightarrow> rt_usable (as_rt (pg_admin g0)) \<Longrightarrow>
     rt_usable (as_rt (pg_admin g)) \<and>
     (rt_inv (as_rt (pg_admin g0)) \<and> (\<forall>resp \<in> set reps. \<not> lockout resp) \<longrightarrow> rt_inv (as_rt (pg_admin g)))"
proof (induction rule: running.induct)
  case (accepting reps g conn o_conn s')
  then show ?case using accept_keeps [OF accepting(2)] by (auto simp: keeps_def)
next
  case (handling reps g w conn sk e s' s2)
  have "keeps (as_rt (pg_admin g)) (s_rt s2)"
    using evolves_keeps [OF handleConnection_evolves [OF handling(2)]] done_keeps [of s' conn] handling(3) by (auto intro: keeps_trans)
  with handling show ?case by (auto simp: keeps_def)
next
  case (managing reps g w r resp a)
  then show ?case using serve_admin_sound [of "pg_admin g" w r] by (auto simp: sound_step_def)
qed simp

lemma runServer_Ok:
  assumes "runServer vp now flags = Ok g"
  obtains cfg users where "Load vp (rf_configPath flags) = Ok (cfg, users)"
    "as_rt (pg_admin g) = rt_New now (rf_configPath flags) cfg users New" "as_mgmt (pg_admin g) = cfg_Management cfg"
    "as_disk (pg_admin g) = Some cfg"
  using assms by (auto simp: runServer_def bind_res_Ok_iff Let_def)

lemma runServer_starts: "(\<exists>g. runServer vp now flags = Ok g) \<longleftrightarrow> (\<exists>p. Load vp (rf_configPath flags) = Ok p)"
  by (cases "Load vp (rf_configPath flags)") (auto simp: runServer_def met_New_ok Let_def)

section \<open>Properties\<close>

text \<open>
  The program stays sound. Once \<open>runServer\<close> has started with whatever the configuration file holds,
  however connections are accepted, refused and handled and management requests are served, in any
  interleaving, the replay cache, the limiter and the rotators are there and inside their pools, every user has a
  well-formed secret, and unless a reply has reported that no active user is left there are an enabled user
  and a mask host.
\<close>

lemma program_stays_sound:
  assumes "runServer vp now flags = Ok g0" "running g0 reps g"
  shows "rt_usable (as_rt (pg_admin g)) \<and> ((\<forall>resp \<in> set reps. \<not> lockout resp) \<longrightarrow> rt_inv (as_rt (pg_admin g)))"
proof -
  obtain cfg users where l: "Load vp (rf_configPath flags) = Ok (cfg, users)"
    "as_rt (pg_admin g0) = rt_New now (rf_configPath flags) cfg users New"
    using assms(1) by (rule runServer_Ok)
  have "rt_inv (as_rt (pg_admin g0))"
    using rt_New_inv [OF l(1)] l(2) by simp
  then show ?thesis
    using running_keeps [OF assms(2)] rt_inv_usable by blast
qed

definition example_flags :: runFlags where
  "example_flags = \<lparr>rf_configPath = ''c.yaml'', rf_logLevel = []\<rparr>"

lemma sample_starts: "\<exists>g. runServer (\<lambda>_ _. Inr (sample_config sample_users)) 5 example_flags = Ok g"
  using sample_loads [of "''c.yaml''"] by (auto simp: runServer_starts example_flags_def)

text \<open>
  \<open>check\<close> predicts \<open>run\<close>: the command exits with status 0 exactly for the configurations with which \<open>runServer\<close>
  comes up; then the line that it prints names the address and the number of the users that the started
  program has, and the started program never fails in making its metrics.
\<close>

lemma check_predicts_start:
  "fst (cmdCheck vp (rf_configPath flags)) = 0 \<longleftrightarrow>
     (\<exists>g. runServer vp now flags = Ok g \<and> snd (cmdCheck vp (rf_configPath flags)) =
        [''OK listen='' @ cfg_Addr (rt_Config (as_rt (pg_admin g))) @ '' users='' @ dec_nat (length (m_users (rt_Users (as_rt (pg_admin g)))))
         @ '' relay='' @ rel_Mode (cfg_Relay (rt_Config (as_rt (pg_admin g))))])"
proof (cases "Load vp (rf_configPath flags)")
  case (Ok p)
  then show ?thesis
    by (cases p) (auto simp: cmdCheck_def runServer_def met_New_ok Let_def rt_New_def apply_features Users_def)
qed (auto simp: cmdCheck_def runServer_def)

text \<open>Whatever the flag says errors are logged, and a stricter flag never shows a record that a looser one hides.\<close>

lemma errors_are_logged: "logs (setupLogging level) LevelError"
  by (simp add: logs_def less_eq_log_level_def setupLogging_def Let_def)

lemma logs_antimono: "lvl \<le> lvl' \<Longrightarrow> logs lvl' r \<Longrightarrow> logs lvl r"
  unfolding logs_def by (rule order_trans)

text \<open>The program panics on its arguments exactly when the first one is empty.\<close>

lemma parse_flags_no_panic: "parse_flags fs args \<noteq> Panic"
proof (induction fs args rule: parse_flags.induct)
  case (2 fs s args)
  show ?case
    by (subst parse_flags.simps)
      (auto simp del: parse_flags.simps simp: 2 split: flag_token.splits option.splits flag_value.splits list.splits)
qed simp

lemma main_panics_iff: "main_command argv = Panic \<longleftrightarrow> (\<exists>args. argv = [] # args)"
  by (cases argv)
    (simp_all add: main_command_def parseRunFlags_def legacyRun_def bind_res_Panic_iff parse_flags_no_panic del: parse_flags.simps)

end
