(* ===== verification/HalfClose.thy ===== *)
theory HalfClose
  imports ProxyNet
begin

text \<open>
  Half closing, the methods \<open>CloseWrite\<close> of the connection types and \<open>closeWriteHalf\<close> in
  \<open>internal/proxy/server.go\<close>: when one direction of a session ends, its target is told that nothing more comes
  while the other direction goes on. A connection is the stack of its layers. A type has the method
  \<open>CloseWrite\<close> if the source declares it; embedding \<open>net.Conn\<close> gives none. \<open>Foreign\<close> is a connection of a library,
  with or without the method.
\<close>

section \<open>Layers\<close>

datatype layer =
    Tcp
  | Foreign bool
  | ProxyConn layer
  | PeekedConn layer
  | PrefixConn layer
  | ReadRecorder layer
  | RecordLayer layer
  | ObfConn layer
  | OutgoingConn layer
  | FrameConn layer
  | MiddleConn layer
  | IntermediateConn layer

datatype closing = HalfClosed | Ignored | Closed

text \<open>
  The methods, one per type; \<open>c\<close> is the layer below and \<open>below\<close> what its own \<open>CloseWrite\<close> does, \<open>None\<close> when it has none.
\<close>

definition tcp_only :: "layer \<Rightarrow> closing" where
  "tcp_only c = (if c = Tcp then HalfClosed else Ignored)"

definition forward :: "closing option \<Rightarrow> closing" where
  "forward below = (case below of Some r \<Rightarrow> r | None \<Rightarrow> Ignored)"

definition recorder_CloseWrite :: "layer \<Rightarrow> closing option \<Rightarrow> closing" where
  "recorder_CloseWrite c below = (if c = Tcp then HalfClosed else forward below)"

definition record_CloseWrite :: "layer \<Rightarrow> closing option \<Rightarrow> closing" where
  "record_CloseWrite c below = (case below of Some r \<Rightarrow> r | None \<Rightarrow> tcp_only c)"

definition obf_CloseWrite :: "layer \<Rightarrow> closing option \<Rightarrow> closing" where
  "obf_CloseWrite c below = (case below of Some r \<Rightarrow> r | None \<Rightarrow> tcp_only c)"

definition outgoing_CloseWrite :: "layer \<Rightarrow> closing" where "outgoing_CloseWrite c = tcp_only c"
definition frame_CloseWrite :: "layer \<Rightarrow> closing" where "frame_CloseWrite c = tcp_only c"
definition middle_CloseWrite :: "layer \<Rightarrow> closing" where "middle_CloseWrite raw = tcp_only raw"
definition intermediate_CloseWrite :: "closing option \<Rightarrow> closing" where "intermediate_CloseWrite below = forward below"

fun CloseWrite :: "layer \<Rightarrow> closing option" where
  "CloseWrite Tcp = Some HalfClosed"
| "CloseWrite (Foreign b) = (if b then Some HalfClosed else None)"
| "CloseWrite (ProxyConn c) = None"
| "CloseWrite (PeekedConn c) = None"
| "CloseWrite (PrefixConn c) = None"
| "CloseWrite (ReadRecorder c) = Some (recorder_CloseWrite c (CloseWrite c))"
| "CloseWrite (RecordLayer c) = Some (record_CloseWrite c (CloseWrite c))"
| "CloseWrite (ObfConn c) = Some (obf_CloseWrite c (CloseWrite c))"
| "CloseWrite (OutgoingConn c) = Some (outgoing_CloseWrite c)"
| "CloseWrite (FrameConn c) = Some (frame_CloseWrite c)"
| "CloseWrite (MiddleConn c) = Some (middle_CloseWrite c)"
| "CloseWrite (IntermediateConn c) = Some (intermediate_CloseWrite (CloseWrite c))"

lemmas CloseWrite_defs = tcp_only_def forward_def recorder_CloseWrite_def record_CloseWrite_def obf_CloseWrite_def
  outgoing_CloseWrite_def frame_CloseWrite_def middle_CloseWrite_def intermediate_CloseWrite_def

definition closeWriteHalf :: "layer \<Rightarrow> closing" where
  "closeWriteHalf c = (case CloseWrite c of Some r \<Rightarrow> r | None \<Rightarrow> Closed)"

section \<open>The stacks that the proxy builds\<close>

text \<open>
  What \<open>acceptWithProxyProtocol\<close> makes of an accepted connection; \<open>head\<close> are its first six bytes, \<open>None\<close> when it
  ends before.
\<close>

definition accepted_layer :: "bool \<Rightarrow> bytes option \<Rightarrow> layer" where
  "accepted_layer enabled head =
     (case (enabled, head) of
        (True, Some h) \<Rightarrow> if h = bytes_of_string ''PROXY '' then ProxyConn Tcp else PeekedConn Tcp
      | _ \<Rightarrow> Tcp)"

definition tls_client_layer :: "layer \<Rightarrow> layer" where "tls_client_layer c = ObfConn (RecordLayer (ReadRecorder c))"
definition secure_client_layer :: "layer \<Rightarrow> layer" where "secure_client_layer c = ObfConn c"
definition direct_layer :: "layer \<Rightarrow> layer" where "direct_layer dialed = OutgoingConn dialed"
definition front_layer :: layer where "front_layer = FrameConn Tcp"
definition middle_layer :: layer where "middle_layer = IntermediateConn (MiddleConn Tcp)"

section \<open>Facts\<close>

text \<open>A session never closes both directions of a side when one has ended, whatever lies below.\<close>

lemma half_never_closes:
  "closeWriteHalf (tls_client_layer c) \<noteq> Closed \<and> closeWriteHalf (secure_client_layer c) \<noteq> Closed
   \<and> closeWriteHalf (direct_layer c) \<noteq> Closed \<and> closeWriteHalf front_layer = HalfClosed \<and> closeWriteHalf middle_layer = HalfClosed"
proof -
  have "CloseWrite c \<noteq> Some Closed" for c
    by (induction c) (auto simp: CloseWrite_defs split: option.splits)
  then show ?thesis
    by (auto simp: closeWriteHalf_def tls_client_layer_def secure_client_layer_def direct_layer_def front_layer_def
        middle_layer_def CloseWrite_defs split: option.splits)
qed

text \<open>
  The end of the answer reaches the client exactly when the PROXY protocol is off or the client sent nothing: the
  wrappers of the PROXY protocol have no \<open>CloseWrite\<close>, so the half close is dropped without an error.
\<close>

lemma proxy_protocol_drops_half_close:
  "closeWriteHalf (tls_client_layer (accepted_layer enabled head)) = (if enabled \<and> head \<noteq> None then Ignored else HalfClosed)"
  "closeWriteHalf (secure_client_layer (accepted_layer enabled head)) = (if enabled \<and> head \<noteq> None then Ignored else HalfClosed)"
  by (auto simp: closeWriteHalf_def tls_client_layer_def secure_client_layer_def accepted_layer_def CloseWrite_defs
      split: bool.splits option.splits)

text \<open>The end of the request reaches the data centre only over a plain TCP connection, so not through a SOCKS5 library.\<close>

lemma outgoing_half_close: "closeWriteHalf (direct_layer dialed) = (if dialed = Tcp then HalfClosed else Ignored)"
  by (simp add: closeWriteHalf_def direct_layer_def CloseWrite_defs)

end
