(* ===== verification/Lifecycle.thy ===== *)
theory Lifecycle
  imports ProxyNet
begin

text \<open>
  The life of the proxy's listener, \<open>Serve\<close>, \<open>Shutdown\<close> and \<open>RebindListenIfNeeded\<close> of \<open>internal/proxy\<close>: which
  listener the accept loop waits on, how the thread that waits for the end of the context, a change of the
  address and the shutdown close listeners, and when the loop returns. Listeners are numbered in the order in
  which they are opened. Every step is one of the operations that the lock or the runtime makes atomic; they
  interleave freely.
\<close>

section \<open>The state machine\<close>

text \<open>
  Where the loop is: before listening, at its head, in \<open>Accept\<close> on a listener, waiting for the connections, and
  returned.
\<close>

datatype loop_pc = Starting | AtHead | InAccept nat | Draining | Returned

text \<open>
  \<open>lc_ln\<close> is the field \<open>ln\<close>, \<open>lc_open\<close> the listeners that are not closed, \<open>lc_retired\<close> those that a rebind has
  replaced and not yet closed, \<open>lc_cancelled\<close> whether the context is done, \<open>lc_closer\<close> whether the thread that waits
  for it has run, and \<open>lc_wg\<close> the wait group's counter.
\<close>

record lifecycle =
  lc_pc :: loop_pc
  lc_ln :: "nat option"
  lc_open :: "nat set"
  lc_retired :: "nat set"
  lc_next :: nat
  lc_cancelled :: bool
  lc_closer :: bool
  lc_wg :: nat

definition lc_start :: lifecycle where
  "lc_start = \<lparr>lc_pc = Starting, lc_ln = None, lc_open = {}, lc_retired = {}, lc_next = 0, lc_cancelled = False,
     lc_closer = False, lc_wg = 0\<rparr>"

text \<open>The steps of the accept loop; a connection that the limiter refuses is closed at once.\<close>

inductive loop_step :: "lifecycle \<Rightarrow> lifecycle \<Rightarrow> bool" where
  serve_listens: "lc_pc s = Starting \<Longrightarrow>
     loop_step s (s\<lparr>lc_pc := AtHead, lc_ln := Some (lc_next s), lc_open := insert (lc_next s) (lc_open s), lc_next := lc_next s + 1\<rparr>)"
| listen_fails: "lc_pc s = Starting \<Longrightarrow> loop_step s (s\<lparr>lc_pc := Returned\<rparr>)"
| takes_listener: "lc_pc s = AtHead \<Longrightarrow> lc_ln s = Some l \<Longrightarrow> loop_step s (s\<lparr>lc_pc := InAccept l\<rparr>)"
| no_listener: "lc_pc s = AtHead \<Longrightarrow> lc_ln s = None \<Longrightarrow> loop_step s (s\<lparr>lc_pc := Returned\<rparr>)"
| accept_fails: "lc_pc s = InAccept l \<Longrightarrow> l \<notin> lc_open s \<Longrightarrow>
     loop_step s (s\<lparr>lc_pc := (if lc_cancelled s then Draining else AtHead)\<rparr>)"
| drained: "lc_pc s = Draining \<Longrightarrow> lc_wg s = 0 \<Longrightarrow> loop_step s (s\<lparr>lc_pc := Returned\<rparr>)"

text \<open>
  What a client or the system makes happen on an open listener, an error of \<open>Accept\<close> among them, and the end of a
  connection's thread.
\<close>

inductive client_step :: "lifecycle \<Rightarrow> lifecycle \<Rightarrow> bool" where
  accepts: "lc_pc s = InAccept l \<Longrightarrow> l \<in> lc_open s \<Longrightarrow> client_step s (s\<lparr>lc_pc := AtHead, lc_wg := lc_wg s + 1\<rparr>)"
| refuses: "lc_pc s = InAccept l \<Longrightarrow> l \<in> lc_open s \<Longrightarrow> client_step s (s\<lparr>lc_pc := AtHead\<rparr>)"
| accept_error: "lc_pc s = InAccept l \<Longrightarrow> l \<in> lc_open s \<Longrightarrow>
     client_step s (s\<lparr>lc_pc := (if lc_cancelled s then Draining else AtHead)\<rparr>)"

inductive conn_step :: "lifecycle \<Rightarrow> lifecycle \<Rightarrow> bool" where
  conn_ends: "0 < lc_wg s \<Longrightarrow> conn_step s (s\<lparr>lc_wg := lc_wg s - 1\<rparr>)"

text \<open>The end of the context, the thread that closes the listener then, and \<open>Shutdown\<close>.\<close>

inductive end_step :: "lifecycle \<Rightarrow> lifecycle \<Rightarrow> bool" where
  cancel: "end_step s (s\<lparr>lc_cancelled := True\<rparr>)"
| closer: "lc_cancelled s \<Longrightarrow> \<not> lc_closer s \<Longrightarrow> lc_pc s \<noteq> Starting \<Longrightarrow>
     end_step s (s\<lparr>lc_closer := True, lc_open := lc_open s - set_option (lc_ln s)\<rparr>)"
| shutdown: "end_step s (s\<lparr>lc_open := lc_open s - set_option (lc_ln s)\<rparr>)"

text \<open>\<open>RebindListenIfNeeded\<close>: the new listener takes the place of the old one, which is then closed.\<close>

inductive rebind_step :: "lifecycle \<Rightarrow> lifecycle \<Rightarrow> bool" where
  swap: "rebind_step s (s\<lparr>lc_ln := Some (lc_next s), lc_open := insert (lc_next s) (lc_open s),
     lc_retired := lc_retired s \<union> set_option (lc_ln s), lc_next := lc_next s + 1\<rparr>)"
| close_old: "l \<in> lc_retired s \<Longrightarrow> rebind_step s (s\<lparr>lc_open := lc_open s - {l}, lc_retired := lc_retired s - {l}\<rparr>)"

definition lc_step :: "lifecycle \<Rightarrow> lifecycle \<Rightarrow> bool" where
  "lc_step s s' \<longleftrightarrow> loop_step s s' \<or> client_step s s' \<or> conn_step s s' \<or> end_step s s' \<or> rebind_step s s'"

inductive_cases loop_stepE [elim!]: "loop_step s s'"
inductive_cases client_stepE [elim!]: "client_step s s'"
inductive_cases conn_stepE [elim!]: "conn_step s s'"
inductive_cases end_stepE [elim!]: "end_step s s'"
inductive_cases rebind_stepE [elim!]: "rebind_step s s'"

section \<open>Facts\<close>

text \<open>
  Runs in which no rebind comes before \<open>Serve\<close> has opened its listener. Then every listener that is open is the
  current one, or one that a rebind is about to close.
\<close>

inductive lc_reach :: "lifecycle \<Rightarrow> bool" where
  lc_init: "lc_reach lc_start"
| lc_next: "lc_reach s \<Longrightarrow> lc_step s s' \<Longrightarrow> (rebind_step s s' \<Longrightarrow> lc_pc s \<noteq> Starting) \<Longrightarrow> lc_reach s'"

definition lc_inv :: "lifecycle \<Rightarrow> bool" where
  "lc_inv s \<longleftrightarrow> lc_open s \<subseteq> set_option (lc_ln s) \<union> lc_retired s \<and> (lc_pc s \<in> {Starting, Returned} \<or> lc_ln s \<noteq> None)
     \<and> (lc_pc s = Starting \<longrightarrow> lc_ln s = None \<and> lc_open s = {})"

lemma lc_inv_step:
  assumes "lc_inv s" "lc_step s s'" "rebind_step s s' \<Longrightarrow> lc_pc s \<noteq> Starting"
  shows "lc_inv s'"
proof -
  consider "loop_step s s'" | "client_step s s'" | "conn_step s s'" | "end_step s s'" | "rebind_step s s'" "lc_pc s \<noteq> Starting"
    using assms(2,3) unfolding lc_step_def by metis
  then show ?thesis
    by cases (use assms(1) in \<open>auto simp: lc_inv_def split: if_splits\<close>)
qed

lemma lc_reach_inv: "lc_reach s \<Longrightarrow> lc_inv s"
proof (induction rule: lc_reach.induct)
  case lc_init
  then show ?case by (simp add: lc_inv_def lc_start_def)
next
  case (lc_next s s')
  then show ?case using lc_inv_step by blast
qed

text \<open>
  Winding down: once \<open>closing\<close> holds, every step keeps it and makes what is \<open>left\<close> smaller, and while the work is not
  \<open>finished\<close> some step is possible. Then every run is short and ends only when the work is finished.
\<close>

locale winding_down =
  fixes step :: "'s \<Rightarrow> 's \<Rightarrow> bool" and closing :: "'s \<Rightarrow> bool" and left :: "'s \<Rightarrow> nat" and finished :: "'s \<Rightarrow> bool"
  assumes progress: "closing s \<Longrightarrow> step s s' \<Longrightarrow> closing s' \<and> left s' < left s"
    and enabled: "closing s \<Longrightarrow> \<not> finished s \<Longrightarrow> \<exists>s'. step s s'"
begin

lemma stays_closing: "step\<^sup>*\<^sup>* s s' \<Longrightarrow> closing s \<Longrightarrow> closing s'"
  by (induction rule: rtranclp_induct) (auto dest: progress)

lemma run_length:
  assumes "(step ^^ n) s s'" "closing s"
  shows "n + left s' \<le> left s"
  using assms(1)
proof (induction n arbitrary: s')
  case (Suc n)
  then obtain t where t: "(step ^^ n) s t" "step t s'" by auto
  have "closing t" using stays_closing [OF relpowp_imp_rtranclp [OF t(1)] assms(2)] .
  with Suc.IH [OF t(1)] progress [OF _ t(2)] show ?case by force
qed simp

lemma stops_finished: "step\<^sup>*\<^sup>* s s' \<Longrightarrow> closing s \<Longrightarrow> \<nexists>s''. step s' s'' \<Longrightarrow> finished s'"
  using stays_closing enabled by blast

end

text \<open>The work of the loop and the connections, and a measure for it once nothing can be accepted any more.\<close>

definition work_step :: "lifecycle \<Rightarrow> lifecycle \<Rightarrow> bool" where
  "work_step s s' \<longleftrightarrow> loop_step s s' \<or> client_step s s' \<or> conn_step s s'"

definition closing_down :: "lifecycle \<Rightarrow> bool" where
  "closing_down s \<longleftrightarrow> lc_cancelled s \<and> lc_open s = {} \<and> lc_pc s \<noteq> Starting \<and> (lc_ln s \<noteq> None \<or> lc_pc s = Returned)"

fun pc_rank :: "loop_pc \<Rightarrow> nat" where
  "pc_rank Starting = 4"
| "pc_rank AtHead = 3"
| "pc_rank (InAccept l) = 2"
| "pc_rank Draining = 1"
| "pc_rank Returned = 0"

definition left_to_do :: "lifecycle \<Rightarrow> nat" where "left_to_do s = pc_rank (lc_pc s) + lc_wg s"

lemma work_progress:
  assumes "closing_down s" "work_step s s'"
  shows "closing_down s'" "left_to_do s' < left_to_do s"
  using assms by (auto simp: work_step_def closing_down_def left_to_do_def)

lemma work_enabled:
  assumes "closing_down s" "lc_pc s \<noteq> Returned \<or> lc_wg s \<noteq> 0"
  shows "\<exists>s'. work_step s s'"
proof (cases "lc_wg s")
  case 0
  with assms show ?thesis
    by (cases "lc_pc s") (auto simp: work_step_def closing_down_def intro: loop_step.intros)
next
  case (Suc n)
  then have "conn_step s (s\<lparr>lc_wg := lc_wg s - 1\<rparr>)" by (intro conn_step.intros) simp
  then show ?thesis unfolding work_step_def by metis
qed

interpretation serve_end: winding_down work_step closing_down left_to_do "\<lambda>s. lc_pc s = Returned \<and> lc_wg s = 0"
  using work_progress work_enabled by unfold_locales blast+

section \<open>Properties\<close>


definition example_closing :: lifecycle where
  "example_closing = \<lparr>lc_pc = InAccept 0, lc_ln = Some 0, lc_open = {}, lc_retired = {}, lc_next = 1, lc_cancelled = True,
     lc_closer = True, lc_wg = 2\<rparr>"


text \<open>
  In an orderly run, when no rebind is under way only the current listener can be open: changing the address
  frees the old one, and the end of the context or \<open>Shutdown\<close> frees the last.
\<close>

lemma one_listener:
  assumes "lc_reach s" "lc_retired s = {}"
  shows "lc_open s \<subseteq> set_option (lc_ln s)"
  using lc_reach_inv [OF assms(1)] assms(2) by (simp add: lc_inv_def)

lemma closing_down_reached:
  assumes "lc_reach s" "lc_retired s = {}" "lc_cancelled s" "\<not> lc_closer s" "lc_pc s \<noteq> Starting"
  shows "\<exists>s'. end_step s s' \<and> closing_down s'"
proof -
  let ?s = "s\<lparr>lc_closer := True, lc_open := lc_open s - set_option (lc_ln s)\<rparr>"
  have "end_step s ?s" using assms(3-5) by (rule end_step.closer)
  moreover have "closing_down ?s"
    using lc_reach_inv [OF assms(1)] one_listener [OF assms(1,2)] assms(3,5) by (auto simp: closing_down_def lc_inv_def)
  ultimately show ?thesis by metis
qed

text \<open>
  A rebind that comes after the listener was closed opens a new one that nothing of \<open>Serve\<close> closes: the loop waits
  in \<open>Accept\<close> on it and can go on only by a client. A rebind before \<open>Serve\<close> listens loses its listener.
\<close>

lemma late_rebind_blocks:
  assumes "lc_pc s = InAccept l" "l \<in> lc_open s"
  shows "\<not> loop_step s s'"
  using assms by auto

lemma early_rebind_leaks:
  "\<exists>s1 s2. rebind_step lc_start s1 \<and> loop_step s1 s2 \<and> lc_open s2 = {0, 1} \<and> lc_ln s2 = Some 1 \<and> lc_retired s2 = {}"
proof -
  let ?s1 = "lc_start\<lparr>lc_ln := Some 0, lc_open := {0}, lc_next := 1\<rparr>"
  let ?s2 = "?s1\<lparr>lc_pc := AtHead, lc_ln := Some 1, lc_open := {0, 1}, lc_next := 2\<rparr>"
  have "rebind_step lc_start ?s1"
    using rebind_step.swap [of lc_start] by (simp add: lc_start_def)
  moreover have "loop_step ?s1 ?s2"
    using loop_step.serve_listens [of ?s1] by (simp add: lc_start_def insert_commute numeral_2_eq_2)
  ultimately show ?thesis by (metis lifecycle.select_convs(2,3,4) lifecycle.surjective lifecycle.update_convs(1,2,3,5) lc_start_def)
qed

end
