(* ===== verification/Servers.thy ===== *)
theory Servers
  imports Lifecycle Metrics
begin

text \<open>
  The other servers of the program as state machines: the accept loop of a back proxy (\<open>ServeBack\<close> of
  \<open>internal/relay/tunnel.go\<close>, started by \<open>serveRelayBack\<close>), the HTTP servers of the management interface and of the
  metrics (the two methods \<open>Serve\<close>), and the listener of the test data centre (\<open>internal/testdc/mock.go\<close>). What they do with one
  connection or request is modelled elsewhere; here it is when they start, stop and wait.
\<close>

section \<open>The back proxy\<close>

text \<open>
  \<open>bk_open\<close> is whether the listener is open, \<open>bk_sessions\<close> counts the threads of the connections, which no wait group
  knows of.
\<close>

record back_loop =
  bk_returned :: bool
  bk_open :: bool
  bk_cancelled :: bool
  bk_sessions :: nat

definition back_start :: back_loop where
  "back_start = \<lparr>bk_returned = False, bk_open = True, bk_cancelled = False, bk_sessions = 0\<rparr>"

text \<open>An error of \<open>Accept\<close>, from a closed listener or not, ends the loop if the context is done and is ignored otherwise.\<close>

inductive back_step :: "back_loop \<Rightarrow> back_loop \<Rightarrow> bool" where
  back_accepts: "\<not> bk_returned s \<Longrightarrow> bk_open s \<Longrightarrow> back_step s (s\<lparr>bk_sessions := bk_sessions s + 1\<rparr>)"
| back_fails: "\<not> bk_returned s \<Longrightarrow> back_step s (s\<lparr>bk_returned := bk_cancelled s\<rparr>)"
| back_session_ends: "0 < bk_sessions s \<Longrightarrow> back_step s (s\<lparr>bk_sessions := bk_sessions s - 1\<rparr>)"

inductive back_end :: "back_loop \<Rightarrow> back_loop \<Rightarrow> bool" where
  back_cancel: "back_end s (s\<lparr>bk_cancelled := True\<rparr>)"
| back_closer: "bk_cancelled s \<Longrightarrow> back_end s (s\<lparr>bk_open := False\<rparr>)"

inductive_cases back_stepE [elim!]: "back_step s s'"
inductive_cases back_endE [elim!]: "back_end s s'"

inductive back_reach :: "back_loop \<Rightarrow> bool" where
  back_init: "back_reach back_start"
| back_next: "back_reach s \<Longrightarrow> back_step s s' \<or> back_end s s' \<Longrightarrow> back_reach s'"

section \<open>HTTP servers\<close>

text \<open>
  How \<open>ListenAndServe\<close> ends: it always returns an error, and after \<open>Shutdown\<close> has been called this error is
  \<open>ErrServerClosed\<close>. \<open>Serve\<close> turns that one into success.
\<close>

datatype listen_end = ServerClosed | ListenError

definition serve_outcome :: "listen_end \<Rightarrow> (listen_end, unit) res" where
  "serve_outcome e = (if e = ServerClosed then Ok () else Err e)"

record http_server =
  hs_result :: "(listen_end, unit) res option"
  hs_shutdown :: bool
  hs_cancelled :: bool

definition http_start :: http_server where
  "http_start = \<lparr>hs_result = None, hs_shutdown = False, hs_cancelled = False\<rparr>"

inductive http_step :: "http_server \<Rightarrow> http_server \<Rightarrow> bool" where
  http_cancel: "http_step s (s\<lparr>hs_cancelled := True\<rparr>)"
| http_shutdown: "hs_cancelled s \<Longrightarrow> http_step s (s\<lparr>hs_shutdown := True\<rparr>)"
| http_return: "hs_result s = None \<Longrightarrow> e = ServerClosed \<longleftrightarrow> hs_shutdown s \<Longrightarrow> http_step s (s\<lparr>hs_result := Some (serve_outcome e)\<rparr>)"

inductive_cases http_stepE [elim!]: "http_step s s'"

text \<open>
  The server of the metrics is such a server with a ticker: every five seconds until it returns the gauge of active
  connections is set from the statistics, which change meanwhile.
\<close>

record metrics_server = http_server +
  ms_metrics :: Metrics

definition http_part :: "metrics_server \<Rightarrow> http_server" where
  "http_part s = \<lparr>hs_result = hs_result s, hs_shutdown = hs_shutdown s, hs_cancelled = hs_cancelled s\<rparr>"

inductive metrics_step :: "metrics_server \<Rightarrow> metrics_server \<Rightarrow> bool" where
  metrics_http: "http_step (http_part s) (http_part s') \<Longrightarrow> ms_metrics s' = ms_metrics s \<Longrightarrow> metrics_step s s'"
| metrics_tick: "hs_result s = None \<Longrightarrow> Sync order stats (ms_metrics s) = Ok m \<Longrightarrow> metrics_step s (s\<lparr>ms_metrics := m\<rparr>)"

section \<open>The test data centre\<close>

record mock =
  mk_open :: bool
  mk_serving :: bool
  mk_conns :: nat

text \<open>\<open>Start\<close>, and \<open>Close\<close>, which then waits for the wait group: for the loop and for every connection.\<close>

definition mock_Start :: mock where
  "mock_Start = \<lparr>mk_open = True, mk_serving = True, mk_conns = 0\<rparr>"

definition mock_Close :: "mock \<Rightarrow> mock" where
  "mock_Close s = s\<lparr>mk_open := False\<rparr>"

definition mock_waited :: "mock \<Rightarrow> bool" where
  "mock_waited s \<longleftrightarrow> \<not> mk_serving s \<and> mk_conns s = 0"

inductive mock_step :: "mock \<Rightarrow> mock \<Rightarrow> bool" where
  mock_accepts: "mk_serving s \<Longrightarrow> mk_open s \<Longrightarrow> mock_step s (s\<lparr>mk_conns := mk_conns s + 1\<rparr>)"
| mock_fails: "mk_serving s \<Longrightarrow> mock_step s (s\<lparr>mk_serving := False\<rparr>)"
| mock_conn_ends: "0 < mk_conns s \<Longrightarrow> mock_step s (s\<lparr>mk_conns := mk_conns s - 1\<rparr>)"

inductive_cases mock_stepE [elim!]: "mock_step s s'"

section \<open>Facts\<close>

text \<open>Both accept loops wind down once their listener is closed.\<close>

interpretation back_proxy: winding_down back_step "\<lambda>s. bk_cancelled s \<and> \<not> bk_open s"
    "\<lambda>s. (if bk_returned s then 0 else 1) + bk_sessions s" "\<lambda>s. bk_returned s \<and> bk_sessions s = 0"
proof
  fix s :: back_loop assume "bk_cancelled s \<and> \<not> bk_open s" "\<not> (bk_returned s \<and> bk_sessions s = 0)"
  then consider "\<not> bk_returned s" | "0 < bk_sessions s" by blast
  then show "\<exists>s'. back_step s s'" by cases (metis back_fails, metis back_session_ends)
qed auto

interpretation mock_end: winding_down mock_step "\<lambda>s. \<not> mk_open s" "\<lambda>s. (if mk_serving s then 1 else 0) + mk_conns s" mock_waited
proof
  fix s :: mock assume "\<not> mk_open s" "\<not> mock_waited s"
  then consider "mk_serving s" | "0 < mk_conns s" by (auto simp: mock_waited_def)
  then show "\<exists>s'. mock_step s s'" by cases (metis mock_fails, metis mock_conn_ends)
qed auto

text \<open>
  \<open>Close\<close> of the test data centre returns: after at most as many steps as there are connections, and one more for the
  loop, nothing it waits for is left.
\<close>

lemma mock_Close_returns:
  assumes "(mock_step ^^ n) (mock_Close s) s'"
  shows "n \<le> mk_conns s + 1" "\<nexists>s''. mock_step s' s'' \<Longrightarrow> mock_waited s'"
  using mock_end.run_length [OF assms] mock_end.stops_finished [OF relpowp_imp_rtranclp [OF assms]]
  by (auto simp: mock_Close_def split: if_splits)

lemma back_reach_inv: "back_reach s \<Longrightarrow> (\<not> bk_open s \<or> bk_returned s) \<longrightarrow> bk_cancelled s"
  by (induction rule: back_reach.induct) (auto simp: back_start_def)

text \<open>
  The loop of the back proxy ends only when the context is done, and ends then, but unlike \<open>Serve\<close> it does not wait
  for its sessions: it returns with any number of them under way, and \<open>Shutdown\<close>, whose wait group counts none of them,
  returns at once.
\<close>

lemma back_ends_with_context: "back_reach s \<Longrightarrow> bk_returned s \<or> \<not> bk_open s \<Longrightarrow> bk_cancelled s"
  using back_reach_inv by blast

lemma back_reach_sessions: "back_reach (back_start\<lparr>bk_sessions := n\<rparr>)"
proof (induction n)
  case 0
  show ?case using back_init by (simp add: back_start_def)
next
  case (Suc n)
  have step: "back_step (back_start\<lparr>bk_sessions := n\<rparr>) (back_start\<lparr>bk_sessions := Suc n\<rparr>)"
    using back_accepts [of "back_start\<lparr>bk_sessions := n\<rparr>"] by (simp add: back_start_def)
  show ?case by (rule back_next [OF Suc disjI1 [OF step]])
qed

lemma back_leaves_sessions: "\<exists>s. back_reach s \<and> bk_returned s \<and> bk_sessions s = n"
proof -
  let ?s1 = "back_start\<lparr>bk_sessions := n, bk_cancelled := True\<rparr>"
  let ?s2 = "?s1\<lparr>bk_returned := True\<rparr>"
  have "back_end (back_start\<lparr>bk_sessions := n\<rparr>) ?s1"
    using back_cancel [of "back_start\<lparr>bk_sessions := n\<rparr>"] by simp
  then have s1: "back_reach ?s1" by (intro back_next [OF back_reach_sessions] disjI2)
  have "back_step ?s1 ?s2"
    using back_fails [of ?s1] by (simp add: back_start_def)
  then have "back_reach ?s2" by (intro back_next [OF s1] disjI1)
  then show ?thesis by (intro exI [of _ ?s2]) simp
qed

text \<open>An HTTP server reports success only when the context is done, and reports no error once it is being shut down.\<close>

lemma http_success_needs_cancel:
  assumes "http_step\<^sup>*\<^sup>* http_start s"
  shows "(hs_shutdown s \<longrightarrow> hs_cancelled s) \<and> (hs_result s = Some (Ok ()) \<longrightarrow> hs_shutdown s)"
  using assms
proof (induction rule: rtranclp_induct)
  case base
  then show ?case by (simp add: http_start_def)
next
  case (step s s')
  then show ?case by (auto simp: serve_outcome_def split: if_splits)
qed

lemma http_closes_cleanly: "hs_shutdown s \<Longrightarrow> http_step s s' \<Longrightarrow> hs_result s = None \<Longrightarrow> hs_result s' \<in> {None, Some (Ok ())}"
  by (auto simp: serve_outcome_def)

text \<open>The server of the metrics is an HTTP server: its ticks change nothing of that.\<close>

lemma metrics_simulates: "metrics_step s s' \<Longrightarrow> http_step\<^sup>=\<^sup>= (http_part s) (http_part s')"
  by (auto simp: metrics_step.simps http_part_def)

end
