(* ===== verification/TestBed.thy ===== *)
theory TestBed
  imports ProxyProperties
begin

text \<open>
  The two ends that the repository tests the proxy with: the client of \<open>internal/testclient\<close>, which dials in like a
  Telegram client, and the data centre of \<open>internal/testdc\<close>, which decrypts what it gets and sends it back
  encrypted. With the proxy between them they give the round trip from the client's plain text and back. As in
  the other theories \<open>utls\<close>, the HMAC and the key stream are arguments, and a dial is given by its result.
\<close>

section \<open>The data centre\<close>

text \<open>\<open>readAvailable\<close>: everything until the connection ends or is idle.\<close>

function read_available :: "bytes \<Rightarrow> stream \<Rightarrow> bytes \<times> io_error option" where
  "read_available out st =
     (if st_in st = [] then (out, if st_end st = Timeout \<or> st_end st = EOF then None else Some (st_end st))
      else read_available (out @ take 8192 (st_in st)) (st\<lparr>st_in := drop 8192 (st_in st)\<rparr>))"
  by auto
termination by (relation "measure (\<lambda>(out, st). length (st_in st))") auto

declare read_available.simps [simp del]

text \<open>\<open>handleConn\<close>: the plain text for the channel of payloads, if it gets that far, and the answer.\<close>

definition dc_handleConn :: "keystream \<Rightarrow> stream \<Rightarrow> sink \<Rightarrow> (io_error, unit) res \<times> bytes option \<times> sink" where
  "dc_handleConn ks st sk =
     (case read_full 64 st of
        (Inl e, _) \<Rightarrow> (Err e, None, sk)
      | (Inr header, st) \<Rightarrow>
          let dec = newCTR (hdr_key header) (hdr_iv header);
              dec = snd (XORKeyStream ks dec (replicate 64 0));
              reversed = rev header;
              enc = newCTR (hdr_key reversed) (hdr_iv reversed)
          in case read_available [] st of
               (cipherData, err) \<Rightarrow>
                 (case (err, cipherData) of
                    (Some e, []) \<Rightarrow> (Err e, None, sk)
                  | _ \<Rightarrow>
                      let plain = fst (XORKeyStream ks dec cipherData);
                          respCipher = fst (XORKeyStream ks enc plain)
                      in case sink_write respCipher sk of
                           (True, sk) \<Rightarrow> (Ok (), Some plain, sk)
                         | (False, sk) \<Rightarrow> (Err ConnReset, Some plain, sk)))"

section \<open>The client\<close>

datatype client_error = NoDial | NoHello hello_error | HelloWrite | NoHandshake server_handshake_error | NoHeader obf_error
  | ClientWrite write_error | ClientRead io_error | FrameLength nat

record Client =
  tc_Secret :: secret
  tc_DCID :: int
  tc_Policy :: RecordPolicy

definition WriteClientHello ::
  "(string \<Rightarrow> ClientHelloID \<Rightarrow> bytes option) \<Rightarrow> (bytes \<Rightarrow> bytes \<Rightarrow> bytes) \<Rightarrow> int \<Rightarrow> sink \<Rightarrow> secret
     \<Rightarrow> (client_error, client_hello) res \<times> sink" where
  "WriteClientHello utls hmac now sk secret =
     (case BuildClientHello utls hmac now (s_host secret) (s_key secret) HelloChrome_Auto of
        Err e \<Rightarrow> (Err (NoHello e), sk)
      | Panic \<Rightarrow> (Panic, sk)
      | Ok ch \<Rightarrow> (case sink_write (slice_bytes (ch_raw ch)) sk of (True, sk) \<Rightarrow> (Ok ch, sk) | (False, sk) \<Rightarrow> (Err HelloWrite, sk)))"

definition DialFakeTLS ::
  "(string \<Rightarrow> ClientHelloID \<Rightarrow> bytes option) \<Rightarrow> (bytes \<Rightarrow> bytes \<Rightarrow> bytes) \<Rightarrow> int \<Rightarrow> (stream \<times> sink) option \<Rightarrow> secret
     \<Rightarrow> (client_error, stream \<times> sink \<times> client_hello) res" where
  "DialFakeTLS utls hmac now dialed secret =
     (case dialed of
        None \<Rightarrow> Err NoDial
      | Some (st, sk) \<Rightarrow>
          (case WriteClientHello utls hmac now sk secret of
             (Err e, _) \<Rightarrow> Err e
           | (Panic, _) \<Rightarrow> Panic
           | (Ok ch, sk) \<Rightarrow>
               (case ReadServerHandshake st of
                  (Ok _, st) \<Rightarrow> Ok (st, sk, ch)
                | (Err e, _) \<Rightarrow> Err (NoHandshake e)
                | (Panic, _) \<Rightarrow> Panic)))"

definition client_Dial ::
  "prims \<Rightarrow> (string \<Rightarrow> ClientHelloID \<Rightarrow> bytes option) \<Rightarrow> int \<Rightarrow> bytes list \<Rightarrow> nat list \<Rightarrow> (stream \<times> sink) option \<Rightarrow> Client
     \<Rightarrow> (client_error, obf_conn \<times> RecordConn \<times> nat list) res" where
  "client_Dial p utls now ent tape dialed c =
     bind_res (DialFakeTLS utls (pr_hmac p) now dialed (tc_Secret c)) (\<lambda>(st, sk, _).
       let tlsConn = \<lparr>rc_in = st, rc_sink = sk, readBuf = [], Policy = Normalize (tc_Policy c), recordsWritten = 0,
                      bytesWritten = 0, splitDone = False\<rparr>;
           dcID = (if tc_DCID c = 0 then 2 else tc_DCID c)
       in case OutgoingHeaderWithSecret (pr_ks p) (pr_sha p) ent dcID (s_key (tc_Secret c)) of
            Err e \<Rightarrow> Err (NoHeader e)
          | Panic \<Rightarrow> Panic
          | Ok (header, enc, dec) \<Rightarrow>
              (case rec_write header tlsConn tape of
                 (_, Some e, _, _) \<Rightarrow> Err (ClientWrite e)
               | (_, None, tlsConn, tape) \<Rightarrow> Ok (\<lparr>oc_enc = enc, oc_dec = dec\<rparr>, tlsConn, tape)))"

text \<open>\<open>RoundTrip\<close>; \<open>None\<close> when the answer never comes.\<close>

definition RoundTrip ::
  "keystream \<Rightarrow> bytes \<Rightarrow> obf_conn \<times> RecordConn \<times> nat list \<Rightarrow> (client_error, bytes) res option" where
  "RoundTrip ks payload c =
     (case obf_write ks tls_write payload c of
        ((_, Some e), _) \<Rightarrow> Some (Err (ClientWrite e))
      | ((_, None), oc, tlsConn, _) \<Rightarrow>
          (case io_read_full (obf_read ks rec_read) (length payload) [] (oc, tlsConn) of
             None \<Rightarrow> None
           | Some (Inl e, _) \<Rightarrow> Some (Err (ClientRead e))
           | Some (Inr buf, _) \<Rightarrow> Some (Ok buf)))"

section \<open>Frames of the test client\<close>

definition reqPQMulti :: nat where "reqPQMulti = 0xbe7e8ef1"
definition resPQ :: nat where "resPQ = 0x05162463"

text \<open>\<open>sec\<close> and \<open>nsec\<close> are the clock; \<open>nonce\<close> the 16 random bytes.\<close>

definition BuildReqPQMulti :: "bytes option \<Rightarrow> nat \<Rightarrow> nat \<Rightarrow> bytes option" where
  "BuildReqPQMulti nonce sec nsec =
     map_option (\<lambda>nonce.
       let msgID = (sec * 2 ^ 32) mod 2 ^ 64 + nsec div 4 * 4
       in replicate 8 0 @ put_le 8 msgID @ put_le 4 20 @ put_le 4 reqPQMulti @ nonce) nonce"

definition padded :: "bytes \<Rightarrow> bytes" where
  "padded payload = payload @ replicate ((4 - length payload mod 4) mod 4) 0"

definition WritePaddedIntermediate :: "bytes \<Rightarrow> sink \<Rightarrow> bool \<times> sink" where
  "WritePaddedIntermediate payload sk =
     (let payload = padded payload in
      case sink_write (put_le 4 (length payload mod 2 ^ 32)) sk of
        (True, sk) \<Rightarrow> sink_write payload sk
      | (False, sk) \<Rightarrow> (False, sk))"

definition ReadPaddedIntermediate :: "stream \<Rightarrow> (client_error, bytes) res \<times> stream" where
  "ReadPaddedIntermediate st =
     (case read_full 4 st of
        (Inl e, st) \<Rightarrow> (Err (ClientRead e), st)
      | (Inr lenBuf, st) \<Rightarrow>
          let n = le_val lenBuf mod 2 ^ 31 in
          if n = 0 \<or> n > 2 ^ 20 then (Err (FrameLength n), st)
          else (case read_full n st of (Inl e, st) \<Rightarrow> (Err (ClientRead e), st) | (Inr buf, st) \<Rightarrow> (Ok buf, st)))"

definition IsResPQ :: "bytes \<Rightarrow> bool" where
  "IsResPQ frame \<longleftrightarrow> length frame \<ge> 24 \<and> le_val (take 4 (drop 20 frame)) = resPQ"

section \<open>Facts\<close>

lemma read_available_all:
  "st_end st = Timeout \<or> st_end st = EOF \<Longrightarrow> read_available out st = (out @ st_in st, None)"
proof (induction out st rule: read_available.induct)
  case (1 out st)
  then show ?case by (subst read_available.simps) auto
qed

text \<open>The data centre reads what the proxy's outgoing connection encrypted, and answers under its other key stream.\<close>

lemma dc_echoes:
  assumes "OutgoingHeader ks sha ent dcID = Ok (h, enc, dec)" "\<forall>b \<in> set ent. length b = 64" "sk_room sk = None"
    "e = Timeout \<or> e = EOF"
  shows "dc_handleConn ks \<lparr>st_in = h @ fst (XORKeyStream ks enc payload), st_end = e\<rparr> sk =
    (Ok (), Some payload, sk\<lparr>sk_out := sk_out sk @ fst (XORKeyStream ks dec payload)\<rparr>)"
proof (rule outgoingHeader_shape [OF assms(1) [unfolded OutgoingHeader_def] assms(2)])
  fix plain
  assume h: "length h = 64" "enc = (newCTR (direction_key sha h (secret_opt [])) (hdr_iv h))\<lparr>ctr_pos := 64\<rparr>"
    "dec = newCTR (direction_key sha (rev h) (secret_opt [])) (hdr_iv (rev h))"
  then have e: "enc = snd (XORKeyStream ks (newCTR (hdr_key h) (hdr_iv h)) (replicate 64 0))" "dec = newCTR (hdr_key (rev h)) (hdr_iv (rev h))"
    by (simp_all add: direction_key_def secret_opt_def XORKeyStream_def newCTR_def)
  have "read_full 64 \<lparr>st_in = h @ fst (XORKeyStream ks enc payload), st_end = e\<rparr> = (Inr h, \<lparr>st_in = fst (XORKeyStream ks enc payload), st_end = e\<rparr>)"
    using h(1) by (simp add: read_full_def)
  then show ?thesis
    using assms(3,4) e
    by (simp add: dc_handleConn_def read_available_all XORKeyStream_inverse sink_write_def Let_def)
qed

text \<open>The frames of the test client come back with their padding.\<close>

lemma read_frame:
  assumes "0 < length p" "length p \<le> 1048576"
  shows "ReadPaddedIntermediate \<lparr>st_in = put_le 4 (length p mod 2 ^ 32) @ p @ rest, st_end = e\<rparr> = (Ok p, \<lparr>st_in = rest, st_end = e\<rparr>)"
proof -
  have "le_val (put_le 4 (length p mod 2 ^ 32)) mod 2 ^ 31 = length p"
    using assms(2) by (simp add: codec_simps)
  moreover have "read_full 4 \<lparr>st_in = put_le 4 (length p mod 2 ^ 32) @ p @ rest, st_end = e\<rparr> =
      (Inr (put_le 4 (length p mod 2 ^ 32)), \<lparr>st_in = p @ rest, st_end = e\<rparr>)"
    by (simp add: read_full_def codec_simps)
  moreover have "read_full (length p) \<lparr>st_in = p @ rest, st_end = e\<rparr> = (Inr p, \<lparr>st_in = rest, st_end = e\<rparr>)"
    by (simp add: read_full_def)
  ultimately show ?thesis
    using assms by (simp add: ReadPaddedIntermediate_def Let_def)
qed

lemma padded_frame_roundtrip:
  assumes "payload \<noteq> []" "length payload \<le> 1048576" "sk_room sk = None"
  shows "\<exists>wire. WritePaddedIntermediate payload sk = (True, sk\<lparr>sk_out := sk_out sk @ wire\<rparr>)
    \<and> ReadPaddedIntermediate \<lparr>st_in = wire @ rest, st_end = e\<rparr> = (Ok (padded payload), \<lparr>st_in = rest, st_end = e\<rparr>)"
proof -
  obtain q r where n: "length payload = 4 * q + r" "r < 4" by (metis mult_div_mod_eq mod_less_divisor zero_less_numeral)
  have "r = 0 \<or> q < 262144" using assms(2) n by linarith
  then have "length payload + (4 - length payload mod 4) mod 4 \<le> 1048576" using n assms(2) by (cases "r = 0") simp_all
  then have p: "length (padded payload) \<le> 1048576" by (simp add: padded_def)
  have "padded payload \<noteq> []" using assms(1) by (simp add: padded_def)
  then have "0 < length (padded payload)" by simp
  note r = read_frame [OF this p, of rest e]
  let ?wire = "put_le 4 (length (padded payload) mod 2 ^ 32) @ padded payload"
  have "WritePaddedIntermediate payload sk = (True, sk\<lparr>sk_out := sk_out sk @ ?wire\<rparr>)"
    unfolding WritePaddedIntermediate_def Let_def sink_write_def using assms(3) by simp
  with r show ?thesis by (intro exI [of _ ?wire]) (simp only: append_assoc simp_thms)
qed

section \<open>Properties\<close>


text \<open>The same world with another data centre behind every dial.\<close>

definition world_with :: "stream \<Rightarrow> sink \<Rightarrow> world" where
  "world_with dst dsk = example_world\<lparr>w_dial := \<lparr>dw_socks = \<lambda>s. None, dw_dial = \<lambda>p t n a. Inr (dst, dsk)\<rparr>\<rparr>"

lemma world_with_client:
  "honest_client (world_with dst dsk) rt st ch u dcID oc body = honest_client example_world rt st ch u dcID oc body"
  "blocked_at (world_with dst dsk) conn rt = blocked_at example_world conn rt"
  by (simp_all add: world_with_def honest_client_def hello_admitted_def)

lemma world_with_reached:
  assumes "sk_room dsk = None"
  shows "\<exists>h o_dc. (\<forall>dst. dc_reached (world_with dst dsk) (rt_Config example_runtime) 2 dst dsk h o_dc)"
proof -
  obtain h enc dec where "outgoingHeader ks_example (\<lambda>m. take 32 m) [block_example] 2 [] = Ok (h, enc, dec)"
    by (rule example_header)
  moreover have "trim_space [] = []" by code_simp
  ultimately show ?thesis
    using assms by (intro exI [of _ h] exI [of _ "\<lparr>oc_enc = enc, oc_dec = dec\<rparr>"])
      (simp add: dc_reached_def world_with_def example_fields example_world_def sample_config_def IsFront_def ParseAdTag_def
        use_middle_def ResolveAddr_def dcAddresses_def DialContext_def OutgoingHeader_def prims_example_def Let_def)
qed


end
