(* ===== verification/Threads.thy ===== *)
theory Threads
  imports Main
begin

text \<open>
  Threads that share a state. A goroutine is a resumption: it has ended with a result, it waits for ever, or its
  next action on the shared state is to come. An action is what one lock, one atomic counter or one read of a
  field makes indivisible; what a goroutine does with its own data is between two actions. Any number of threads
  run side by side, and a schedule picks which of them acts next.
\<close>

section \<open>Threads and schedules\<close>

datatype (dead 's, 'r) thread = Done 'r | Hang | Act "'s \<Rightarrow> 's" "'s \<Rightarrow> ('s, 'r) thread"

text \<open>A thread that nothing interferes with; \<open>None\<close> when it waits for ever.\<close>

primrec run :: "('s, 'r) thread \<Rightarrow> 's \<Rightarrow> ('r \<times> 's) option" where
  "run (Done r) s = Some (r, s)"
| "run Hang s = None"
| "run (Act f k) s = run (k s) (f s)"

primrec bind_thread :: "('s, 'a) thread \<Rightarrow> ('a \<Rightarrow> ('s, 'b) thread) \<Rightarrow> ('s, 'b) thread" where
  "bind_thread (Done r) g = g r"
| "bind_thread Hang g = Hang"
| "bind_thread (Act f k) g = Act f (\<lambda>s. bind_thread (k s) g)"

definition atomic :: "('s \<Rightarrow> 'a \<times> 's) \<Rightarrow> ('s, 'a) thread" where
  "atomic op = Act (\<lambda>s. snd (op s)) (\<lambda>s. Done (fst (op s)))"

definition reads :: "('s \<Rightarrow> 'a) \<Rightarrow> ('s, 'a) thread" where
  "reads f = atomic (\<lambda>s. (f s, s))"

definition writes :: "('s \<Rightarrow> 's) \<Rightarrow> ('s, unit) thread" where
  "writes f = atomic (\<lambda>s. ((), f s))"

text \<open>A thread on a part of the state.\<close>

primrec on_part :: "('t \<Rightarrow> 's) \<Rightarrow> ('s \<Rightarrow> 't \<Rightarrow> 't) \<Rightarrow> ('s, 'r) thread \<Rightarrow> ('t, 'r) thread" where
  "on_part get put (Done r) = Done r"
| "on_part get put Hang = Hang"
| "on_part get put (Act f k) = Act (\<lambda>t. put (f (get t)) t) (\<lambda>t. on_part get put (k (get t)))"

text \<open>Threads side by side.\<close>

inductive pool_step :: "'s \<times> ('s, 'r) thread list \<Rightarrow> 's \<times> ('s, 'r) thread list \<Rightarrow> bool" where
  acts: "i < length ts \<Longrightarrow> ts ! i = Act f k \<Longrightarrow> pool_step (s, ts) (f s, ts[i := k s])"

inductive_cases pool_stepE: "pool_step (s, ts) p"

section \<open>Running alone\<close>

lemma run_bind: "run (bind_thread t g) s = Option.bind (run t s) (\<lambda>(r, s'). run (g r) s')"
  by (induction t arbitrary: s) simp_all

lemma run_ops [simp]:
  "run (atomic op) s = Some (op s)" "run (reads f) s = Some (f s, s)" "run (writes g) s = Some ((), g s)"
  by (simp_all add: atomic_def reads_def writes_def)

lemma run_on_part:
  assumes "\<And>s u. get (put s u) = s" "\<And>s s' u. put s' (put s u) = put s' u" "\<And>u. put (get u) u = u"
  shows "run (on_part get put t) u = map_option (\<lambda>(r, s). (r, put s u)) (run t (get u))"
  by (induction t arbitrary: u) (simp_all add: assms)

text \<open>A thread may be scheduled to its end before the others go on: its sequential run is one of the schedules.\<close>

lemma alone_is_a_schedule:
  assumes "run t s = Some (r, s')" "i < length ts" "ts ! i = t"
  shows "pool_step\<^sup>*\<^sup>* (s, ts) (s', ts[i := Done r])"
  using assms
proof (induction t arbitrary: s ts)
  case (Done x)
  then show ?case using list_update_id [of ts i] by auto
next
  case (Act f k)
  have "pool_step (s, ts) (f s, ts[i := k s])"
    using acts [OF Act.prems(2,3)] .
  moreover have "pool_step\<^sup>*\<^sup>* (f s, ts[i := k s]) (s', ts[i := k s, i := Done r])"
    using Act.prems by (intro Act.IH [of "k s"]) simp_all
  ultimately show ?case by (simp add: converse_rtranclp_into_rtranclp)
qed simp

text \<open>Every schedule ends: a thread only ever has finitely many actions before it.\<close>

definition next_thread :: "(('s, 'r) thread \<times> ('s, 'r) thread) set" where
  "next_thread = {(k s, Act f k) | f k s. True}"

lemma wf_next_thread: "wf next_thread"
proof (rule wfI_pf)
  fix A :: "('s, 'r) thread set" assume *: "A \<subseteq> next_thread `` A"
  have "t \<notin> A" for t
  proof (induction t)
    case (Act f k)
    show ?case using * Act by (fastforce simp: next_thread_def)
  qed (use * in \<open>auto simp: next_thread_def\<close>)
  then show "A = {}" by blast
qed

lemma schedules_end: "wfP (\<lambda>q p :: 's \<times> ('s, 'r) thread list. pool_step p q)"
proof -
  have "(ts[i := k s], ts) \<in> listrel1 next_thread" if "i < length ts" "ts ! i = Act f k"
    for i f s and k :: "'s \<Rightarrow> ('s, 'r) thread" and ts
    using that list_update_id [of ts i] unfolding listrel1_iff_update
    by (intro exI [of _ "Act f k"] exI [of _ i]) (auto simp: next_thread_def)
  then have "{(q, p). pool_step p q} \<subseteq> inv_image (listrel1 (next_thread :: (('s, 'r) thread \<times> ('s, 'r) thread) set)) snd"
    by (auto elim!: pool_step.cases)
  moreover have "wf (inv_image (listrel1 (next_thread :: (('s, 'r) thread \<times> ('s, 'r) thread) set)) snd)"
    by (intro wf_inv_image) (simp add: wf_next_thread)
  ultimately show ?thesis by (auto simp: wfp_def intro: wf_subset)
qed

lemma stuck_iff: "(\<nexists>q. pool_step (s, ts) q) \<longleftrightarrow> (\<forall>t \<in> set ts. t = Hang \<or> (\<exists>r. t = Done r))"
proof
  assume stuck: "\<nexists>q. pool_step (s, ts) q"
  show "\<forall>t \<in> set ts. t = Hang \<or> (\<exists>r. t = Done r)"
  proof
    fix t assume "t \<in> set ts"
    then obtain i where "i < length ts" "ts ! i = t" by (auto simp: in_set_conv_nth)
    with stuck show "t = Hang \<or> (\<exists>r. t = Done r)" by (cases t) (auto intro: acts)
  qed
next
  assume "\<forall>t \<in> set ts. t = Hang \<or> (\<exists>r. t = Done r)"
  then show "\<nexists>q. pool_step (s, ts) q"
    by (auto elim!: pool_stepE) (metis nth_mem thread.distinct(3,5))
qed

section \<open>Invariants with a note per thread\<close>

text \<open>
  The rule for proving something of all schedules. Each thread carries a note, which the program does not have; \<open>I\<close> relates
  the state to the notes of all threads. A thread obeys \<open>I\<close> with its note if each of its actions, whatever the others
  have made of the state and of their notes, restores \<open>I\<close> with some new note of its own, and its result fits its last note.
\<close>

primrec obeys :: "('s \<Rightarrow> 'g list \<Rightarrow> bool) \<Rightarrow> ('r \<Rightarrow> 'g \<Rightarrow> bool) \<Rightarrow> ('s, 'r) thread \<Rightarrow> 'g \<Rightarrow> bool" where
  "obeys I F (Done r) g = F r g"
| "obeys I F Hang g = True"
| "obeys I F (Act f k) g =
     (\<forall>s gs i. i < length gs \<and> gs ! i = g \<and> I s gs \<longrightarrow> (\<exists>g'. I (f s) (gs[i := g']) \<and> obeys I F (k s) g'))"

lemma obeys_mono: "obeys I F t g \<Longrightarrow> (\<And>r g. F r g \<Longrightarrow> F' r g) \<Longrightarrow> obeys I F' t g"
  by (induction t arbitrary: g) (simp_all, blast)

lemma obeys_bind: "obeys I (\<lambda>r. obeys I F (h r)) t g \<Longrightarrow> obeys I F (bind_thread t h) g"
proof (induction t arbitrary: g)
  case (Act f k)
  then show ?case by simp (metis rangeI)
qed simp_all

lemma obeys_atomic:
  assumes "\<And>s gs i. i < length gs \<Longrightarrow> gs ! i = g \<Longrightarrow> I s gs \<Longrightarrow> \<exists>g'. I (snd (op s)) (gs[i := g']) \<and> F (fst (op s)) g'"
  shows "obeys I F (atomic op) g"
  using assms by (simp add: atomic_def)

text \<open>Threads all of whose actions are related by \<open>R\<close>, and what they leave alone.\<close>

primrec guarantees :: "('s \<Rightarrow> 's \<Rightarrow> bool) \<Rightarrow> ('s, 'r) thread \<Rightarrow> bool" where
  "guarantees R (Done r) = True"
| "guarantees R Hang = True"
| "guarantees R (Act f k) = (\<forall>s. R s (f s) \<and> guarantees R (k s))"

lemma guarantees_bind: "guarantees R t \<Longrightarrow> (\<And>r. guarantees R (g r)) \<Longrightarrow> guarantees R (bind_thread t g)"
  by (induction t) auto

lemma guarantees_atomic: "(\<And>s. R s (snd (op s))) \<Longrightarrow> guarantees R (atomic op)"
  by (simp add: atomic_def)

lemma guarantees_writes: "(\<And>s. R s (f s)) \<Longrightarrow> guarantees R (writes f)"
  by (simp add: writes_def atomic_def)

lemma guarantees_reads: "(\<And>s. R s s) \<Longrightarrow> guarantees R (reads f)"
  by (simp add: reads_def atomic_def)

text \<open>A thread that leaves an invariant and its note alone: what counts are the results that it can have.\<close>

lemma set_thread_bind: "x \<in> set_thread (bind_thread t g) \<Longrightarrow> \<exists>r \<in> set_thread t. x \<in> set_thread (g r)"
proof (induction t)
  case (Act f k)
  then obtain s where "x \<in> set_thread (bind_thread (k s) g)" by auto
  with Act.IH [of "k s"] show ?case by auto
qed auto

lemma obeys_guarantees:
  assumes "guarantees R t" "\<And>s s' gs. I s gs \<Longrightarrow> R s s' \<Longrightarrow> I s' gs" "\<And>r. r \<in> set_thread t \<Longrightarrow> F r g"
  shows "obeys I F t g"
  using assms(1,3)
proof (induction t)
  case (Act f k)
  show ?case
    unfolding obeys.simps
  proof (intro allI impI)
    fix s gs i assume *: "i < length gs \<and> gs ! i = g \<and> I s gs"
    then have "I (f s) (gs[i := g])" using Act.prems assms(2) by auto
    moreover have "obeys I F (k s) g" using Act by auto
    ultimately show "\<exists>g'. I (f s) (gs[i := g']) \<and> obeys I F (k s) g'" by blast
  qed
qed simp_all

definition pool_fits :: "('s \<Rightarrow> 'g list \<Rightarrow> bool) \<Rightarrow> (nat \<Rightarrow> 'r \<Rightarrow> 'g \<Rightarrow> bool) \<Rightarrow> ('s, 'r) thread list \<Rightarrow> 'g list \<Rightarrow> bool" where
  "pool_fits I F ts gs \<longleftrightarrow> length gs = length ts \<and> (\<forall>i < length ts. obeys I (F i) (ts ! i) (gs ! i))"

lemma pool_step_obeys:
  assumes "pool_step (s, ts) (s', ts')" "pool_fits I F ts gs" "I s gs"
  shows "\<exists>gs'. pool_fits I F ts' gs' \<and> I s' gs' \<and> length ts' = length ts"
proof -
  from assms(1) obtain i f k where i: "i < length ts" "ts ! i = Act f k" "s' = f s" "ts' = ts[i := k s]"
    by (auto elim: pool_stepE)
  have len: "length gs = length ts" using assms(2) by (simp add: pool_fits_def)
  have "obeys I (F i) (Act f k) (gs ! i)" using assms(2) i by (metis pool_fits_def)
  then obtain g' where "I (f s) (gs[i := g'])" "obeys I (F i) (k s) g'" using assms(3) i(1) len by (simp only: obeys.simps) metis
  with assms(2) i show ?thesis by (intro exI [of _ "gs[i := g']"]) (simp add: pool_fits_def nth_list_update)
qed

theorem pool_obeys:
  assumes "pool_step\<^sup>*\<^sup>* (s, ts) (s', ts')" "pool_fits I F ts gs" "I s gs"
  shows "\<exists>gs'. pool_fits I F ts' gs' \<and> I s' gs' \<and> length ts' = length ts"
  using assms(1)
proof (induction "(s', ts')" arbitrary: s' ts' rule: rtranclp_induct)
  case base
  with assms(2,3) show ?case by blast
next
  case (step q)
  obtain s1 ts1 where q: "q = (s1, ts1)" by fastforce
  obtain gs1 where gs1: "pool_fits I F ts1 gs1" "I s1 gs1" "length ts1 = length ts" using step(3) [OF q] by blast
  show ?case using pool_step_obeys [OF step(2) [unfolded q] gs1(1,2)] gs1(3) by auto
qed

lemma pool_keeps_relation:
  assumes "pool_step\<^sup>*\<^sup>* (s, ts) (s', ts')" "\<forall>t \<in> set ts. guarantees R t" "\<And>s. R s s" "\<And>s t u. R s t \<Longrightarrow> R t u \<Longrightarrow> R s u"
  shows "R s s' \<and> (\<forall>t \<in> set ts'. guarantees R t)"
  using assms(1)
proof (induction "(s', ts')" arbitrary: s' ts' rule: rtranclp_induct)
  case base
  with assms(2,3) show ?case by blast
next
  case (step q)
  obtain s1 ts1 where q: "q = (s1, ts1)" by fastforce
  from step(2) [unfolded q] obtain i f k where i: "i < length ts1" "ts1 ! i = Act f k" "s' = f s1" "ts' = ts1[i := k s1]"
    by (auto elim: pool_stepE)
  have ih: "R s s1" "\<forall>t \<in> set ts1. guarantees R t" using step(3) [OF q] by auto
  then have "guarantees R (Act f k)" using i by (metis nth_mem)
  with ih i assms(4) show ?case by (auto dest!: set_update_subset_insert [THEN subsetD])
qed

lemma guarantees_on_part:
  assumes "guarantees R t" "\<And>s u. R (get u) s \<Longrightarrow> Q u (put s u)"
  shows "guarantees Q (on_part get put t)"
  using assms(1) by (induction t) (auto intro: assms(2))


section \<open>Moments of a schedule\<close>

text \<open>A thread that acts, before it ends with a result in \<open>P\<close>, at least once in a state that satisfies \<open>Q\<close>, whatever others do.\<close>

primrec passes :: "('s \<Rightarrow> bool) \<Rightarrow> ('r \<Rightarrow> bool) \<Rightarrow> ('s, 'r) thread \<Rightarrow> bool" where
  "passes Q P (Done r) = (\<not> P r)"
| "passes Q P Hang = True"
| "passes Q P (Act f k) = (\<forall>s. Q s \<or> passes Q P (k s))"

lemma passes_bind: "passes Q (\<lambda>r. \<not> passes Q P (g r)) t \<Longrightarrow> passes Q P (bind_thread t g)"
  by (induction t) auto

lemma passes_atomic: "(\<And>s. \<not> Q s \<Longrightarrow> \<not> P (fst (op s))) \<Longrightarrow> passes Q P (atomic op)"
  by (auto simp: atomic_def)

lemma passes_reads: "(\<And>s. \<not> Q s \<Longrightarrow> \<not> P (f s)) \<Longrightarrow> passes Q P (reads f)"
  by (simp add: reads_def passes_atomic)

lemma passes_results: "(\<And>r. r \<in> set_thread t \<Longrightarrow> \<not> P r) \<Longrightarrow> passes Q P t"
  by (induction t) auto

lemma passes_later: "(\<And>r. r \<in> set_thread t \<Longrightarrow> passes Q P (g r)) \<Longrightarrow> passes Q P (bind_thread t g)"
  by (rule passes_bind, rule passes_results) simp

lemma passes_mono: "passes Q P t \<Longrightarrow> (\<And>r. P' r \<Longrightarrow> P r) \<Longrightarrow> passes Q P' t"
  by (induction t) auto

lemma passes_weaken: "passes Q P t \<Longrightarrow> (\<And>s. Q s \<Longrightarrow> Q' s) \<Longrightarrow> passes Q' P t"
  by (induction t) auto

lemma passes_on_part: "passes Q P t \<Longrightarrow> passes (Q \<circ> get) P (on_part get put t)"
  by (induction t) auto

text \<open>Between two points of a schedule there is one whose state satisfies \<open>Q\<close>.\<close>

definition moment :: "('s \<Rightarrow> bool) \<Rightarrow> 's \<times> ('s, 'r) thread list \<Rightarrow> 's \<times> ('s, 'r) thread list \<Rightarrow> bool" where
  "moment Q p q \<longleftrightarrow> (\<exists>s ts. pool_step\<^sup>*\<^sup>* p (s, ts) \<and> pool_step\<^sup>*\<^sup>* (s, ts) q \<and> Q s)"

lemma momentI: "pool_step\<^sup>*\<^sup>* p (s, ts) \<Longrightarrow> pool_step\<^sup>*\<^sup>* (s, ts) q \<Longrightarrow> Q s \<Longrightarrow> moment Q p q"
  by (auto simp: moment_def)

theorem passes_moment:
  assumes "pool_step\<^sup>*\<^sup>* (s, ts) (s', ts')" "i < length ts" "passes Q P (ts ! i)" "ts' ! i = Done r" "P r"
  shows "moment Q (s, ts) (s', ts')"
  using assms
proof (induction "(s, ts)" arbitrary: s ts rule: converse_rtranclp_induct)
  case base
  then show ?case by simp
next
  case (step q)
  from step(1) obtain j f k where j: "j < length ts" "ts ! j = Act f k" "q = (f s, ts[j := k s])" by (auto elim: pool_stepE)
  show ?case
  proof (cases "j = i \<and> Q s")
    case True
    with step(1,2) show ?thesis by (intro momentI [of _ s ts]) auto
  next
    case False
    then have "passes Q P (ts[j := k s] ! i)" using step(5) j by (auto simp: nth_list_update)
    with step(3) [OF j(3)] step(4,6,7) have "moment Q q (s', ts')" by (simp add: j(3))
    with step(1) show ?thesis unfolding moment_def by (meson converse_rtranclp_into_rtranclp)
  qed
qed

text \<open>A thread that has ended has taken its first action at some moment.\<close>

lemma first_action:
  assumes "pool_step\<^sup>*\<^sup>* (s, ts) (s', ts')" "i < length ts" "ts ! i = Act f k" "ts' ! i = Done r"
  shows "\<exists>s1 ts1. pool_step\<^sup>*\<^sup>* (s, ts) (s1, ts1) \<and> pool_step (s1, ts1) (f s1, ts1[i := k s1]) \<and> length ts1 = length ts
    \<and> pool_step\<^sup>*\<^sup>* (f s1, ts1[i := k s1]) (s', ts')"
  using assms
proof (induction "(s, ts)" arbitrary: s ts rule: converse_rtranclp_induct)
  case base
  then show ?case by simp
next
  case (step q)
  from step(1) obtain j f' k' where j: "j < length ts" "ts ! j = Act f' k'" "q = (f' s, ts[j := k' s])" by (auto elim: pool_stepE)
  show ?case
  proof (cases "j = i")
    case True
    then have "f' = f" "k' = k" using j(2) step(5) by simp_all
    with True step(1,2) j(3) show ?thesis by (intro exI [of _ s] exI [of _ ts]) auto
  next
    case False
    then obtain s1 ts1 where "pool_step\<^sup>*\<^sup>* q (s1, ts1)" "pool_step (s1, ts1) (f s1, ts1[i := k s1])" "length ts1 = length ts"
      "pool_step\<^sup>*\<^sup>* (f s1, ts1[i := k s1]) (s', ts')"
      using step(3) [OF j(3)] step(4-6) j(3) by auto
    with step(1) show ?thesis by (meson converse_rtranclp_into_rtranclp)
  qed
qed

lemma moment_earlier: "pool_step\<^sup>*\<^sup>* p q \<Longrightarrow> moment Q q r \<Longrightarrow> moment Q p r"
  unfolding moment_def by (meson rtranclp_trans)

end
