(* ===== verification/ConnThreads.thy ===== *)
theory ConnThreads
  imports Threads ProxyGuarantees
begin

text \<open>
  The threads of the connections, action by action. \<open>ProxyServer\<close> gives what \<open>handleConnection\<close> of \<open>internal/proxy/server.go\<close>
  does to a server that nothing else uses. Here is the same code as a thread: every access to the runtime, the
  blacklist, the replay cache, the users, the rotators, the statistics and the metrics is an action of its own, in the
  order of the source, and other threads may act between any two of them. A configuration is read where the source
  calls \<open>Snapshot\<close>, and kept as long as the source keeps it. Reading a field of the runtime and calling a method of the
  object in it is one action.
\<close>

section \<open>Actions\<close>

type_synonym 'r conn_thread = "(server, 'r) thread"

definition snapshot_th :: "Config conn_thread" where
  "snapshot_th = reads (\<lambda>s. rt_Snapshot (s_rt s))"

definition count_th :: "(Metrics \<Rightarrow> Metrics) \<Rightarrow> unit conn_thread" where
  "count_th f = writes (upd_metrics f)"

definition blocked_op :: "world \<Rightarrow> string option \<Rightarrow> server \<Rightarrow> bool \<times> server" where
  "blocked_op w raddr s =
     (case IsBlocked (w_clock w AtBlock) (ClientIP raddr) (rt_ProbeBlacklist (s_rt s)) of
        (blocked, bl) \<Rightarrow> (blocked, s\<lparr>s_rt := (s_rt s)\<lparr>rt_ProbeBlacklist := bl\<rparr>\<rparr>))"

definition probe_op :: "world \<Rightarrow> string option \<Rightarrow> server \<Rightarrow> bool \<times> server" where
  "probe_op w raddr s =
     (case rt_ProbeBlacklist (s_rt s) of
        None \<Rightarrow> (False, s)
      | Some b \<Rightarrow>
          (case RecordProbe (w_clock w AtProbe) (ClientIP raddr) (Some b) of
             (blocked, bo) \<Rightarrow> (blocked, s\<lparr>s_rt := (s_rt s)\<lparr>rt_ProbeBlacklist := bo\<rparr>\<rparr>)))"

definition replay_op :: "world \<Rightarrow> client_hello \<Rightarrow> server \<Rightarrow> bool \<times> server" where
  "replay_op w ch s =
     (case rt_Replay (s_rt s) of
        None \<Rightarrow> (False, s)
      | Some c \<Rightarrow>
          (case Check (pr_sha (w_prims w)) (w_victim w) (w_clock w AtReplay) (Some ch) c of
             (b, c') \<Rightarrow> (b, s\<lparr>s_rt := (s_rt s)\<lparr>rt_Replay := Some c'\<rparr>\<rparr>)))"

definition hello_op ::
  "world \<Rightarrow> Config \<Rightarrow> client_hello \<Rightarrow> User \<Rightarrow> sink \<Rightarrow> server \<Rightarrow> ((server_hello_error, unit) res \<times> sink) \<times> server" where
  "hello_op w cfg ch matched sk s =
     (case WriteServerHelloWithNoise (pr_hmac (w_prims w)) (w_clock w AtHello) (w_helloTape w) (w_helloRand w)
             (w_padding w) ch (s_key (u_Secret matched)) (cfg_NoiseParams cfg) (rt_ServerHelloRotator (s_rt s)) sk of
        (r, rot, sk') \<Rightarrow> ((r, sk'), s\<lparr>s_rt := (s_rt s)\<lparr>rt_ServerHelloRotator := rot\<rparr>\<rparr>))"

definition fp_failure_op :: "world \<Rightarrow> server \<Rightarrow> (unit, unit) res \<times> server" where
  "fp_failure_op w s =
     (case fr_RecordFailure (w_clock w AtFingerprint) (rt_FingerprintRotator (s_rt s)) of
        Ok fp \<Rightarrow> (Ok (), s\<lparr>s_rt := (s_rt s)\<lparr>rt_FingerprintRotator := fp\<rparr>\<rparr>)
      | Err e \<Rightarrow> (Err e, s)
      | Panic \<Rightarrow> (Panic, s))"

definition sh_failure_op :: "world \<Rightarrow> server \<Rightarrow> (unit, unit) res \<times> server" where
  "sh_failure_op w s =
     (case sh_RecordFailure (w_clock w AtServerHello) (rt_ServerHelloRotator (s_rt s)) of
        Ok sh \<Rightarrow> (Ok (), s\<lparr>s_rt := (s_rt s)\<lparr>rt_ServerHelloRotator := sh\<rparr>\<rparr>)
      | Err e \<Rightarrow> (Err e, s)
      | Panic \<Rightarrow> (Panic, s))"

definition fp_success :: "server \<Rightarrow> server" where
  "fp_success s = s\<lparr>s_rt := (s_rt s)\<lparr>rt_FingerprintRotator := fr_RecordSuccess (rt_FingerprintRotator (s_rt s))\<rparr>\<rparr>"

definition sh_success :: "server \<Rightarrow> server" where
  "sh_success s = s\<lparr>s_rt := (s_rt s)\<lparr>rt_ServerHelloRotator := sh_RecordSuccess (rt_ServerHelloRotator (s_rt s))\<rparr>\<rparr>"

definition mask_op :: "world \<Rightarrow> string \<Rightarrow> server \<Rightarrow> (unit, string) res \<times> server" where
  "mask_op w fallback s =
     (case PickMaskSNI (w_clock w AtSNI) (w_sniTape w) fallback (s_rt s) of (picked, rt) \<Rightarrow> (picked, s\<lparr>s_rt := rt\<rparr>))"

definition acquire_op :: "net_conn \<Rightarrow> server \<Rightarrow> bool \<times> server" where
  "acquire_op conn s =
     (case Acquire (nc_remote conn) (rt_Limiter (s_rt s)) of (ok, lim) \<Rightarrow> (ok, s\<lparr>s_rt := (s_rt s)\<lparr>rt_Limiter := lim\<rparr>\<rparr>))"

text \<open>A place goes back to the limiter with the number \<open>lid\<close>; when the runtime has another one by now, nobody sees it any more.\<close>

definition release_op :: "nat \<Rightarrow> net_conn \<Rightarrow> server \<Rightarrow> server" where
  "release_op lid conn s = (if rt_LimiterID (s_rt s) = lid then conn_done conn s else s)"

section \<open>Handlers\<close>

definition recordProbe_th :: "world \<Rightarrow> string option \<Rightarrow> unit conn_thread" where
  "recordProbe_th w raddr =
     bind_thread (atomic (probe_op w raddr)) (\<lambda>blocked.
       if blocked then count_th (\<lambda>m. m\<lparr>mc_probeBlacklisted := mc_probeBlacklisted m + 1\<rparr>) else Done ())"

definition onHandshakeFailure_th :: "world \<Rightarrow> proxy_error \<Rightarrow> (unit, unit) res conn_thread" where
  "onHandshakeFailure_th w err =
     bind_thread (atomic (fp_failure_op w)) (\<lambda>r. case r of
       Err e \<Rightarrow> Done (Err e)
     | Panic \<Rightarrow> Done Panic
     | Ok _ \<Rightarrow> bind_thread (atomic (sh_failure_op w)) (\<lambda>r. case r of
         Err e \<Rightarrow> Done (Err e)
       | Panic \<Rightarrow> Done Panic
       | Ok _ \<Rightarrow> bind_thread (count_th (RecordTLSReject (reason_text (classifyHandshakeError err)))) (\<lambda>_.
           bind_thread (count_th (\<lambda>m. m\<lparr>mc_fakeTLSRejected := mc_fakeTLSRejected m + 1\<rparr>)) (\<lambda>_. Done (Ok ())))))"

definition onHandshakeSuccess_th :: "unit conn_thread" where
  "onHandshakeSuccess_th = bind_thread (writes fp_success) (\<lambda>_. writes sh_success)"

definition run_session_th ::
  "world \<Rightarrow> 'c reader \<Rightarrow> 'c writer \<Rightarrow> 'c \<Rightarrow> dc_conn \<Rightarrow> string \<Rightarrow> int \<Rightarrow> 'c session conn_thread" where
  "run_session_th w crd cwr c dc user dcID =
     bind_thread (writes (upd_stats (OnConnect user))) (\<lambda>_.
       case pipe_to w crd cwr c dc of
         None \<Rightarrow> Hang
       | Some (up, down, c', dc') \<Rightarrow>
           bind_thread (writes (upd_stats (AddTraffic user (int up) (int down)))) (\<lambda>_.
           bind_thread (count_th (RecordTraffic (int up) (int down))) (\<lambda>_.
           bind_thread (writes (upd_stats (OnDisconnect user))) (\<lambda>_.
             Done \<lparr>se_user = user, se_dc = dcID, se_up = up, se_down = down, se_client = c', se_server = dc'\<rparr>))))"

definition relayMTProto_th ::
  "world \<Rightarrow> 'c reader \<Rightarrow> 'c writer \<Rightarrow> 'c \<Rightarrow> int \<Rightarrow> string \<Rightarrow> client_hello option \<Rightarrow> string
     \<Rightarrow> (proxy_error, 'c session) res conn_thread" where
  "relayMTProto_th w crd cwr c dcID user ch remote =
     bind_thread snapshot_th (\<lambda>cfg.
      if IsFront (cfg_Relay cfg) then
        (case PSKBytes (cfg_Relay cfg) of
           Err e \<Rightarrow> Done (Err (PePSK e))
         | Panic \<Rightarrow> Done Panic
         | Ok psk \<Rightarrow>
             if rel_PeerAddr (cfg_Relay cfg) = [] then Done (Err PeNoPeer)
             else (case DialFront (pr_hmac (w_prims w)) (env_to4 (w_mp w)) (w_front w) (w_frontRand w) psk dcID remote of
                     Err e \<Rightarrow> Done (Err (PeRelayFront e (w_errText w)))
                   | Panic \<Rightarrow> Done Panic
                   | Ok relayConn \<Rightarrow>
                       bind_thread (run_session_th w crd cwr c (TunnelConn relayConn) user dcID) (\<lambda>se. Done (Ok se))))
      else
        (case dialDC w cfg dcID remote of
           None \<Rightarrow> Hang
         | Some (Err e) \<Rightarrow> Done (Err e)
         | Some Panic \<Rightarrow> Done Panic
         | Some (Ok dcConn) \<Rightarrow>
             (case (case ch of None \<Rightarrow> Ok [] | Some ch \<Rightarrow> JA3 (pr_md5 (w_prims w)) (ch_raw ch)) of
                (Ok _ :: (unit, string) res) \<Rightarrow>
                  bind_thread (run_session_th w crd cwr c dcConn user dcID) (\<lambda>se. Done (Ok se))
              | _ \<Rightarrow> bind_thread (writes (upd_stats (OnConnect user))) (\<lambda>_. Done Panic))))"

text \<open>\<open>handleRejectedTLS\<close>\<close>

definition handleRejectedTLS_th ::
  "world \<Rightarrow> ReadRecorder \<Rightarrow> sink \<Rightarrow> client_hello option \<Rightarrow> (unit, ending) res conn_thread" where
  "handleRejectedTLS_th w rec sk ch =
     bind_thread snapshot_th (\<lambda>cfg.
     bind_thread (reads (\<lambda>s. MaskHost (rt_Users (s_rt s)))) (\<lambda>fallback.
     bind_thread (atomic (mask_op w fallback)) (\<lambda>picked.
       case bind_res picked (\<lambda>host.
              case ch of None \<Rightarrow> Ok host
              | Some ch \<Rightarrow> bind_res (SNI ch) (\<lambda>sni. Ok (if sni \<noteq> [] then sni else host))) of
         Ok host \<Rightarrow>
           let prefix = Snapshot rec in
           if FrontingAction cfg = ''splice'' then
             bind_thread (count_th (\<lambda>m. m\<lparr>mc_frontingConns := mc_frontingConns m + 1\<rparr>)) (\<lambda>_.
               Done (Ok (Spliced (rec, sk) prefix host (FrontingPort cfg))))
           else if FrontingAction cfg = ''fallback'' then
             bind_thread (count_th (\<lambda>m. m\<lparr>mc_probeRequests := mc_probeRequests m + 1\<rparr>)) (\<lambda>_.
               Done (Ok (FallbackServed (rr_stream rec) sk (fallbackOpts cfg))))
           else (case RedirectToDomain host sk of (ok, sk') \<Rightarrow> Done (Ok (Redirected ok sk')))
       | Err e \<Rightarrow> Done (Err e)
       | Panic \<Rightarrow> Done Panic)))"

text \<open>The closure in \<open>handleFakeTLSPath\<close>, in parts; the recorder, the sink and the hello are its own.\<close>

definition tls_greet_th ::
  "world \<Rightarrow> Config \<Rightarrow> client_hello \<Rightarrow> sink \<Rightarrow> ((proxy_error, User) res \<times> sink) conn_thread" where
  "tls_greet_th w cfg ch sk =
     (case CheckClientHelloPolicy (Some ch) (tls_ClientHelloPolicy (cfg_TLS cfg)) of
        Err reason \<Rightarrow> Done (Err (PePolicy reason), sk)
      | Panic \<Rightarrow> Done (Panic, sk)
      | Ok _ \<Rightarrow>
          (case (if tls_ClientHelloPolicy (cfg_TLS cfg) = ''log'' then HasECH (Some ch) else Ok False) of
             (Ok _ :: (unit, bool) res) \<Rightarrow>
               bind_thread (reads (\<lambda>s. MatchClientHello (w_prims w) (w_clock w AtMatch) ch (rt_Users (s_rt s)))) (\<lambda>m.
                 case m of
                   Err e \<Rightarrow> Done (Err (PeMatch e), sk)
                 | Panic \<Rightarrow> Done (Panic, sk)
                 | Ok matched \<Rightarrow>
                     bind_thread (atomic (hello_op w cfg ch matched sk)) (\<lambda>(r, sk').
                       case r of
                         Err e \<Rightarrow> Done (Err (PeServerHello e), sk')
                       | Panic \<Rightarrow> Done (Panic, sk')
                       | Ok _ \<Rightarrow> Done (Ok matched, sk')))
           | _ \<Rightarrow> Done (Panic, sk)))"

definition tls_session_th ::
  "world \<Rightarrow> Config \<Rightarrow> client_hello \<Rightarrow> User \<Rightarrow> string \<Rightarrow> ReadRecorder \<Rightarrow> sink
     \<Rightarrow> ((proxy_error, tls_client session) res \<times> ReadRecorder) conn_thread" where
  "tls_session_th w cfg ch matched remote rec sk =
     (let p = w_prims w;
          tlsConn = \<lparr>rc_in = rr_stream rec, rc_sink = sk, readBuf = [], Policy = cfg_RecordPolicy cfg,
                     recordsWritten = 0, bytesWritten = 0, splitDone = False\<rparr>
      in case Handshake (pr_ks p) (pr_sha p) rec_read tlsConn (Some (s_key (u_Secret matched))) of
           None \<Rightarrow> Hang
         | Some (r, tlsConn) \<Rightarrow>
             let rec = rr_advance rec (rc_in tlsConn) in
             (case r of
                Err e \<Rightarrow> Done (Err (PeObf e), rec)
              | Panic \<Rightarrow> Done (Panic, rec)
              | Ok (obf, dcID) \<Rightarrow>
                  bind_thread (relayMTProto_th w (obf_read (pr_ks p) rec_rd) (obf_write (pr_ks p) rec_wr) (obf, tlsConn, w_recordTape w)
                      dcID (u_Name matched) (Some ch) remote) (\<lambda>r. Done (r, rec))))"

definition admitted_th ::
  "world \<Rightarrow> string \<Rightarrow> client_hello \<Rightarrow> ReadRecorder \<Rightarrow> sink
     \<Rightarrow> ((proxy_error, tls_client session) res \<times> ReadRecorder \<times> sink \<times> client_hello option) conn_thread" where
  "admitted_th w remote ch rec sk =
     bind_thread snapshot_th (\<lambda>cfg.
     bind_thread (tls_greet_th w cfg ch sk) (\<lambda>(r, sk').
       case r of
         Err e \<Rightarrow> Done (Err e, rec, sk', Some ch)
       | Panic \<Rightarrow> Done (Panic, rec, sk', Some ch)
       | Ok matched \<Rightarrow>
           bind_thread (tls_session_th w cfg ch matched remote rec sk') (\<lambda>(r, rec'). Done (r, rec', sk', Some ch))))"

definition tls_closure_th ::
  "world \<Rightarrow> string \<Rightarrow> ReadRecorder \<Rightarrow> sink
     \<Rightarrow> ((proxy_error, tls_client session) res \<times> ReadRecorder \<times> sink \<times> client_hello option) conn_thread" where
  "tls_closure_th w remote rec sk =
     (case parseClientHello (w_spare w) (rr_stream rec) of
        (r, st) \<Rightarrow>
          let rec = rr_advance rec st in
          (case r of
             Err e \<Rightarrow> Done (Err (PeHello e), rec, sk, None)
           | Panic \<Rightarrow> Done (Panic, rec, sk, None)
           | Ok ch \<Rightarrow>
               bind_thread (atomic (replay_op w ch)) (\<lambda>replayed.
                 if replayed
                 then bind_thread (count_th (\<lambda>m. m\<lparr>mc_replayAttacks := mc_replayAttacks m + 1\<rparr>)) (\<lambda>_.
                        Done (Err PeReplay, rec, sk, Some ch))
                 else admitted_th w remote ch rec sk)))"

definition handleFakeTLSPath_th ::
  "world \<Rightarrow> ReadRecorder \<Rightarrow> sink \<Rightarrow> string option \<Rightarrow> (unit, ending) res conn_thread" where
  "handleFakeTLSPath_th w rec sk raddr =
     bind_thread (tls_closure_th w (remoteAddr raddr) rec sk) (\<lambda>(r, rec, sk, hello).
       case r of
         Ok se \<Rightarrow> bind_thread onHandshakeSuccess_th (\<lambda>_. Done (Ok (RelayedTLS se)))
       | Panic \<Rightarrow> Done Panic
       | Err err \<Rightarrow>
           bind_thread (onHandshakeFailure_th w err) (\<lambda>r. case r of
             Err e \<Rightarrow> Done (Err e)
           | Panic \<Rightarrow> Done Panic
           | Ok _ \<Rightarrow>
               bind_thread (if \<not> isIOTimeoutErr err then recordProbe_th w raddr else Done ()) (\<lambda>_.
                 handleRejectedTLS_th w rec sk hello)))"

definition handleSecure_th ::
  "world \<Rightarrow> stream \<Rightarrow> sink \<Rightarrow> bytes \<Rightarrow> string \<Rightarrow> (proxy_error, tcp_client session) res conn_thread" where
  "handleSecure_th w st sk header remote =
     (let p = w_prims w in
      bind_thread (reads (\<lambda>s. MatchSecureHeader p header (rt_Users (s_rt s)))) (\<lambda>m. case m of
        Err e \<Rightarrow> Done (Err (PeMatch e))
      | Panic \<Rightarrow> Done Panic
      | Ok (matched, dcID) \<Rightarrow>
          (case ConnFromHeader (pr_ks p) (pr_sha p) header (s_key (u_Secret matched)) of
             Err e \<Rightarrow> Done (Err (PeObf e))
           | Panic \<Rightarrow> Done Panic
           | Ok (obf, _) \<Rightarrow>
               relayMTProto_th w (obf_read (pr_ks p) (tcp_read (w_sched w))) (obf_write (pr_ks p) tcp_write) (obf, st, sk)
                 dcID (u_Name matched) None remote)))"

definition serve_stranger_th ::
  "world \<Rightarrow> Config \<Rightarrow> byte \<Rightarrow> stream \<Rightarrow> sink \<Rightarrow> string option \<Rightarrow> (unit, ending) res conn_thread" where
  "serve_stranger_th w cfg first st sk raddr =
     bind_thread (recordProbe_th w raddr) (\<lambda>_.
     bind_thread (count_th (\<lambda>m. m\<lparr>mc_probeRequests := mc_probeRequests m + 1\<rparr>)) (\<lambda>_.
       Done (Ok (FallbackServed (st\<lparr>st_in := first # st_in st\<rparr>) sk (fallbackOpts cfg)))))"

definition handleConnection_th :: "world \<Rightarrow> net_conn \<Rightarrow> sink \<Rightarrow> (unit, ending) res conn_thread" where
  "handleConnection_th w conn sk =
     bind_thread snapshot_th (\<lambda>cfg.
     bind_thread (atomic (blocked_op w (nc_remote conn))) (\<lambda>blocked.
       if blocked
       then bind_thread (count_th (\<lambda>m. m\<lparr>mc_probeBlacklisted := mc_probeBlacklisted m + 1\<rparr>)) (\<lambda>_. Done (Ok Dropped))
       else (case conn_read (w_sched w) 1 (nc_in conn) of
               (Inl e, _) \<Rightarrow> Done (Ok Dropped)
             | (Inr bs, st) \<Rightarrow>
                 let first = hd bs; raddr = nc_remote conn in
                 if pro_FakeTLS (cfg_Protocols cfg) \<and> IsHandshakeRecord first
                 then handleFakeTLSPath_th w (Prepend [first] \<lparr>rr_conn = st, rr_capture = [], rr_pending = []\<rparr>) sk raddr
                 else if pro_Secure (cfg_Protocols cfg)
                 then (case read_full 63 st of
                         (Inl _, st) \<Rightarrow> serve_stranger_th w cfg first st sk raddr
                       | (Inr rest, st) \<Rightarrow>
                           bind_thread (handleSecure_th w st sk (first # rest) (remoteAddr raddr)) (\<lambda>r.
                             case r of
                               Ok se \<Rightarrow> Done (Ok (RelayedSecure se))
                             | Err _ \<Rightarrow> serve_stranger_th w cfg first st sk raddr
                             | Panic \<Rightarrow> Done Panic))
                 else serve_stranger_th w cfg first st sk raddr)))"

text \<open>
  The goroutine of a connection. Its first act is to defer \<open>Release\<close> on the limiter that the runtime has then, which is
  not always the one that has let the connection in.
\<close>

definition goroutine_th :: "world \<Rightarrow> net_conn \<Rightarrow> sink \<Rightarrow> (unit, ending) res option conn_thread" where
  "goroutine_th w conn sk =
     bind_thread (reads (\<lambda>s. rt_LimiterID (s_rt s))) (\<lambda>lid.
     bind_thread (handleConnection_th w conn sk) (\<lambda>r.
     bind_thread (writes (release_op lid conn)) (\<lambda>_. Done (Some r))))"

text \<open>
  The whole life of a connection: one turn of the accept loop, and its goroutine. A connection that is not handled has
  no result.
\<close>

definition connection_th :: "world \<Rightarrow> net_conn \<Rightarrow> sink \<Rightarrow> (unit, ending) res option conn_thread" where
  "connection_th w conn sk =
     bind_thread snapshot_th (\<lambda>cfg. case accept_conn cfg conn of
       Err e \<Rightarrow> Done None
     | Panic \<Rightarrow> Done (Some Panic)
     | Ok conn \<Rightarrow>
         bind_thread (atomic (acquire_op conn)) (\<lambda>ok.
           if ok then goroutine_th w conn sk else Done None))"

definition connections :: "(world \<times> net_conn \<times> sink) list \<Rightarrow> (unit, ending) res option conn_thread list" where
  "connections arrivals = map (\<lambda>(w, conn, sk). connection_th w conn sk) arrivals"

section \<open>A connection alone\<close>

named_theorems th_runs \<open>threads that nothing interferes with\<close>

lemma run_actions [th_runs]:
  "run snapshot_th s = Some (rt_Snapshot (s_rt s), s)" "run (count_th f) s = Some ((), upd_metrics f s)"
  by (simp_all add: snapshot_th_def count_th_def)

lemma run_recordProbe [th_runs]: "run (recordProbe_th w raddr) s = Some ((), recordProbe w raddr s)"
  by (simp add: recordProbe_th_def recordProbe_def probe_op_def run_bind th_runs Let_def split: option.splits prod.splits)

lemma run_onHandshakeSuccess [th_runs]: "run onHandshakeSuccess_th s = Some ((), onHandshakeSuccess s)"
  by (simp add: onHandshakeSuccess_th_def onHandshakeSuccess_def fp_success_def sh_success_def run_bind)

text \<open>A panic leaves the state where it struck, which \<open>ProxyServer\<close> does not describe.\<close>

lemma run_onHandshakeFailure:
  "\<exists>s'. run (onHandshakeFailure_th w err) s =
     Some (case onHandshakeFailure w err s of Ok s1 \<Rightarrow> (Ok (), s1) | Err e \<Rightarrow> (Err e, s') | Panic \<Rightarrow> (Panic, s'))"
  by (auto simp: onHandshakeFailure_th_def onHandshakeFailure_def fp_failure_op_def sh_failure_op_def recordTLSReject_def
      RecordTLSReject_def upd_metrics_def run_bind th_runs option.map_comp comp_def split: res.splits)

lemma run_run_session [th_runs]: "run (run_session_th w crd cwr c dc user dcID) s = run_session w crd cwr c dc user dcID s"
  by (simp add: run_session_th_def run_session_def run_bind th_runs Let_def split: option.splits)

lemma run_relayMTProto [th_runs]:
  "run (relayMTProto_th w crd cwr c dcID user ch remote) s = relayMTProto w crd cwr c dcID user ch remote s"
  by (simp add: relayMTProto_th_def relayMTProto_def run_bind th_runs Let_def split: res.splits option.splits)

lemma run_handleRejectedTLS [th_runs]: "run (handleRejectedTLS_th w rec sk ch) s = Some (handleRejectedTLS w rec sk ch s)"
  by (simp add: handleRejectedTLS_th_def handleRejectedTLS_def mask_op_def run_bind th_runs Let_def split: res.splits prod.splits)

lemma run_tls_greet [th_runs]:
  "run (tls_greet_th w (rt_Snapshot (s_rt (ts_server t))) ch (ts_sink t)) (ts_server t) =
     Some (case tls_greet w ch t of (r, t') \<Rightarrow> ((r, ts_sink t'), ts_server t'))"
  by (simp add: tls_greet_th_def tls_greet_def hello_op_def run_bind th_runs Let_def split: res.splits prod.splits)

lemma tls_greet_hello: "tls_greet w ch t = (r, t') \<Longrightarrow> ts_rec t' = ts_rec t \<and> ts_hello t' = ts_hello t \<and> rt_Config (s_rt (ts_server t')) = rt_Config (s_rt (ts_server t))"
  by (auto simp: tls_greet_def Let_def split: res.splits prod.splits if_splits)

lemma run_tls_session [th_runs]:
  "run (tls_session_th w (rt_Snapshot (s_rt (ts_server t))) ch matched remote (ts_rec t) (ts_sink t)) (ts_server t) =
     Option.bind (tls_session w ch matched remote t) (\<lambda>(r, t'). Some ((r, ts_rec t'), ts_server t'))"
  by (auto simp: tls_session_th_def tls_session_def run_bind th_runs Let_def case_prod_beta intro!: Option.bind_cong split: res.splits option.splits)

lemma tls_session_local:
  assumes "tls_session w ch matched remote t = Some (r, t')"
  shows "ts_sink t' = ts_sink t \<and> ts_hello t' = ts_hello t"
proof -
  have "ts_sink t' = ts_sink t \<and> ts_hello t' = ts_hello t"
    if "(case q of Err e \<Rightarrow> Some (Err (PeObf e), t\<lparr>ts_rec := rc\<rparr>) | Panic \<Rightarrow> Some (Panic, t\<lparr>ts_rec := rc\<rparr>)
         | Ok (obf, dcID) \<Rightarrow> Option.bind (g obf dcID) (\<lambda>(r, s). Some (r, t\<lparr>ts_rec := rc, ts_server := s\<rparr>))) = Some (r, t')"
    for q :: "(obf_error, obf_conn \<times> int) res" and rc g
    using that by (cases q) (auto simp: bind_eq_Some_conv)
  with assms show ?thesis by (fastforce simp: tls_session_def Let_def bind_eq_Some_conv)
qed

lemma no_replay_cache: "rt_Replay (s_rt s) = None \<Longrightarrow> s\<lparr>s_rt := (s_rt s)\<lparr>rt_Replay := None\<rparr>\<rparr> = s"
  by (metis (no_types) Runtime.surjective Runtime.update_convs(5) server.surjective server.update_convs(1))

lemma run_tls_closure [th_runs]:
  "run (tls_closure_th w remote rec sk) s =
     Option.bind (tls_closure w remote \<lparr>ts_rec = rec, ts_sink = sk, ts_hello = None, ts_server = s\<rparr>)
       (\<lambda>(r, t). Some ((r, ts_rec t, ts_sink t, ts_hello t), ts_server t))"
proof -
  obtain r st where p: "parseClientHello (w_spare w) (rr_stream rec) = (r, st)" by fastforce
  show ?thesis
  proof (cases r)
    case (Ok ch)
    let ?rec = "rr_advance rec st"
    obtain b s1 where b: "replay_op w ch s = (b, s1)" by fastforce
    let ?t1 = "\<lparr>ts_rec = ?rec, ts_sink = sk, ts_hello = Some ch, ts_server = s1\<rparr>"
    have clo: "tls_closure w remote \<lparr>ts_rec = rec, ts_sink = sk, ts_hello = None, ts_server = s\<rparr> =
      (if b then Some (Err PeReplay, ?t1\<lparr>ts_server := upd_metrics (\<lambda>m. m\<lparr>mc_replayAttacks := mc_replayAttacks m + 1\<rparr>) s1\<rparr>)
       else (case tls_greet w ch ?t1 of (Err e, t) \<Rightarrow> Some (Err e, t) | (Panic, t) \<Rightarrow> Some (Panic, t)
             | (Ok matched, t) \<Rightarrow> tls_session w ch matched remote t))"
      using b by (auto simp: tls_closure_def p Ok replay_op_def no_replay_cache Let_def split: option.splits prod.splits)
    obtain q t2 where g: "tls_greet w ch ?t1 = (q, t2)" by fastforce
    note local = tls_greet_hello [OF g]
    have greet: "run (tls_greet_th w (rt_Snapshot (s_rt s1)) ch sk) s1 = Some ((q, ts_sink t2), ts_server t2)"
      using run_tls_greet [of w ?t1 ch] g by simp
    have session: "run (tls_session_th w (rt_Snapshot (s_rt s1)) ch matched remote ?rec (ts_sink t2)) (ts_server t2) =
      Option.bind (tls_session w ch matched remote t2) (\<lambda>(r, t'). Some ((r, ts_rec t'), ts_server t'))" for matched
      using run_tls_session [of w t2 ch matched remote] local by (simp add: rt_Snapshot_def)
    show ?thesis
      using local tls_session_local
      by (cases q) (auto simp: tls_closure_th_def admitted_th_def p Ok b clo run_bind th_runs g greet session Let_def intro!: Option.bind_cong)
  qed (simp_all add: tls_closure_th_def tls_closure_def p)
qed

text \<open>The same outcome, and the same state unless the program has panicked.\<close>

definition agree :: "(('e, 'a) res \<times> 's) option \<Rightarrow> (('e, 'a) res \<times> 's) option \<Rightarrow> bool" where
  "agree x y \<longleftrightarrow> map_option fst x = map_option fst y \<and> (\<forall>a. map_option fst x = Some (Ok a) \<longrightarrow> x = y)"

lemma agree_refl [simp]: "agree x x"
  by (simp add: agree_def)

lemma run_handleFakeTLSPath: "agree (run (handleFakeTLSPath_th w rec sk raddr) s) (handleFakeTLSPath w rec sk raddr s)"
proof (cases "tls_closure w (remoteAddr raddr) \<lparr>ts_rec = rec, ts_sink = sk, ts_hello = None, ts_server = s\<rparr>")
  case None
  then show ?thesis by (simp add: handleFakeTLSPath_th_def handleFakeTLSPath_def run_bind th_runs)
next
  case (Some p)
  obtain r t where p: "p = (r, t)" by fastforce
  show ?thesis
  proof (cases r)
    case (Err err)
    obtain s' where "run (onHandshakeFailure_th w err) (ts_server t) =
        Some (case onHandshakeFailure w err (ts_server t) of Ok s1 \<Rightarrow> (Ok (), s1) | Err e \<Rightarrow> (Err e, s') | Panic \<Rightarrow> (Panic, s'))"
      using run_onHandshakeFailure by blast
    note facts = this Some p Err handleFakeTLSPath_th_def handleFakeTLSPath_def run_bind th_runs
    show ?thesis
    proof (cases "onHandshakeFailure w err (ts_server t) :: (unit, server) res")
      case (Ok s1)
      then show ?thesis by (simp add: facts Let_def)
    qed (simp_all add: facts agree_def)
  qed (use Some p in \<open>simp_all add: handleFakeTLSPath_th_def handleFakeTLSPath_def run_bind th_runs\<close>)
qed

lemma run_handleSecure [th_runs]: "run (handleSecure_th w st sk header remote) s = handleSecure w st sk header remote s"
  by (simp add: handleSecure_th_def handleSecure_def run_bind th_runs Let_def split: res.splits prod.splits)

lemma recordProbe_Config: "rt_Config (s_rt (recordProbe w raddr s)) = rt_Config (s_rt s)"
  by (simp add: recordProbe_def upd_metrics_def Let_def split: option.splits prod.splits)

lemma run_serve_stranger [th_runs]:
  "run (serve_stranger_th w (rt_Config (s_rt s)) first st sk raddr) s = Some (serve_stranger w first st sk raddr s)"
  by (simp add: serve_stranger_th_def serve_stranger_def rt_Snapshot_def run_bind th_runs Let_def)

lemma blocked_op_Config: "blocked_op w raddr s = (b, s') \<Longrightarrow> rt_Config (s_rt s') = rt_Config (s_rt s)"
  by (auto simp: blocked_op_def split: prod.splits)

lemma run_stranger_later [th_runs]:
  "rt_Config (s_rt s') = cfg \<Longrightarrow> run (serve_stranger_th w cfg first st sk raddr) s' = Some (serve_stranger w first st sk raddr s')"
  using run_serve_stranger by blast

lemma run_handleConnection: "agree (run (handleConnection_th w conn sk) s) (handleConnection w conn sk s)"
proof -
  obtain b bl where bl: "IsBlocked (w_clock w AtBlock) (ClientIP (nc_remote conn)) (rt_ProbeBlacklist (s_rt s)) = (b, bl)" by fastforce
  let ?s = "s\<lparr>s_rt := (s_rt s)\<lparr>rt_ProbeBlacklist := bl\<rparr>\<rparr>"
  have op: "blocked_op w (nc_remote conn) s = (b, ?s)" by (simp add: blocked_op_def bl)
  have secure: "Option.bind (handleSecure w st sk header remote ?s) (\<lambda>(r, s'). run (case r of Ok se \<Rightarrow> Done (Ok (RelayedSecure se))
        | Err _ \<Rightarrow> serve_stranger_th w (rt_Config (s_rt s)) first st sk raddr | Panic \<Rightarrow> Done Panic) s') =
      Option.bind (handleSecure w st sk header remote ?s) (\<lambda>(r, s'). case r of Ok se \<Rightarrow> Some (Ok (RelayedSecure se), s')
        | Err _ \<Rightarrow> Some (serve_stranger w first st sk raddr s') | Panic \<Rightarrow> Some (Panic, s'))" for st header remote first raddr
  proof (cases "handleSecure w st sk header remote ?s")
    case (Some p)
    then obtain r s' where p: "handleSecure w st sk header remote ?s = Some (r, s')" by (cases p) simp
    then have "rt_Config (s_rt s') = rt_Config (s_rt s)" using handleSecure_facts(1) [OF p] by (simp add: rt_evolves_def)
    with p show ?thesis by (cases r) (simp_all add: th_runs)
  qed simp
  show ?thesis
    by (auto simp: handleConnection_th_def handleConnection_def bl op run_bind th_runs rt_Snapshot_def secure Let_def run_handleFakeTLSPath
        split: sum.splits prod.splits)
qed

end
