(* ===== verification/ConnNotes.thy ===== *)
theory ConnNotes
  imports ConnThreads ProxyProperties
begin

text \<open>
  What a connection does to the shared state, whatever runs beside it. Each connection has a note: the place that it
  holds in the limiter, what it has told the statistics, and the hello with which it has passed the replay cache.
  The locale \<open>connection_notes\<close> says what an invariant over the state and the notes of all connections must stand:
  an action that touches none of these three, and one action of each kind. In it is proved, once, that every thread
  \<open>connection_th\<close> keeps such an invariant, and what the note of a connection is at its end.
\<close>

section \<open>Quiet actions\<close>

text \<open>An action that leaves the configuration, the users, the limiter, the statistics and the replay cache alone.\<close>

definition quiet :: "server \<Rightarrow> server \<Rightarrow> bool" where
  "quiet s s' \<longleftrightarrow> rt_evolves (s_rt s) (s_rt s') \<and> rt_Stats (s_rt s') = rt_Stats (s_rt s) \<and> rt_Replay (s_rt s') = rt_Replay (s_rt s)"

lemma quiet_refl [simp]: "quiet s s" "quiet s (upd_metrics f s)"
  by (simp_all add: quiet_def)

named_theorems quiet_intros \<open>threads all of whose actions are quiet\<close>

lemma quiet_basic [quiet_intros]:
  "guarantees quiet (Done r)" "guarantees quiet snapshot_th" "guarantees quiet (reads h)" "guarantees quiet (count_th f)"
  by (simp_all add: snapshot_th_def count_th_def guarantees_reads guarantees_writes)

lemma bl_op_quiet:
  assumes "bl_sound (rt_ProbeBlacklist (s_rt s)) \<Longrightarrow> bl_sound bl"
  shows "quiet s (s\<lparr>s_rt := (s_rt s)\<lparr>rt_ProbeBlacklist := bl\<rparr>\<rparr>)"
  using rt_evolves_upd(6) [OF assms] by (simp add: quiet_def)

lemma blocked_quiet [quiet_intros]: "guarantees quiet (atomic (blocked_op w raddr))"
proof (rule guarantees_atomic)
  fix s :: server
  have "bl_sound (rt_ProbeBlacklist (s_rt s)) \<Longrightarrow> bl_sound (snd (IsBlocked (w_clock w AtBlock) (ClientIP raddr) (rt_ProbeBlacklist (s_rt s))))"
    using bl_step_sound [of "rt_ProbeBlacklist (s_rt s)" "IsBlockedAt (w_clock w AtBlock) (ClientIP raddr)"] by simp
  then show "quiet s (snd (blocked_op w raddr s))"
    by (auto simp: blocked_op_def intro!: bl_op_quiet split: prod.splits)
qed

lemma probe_quiet [quiet_intros]: "guarantees quiet (recordProbe_th w raddr)"
proof -
  have "quiet s (snd (probe_op w raddr s))" for s
    using bl_step_sound [of "rt_ProbeBlacklist (s_rt s)" "ProbeAt (w_clock w AtProbe) (ClientIP raddr)"]
    by (auto simp: probe_op_def intro!: bl_op_quiet split: option.splits prod.splits)
  then show ?thesis
    by (auto simp: recordProbe_th_def intro!: guarantees_bind guarantees_atomic quiet_intros)
qed

lemma hello_quiet [quiet_intros]: "guarantees quiet (atomic (hello_op w cfg ch matched sk))"
proof (rule guarantees_atomic)
  fix s :: server
  let ?W = "WriteServerHelloWithNoise (pr_hmac (w_prims w)) (w_clock w AtHello) (w_helloTape w) (w_helloRand w)
      (w_padding w) ch (s_key (u_Secret matched)) (cfg_NoiseParams cfg) (rt_ServerHelloRotator (s_rt s)) sk"
  obtain r rot sk' where W: "?W = (r, rot, sk')" by (metis prod_cases3)
  have "rt_evolves (s_rt s) ((s_rt s)\<lparr>rt_ServerHelloRotator := rot\<rparr>)"
    using WriteServerHello_rotator [OF W] by (intro rt_evolves_upd(3)) (auto simp: sh_sound_def)
  then show "quiet s (snd (hello_op w cfg ch matched sk s))" by (simp add: hello_op_def W quiet_def)
qed

lemma mask_quiet [quiet_intros]: "guarantees quiet (atomic (mask_op w fallback))"
proof (rule guarantees_atomic)
  fix s :: server
  obtain h rt where p: "PickMaskSNI (w_clock w AtSNI) (w_sniTape w) fallback (s_rt s) = (h :: (unit, string) res, rt)" by fastforce
  have "rt_Replay rt = rt_Replay (s_rt s)"
    using p by (auto simp: PickMaskSNI_def split: option.splits prod.splits)
  with PickMaskSNI_facts [OF p] show "quiet s (snd (mask_op w fallback s))" by (simp add: mask_op_def p quiet_def)
qed

lemma failure_quiet [quiet_intros]: "guarantees quiet (onHandshakeFailure_th w err)"
proof -
  have "quiet s (snd (fp_failure_op w s))" for s
    using rt_evolves_upd(4) [OF rotator_feedback_sound(1)] by (auto simp: fp_failure_op_def quiet_def split: res.splits)
  moreover have "quiet s (snd (sh_failure_op w s))" for s
    using rt_evolves_upd(3) [OF rotator_feedback_sound(2)] by (auto simp: sh_failure_op_def quiet_def split: res.splits)
  ultimately show ?thesis
    by (auto simp: onHandshakeFailure_th_def intro!: guarantees_bind guarantees_atomic quiet_intros split: res.splits)
qed

lemma success_quiet [quiet_intros]: "guarantees quiet onHandshakeSuccess_th"
  unfolding onHandshakeSuccess_th_def
  by (auto simp: quiet_def fp_success_def sh_success_def intro!: guarantees_bind guarantees_writes
      rt_evolves_upd(3,4) rotator_feedback_sound(3,4))

lemma rejected_quiet [quiet_intros]: "guarantees quiet (handleRejectedTLS_th w rec sk ch)"
  unfolding handleRejectedTLS_th_def Let_def
  by (auto intro!: guarantees_bind quiet_intros split: res.splits prod.splits)

lemma greet_quiet [quiet_intros]: "guarantees quiet (tls_greet_th w cfg ch sk)"
  unfolding tls_greet_th_def by (auto intro!: guarantees_bind quiet_intros split: res.splits)

lemma stranger_quiet [quiet_intros]: "guarantees quiet (serve_stranger_th w cfg first st sk raddr)"
  unfolding serve_stranger_th_def by (auto intro!: guarantees_bind quiet_intros)

section \<open>Notes\<close>

record conn_note =
  n_place :: "string option option"
  n_events :: "stats_event list"
  n_hello :: "client_hello option"

definition blank :: conn_note where
  "blank = \<lparr>n_place = None, n_events = [], n_hello = None\<rparr>"

definition session_events :: "'c session \<Rightarrow> stats_event list" where
  "session_events se = [Connected (se_user se), Traffic (se_user se) (int (se_up se)) (int (se_down se)), Disconnected (se_user se)]"

fun ending_events :: "ending \<Rightarrow> stats_event list" where
  "ending_events (RelayedTLS se) = session_events se"
| "ending_events (RelayedSecure se) = session_events se"
| "ending_events _ = []"

text \<open>The hello that a stream opens with.\<close>

definition opens_with :: "world \<Rightarrow> stream \<Rightarrow> client_hello \<Rightarrow> bool" where
  "opens_with w st ch \<longleftrightarrow> fst (parseClientHello (w_spare w) st) = Ok ch"

text \<open>How the result of a handler fits the note of its connection, which holds the place \<open>pl\<close>.\<close>

definition fits :: "world \<Rightarrow> stream \<Rightarrow> string option option \<Rightarrow> (unit, ending) res \<Rightarrow> conn_note \<Rightarrow> bool" where
  "fits w st pl r g \<longleftrightarrow> n_place g = pl \<and> (\<forall>e. r = Ok e \<longrightarrow> n_events g = ending_events e
     \<and> (\<forall>se. e = RelayedTLS se \<longrightarrow> (\<exists>ch. opens_with w st ch \<and> n_hello g = Some ch)))"

definition fits_life :: "(Config \<Rightarrow> bool) \<Rightarrow> world \<Rightarrow> net_conn \<Rightarrow> (unit, ending) res option \<Rightarrow> conn_note \<Rightarrow> bool" where
  "fits_life C w conn r g \<longleftrightarrow> (r = None \<longrightarrow> g = blank) \<and>
     (\<forall>q. r = Some q \<longrightarrow> q = Panic \<or> (\<exists>cfg conn'. C cfg \<and> accept_conn cfg conn = Ok conn' \<and> fits w (nc_in conn') None q g))"

lemma rejected_results: "r \<in> set_thread (handleRejectedTLS_th w rec sk ch) \<Longrightarrow> r = Ok e \<Longrightarrow> \<not> is_session e"
  by (auto simp: handleRejectedTLS_th_def Let_def dest!: set_thread_bind split: res.splits if_splits prod.splits)

lemma stranger_results: "r \<in> set_thread (serve_stranger_th w cfg first st sk raddr) \<Longrightarrow> \<exists>a b c. r = Ok (FallbackServed a b c)"
  by (auto simp: serve_stranger_th_def dest!: set_thread_bind)

locale connection_notes =
  fixes I :: "server \<Rightarrow> conn_note list \<Rightarrow> bool" and W :: "world \<Rightarrow> bool" and C :: "Config \<Rightarrow> bool" and K :: "nat \<Rightarrow> bool"
  assumes config_known: "I s gs \<Longrightarrow> C (rt_Config (s_rt s))"
    and limiter_known: "I s gs \<Longrightarrow> K (rt_LimiterID (s_rt s))"
    and quiet_kept: "I s gs \<Longrightarrow> quiet s s' \<Longrightarrow> I s' gs"
    and event_kept: "I s gs \<Longrightarrow> i < length gs \<Longrightarrow>
      I (upd_stats (stats_step ev) s) (gs[i := (gs ! i)\<lparr>n_events := n_events (gs ! i) @ [ev]\<rparr>])"
    and passed_kept: "I s gs \<Longrightarrow> i < length gs \<Longrightarrow> W w \<Longrightarrow> n_hello (gs ! i) = None \<Longrightarrow> replay_op w ch s = (False, s') \<Longrightarrow>
      I s' (gs[i := (gs ! i)\<lparr>n_hello := Some ch\<rparr>])"
    and caught_kept: "I s gs \<Longrightarrow> W w \<Longrightarrow> replay_op w ch s = (True, s') \<Longrightarrow> I s' gs"
    and acquired_kept: "I s gs \<Longrightarrow> i < length gs \<Longrightarrow> n_place (gs ! i) = None \<Longrightarrow> acquire_op conn s = (True, s') \<Longrightarrow>
      I s' (gs[i := (gs ! i)\<lparr>n_place := Some (nc_remote conn)\<rparr>])"
    and refused_kept: "I s gs \<Longrightarrow> acquire_op conn s = (False, s') \<Longrightarrow> I s' gs"
    and released_kept: "I s gs \<Longrightarrow> i < length gs \<Longrightarrow> n_place (gs ! i) = Some (nc_remote conn) \<Longrightarrow> K lid \<Longrightarrow>
      I (release_op lid conn s) (gs[i := (gs ! i)\<lparr>n_place := None\<rparr>])"
begin

lemma obeys_quiet: "guarantees quiet t \<Longrightarrow> (\<And>r. r \<in> set_thread t \<Longrightarrow> F r g) \<Longrightarrow> obeys I F t g"
  by (rule obeys_guarantees [where R = quiet]) (auto intro: quiet_kept)

lemma obeys_event: "F () (g\<lparr>n_events := n_events g @ [ev]\<rparr>) \<Longrightarrow> obeys I F (writes (upd_stats (stats_step ev))) g"
  unfolding writes_def
  by (rule obeys_atomic, rule exI [of _ "g\<lparr>n_events := n_events g @ [ev]\<rparr>"]) (use event_kept in fastforce)

lemma obeys_session:
  assumes "\<And>se. F se (g\<lparr>n_events := n_events g @ session_events se\<rparr>)"
  shows "obeys I F (run_session_th w crd cwr c dc user dcID) g"
proof -
  have st: "OnConnect user = stats_step (Connected user)" "OnDisconnect user = stats_step (Disconnected user)"
    "AddTraffic user up down = stats_step (Traffic user up down)" for up down
    by (simp_all add: fun_eq_iff)
  show ?thesis
    unfolding run_session_th_def st
    using assms [of "\<lparr>se_user = user, se_dc = dcID, se_up = _, se_down = _, se_client = _, se_server = _\<rparr>"]
    by (auto intro!: obeys_bind obeys_event obeys_quiet [OF quiet_basic(4)] simp: session_events_def split: option.splits)
qed

lemma obeys_relay:
  assumes "\<And>se. F (Ok se) (g\<lparr>n_events := n_events g @ session_events se\<rparr>)" "\<And>e. F (Err e) g" "\<And>evs. F Panic (g\<lparr>n_events := evs\<rparr>)"
  shows "obeys I F (relayMTProto_th w crd cwr c dcID user ch remote) g"
proof -
  have panic: "F Panic g" using assms(3) [of "n_events g"] by simp
  have st: "OnConnect user = stats_step (Connected user)" by (simp add: fun_eq_iff)
  show ?thesis
    unfolding relayMTProto_th_def st
    by (rule obeys_bind, rule obeys_quiet [OF quiet_basic(2)])
      (auto intro!: obeys_bind obeys_session obeys_event assms panic split: res.splits option.splits)
qed

lemma obeys_replay_op:
  assumes "W w" "n_hello g = None" "F True g" "F False (g\<lparr>n_hello := Some ch\<rparr>)"
  shows "obeys I F (atomic (replay_op w ch)) g"
proof (rule obeys_atomic)
  fix s gs i assume g: "i < length gs" "gs ! i = g" "I s gs"
  obtain b s' where r: "replay_op w ch s = (b, s')" by fastforce
  show "\<exists>g'. I (snd (replay_op w ch s)) (gs[i := g']) \<and> F (fst (replay_op w ch s)) g'"
  proof (cases b)
    case True
    then have "I s' (gs[i := g])" using caught_kept [OF g(3) assms(1)] r g(2) by auto
    with True assms(3) r show ?thesis by auto
  next
    case False
    then have "I s' (gs[i := g\<lparr>n_hello := Some ch\<rparr>])" using passed_kept [OF g(3,1) assms(1)] r g(2) assms(2) by auto
    with False assms(4) r show ?thesis by auto
  qed
qed

lemma obeys_tls_session:
  assumes "\<And>se rec. F (Ok se, rec) (g\<lparr>n_events := n_events g @ session_events se\<rparr>)" "\<And>e rec. F (Err e, rec) g"
    "\<And>evs rec. F (Panic, rec) (g\<lparr>n_events := evs\<rparr>)"
  shows "obeys I F (tls_session_th w cfg ch matched remote rec sk) g"
proof -
  have panic: "F (Panic, rec) g" for rec using assms(3) [of rec "n_events g"] by simp
  show ?thesis
    unfolding tls_session_th_def Let_def
    by (auto intro!: obeys_bind obeys_relay assms panic split: res.splits option.splits)
qed

lemma obeys_tls_closure:
  assumes "W w" "n_hello g = None" "n_events g = []"
  shows "obeys I (\<lambda>(r, rec, sk, hello) g'. n_place g' = n_place g \<and> (\<forall>e. r = Err e \<longrightarrow> n_events g' = [])
      \<and> (\<forall>se. r = Ok se \<longrightarrow> n_events g' = session_events se \<and> (\<exists>ch. opens_with w (rr_stream rec0) ch \<and> n_hello g' = Some ch)))
    (tls_closure_th w remote rec0 sk) g"
proof -
  obtain q st where p: "parseClientHello (w_spare w) (rr_stream rec0) = (q, st)" by fastforce
  show ?thesis
  proof (cases q)
    case (Ok ch)
    then have "opens_with w (rr_stream rec0) ch" by (simp add: opens_with_def p)
    then show ?thesis
      unfolding tls_closure_th_def admitted_th_def p Ok Let_def prod.case res.case
      by (intro obeys_bind obeys_replay_op assms(1,2))
        (auto intro!: obeys_bind obeys_tls_session obeys_quiet [OF quiet_basic(4)] obeys_quiet [OF quiet_basic(2)]
          obeys_quiet [OF greet_quiet] simp: assms(3) split: res.splits)
  qed (simp_all add: tls_closure_th_def p assms(3))
qed

lemma obeys_handleFakeTLSPath:
  assumes "W w" "n_hello g = None" "n_events g = []"
  shows "obeys I (fits w (rr_stream rec) (n_place g)) (handleFakeTLSPath_th w rec sk raddr) g"
  unfolding handleFakeTLSPath_th_def
proof (rule obeys_bind, rule obeys_mono [OF obeys_tls_closure [OF assms]], goal_cases)
  case (1 r g')
  obtain q rec' sk' hello where r: "r = (q, rec', sk', hello)" by (metis prod_cases4)
  show ?case
  proof (cases q)
    case (Err err)
    have "fits w (rr_stream rec) (n_place g) r' g'" if "r' \<in> set_thread (handleRejectedTLS_th w rec' sk' hello)" for r'
      using rejected_results [OF that] 1 r Err by (cases r') (auto simp: fits_def elim: is_session.elims)
    then show ?thesis
      using 1 r Err
      by (auto intro!: obeys_bind obeys_quiet [OF failure_quiet] obeys_quiet [OF probe_quiet] obeys_quiet [OF rejected_quiet]
          simp: fits_def split: res.splits)
  qed (use 1 r in \<open>auto intro!: obeys_bind obeys_quiet [OF success_quiet] simp: fits_def\<close>)
qed

lemma obeys_handleSecure:
  assumes "n_events g = []"
  shows "obeys I (\<lambda>r g'. n_place g' = n_place g \<and> (\<forall>e. r = Err e \<longrightarrow> n_events g' = []) \<and> (\<forall>se. r = Ok se \<longrightarrow> n_events g' = session_events se))
    (handleSecure_th w st sk header remote) g"
  unfolding handleSecure_th_def Let_def
  by (auto intro!: obeys_bind obeys_relay obeys_quiet [OF quiet_basic(3)] simp: assms split: res.splits)

lemma obeys_handleConnection:
  assumes "W w" "n_hello g = None" "n_events g = []"
  shows "obeys I (fits w (nc_in conn) (n_place g)) (handleConnection_th w conn sk) g"
proof -
  have stranger: "obeys I (fits w (nc_in conn) (n_place g)) (serve_stranger_th w cfg first st sk raddr) g'"
    if "n_place g' = n_place g" "n_events g' = []" for cfg first st raddr g'
    using that by (intro obeys_quiet [OF stranger_quiet]) (auto simp: fits_def dest!: stranger_results)
  have tls: "obeys I (fits w (nc_in conn) (n_place g)) (handleFakeTLSPath_th w (Prepend [hd bs] \<lparr>rr_conn = st, rr_capture = [], rr_pending = []\<rparr>) sk raddr) g"
    if "conn_read (w_sched w) 1 (nc_in conn) = (Inr bs, st)" for bs st raddr
  proof -
    have "rr_stream (Prepend [hd bs] \<lparr>rr_conn = st, rr_capture = [], rr_pending = []\<rparr>) = nc_in conn"
      using that by (cases "st_in (nc_in conn)") (auto simp: conn_read_def rr_stream_def Prepend_def Let_def)
    with obeys_handleFakeTLSPath [OF assms, of "Prepend [hd bs] \<lparr>rr_conn = st, rr_capture = [], rr_pending = []\<rparr>"] show ?thesis by simp
  qed
  have secure: "obeys I (fits w (nc_in conn) (n_place g)) (bind_thread (handleSecure_th w st sk header remote) (\<lambda>r. case r of
      Ok se \<Rightarrow> Done (Ok (RelayedSecure se)) | Err _ \<Rightarrow> serve_stranger_th w cfg first st sk raddr | Panic \<Rightarrow> Done Panic)) g"
    for st header remote cfg first raddr
    by (rule obeys_bind, rule obeys_mono [OF obeys_handleSecure [OF assms(3)]]) (auto simp: fits_def stranger split: res.splits)
  have dropped: "fits w (nc_in conn) (n_place g) (Ok Dropped) g" by (simp add: fits_def assms(3))
  show ?thesis
    unfolding handleConnection_th_def Let_def
    by (auto intro!: obeys_bind obeys_quiet [OF quiet_basic(2)] obeys_quiet [OF blocked_quiet] obeys_quiet [OF quiet_basic(4)] dropped tls secure stranger
        simp: assms(3) split: sum.splits prod.splits)
qed

lemma obeys_goroutine:
  assumes "W w" "C cfg" "accept_conn cfg conn = Ok conn'"
  shows "obeys I (fits_life C w conn) (goroutine_th w conn' sk) (blank\<lparr>n_place := Some (nc_remote conn')\<rparr>)"
proof -
  let ?g = "blank\<lparr>n_place := Some (nc_remote conn')\<rparr>"
  have "obeys I (fits_life C w conn) (bind_thread (handleConnection_th w conn' sk) (\<lambda>r. bind_thread (writes (release_op lid conn')) (\<lambda>_. Done (Some r)))) ?g"
    if "K lid" for lid
  proof (rule obeys_bind, rule obeys_mono [OF obeys_handleConnection [OF assms(1)]])
    fix r g' assume f: "fits w (nc_in conn') (n_place ?g) r g'"
    have "fits w (nc_in conn') None r (g'\<lparr>n_place := None\<rparr>)" using f by (auto simp: fits_def)
    then have "fits_life C w conn (Some r) (g'\<lparr>n_place := None\<rparr>)" using assms(2,3) unfolding fits_life_def by blast
    moreover have "n_place g' = Some (nc_remote conn')" using f by (simp add: fits_def)
    ultimately show "obeys I (fits_life C w conn) (bind_thread (writes (release_op lid conn')) (\<lambda>_. Done (Some r))) g'"
      unfolding writes_def using released_kept [OF _ _ _ that] by (intro obeys_bind obeys_atomic) (metis fst_conv snd_conv obeys.simps(1))
  qed (simp_all add: blank_def)
  then show ?thesis
    unfolding goroutine_th_def reads_def
    by (intro obeys_bind obeys_atomic exI [of _ ?g]) (metis fst_conv snd_conv limiter_known list_update_id)
qed

lemma obeys_admitted:
  assumes "W w" "C cfg" "accept_conn cfg conn = Ok conn'"
  shows "obeys I (fits_life C w conn) (bind_thread (atomic (acquire_op conn')) (\<lambda>ok. if ok then goroutine_th w conn' sk else Done None)) blank"
proof (rule obeys_bind, rule obeys_atomic)
  fix s gs i assume g: "i < length gs" "gs ! i = blank" "I s gs"
  obtain ok s' where ac: "acquire_op conn' s = (ok, s')" by fastforce
  let ?g = "blank\<lparr>n_place := Some (nc_remote conn')\<rparr>"
  show "\<exists>g'. I (snd (acquire_op conn' s)) (gs[i := g']) \<and> obeys I (fits_life C w conn) (if fst (acquire_op conn' s)
      then goroutine_th w conn' sk else Done None) g'"
  proof (cases ok)
    case True
    then have "I s' (gs[i := ?g])" using acquired_kept [OF g(3,1)] ac g(2) by (simp add: blank_def)
    with True ac obeys_goroutine [OF assms] show ?thesis by auto
  next
    case False
    then have "I s' (gs[i := blank])" using refused_kept [OF g(3)] ac g(2) list_update_id [of gs i] by auto
    with False ac show ?thesis by (intro exI [of _ blank]) (simp add: fits_life_def)
  qed
qed

theorem connection_obeys:
  assumes "W w"
  shows "obeys I (fits_life C w conn) (connection_th w conn sk) blank"
proof -
  have "fits_life C w conn None blank" "fits_life C w conn (Some Panic) blank" by (simp_all add: fits_life_def)
  then have next_obeys: "obeys I (fits_life C w conn) (case accept_conn cfg conn of Err e \<Rightarrow> Done None | Panic \<Rightarrow> Done (Some Panic)
      | Ok conn' \<Rightarrow> bind_thread (atomic (acquire_op conn')) (\<lambda>ok. if ok then goroutine_th w conn' sk else Done None)) blank"
    if "C cfg" for cfg
    using that obeys_admitted [OF assms that] by (auto split: res.splits)
  show ?thesis
    unfolding connection_th_def snapshot_th_def reads_def
  proof (rule obeys_bind, rule obeys_atomic)
    fix s gs i assume g: "i < length gs" "gs ! i = blank" "I s gs"
    then show "\<exists>g'. I (snd (rt_Snapshot (s_rt s), s)) (gs[i := g']) \<and> obeys I (fits_life C w conn)
        (case accept_conn (fst (rt_Snapshot (s_rt s), s)) conn of Err e \<Rightarrow> Done None | Panic \<Rightarrow> Done (Some Panic)
          | Ok conn' \<Rightarrow> bind_thread (atomic (acquire_op conn')) (\<lambda>ok. if ok then goroutine_th w conn' sk else Done None)) g'"
      using next_obeys [OF config_known [OF g(3)]] list_update_id [of gs i]
      by (intro exI [of _ blank]) (simp add: rt_Snapshot_def)
  qed
qed

text \<open>The invariant of any number of connections, under every schedule.\<close>

theorem connections_obey:
  assumes "pool_step\<^sup>*\<^sup>* (s0, connections arrivals) (s, ts)" "I s0 (replicate (length arrivals) blank)"
    and "\<forall>a \<in> set arrivals. W (fst a)"
  shows "\<exists>gs. length gs = length arrivals \<and> length ts = length arrivals \<and> I s gs
    \<and> (\<forall>i < length arrivals. \<forall>r. ts ! i = Done r \<longrightarrow> fits_life C (fst (arrivals ! i)) (fst (snd (arrivals ! i))) r (gs ! i))"
proof -
  let ?F = "\<lambda>i. fits_life C (fst (arrivals ! i)) (fst (snd (arrivals ! i)))"
  have "pool_fits I ?F (connections arrivals) (replicate (length arrivals) blank)"
    using assms(3) by (simp add: pool_fits_def connections_def split_beta connection_obeys)
  from pool_obeys [OF assms(1) this assms(2)] obtain gs where gs: "pool_fits I ?F ts gs" "I s gs" "length ts = length arrivals"
    by (auto simp: connections_def)
  have "?F i r (gs ! i)" if "i < length arrivals" "ts ! i = Done r" for i r
  proof -
    have "obeys I (?F i) (ts ! i) (gs ! i)" using gs(1,3) that(1) by (simp add: pool_fits_def)
    with that show ?thesis by simp
  qed
  with gs show ?thesis by (intro exI [of _ gs]) (simp add: pool_fits_def)
qed

end

section \<open>Relations that every action keeps\<close>

text \<open>The same without notes: a relation between the states before and after an action.\<close>

locale connection_actions =
  fixes R :: "server \<Rightarrow> server \<Rightarrow> bool"
  assumes quiet_R: "quiet s s' \<Longrightarrow> R s s'"
    and event_R: "R s (upd_stats (stats_step ev) s)"
    and replay_R: "R s (snd (replay_op w ch s))"
    and acquire_R: "R s (snd (acquire_op conn s))"
    and release_R: "R s (release_op lid conn s)"
begin

lemma quiet_guarantees: "guarantees quiet t \<Longrightarrow> guarantees R t"
  by (induction t) (auto intro: quiet_R)

lemmas basic = quiet_intros [THEN quiet_guarantees]

lemma event_guarantees:
  "guarantees R (writes (upd_stats (OnConnect u)))" "guarantees R (writes (upd_stats (OnDisconnect u)))"
  "guarantees R (writes (upd_stats (AddTraffic u up down)))"
  using event_R [of _ "Connected u"] event_R [of _ "Disconnected u"] event_R [of _ "Traffic u up down"]
  by (auto intro!: guarantees_writes simp: upd_stats_def)

lemma session_guarantees: "guarantees R (run_session_th w crd cwr c dc user dcID)"
  unfolding run_session_th_def by (auto intro!: guarantees_bind event_guarantees basic split: option.splits)

lemma relay_guarantees: "guarantees R (relayMTProto_th w crd cwr c dcID user ch remote)"
  unfolding relayMTProto_th_def
  by (auto intro!: guarantees_bind event_guarantees session_guarantees basic split: res.splits option.splits)

lemma closure_guarantees: "guarantees R (tls_closure_th w remote rec sk)"
  unfolding tls_closure_th_def admitted_th_def tls_session_th_def Let_def
  by (auto intro!: guarantees_bind guarantees_atomic replay_R relay_guarantees basic split: res.splits option.splits prod.splits)

lemma handler_guarantees: "guarantees R (handleConnection_th w conn sk)"
  unfolding handleConnection_th_def handleFakeTLSPath_th_def handleSecure_th_def Let_def
  by (auto intro!: guarantees_bind closure_guarantees relay_guarantees basic split: res.splits sum.splits prod.splits)

theorem connection_guarantees: "guarantees R (connection_th w conn sk)"
  unfolding connection_th_def goroutine_th_def
  by (auto intro!: guarantees_bind guarantees_atomic guarantees_writes acquire_R release_R handler_guarantees basic split: res.splits)

end

end
