(* ===== verification/ReloadThreads.thy ===== *)
theory ReloadThreads
  imports ConnThreads AdminProperties
begin

text \<open>
  \<open>Runtime.Reload\<close> of \<open>internal/runtime/runtime.go\<close>, action by action. It holds no lock over the whole: the users, the two
  white lists, the configuration, the limiter, the replay cache and the four parts of \<open>applySecurityFeatures\<close> change
  one after the other, and connections run in between.
\<close>

section \<open>Actions\<close>

definition reload_users_op :: "Manager \<Rightarrow> Runtime \<Rightarrow> (user_error, unit) res \<times> Runtime" where
  "reload_users_op newMgr r = (case Reload (Users newMgr) (rt_Users r) of (x, m) \<Rightarrow> (x, r\<lparr>rt_Users := m\<rparr>))"

definition new_limiter :: "int \<Rightarrow> Runtime \<Rightarrow> Runtime" where
  "new_limiter mx r = r\<lparr>rt_Limiter := Some (NewConnLimiter mx), rt_LimiterID := rt_LimiterID r + 1\<rparr>"

text \<open>The assignments of \<open>applySecurityFeatures\<close>.\<close>

definition new_fingerprints :: "int \<Rightarrow> Config \<Rightarrow> Runtime \<Rightarrow> Runtime" where
  "new_fingerprints now cfg r = r\<lparr>rt_FingerprintRotator := rt_FingerprintRotator (applySecurityFeatures now cfg r)\<rparr>"

definition new_server_hellos :: "int \<Rightarrow> Config \<Rightarrow> Runtime \<Rightarrow> Runtime" where
  "new_server_hellos now cfg r = r\<lparr>rt_ServerHelloRotator := rt_ServerHelloRotator (applySecurityFeatures now cfg r)\<rparr>"

definition new_snis :: "int \<Rightarrow> Config \<Rightarrow> Runtime \<Rightarrow> Runtime" where
  "new_snis now cfg r = r\<lparr>rt_SNIRotator := rt_SNIRotator (applySecurityFeatures now cfg r)\<rparr>"

definition new_blacklist :: "int \<Rightarrow> Config \<Rightarrow> Runtime \<Rightarrow> Runtime" where
  "new_blacklist now cfg r = r\<lparr>rt_ProbeBlacklist := rt_ProbeBlacklist (applySecurityFeatures now cfg r)\<rparr>"

section \<open>The thread\<close>

definition features_th :: "int \<Rightarrow> Config \<Rightarrow> (Runtime, unit) thread" where
  "features_th now cfg =
     bind_thread (writes (new_fingerprints now cfg)) (\<lambda>_.
     bind_thread (writes (new_server_hellos now cfg)) (\<lambda>_.
     bind_thread (writes (new_snis now cfg)) (\<lambda>_.
     writes (new_blacklist now cfg))))"

definition reload_th :: "viper \<Rightarrow> int \<Rightarrow> (Runtime, (runtime_error, unit) res) thread" where
  "reload_th vp now =
     bind_thread (reads rt_ConfigPath) (\<lambda>path. case Load vp path of
       Err e \<Rightarrow> Done (Err (ReloadConfig e))
     | Panic \<Rightarrow> Done Panic
     | Ok (cfg, newMgr) \<Rightarrow>
         bind_thread (atomic (reload_users_op newMgr)) (\<lambda>x. case x of
           Err e \<Rightarrow> Done (Err (ReloadUsers e))
         | Panic \<Rightarrow> Done Panic
         | Ok _ \<Rightarrow>
             bind_thread (writes (\<lambda>r. r\<lparr>rt_Users := SetAllowedJA3 (tls_AllowedJA3 (cfg_TLS cfg)) (rt_Users r)\<rparr>)) (\<lambda>_.
             bind_thread (writes (\<lambda>r. r\<lparr>rt_Users := SetAllowedJA4 (tls_AllowedJA4 (cfg_TLS cfg)) (rt_Users r)\<rparr>)) (\<lambda>_.
             bind_thread (writes (UpdateConfig cfg)) (\<lambda>_.
             bind_thread (writes (new_limiter (sec_MaxConnectionsPerIP (cfg_Security cfg)))) (\<lambda>_.
             bind_thread (writes (\<lambda>r. r\<lparr>rt_Replay := Some (NewReplayCache (AntireplayMaxEntries cfg) two_minutes)\<rparr>)) (\<lambda>_.
             bind_thread (features_th now cfg) (\<lambda>_. Done (Ok ())))))))))"

section \<open>Facts\<close>

lemma run_features: "run (features_th now cfg) r = Some ((), applySecurityFeatures now cfg r)"
  by (simp add: features_th_def run_bind new_fingerprints_def new_server_hellos_def new_snis_def new_blacklist_def
      applySecurityFeatures_def Let_def)

text \<open>When nothing interferes, the thread is \<open>rt_Reload\<close>.\<close>

lemma run_reload: "run (reload_th vp now) r = Some (rt_Reload vp now r)"
  by (simp add: reload_th_def rt_Reload_def reload_users_op_def new_limiter_def SetFingerprints_def UpdateConfig_def run_bind run_features Let_def
      split: res.splits prod.splits)

text \<open>Every one of its actions keeps the runtime sound, whatever others have made of it in the meantime.\<close>

lemma keeps_parts:
  assumes "rt_usable r \<Longrightarrow> rt_Replay r' \<noteq> None \<and> rt_Limiter r' \<noteq> None \<and> features_ok r'"
    and "m_users (rt_Users r') = m_users (rt_Users r)" "m_maskHost (rt_Users r') = m_maskHost (rt_Users r)"
  shows "keeps r r'"
  using assms rt_inv_usable [of r] by (auto simp: keeps_def rt_usable_def rt_inv_def users_ok_def)

lemma reload_users_keeps:
  assumes "Load vp path = Ok (cfg, mgr)"
  shows "keeps r (snd (reload_users_op mgr r))"
proof -
  have ok: "users_ok mgr" using Load_ok(1) [OF assms] .
  then have "filter u_Enabled (m_users mgr) \<noteq> []" by (simp add: users_ok_def)
  then obtain m' where m': "replaceUsers (m_users mgr) (rt_Users r) = (Ok (), m')" "m_users m' = m_users mgr" "m_maskHost m' \<noteq> []"
    by (rule replaceUsers_ok)
  then have "snd (reload_users_op mgr r) = r\<lparr>rt_Users := m'\<rparr>" by (simp add: reload_users_op_def Reload_def Users_def)
  with m'(2,3) ok show ?thesis
    by (auto simp: keeps_def rt_usable_def rt_inv_def users_ok_def features_ok_def)
qed

lemma features_parts_keep:
  "keeps r (new_fingerprints now cfg r)" "keeps r (new_server_hellos now cfg r)" "keeps r (new_snis now cfg r)" "keeps r (new_blacklist now cfg r)"
  using apply_features(1) [of now cfg r]
  by (auto intro!: keeps_parts simp: rt_usable_def features_ok_def new_fingerprints_def new_server_hellos_def new_snis_def new_blacklist_def)

theorem reload_guarantees: "guarantees keeps (reload_th vp now)"
  unfolding reload_th_def features_th_def
  by (auto intro!: guarantees_bind guarantees_atomic guarantees_writes guarantees_reads features_parts_keep reload_users_keeps keeps_parts
      simp: rt_usable_def features_ok_def new_limiter_def UpdateConfig_def SetAllowedJA3_def SetAllowedJA4_def split: res.splits)

end
