(* ===== verification/SharedInvariants.thy ===== *)
theory SharedInvariants
  imports ConnNotes Startup
begin

text \<open>
  The invariants of the shared state, with a note per connection: what the statistics have been told, the places in the
  limiter, and the hellos that have passed the replay cache. Each interprets the locale \<open>connection_notes\<close>; that
  every action keeps the runtime sound interprets \<open>connection_actions\<close>.
\<close>

section \<open>Invariants\<close>

text \<open>The statistics: to what they were at first every note has added its events.\<close>

definition stats_notes :: "Tracker \<Rightarrow> server \<Rightarrow> conn_note list \<Rightarrow> bool" where
  "stats_notes base s gs \<longleftrightarrow> (\<forall>name. counters_of name (rt_Stats (s_rt s)) =
     fold (add_delta \<circ> ev_delta) (events_of name (concat (map n_events gs))) (counters_of name base))"

text \<open>The limiter: it is the one with the number \<open>n\<close> and counts the places that the notes hold.\<close>

definition places :: "conn_note list \<Rightarrow> string option list" where
  "places gs = List.map_filter n_place gs"

definition limiter_notes :: "int \<Rightarrow> nat \<Rightarrow> server \<Rightarrow> conn_note list \<Rightarrow> bool" where
  "limiter_notes mx n s gs \<longleftrightarrow> rt_LimiterID (s_rt s) = n \<and> lim_inv mx (rt_Limiter (s_rt s)) (places gs)"

text \<open>
  The replay cache: it still has the key of every hello that has passed, no two of these are the same, and it has not
  grown by more than their number.
\<close>

definition passed :: "conn_note list \<Rightarrow> client_hello list" where
  "passed gs = List.map_filter n_hello gs"

definition replay_notes :: "Config \<Rightarrow> (bytes \<Rightarrow> bytes) \<Rightarrow> int \<Rightarrow> int \<Rightarrow> nat \<Rightarrow> server \<Rightarrow> conn_note list \<Rightarrow> bool" where
  "replay_notes cfg sha t0 t1 n0 s gs \<longleftrightarrow> rt_Config (s_rt s) = cfg \<and> (\<exists>c. rt_Replay (s_rt s) = Some c \<and> t1 - t0 \<le> rp_ttl c \<and> n0 + length gs \<le> rp_max c
     \<and> length (rp_entries c) \<le> n0 + length (passed gs)
     \<and> (\<forall>ch \<in> set (passed gs). \<exists>t \<ge> t0. (replayKey sha ch, t) \<in> set (rp_entries c))
     \<and> distinct (map (replayKey sha) (passed gs)))"

section \<open>Lists of notes\<close>

lemma fits_life_place: "fits_life C w conn r g \<Longrightarrow> r \<noteq> Some Panic \<Longrightarrow> n_place g = None"
  by (cases r) (auto simp: fits_life_def fits_def blank_def)

lemma map_filter_app: "List.map_filter f (xs @ ys) = List.map_filter f xs @ List.map_filter f ys"
  by (simp add: List.map_filter_def)

lemma map_filter_one: "List.map_filter f (x # xs) = (case f x of None \<Rightarrow> [] | Some y \<Rightarrow> [y]) @ List.map_filter f xs"
  by (simp add: List.map_filter_def split: option.splits)

lemma map_filter_length: "length (List.map_filter f xs) \<le> length xs"
  by (simp add: List.map_filter_def)

lemma note_split:
  assumes "i < length gs"
  obtains as bs where "gs = as @ gs ! i # bs" "\<And>g. gs[i := g] = as @ g # bs"
  using assms id_take_nth_drop [OF assms] by (intro that [of "take i gs" "drop (Suc i) gs"]) (simp_all add: upd_conv_take_nth_drop)

lemma map_filter_update:
  assumes "i < length gs" "f (gs ! i) = None" "f g = Some x"
  shows "mset (List.map_filter f (gs[i := g])) = add_mset x (mset (List.map_filter f gs))"
    "length (List.map_filter f (gs[i := g])) = Suc (length (List.map_filter f gs))"
proof -
  obtain as bs where g: "gs = as @ gs ! i # bs" "gs[i := g] = as @ g # bs" using note_split [OF assms(1)] by metis
  show m: "mset (List.map_filter f (gs[i := g])) = add_mset x (mset (List.map_filter f gs))"
    using arg_cong [OF g(1), of "List.map_filter f"] by (simp add: g(2) map_filter_app map_filter_one assms(2,3))
  show "length (List.map_filter f (gs[i := g])) = Suc (length (List.map_filter f gs))"
    using arg_cong [OF m, of size] by simp
qed

lemma map_filter_same:
  assumes "i < length gs" "f g = f (gs ! i)"
  shows "List.map_filter f (gs[i := g]) = List.map_filter f gs"
proof -
  obtain as bs where g: "gs = as @ gs ! i # bs" "gs[i := g] = as @ g # bs" using note_split [OF assms(1)] by metis
  show ?thesis using arg_cong [OF g(1), of "List.map_filter f"] by (simp add: g(2) map_filter_app map_filter_one assms(2))
qed

lemma map_filter_earlier:
  assumes "i < j" "j < length gs" "f (gs ! i) = Some x" "f (gs ! j) = Some y" "h x = h y"
  shows "\<not> distinct (map h (List.map_filter f gs))"
proof -
  have "gs ! j \<in> set (drop (Suc i) gs)" using assms(1,2) by (auto simp: in_set_conv_nth intro!: exI [of _ "j - Suc i"])
  then have "y \<in> set (List.map_filter f (drop (Suc i) gs))" using assms(4) by (force simp: List.map_filter_def)
  then have "h x \<in> h ` set (List.map_filter f (drop (Suc i) gs))" using assms(5) by simp
  moreover have "gs = take i gs @ gs ! i # drop (Suc i) gs" using assms(1,2) by (intro id_take_nth_drop) simp
  then have "List.map_filter f gs = List.map_filter f (take i gs) @ x # List.map_filter f (drop (Suc i) gs)"
    using assms(3) by (metis append_Cons append_Nil map_filter_app map_filter_one option.simps(5))
  ultimately show ?thesis by simp
qed

lemma map_filter_repeats:
  assumes "i < length gs" "j < length gs" "i \<noteq> j" "f (gs ! i) = Some x" "f (gs ! j) = Some y" "h x = h y"
  shows "\<not> distinct (map h (List.map_filter f gs))"
  using assms map_filter_earlier [of i j gs f x y h] map_filter_earlier [of j i gs f y x h] by (cases "i < j") auto

lemma map_update_alike: "i < length gs \<Longrightarrow> f g = f (gs ! i) \<Longrightarrow> map f (gs[i := g]) = map f gs"
  by (simp add: map_update) (metis length_map list_update_id nth_map)

section \<open>The statistics\<close>

lemma add_delta_commute: "add_delta d \<circ> add_delta e = add_delta e \<circ> add_delta d"
  by (auto simp: add_delta_def fun_eq_iff split: prod.splits)

lemma fold_delta_insert:
  "fold (add_delta \<circ> ev_delta) (xs @ ev # ys) c = add_delta (ev_delta ev) (fold (add_delta \<circ> ev_delta) (xs @ ys) c)"
proof -
  have "fold (add_delta \<circ> ev_delta) ys (add_delta (ev_delta ev) d) = add_delta (ev_delta ev) (fold (add_delta \<circ> ev_delta) ys d)" for d
    using fold_commute [of ys "add_delta (ev_delta ev)" "add_delta \<circ> ev_delta" "add_delta \<circ> ev_delta"] add_delta_commute
    by (simp add: fun_eq_iff)
  then show ?thesis by simp
qed

lemma stats_notes_event:
  assumes "stats_notes base s gs" "i < length gs"
  shows "stats_notes base (upd_stats (stats_step ev) s) (gs[i := (gs ! i)\<lparr>n_events := n_events (gs ! i) @ [ev]\<rparr>])"
  unfolding stats_notes_def
proof
  fix name
  obtain as bs where g: "gs = as @ gs ! i # bs" "\<And>g. gs[i := g] = as @ g # bs" using note_split [OF assms(2)] by metis
  let ?old = "concat (map n_events gs)" and ?new = "concat (map n_events (gs[i := (gs ! i)\<lparr>n_events := n_events (gs ! i) @ [ev]\<rparr>]))"
  obtain xs ys where new: "?new = xs @ ev # ys" "?old = xs @ ys"
    by (rule that [of "concat (map n_events as) @ n_events (gs ! i)" "concat (map n_events bs)"])
      (use arg_cong [OF g(1), of "\<lambda>gs. concat (map n_events gs)"] in \<open>simp_all add: g(2)\<close>)
  have step: "counters_of name (stats_step ev t) = (if name = ev_name ev then add_delta (ev_delta ev) (counters_of name t) else counters_of name t)" for t
    by (simp add: counters_of_def stats_step_counts)
  have old: "counters_of name (rt_Stats (s_rt s)) = fold (add_delta \<circ> ev_delta) (events_of name (xs @ ys)) (counters_of name base)"
    using assms(1) new(2) by (simp add: stats_notes_def)
  show "counters_of name (rt_Stats (s_rt (upd_stats (stats_step ev) s))) = fold (add_delta \<circ> ev_delta) (events_of name ?new) (counters_of name base)"
    unfolding new(1) using old fold_delta_insert [of "events_of name xs" ev "events_of name ys"]
    by (auto simp add: step events_of_def simp del: fold_append)
qed

lemma ops_leave:
  "replay_op w ch s = (b, s') \<Longrightarrow> rt_Stats (s_rt s') = rt_Stats (s_rt s) \<and> rt_Limiter (s_rt s') = rt_Limiter (s_rt s)
     \<and> rt_LimiterID (s_rt s') = rt_LimiterID (s_rt s) \<and> rt_Config (s_rt s') = rt_Config (s_rt s)"
  "acquire_op conn s = (b, s') \<Longrightarrow> rt_Stats (s_rt s') = rt_Stats (s_rt s) \<and> rt_Replay (s_rt s') = rt_Replay (s_rt s)
     \<and> rt_LimiterID (s_rt s') = rt_LimiterID (s_rt s) \<and> rt_Config (s_rt s') = rt_Config (s_rt s)"
  "rt_Stats (s_rt (release_op lid conn s)) = rt_Stats (s_rt s) \<and> rt_Replay (s_rt (release_op lid conn s)) = rt_Replay (s_rt s)
     \<and> rt_LimiterID (s_rt (release_op lid conn s)) = rt_LimiterID (s_rt s) \<and> rt_Config (s_rt (release_op lid conn s)) = rt_Config (s_rt s)"
  by (auto simp: replay_op_def acquire_op_def release_op_def conn_done_def split: option.splits prod.splits)

interpretation statistics: connection_notes "stats_notes base" "\<lambda>_. True" "\<lambda>_. True" "\<lambda>_. True" for base
proof (unfold_locales, goal_cases)
  case (3 s gs i ev)
  then show ?case by (rule stats_notes_event)
qed (auto simp: stats_notes_def quiet_def map_update_alike ops_leave dest: ops_leave(1,2))

section \<open>The limiter and the runtime\<close>

lemma live_from_mset: "mset xs = mset ys \<Longrightarrow> live_from ip xs = live_from ip ys"
  unfolding live_from_def by (metis mset_filter size_mset)

lemma lim_inv_mset:
  assumes "mset xs = mset ys"
  shows "lim_inv mx lo xs = lim_inv mx lo ys"
proof -
  have f: "live_from ip xs = live_from ip ys" for ip using assms by (rule live_from_mset)
  then have "live_counts xs = live_counts ys" by (intro ext) (simp add: live_counts_def)
  with f show ?thesis by (simp add: lim_inv_def)
qed

lemma places_released:
  assumes "i < length gs" "n_place (gs ! i) = Some p" "n_place g = None"
  shows "p \<in> set (places gs)" "mset (places (gs[i := g])) = mset (remove1 p (places gs))"
proof -
  have "mset (places (gs[i := g, i := gs ! i])) = add_mset p (mset (places (gs[i := g])))"
    unfolding places_def using assms by (intro map_filter_update) simp_all
  then have m: "mset (places gs) = add_mset p (mset (places (gs[i := g])))" by simp
  then show "p \<in> set (places gs)" by (metis set_mset_mset union_single_eq_member)
  show "mset (places (gs[i := g])) = mset (remove1 p (places gs))" by (simp add: m)
qed

interpretation limiter: connection_notes "limiter_notes mx n" "\<lambda>_. True" "\<lambda>_. True" "\<lambda>k. k = n" for mx n
proof (unfold_locales, goal_cases)
  case (1 s gs)
  then show ?case by simp
next
  case (2 s gs)
  then show ?case by (simp add: limiter_notes_def)
next
  case (3 s gs s')
  then show ?case by (simp add: limiter_notes_def quiet_def rt_evolves_def)
next
  case (4 s gs i ev)
  then show ?case by (simp add: limiter_notes_def places_def map_filter_same)
next
  case (5 s gs i w ch s')
  then show ?case using ops_leave(1) [OF 5(5)] by (simp add: limiter_notes_def places_def map_filter_same)
next
  case (6 s gs w ch s')
  then show ?case using ops_leave(1) [OF 6(3)] by (simp add: limiter_notes_def)
next
  case (7 s gs i conn s')
  obtain lim where a: "Acquire (nc_remote conn) (rt_Limiter (s_rt s)) = (True, lim)" "rt_Limiter (s_rt s') = lim"
    using 7(4) by (auto simp: acquire_op_def split: prod.splits)
  have "lim_inv mx lim (nc_remote conn # places gs)" using lim_inv_Acquire [OF _ a(1)] 7(1) by (simp add: limiter_notes_def)
  moreover have "mset (places (gs[i := (gs ! i)\<lparr>n_place := Some (nc_remote conn)\<rparr>])) = mset (nc_remote conn # places gs)"
    unfolding places_def using 7 by (simp add: map_filter_update)
  ultimately show ?case using a(2) lim_inv_mset 7(1) ops_leave(2) [OF 7(4)] by (metis limiter_notes_def)
next
  case (8 s gs conn s')
  obtain lim where a: "Acquire (nc_remote conn) (rt_Limiter (s_rt s)) = (False, lim)" "rt_Limiter (s_rt s') = lim"
    using 8(2) by (auto simp: acquire_op_def split: prod.splits)
  with lim_inv_Acquire [OF _ a(1)] 8(1) ops_leave(2) [OF 8(2)] show ?case by (simp add: limiter_notes_def)
next
  case (9 s gs i conn k)
  have p: "nc_remote conn \<in> set (places gs)"
    "mset (places (gs[i := (gs ! i)\<lparr>n_place := None\<rparr>])) = mset (remove1 (nc_remote conn) (places gs))"
    using places_released [OF 9(2,3), of "(gs ! i)\<lparr>n_place := None\<rparr>"] by simp_all
  have "lim_inv mx (Release (nc_remote conn) (rt_Limiter (s_rt s))) (remove1 (nc_remote conn) (places gs))"
    using 9(1) p(1) by (intro lim_inv_Release) (simp_all add: limiter_notes_def)
  with 9(1,4) show ?case unfolding limiter_notes_def lim_inv_mset [OF p(2)] by (simp add: release_op_def conn_done_def)
qed

lemma replay_evolves: "rt_evolves (s_rt s) (s_rt (snd (replay_op w ch s)))"
  by (auto simp: replay_op_def intro: rt_evolves_upd(2) split: option.splits prod.splits)

lemma acquire_keeps: "keeps (s_rt s) (s_rt (snd (acquire_op conn s)))"
proof (rule keepsI_usable)
  assume u: "rt_usable (s_rt s)"
  obtain ok lim where a: "Acquire (nc_remote conn) (rt_Limiter (s_rt s)) = (ok, lim)" by fastforce
  then have "lim \<noteq> None" using u Acquire_not_None [OF _ a] by (simp add: rt_usable_def)
  with a show "keeps (s_rt s) (s_rt (snd (acquire_op conn s)))" by (simp add: acquire_op_def limiter_keeps)
qed

interpretation soundness: connection_actions "\<lambda>s s'. keeps (s_rt s) (s_rt s') \<and> rt_Config (s_rt s') = rt_Config (s_rt s)"
proof (unfold_locales, goal_cases)
  case (1 s s')
  then show ?case by (auto simp: quiet_def rt_evolves_def intro: evolves_keeps)
next
  case (2 s ev)
  then show ?case using evolves_keeps [OF rt_evolves_upd(1)] by simp
next
  case (3 s w ch)
  then show ?case using replay_evolves evolves_keeps by (metis rt_evolves_def)
next
  case (4 s conn)
  then show ?case using acquire_keeps by (simp add: acquire_op_def split: prod.splits)
next
  case (5 s conn)
  then show ?case using done_keeps by (simp add: release_op_def conn_done_def)
qed

section \<open>The replay cache\<close>

lemma evict_notes:
  assumes "length (rp_entries c) \<le> rp_max c" "t1 - t0 \<le> rp_ttl c" "t0 \<le> t" "now \<le> t1" "(k, t) \<in> set (rp_entries c)"
  shows "(k, t) \<in> set (rp_entries (evict victim now c))"
  using assms by (intro evict_keeps) auto

definition within :: "(bytes \<Rightarrow> bytes) \<Rightarrow> int \<Rightarrow> int \<Rightarrow> world \<Rightarrow> bool" where
  "within sha t0 t1 w \<longleftrightarrow> pr_sha (w_prims w) = sha \<and> t0 \<le> w_clock w AtReplay \<and> w_clock w AtReplay \<le> t1"

lemma replay_notes_check:
  assumes "replay_notes cfg sha t0 t1 n0 s gs" "within sha t0 t1 w" "replay_op w ch s = (b, s')"
  obtains c c' where "rt_Replay (s_rt s) = Some c" "rt_Replay (s_rt s') = Some c'" "rp_ttl c' = rp_ttl c" "rp_max c' = rp_max c"
    "length (rp_entries c') \<le> length (rp_entries c) + of_bool (\<not> b)"
    "\<forall>ch \<in> set (passed gs). \<exists>t \<ge> t0. (replayKey sha ch, t) \<in> set (rp_entries c')"
    "\<not> b \<longrightarrow> (\<exists>t \<ge> t0. (replayKey sha ch, t) \<in> set (rp_entries c')) \<and> replayKey sha ch \<notin> replayKey sha ` set (passed gs)"
proof -
  obtain c where c: "rt_Replay (s_rt s) = Some c" "t1 - t0 \<le> rp_ttl c" "n0 + length gs \<le> rp_max c"
    "length (rp_entries c) \<le> n0 + length (passed gs)" "\<forall>ch \<in> set (passed gs). \<exists>t \<ge> t0. (replayKey sha ch, t) \<in> set (rp_entries c)"
    using assms(1) by (auto simp: replay_notes_def)
  let ?now = "w_clock w AtReplay" and ?e = "evict (w_victim w) (w_clock w AtReplay) c"
  obtain c' where c': "Check sha (w_victim w) ?now (Some ch) c = (b, c')" "rt_Replay (s_rt s') = Some c'"
    using assms(2,3) c(1) by (auto simp: replay_op_def within_def split: prod.splits)
  have room: "length (rp_entries c) \<le> rp_max c" using c(3,4) map_filter_length [of n_hello gs] by (simp add: passed_def)
  have kept: "\<forall>ch \<in> set (passed gs). \<exists>t \<ge> t0. (replayKey sha ch, t) \<in> set (rp_entries ?e)"
    using c(5) evict_notes [OF room c(2)] assms(2) by (meson within_def)
  have new: "b = (map_of (rp_entries ?e) (replayKey sha ch) \<noteq> None)"
    "rp_entries c' = (if b then rp_entries ?e else (replayKey sha ch, ?now) # rp_entries ?e)"
    using c'(1) by (auto simp: Check_def Let_def split: if_splits)
  show thesis
  proof (rule that [OF c(1) c'(2)])
    show "length (rp_entries c') \<le> length (rp_entries c) + of_bool (\<not> b)" using evict_length(2) [OF room] by (simp add: new(2))
    show "\<forall>ch \<in> set (passed gs). \<exists>t \<ge> t0. (replayKey sha ch, t) \<in> set (rp_entries c')" using kept by (auto simp: new(2))
    show "\<not> b \<longrightarrow> (\<exists>t \<ge> t0. (replayKey sha ch, t) \<in> set (rp_entries c')) \<and> replayKey sha ch \<notin> replayKey sha ` set (passed gs)"
      using kept new assms(2) by (auto simp: within_def map_of_eq_None_iff) (metis fst_conv image_eqI)
  qed (use Check_fields [OF c'(1)] in simp_all)
qed

interpretation replays: connection_notes "replay_notes cfg sha t0 t1 n0" "within sha t0 t1" "\<lambda>c. c = cfg" "\<lambda>_. True" for cfg sha t0 t1 n0
proof (unfold_locales, goal_cases)
  case (5 s gs i w ch s')
  let ?gs = "gs[i := (gs ! i)\<lparr>n_hello := Some ch\<rparr>]"
  have p: "mset (passed ?gs) = add_mset ch (mset (passed gs))" "length (passed ?gs) = Suc (length (passed gs))"
    unfolding passed_def using 5 by (simp_all add: map_filter_update)
  have ps: "set (passed ?gs) = insert ch (set (passed gs))" using arg_cong [OF p(1), of set_mset] by simp
  from 5(1,3,5) obtain c c' where c: "rt_Replay (s_rt s) = Some c" "rt_Replay (s_rt s') = Some c'" "rp_ttl c' = rp_ttl c" "rp_max c' = rp_max c"
    "length (rp_entries c') \<le> length (rp_entries c) + of_bool (\<not> False)"
    "\<forall>ch \<in> set (passed gs). \<exists>t \<ge> t0. (replayKey sha ch, t) \<in> set (rp_entries c')"
    "\<not> False \<longrightarrow> (\<exists>t \<ge> t0. (replayKey sha ch, t) \<in> set (rp_entries c')) \<and> replayKey sha ch \<notin> replayKey sha ` set (passed gs)"
    by (rule replay_notes_check)
  have "distinct (map (replayKey sha) (passed ?gs)) = distinct (map (replayKey sha) (ch # passed gs))"
    using p(1) by (intro mset_eq_imp_distinct_iff) simp
  with 5(1) ops_leave(1) [OF 5(5)] c p(2) ps show ?case by (auto simp: replay_notes_def)
next
  case (6 s gs w ch s')
  from 6 obtain c c' where "rt_Replay (s_rt s) = Some c" "rt_Replay (s_rt s') = Some c'" "rp_ttl c' = rp_ttl c" "rp_max c' = rp_max c"
    "length (rp_entries c') \<le> length (rp_entries c) + of_bool (\<not> True)"
    "\<forall>ch \<in> set (passed gs). \<exists>t \<ge> t0. (replayKey sha ch, t) \<in> set (rp_entries c')"
    by (rule replay_notes_check)
  with 6(1) ops_leave(1) [OF 6(3)] show ?case by (auto simp: replay_notes_def)
qed (auto simp: replay_notes_def quiet_def rt_evolves_def passed_def map_filter_same ops_leave(3) dest: ops_leave(2))

end
