(* ===== verification/Concurrency.thy ===== *)
theory Concurrency
  imports SharedInvariants ReloadThreads
begin

text \<open>
  The program under every schedule. Any number of connections, each a thread \<open>connection_th\<close>, of management requests and of
  reloads share the runtime; their actions interleave in any order. The properties are those of \<open>ProxyProperties\<close>,
  \<open>Replay\<close> and \<open>Startup\<close> without the assumption that a connection is handled undisturbed.
\<close>

section \<open>The program\<close>

text \<open>
  What the program is given to do: a connection to handle, a management request to answer, or the configuration to be
  reloaded. A request is one action, except that \<open>Reload\<close>, which takes no lock, is also there as a thread of its own; the
  replies are collected, the last one first.
\<close>

datatype job = Connection world net_conn sink | Request admin_world api_request | Reloading viper int

datatype job_result = Handled "(unit, ending) res option" | Answered response | Reloaded "(runtime_error, unit) res"

type_synonym shared = "program \<times> response list"

definition request_op :: "admin_world \<Rightarrow> api_request \<Rightarrow> shared \<Rightarrow> response \<times> shared" where
  "request_op w r p = (case p of (g, reps) \<Rightarrow>
     (case serve_admin w r (pg_admin g) of (resp, a) \<Rightarrow> (resp, g\<lparr>pg_admin := a\<rparr>, resp # reps)))"

definition set_server :: "server \<Rightarrow> shared \<Rightarrow> shared" where
  "set_server s p = (with_server s (fst p), snd p)"

definition set_rt :: "Runtime \<Rightarrow> shared \<Rightarrow> shared" where
  "set_rt r p = ((fst p)\<lparr>pg_admin := (pg_admin (fst p))\<lparr>as_rt := r\<rparr>\<rparr>, snd p)"

fun job_th :: "job \<Rightarrow> (shared, job_result) thread" where
  "job_th (Connection w conn sk) = bind_thread (on_part (pg_server \<circ> fst) set_server (connection_th w conn sk)) (\<lambda>r. Done (Handled r))"
| "job_th (Request w r) = bind_thread (atomic (request_op w r)) (\<lambda>resp. Done (Answered resp))"
| "job_th (Reloading vp now) = bind_thread (on_part (as_rt \<circ> pg_admin \<circ> fst) set_rt (reload_th vp now)) (\<lambda>r. Done (Reloaded r))"

text \<open>What a step may do to the program: it stays usable, and sound unless a new reply has reported a lock-out.\<close>

definition stays :: "shared \<Rightarrow> shared \<Rightarrow> bool" where
  "stays p q \<longleftrightarrow> (\<exists>new. snd q = new @ snd p \<and> (rt_usable (as_rt (pg_admin (fst p))) \<longrightarrow> rt_usable (as_rt (pg_admin (fst q))))
     \<and> (rt_inv (as_rt (pg_admin (fst p))) \<longrightarrow> rt_inv (as_rt (pg_admin (fst q))) \<or> (\<exists>resp \<in> set new. lockout resp)))"

lemma stays_refl: "stays p p"
  by (simp add: stays_def)

lemma stays_trans: "stays p q \<Longrightarrow> stays q r \<Longrightarrow> stays p r"
  unfolding stays_def by (elim exE conjE, rule_tac x = "newa @ new" in exI) auto

lemma keeps_stays:
  "keeps (as_rt (pg_admin (fst p))) (s_rt s) \<Longrightarrow> stays p (set_server s p)" "keeps (as_rt (pg_admin (fst p))) r \<Longrightarrow> stays p (set_rt r p)"
  by (auto simp: stays_def keeps_def set_server_def set_rt_def)

lemma request_stays: "stays p (snd (request_op w r p))"
proof -
  obtain g reps resp a where p: "p = (g, reps)" "serve_admin w r (pg_admin g) = (resp, a)" by (metis surj_pair)
  with serve_admin_sound [of "pg_admin g" w r] show ?thesis
    unfolding stays_def by (intro exI [of _ "[resp]"]) (auto simp: request_op_def sound_step_def)
qed

lemma job_stays: "guarantees stays (job_th j)"
proof (cases j)
  case (Connection w conn sk)
  have "guarantees stays (on_part (pg_server \<circ> fst) set_server (connection_th w conn sk))"
    by (rule guarantees_on_part [OF soundness.connection_guarantees]) (auto intro: keeps_stays)
  then show ?thesis by (simp add: Connection guarantees_bind)
next
  case (Request w r)
  then show ?thesis by (auto intro!: guarantees_bind guarantees_atomic request_stays)
next
  case (Reloading vp now)
  have "guarantees stays (on_part (as_rt \<circ> pg_admin \<circ> fst) set_rt (reload_th vp now))"
    by (rule guarantees_on_part [OF reload_guarantees]) (auto intro: keeps_stays)
  then show ?thesis by (simp add: Reloading guarantees_bind)
qed

section \<open>A limiter that is replaced\<close>

text \<open>A connection that the limiter lets in.\<close>

lemma admitted:
  assumes "accept_conn (rt_Config (s_rt s)) conn = Ok conn'" "acquire_op conn' s = (True, s')" "i < length ts" "ts ! i = connection_th w conn sk"
  shows "pool_step\<^sup>*\<^sup>* (s, ts) (s', ts[i := goroutine_th w conn' sk])"
proof -
  let ?rest = "bind_thread (atomic (acquire_op conn')) (\<lambda>ok. if ok then goroutine_th w conn' sk else Done None)"
  have "pool_step (s, ts) (s, ts[i := ?rest])"
    using pool_step.acts [OF assms(3) assms(4) [unfolded connection_th_def snapshot_th_def reads_def atomic_def bind_thread.simps], of s] assms(1)
    by (simp add: rt_Snapshot_def atomic_def)
  moreover have "pool_step (s, ts[i := ?rest]) (snd (acquire_op conn' s), ts[i := ?rest, i := if fst (acquire_op conn' s) then goroutine_th w conn' sk else Done None])"
    using assms(3) by (intro pool_step.acts) (simp_all add: atomic_def)
  ultimately show ?thesis using assms(2) by (simp add: converse_rtranclp_into_rtranclp)
qed

lemma Acquire_one:
  assumes "0 < mx" "clientIP conn = ip" "ip \<noteq> []" "cl_counts l ip = None" "cl_max l = mx"
  shows "Acquire conn (Some l) = (True, Some (l\<lparr>cl_counts := (cl_counts l)(ip \<mapsto> 1)\<rparr>))"
    "Release conn (Some (l\<lparr>cl_counts := (cl_counts l)(ip \<mapsto> 1)\<rparr>)) = Some l"
  using assms by (auto simp: Acquire_def Release_def count_of_def Let_def fun_eq_iff intro!: ConnLimiter.equality)

text \<open>
  The limit does not hold when the limiter is replaced while a connection is between \<open>Acquire\<close> and the start of its
  goroutine. The limit is one. A first connection is let in; the configuration is reloaded; a second connection from the same
  address is let in by the new limiter; the goroutine of the first starts, defers \<open>Release\<close> on the new limiter and
  ends, which frees the place of the second; so a third one is let in beside the second.
\<close>

lemma acquire_fresh:
  assumes "rt_Limiter (s_rt s) = Some (NewConnLimiter 1)" "clientIP (nc_remote conn) \<noteq> []"
  obtains s' where "acquire_op conn s = (True, s')" "rt_Config (s_rt s') = rt_Config (s_rt s)" "rt_ConfigPath (s_rt s') = rt_ConfigPath (s_rt s)"
    "Release (nc_remote conn) (rt_Limiter (s_rt s')) = Some (NewConnLimiter 1)"
  using assms Acquire_one [of 1 "nc_remote conn" _ "NewConnLimiter 1"]
  by (auto simp: acquire_op_def NewConnLimiter_def)

lemma empty_connection:
  assumes "st_in (nc_in conn) = []"
  shows "\<exists>s'. handleConnection w conn sk s = Some (Ok Dropped, s')"
  using assms by (auto simp: handleConnection_def conn_read_def Let_def split: prod.splits)

lemma run_goroutine:
  assumes "handleConnection w conn sk s = Some (Ok e, s')"
  shows "run (goroutine_th w conn sk) s = Some (Some (Ok e), conn_done conn s')"
proof -
  have "rt_LimiterID (s_rt s') = rt_LimiterID (s_rt s)" using handleConnection_evolves [OF assms] by (simp add: rt_evolves_def)
  with run_handleConnection [of w conn sk s] assms show ?thesis
    by (auto simp: goroutine_th_def release_op_def run_bind agree_def)
qed

lemma run_server_reload:
  "run (bind_thread (on_part s_rt (\<lambda>r s. s\<lparr>s_rt := r\<rparr>) (reload_th vp now)) (\<lambda>x. Done None)) s = Some (None, s\<lparr>s_rt := snd (rt_Reload vp now (s_rt s))\<rparr>)"
proof -
  have "run (on_part s_rt (\<lambda>r s. s\<lparr>s_rt := r\<rparr>) (reload_th vp now)) s =
      map_option (\<lambda>(x, r). (x, s\<lparr>s_rt := r\<rparr>)) (run (reload_th vp now) (s_rt s))"
    by (rule run_on_part) simp_all
  then show ?thesis by (simp add: run_bind run_reload split: prod.splits)
qed

lemma reload_breaks_limit:
  assumes "Load vp (rt_ConfigPath (s_rt s0)) = Ok (cfg, mgr)" "sec_MaxConnectionsPerIP (cfg_Security cfg) = 1"
    and "rt_Limiter (s_rt s0) = Some (NewConnLimiter 1)" "clientIP (nc_remote conn) \<noteq> []" "st_in (nc_in conn) = []"
    and "accept_conn (rt_Config (s_rt s0)) conn = Ok conn" "accept_conn cfg conn = Ok conn"
  shows "\<exists>s. pool_step\<^sup>*\<^sup>*
      (s0, [connection_th w conn sk, bind_thread (on_part s_rt (\<lambda>r s. s\<lparr>s_rt := r\<rparr>) (reload_th vp now)) (\<lambda>x. Done None),
            connection_th w conn sk, connection_th w conn sk])
      (s, [Done (Some (Ok Dropped)), Done None, goroutine_th w conn sk, goroutine_th w conn sk])"
proof -
  let ?c = "connection_th w conn sk" and ?g = "goroutine_th w conn sk" and ?d = "Done (Some (Ok Dropped))"
    and ?r = "bind_thread (on_part s_rt (\<lambda>r s. s\<lparr>s_rt := r\<rparr>) (reload_th vp now)) (\<lambda>x. Done None)"
  obtain s1 where s1: "acquire_op conn s0 = (True, s1)" "rt_ConfigPath (s_rt s1) = rt_ConfigPath (s_rt s0)"
    using acquire_fresh [OF assms(3,4)] by blast
  have t1: "pool_step\<^sup>*\<^sup>* (s0, [?c, ?r, ?c, ?c]) (s1, [?g, ?r, ?c, ?c])"
    using admitted [OF assms(6) s1(1), of 0 "[?c, ?r, ?c, ?c]"] by simp
  define s2 where "s2 = s1\<lparr>s_rt := snd (rt_Reload vp now (s_rt s1))\<rparr>"
  have t2: "pool_step\<^sup>*\<^sup>* (s1, [?g, ?r, ?c, ?c]) (s2, [?g, Done None, ?c, ?c])"
    using alone_is_a_schedule [OF run_server_reload, of 1 "[?g, ?r, ?c, ?c]"] by (simp add: s2_def)
  have s2: "rt_Config (s_rt s2) = cfg" "rt_Limiter (s_rt s2) = Some (NewConnLimiter 1)"
  proof -
    obtain x r where "rt_Reload vp now (s_rt s1) = (x, r)" by fastforce
    then show "rt_Config (s_rt s2) = cfg" "rt_Limiter (s_rt s2) = Some (NewConnLimiter 1)"
      using assms(1,2) s1(2) by (auto simp: s2_def elim!: rt_Reload_cases)
  qed
  obtain s3 where s3: "acquire_op conn s2 = (True, s3)" "rt_Config (s_rt s3) = cfg"
    "Release (nc_remote conn) (rt_Limiter (s_rt s3)) = Some (NewConnLimiter 1)"
    using acquire_fresh [OF s2(2) assms(4)] s2(1) by metis
  have t3: "pool_step\<^sup>*\<^sup>* (s2, [?g, Done None, ?c, ?c]) (s3, [?g, Done None, ?g, ?c])"
    using admitted [OF _ s3(1), of conn 2 "[?g, Done None, ?c, ?c]"] assms(7) s2(1) by (simp add: numeral_2_eq_2)
  obtain s4 where s4: "handleConnection w conn sk s3 = Some (Ok Dropped, s4)" using empty_connection [OF assms(5)] by blast
  then have ev: "rt_Limiter (s_rt s4) = rt_Limiter (s_rt s3)" "rt_Config (s_rt s4) = cfg"
    using handleConnection_evolves [OF s4] s3(2) by (simp_all add: rt_evolves_def)
  have t4: "pool_step\<^sup>*\<^sup>* (s3, [?g, Done None, ?g, ?c]) (conn_done conn s4, [?d, Done None, ?g, ?c])"
    using alone_is_a_schedule [OF run_goroutine [OF s4], of 0 "[?g, Done None, ?g, ?c]"] by simp
  have s5: "rt_Config (s_rt (conn_done conn s4)) = cfg" "rt_Limiter (s_rt (conn_done conn s4)) = Some (NewConnLimiter 1)"
    using s3(3) ev by (simp_all add: conn_done_def)
  obtain s6 where s6: "acquire_op conn (conn_done conn s4) = (True, s6)" using acquire_fresh [OF s5(2) assms(4)] by metis
  have "pool_step\<^sup>*\<^sup>* (conn_done conn s4, [?d, Done None, ?g, ?c]) (s6, [?d, Done None, ?g, ?g])"
    using admitted [OF _ s6, of conn 3 "[?d, Done None, ?g, ?c]"] assms(7) s5(1) by (simp add: numeral_3_eq_3)
  with t1 t2 t3 t4 show ?thesis by (meson rtranclp_trans)
qed

text \<open>\<open>Reload\<close> makes an empty replay cache: right after it every hello is let through, also one that has been seen before.\<close>

lemma reload_forgets_hellos: "rt_Reload vp now (s_rt s) = (Ok (), r) \<Longrightarrow> \<not> fst (replay_op w ch (s\<lparr>s_rt := r\<rparr>))"
  by (auto simp: replay_op_def Check_def NewReplayCache_def evict_def Let_def elim!: rt_Reload_cases)

section \<open>An example\<close>

lemma run_connection:
  assumes "accept_conn (rt_Config (s_rt s)) conn = Ok conn'" "acquire_op conn' s = (True, s1)"
    and "handleConnection w conn' sk s1 = Some (Ok e, s2)"
  shows "run (connection_th w conn sk) s = Some (Some (Ok e), conn_done conn' s2)"
  using assms(1,2) run_goroutine [OF assms(3)] by (simp add: connection_th_def run_bind th_runs rt_Snapshot_def)

definition limited_server :: server where
  "limited_server = example_server\<lparr>s_rt := (s_rt example_server)\<lparr>rt_Limiter := Some (NewConnLimiter 2)\<rparr>\<rparr>"

lemma example_accepted: "accept_conn (rt_Config example_runtime) (example_conn bs) = Ok (example_conn bs)"
  by (simp add: accept_conn_def example_fields sample_config_def)

lemma example_thread:
  obtains bs se s' where "run (connection_th example_world (example_conn bs) example_sink) example_server = Some (Some (Ok (RelayedTLS se)), s')"
    "se_user se = ''b''" "opens_with example_world (nc_in (example_conn bs)) ch_example"
proof -
  obtain bs se s' where h: "handleConnection example_world (example_conn bs) example_sink example_server = Some (Ok (RelayedTLS se), s')"
    "se_user se = ''b''" "bs = enc_record hello_example @ drop (length (enc_record hello_example)) bs"
    by (rule example_relayed)
  have "acquire_op (example_conn bs) example_server = (True, example_server)"
    by (simp add: acquire_op_def example_server_def example_runtime_def rt_New_def apply_features sample_config_def Acquire_def NewConnLimiter_def)
  with h(1) have "run (connection_th example_world (example_conn bs) example_sink) example_server =
      Some (Some (Ok (RelayedTLS se)), conn_done (example_conn bs) s')"
    by (intro run_connection) (simp_all add: example_server_def example_accepted)
  moreover have "opens_with example_world (nc_in (example_conn bs)) ch_example"
    using parse_record_enc [OF hello_example_wf, of _ "drop (length (enc_record hello_example)) bs" "\<lambda>n. 3"]
    by (subst h(3)) (simp add: opens_with_def example_conn_def example_world_def ch_example_def hello_example_def)
  ultimately show thesis using h(2) by (intro that)
qed

section \<open>Properties\<close>


text \<open>
  C6. The program stays sound under every schedule. Once \<open>runServer\<close> has started with whatever the configuration file holds,
  and whatever connections and management requests come, however their actions interleave, the replay cache, the
  limiter and the rotators are there and inside their pools, every user has a well-formed secret, and unless a reply
  has reported that no active user is left there are an enabled user and a mask host.
\<close>

theorem program_sound_under_schedules:
  assumes "runServer vp now flags = Ok g0" "pool_step\<^sup>*\<^sup>* ((g0, []), map job_th jobs) ((g, reps), ts)"
  shows "rt_usable (as_rt (pg_admin g)) \<and> ((\<forall>resp \<in> set reps. \<not> lockout resp) \<longrightarrow> rt_inv (as_rt (pg_admin g)))"
proof -
  obtain cfg users where l: "Load vp (rf_configPath flags) = Ok (cfg, users)"
    "as_rt (pg_admin g0) = rt_New now (rf_configPath flags) cfg users New"
    using assms(1) by (rule runServer_Ok)
  have inv: "rt_inv (as_rt (pg_admin g0))" using rt_New_inv [OF l(1)] l(2) by simp
  have "stays (g0, []) (g, reps)"
    by (rule conjunct1 [OF pool_keeps_relation [OF assms(2) _ stays_refl stays_trans]]) (simp_all add: job_stays)
  with inv rt_inv_usable [OF inv] show ?thesis by (auto simp: stays_def)
qed

theorem program_sound_under_schedules_witness:
  "\<exists>g0 g resp ts. runServer (\<lambda>_ _. Inr (sample_config sample_users)) 5 example_flags = Ok g0
     \<and> pool_step\<^sup>*\<^sup>* ((g0, []), map job_th [Connection example_world (example_conn []) example_sink,
          Request example_admin_world (example_request ''/api/v1/users'' [])]) ((g, [resp]), ts)
     \<and> rt_usable (as_rt (pg_admin g))"
proof -
  let ?jobs = "[Connection example_world (example_conn []) example_sink, Request example_admin_world (example_request ''/api/v1/users'' [])]"
  obtain g0 where g0: "runServer (\<lambda>_ _. Inr (sample_config sample_users)) 5 example_flags = Ok g0"
    using sample_starts by blast
  obtain resp a where a: "serve_admin example_admin_world (example_request ''/api/v1/users'' []) (pg_admin g0) = (resp, a)"
    by (meson surj_pair)
  have "run (job_th (?jobs ! 1)) (g0, []) = Some (Answered resp, g0\<lparr>pg_admin := a\<rparr>, [resp])"
    using a by (simp add: run_bind request_op_def)
  then have s: "pool_step\<^sup>*\<^sup>* ((g0, []), map job_th ?jobs) ((g0\<lparr>pg_admin := a\<rparr>, [resp]), (map job_th ?jobs)[1 := Done (Answered resp)])"
    by (rule alone_is_a_schedule) simp_all
  show ?thesis
    using g0 s program_sound_under_schedules [OF g0 s] by blast
qed




text \<open>What the results of a number of connections add to the counters of a user.\<close>

definition accounts :: "(unit, ending) res option list \<Rightarrow> string \<Rightarrow> userCounters \<Rightarrow> userCounters" where
  "accounts rs name c = fold (\<lambda>r c. case r of Some (Ok e) \<Rightarrow> account e name c | _ \<Rightarrow> c) rs c"

lemma accounts_Cons: "accounts (r # rs) name c = accounts rs name (case r of Some (Ok e) \<Rightarrow> account e name c | _ \<Rightarrow> c)"
  by (simp add: accounts_def)

lemma ending_account: "fold (add_delta \<circ> ev_delta) (events_of name (ending_events e)) c = account e name c"
  by (cases e) (auto simp: session_events_def events_of_def add_delta_def charged_def)

lemma ends_account:
  assumes "length gs = length rs" "\<And>i. i < length rs \<Longrightarrow> n_events (gs ! i) = (case rs ! i of Some (Ok e) \<Rightarrow> ending_events e | _ \<Rightarrow> [])"
  shows "fold (add_delta \<circ> ev_delta) (events_of name (concat (map n_events gs))) c = accounts rs name c"
  using assms
proof (induction gs rs arbitrary: c rule: list_induct2)
  case (Cons g gs r rs)
  have g: "n_events g = (case r of Some (Ok e) \<Rightarrow> ending_events e | _ \<Rightarrow> [])" using Cons.prems [of 0] by simp
  have gs: "fold (add_delta \<circ> ev_delta) (events_of name (concat (map n_events gs))) c = accounts rs name c" for c
    using Cons.prems [of "Suc i" for i] by (intro Cons.IH) simp
  have "events_of name (xs @ ys) = events_of name xs @ events_of name ys" for xs ys by (simp add: events_of_def)
  moreover have "fold (add_delta \<circ> ev_delta) (events_of name (n_events g)) c = (case r of Some (Ok e) \<Rightarrow> account e name c | _ \<Rightarrow> c)"
    unfolding g using ending_account [of name _ c] events_of_def [of name "[]"] by (cases r) (auto split: res.splits)
  ultimately have "fold (add_delta \<circ> ev_delta) (events_of name (concat (map n_events (g # gs)))) c =
      accounts rs name (case r of Some (Ok e) \<Rightarrow> account e name c | _ \<Rightarrow> c)"
    using gs by (simp only: list.map concat.simps fold_append comp_apply)
  then show ?case unfolding accounts_Cons .
qed (simp add: accounts_def events_of_def)

text \<open>
  C9. The statistics are exact under every schedule. When any number of connections, whose actions interleave in any order,
  have all ended without a panic, the counters of every user are what they were at first with one connection
  and the bytes of each of this user's relayed sessions added, and nothing else: no increment is lost, and the number
  of active connections is as at first.
\<close>

theorem statistics_exact_under_schedules:
  assumes "pool_step\<^sup>*\<^sup>* (s0, connections arrivals) (s, map Done rs)" "\<forall>r \<in> set rs. r = None \<or> (\<exists>e. r = Some (Ok e))"
  shows "counters_of name (rt_Stats (s_rt s)) = accounts rs name (counters_of name (rt_Stats (s_rt s0)))
    \<and> uc_active (counters_of name (rt_Stats (s_rt s))) = uc_active (counters_of name (rt_Stats (s_rt s0)))"
proof -
  have "stats_notes (rt_Stats (s_rt s0)) s0 (replicate (length arrivals) blank)"
    by (simp add: stats_notes_def blank_def events_of_def)
  from statistics.connections_obey [OF assms(1) this] obtain gs where gs: "length gs = length arrivals" "length rs = length arrivals"
    "stats_notes (rt_Stats (s_rt s0)) s gs"
    and ends: "\<forall>i < length arrivals. \<forall>r. map Done rs ! i = (Done r :: (server, _) thread) \<longrightarrow>
      fits_life (\<lambda>_. True) (fst (arrivals ! i)) (fst (snd (arrivals ! i))) r (gs ! i)"
    by auto
  have "n_events (gs ! i) = (case rs ! i of Some (Ok e) \<Rightarrow> ending_events e | _ \<Rightarrow> [])" if i: "i < length rs" for i
  proof -
    have "fits_life (\<lambda>_. True) (fst (arrivals ! i)) (fst (snd (arrivals ! i))) (rs ! i) (gs ! i)" using ends i gs(2) by simp
    moreover have "rs ! i = None \<or> (\<exists>e. rs ! i = Some (Ok e))" using assms(2) i by simp
    ultimately show ?thesis by (auto simp: fits_life_def fits_def blank_def)
  qed
  then have exact: "counters_of name (rt_Stats (s_rt s)) = accounts rs name (counters_of name (rt_Stats (s_rt s0)))"
    using ends_account [of gs rs name] gs by (simp add: stats_notes_def)
  have "uc_active (account e name c) = uc_active c" for e c by (cases e) (simp_all add: charged_def)
  then have "uc_active (accounts rs name c) = uc_active c" for c
    by (induction rs arbitrary: c) (auto simp: accounts_def split: option.splits res.splits)
  with exact show ?thesis by simp
qed

theorem statistics_exact_under_schedules_witness:
  "\<exists>bs se s. pool_step\<^sup>*\<^sup>* (example_server, connections [(example_world, example_conn bs, example_sink)]) (s, map Done [Some (Ok (RelayedTLS se))])
     \<and> uc_total (counters_of ''b'' (rt_Stats (s_rt s))) = 1 \<and> uc_active (counters_of ''b'' (rt_Stats (s_rt s))) = 0"
proof -
  obtain bs se s' where r: "run (connection_th example_world (example_conn bs) example_sink) example_server = Some (Some (Ok (RelayedTLS se)), s')"
    "se_user se = ''b''"
    by (rule example_thread)
  have s: "pool_step\<^sup>*\<^sup>* (example_server, connections [(example_world, example_conn bs, example_sink)]) (s', map Done [Some (Ok (RelayedTLS se))])"
    using alone_is_a_schedule [OF r(1), of 0 "connections [(example_world, example_conn bs, example_sink)]"] by (simp add: connections_def)
  have "counters_of ''b'' (rt_Stats (s_rt example_server)) = zero_counters"
    by (simp add: example_server_def example_fields Stats.New_def counters_of_def)
  then show ?thesis
    using s r(2) statistics_exact_under_schedules [OF s, of "''b''"]
    by (intro exI [of _ bs] exI [of _ se] exI [of _ s']) (simp add: accounts_def charged_def zero_counters_def)
qed

text \<open>
  C10. One hello opens one session, also when copies of it race. Let any number of connections arrive, all of which look at the
  replay cache within its time to live, and let the cache have room for them. However their actions interleave, of two
  connections whose first bytes are hellos with the same random field at most one ends in a relayed session.
\<close>

theorem racing_replays:
  assumes "pool_step\<^sup>*\<^sup>* (s0, connections arrivals) (s, ts)" "\<forall>a \<in> set arrivals. within sha t0 t1 (fst a)"
    and "rt_Replay (s_rt s0) = Some c" "t1 - t0 \<le> rp_ttl c" "length (rp_entries c) + length arrivals \<le> rp_max c"
    and "i < length arrivals" "j < length arrivals" "i \<noteq> j" "arrivals ! i = (wi, ci, si)" "arrivals ! j = (wj, cj, sj)"
    and "accept_conn (rt_Config (s_rt s0)) ci = Ok ci'" "opens_with wi (nc_in ci') hi"
    and "accept_conn (rt_Config (s_rt s0)) cj = Ok cj'" "opens_with wj (nc_in cj') hj"
    and "ch_random hi = ch_random hj"
  shows "\<not> (\<exists>a b. ts ! i = Done (Some (Ok (RelayedTLS a))) \<and> ts ! j = Done (Some (Ok (RelayedTLS b))))"
proof
  let ?cfg = "rt_Config (s_rt s0)"
  have "replay_notes ?cfg sha t0 t1 (length (rp_entries c)) s0 (replicate (length arrivals) blank)"
    using assms(3-5) by (simp add: replay_notes_def passed_def List.map_filter_def blank_def)
  from replays.connections_obey [OF assms(1) this assms(2)] obtain gs where gs: "length gs = length arrivals"
    "replay_notes ?cfg sha t0 t1 (length (rp_entries c)) s gs"
    and ends: "\<forall>i < length arrivals. \<forall>r. ts ! i = Done r \<longrightarrow> fits_life (\<lambda>c. c = ?cfg) (fst (arrivals ! i)) (fst (snd (arrivals ! i))) r (gs ! i)"
    by blast
  assume "\<exists>a b. ts ! i = Done (Some (Ok (RelayedTLS a))) \<and> ts ! j = Done (Some (Ok (RelayedTLS b)))"
  then obtain a b where "ts ! i = Done (Some (Ok (RelayedTLS a)))" "ts ! j = Done (Some (Ok (RelayedTLS b)))" by blast
  with ends assms(6,7,9,10) have "fits_life (\<lambda>c. c = ?cfg) wi ci (Some (Ok (RelayedTLS a))) (gs ! i)"
    "fits_life (\<lambda>c. c = ?cfg) wj cj (Some (Ok (RelayedTLS b))) (gs ! j)" by fastforce+
  then have "n_hello (gs ! i) = Some hi" "n_hello (gs ! j) = Some hj"
    using assms(11-14) by (auto simp: fits_life_def fits_def opens_with_def)
  then have "\<not> distinct (map (replayKey sha) (passed gs))"
    using map_filter_repeats [of i gs j n_hello hi hj "replayKey sha"] assms(6-8,15) gs(1) by (simp add: passed_def replayKey_def)
  with gs(2) show False by (auto simp: replay_notes_def)
qed

theorem racing_replays_witness:
  "\<exists>bs se s t. pool_step\<^sup>*\<^sup>* (example_server, connections (replicate 2 (example_world, example_conn bs, example_sink)))
       (s, [Done (Some (Ok (RelayedTLS se))), t]) \<and> (\<nexists>b. t = Done (Some (Ok (RelayedTLS b))))"
proof -
  obtain bs se s' where r: "run (connection_th example_world (example_conn bs) example_sink) example_server = Some (Some (Ok (RelayedTLS se)), s')"
    "opens_with example_world (nc_in (example_conn bs)) ch_example"
    by (rule example_thread)
  let ?as = "replicate 2 (example_world, example_conn bs, example_sink)" and ?t = "connection_th example_world (example_conn bs) example_sink"
  have as: "connections ?as = [?t, ?t]" "?as ! 0 = (example_world, example_conn bs, example_sink)"
    "?as ! 1 = (example_world, example_conn bs, example_sink)" "length ?as = 2"
    by (simp_all add: connections_def numeral_2_eq_2)
  have s: "pool_step\<^sup>*\<^sup>* (example_server, connections ?as) (s', [Done (Some (Ok (RelayedTLS se))), ?t])"
    unfolding as(1) using alone_is_a_schedule [OF r(1), of 0 "[?t, ?t]"] by simp
  have w: "\<forall>a \<in> set ?as. within (pr_sha prims_example) 0 0 (fst a)" by (simp add: within_def example_world_def)
  have acc: "accept_conn (rt_Config (s_rt example_server)) (example_conn bs) = Ok (example_conn bs)"
    using example_accepted by (simp add: example_server_def)
  have rp: "rt_Replay (s_rt example_server) = Some (NewReplayCache (AntireplayMaxEntries (sample_config [])) two_minutes)"
    by (simp add: example_server_def example_fields)
  have "\<not> (\<exists>a b. [Done (Some (Ok (RelayedTLS se))), ?t] ! 0 = Done (Some (Ok (RelayedTLS a)))
      \<and> [Done (Some (Ok (RelayedTLS se))), ?t] ! 1 = Done (Some (Ok (RelayedTLS b))))"
    by (rule racing_replays [OF s w rp _ _ _ _ _ as(2,3) acc r(2) acc r(2) refl])
      (simp_all add: as(4) NewReplayCache_def two_minutes_def AntireplayMaxEntries_def sample_config_def)
  with s show ?thesis by auto
qed

end
