(* ===== verification/Authenticity.thy ===== *)
theory Authenticity
  imports Concurrency
begin

text \<open>
  Who is relayed, under every schedule. While a connection is handled the users, the configuration and the caches may change
  at any time; each check is made at some moment of the schedule, on the state of that moment.
\<close>

section \<open>Checks\<close>

definition hello_fresh :: "world \<Rightarrow> client_hello \<Rightarrow> Runtime \<Rightarrow> bool" where
  "hello_fresh w ch r \<longleftrightarrow> (\<forall>c. rt_Replay r = Some c \<longrightarrow> \<not> fst (Check (pr_sha (w_prims w)) (w_victim w) (w_clock w AtReplay) (Some ch) c))"

definition policy_admits :: "client_hello \<Rightarrow> Runtime \<Rightarrow> bool" where
  "policy_admits ch r \<longleftrightarrow> CheckClientHelloPolicy (Some ch) (tls_ClientHelloPolicy (cfg_TLS (rt_Config r))) = Ok ()"

definition hello_matches :: "world \<Rightarrow> client_hello \<Rightarrow> string \<Rightarrow> Runtime \<Rightarrow> bool" where
  "hello_matches w ch name r \<longleftrightarrow> (\<exists>u \<in> set (m_users (rt_Users r)). u_Enabled u \<and> IsFakeTLS (u_Secret u) \<and> u_Name u = name
     \<and> ValidateClientHello (pr_hmac (w_prims w)) (w_clock w AtMatch) ch (s_key (u_Secret u)) (s_host (u_Secret u)) = Ok ())"

definition header_matches :: "world \<Rightarrow> bytes \<Rightarrow> string \<Rightarrow> int \<Rightarrow> Runtime \<Rightarrow> bool" where
  "header_matches w header name dc r \<longleftrightarrow> (\<exists>u \<in> set (m_users (rt_Users r)). u_Enabled u \<and> IsSecure (u_Secret u) \<and> u_Name u = name
     \<and> TryParseHeader (pr_ks (w_prims w)) (pr_sha (w_prims w)) header (s_key (u_Secret u)) = Some dc)"

lemma matched_hello:
  "MatchClientHello (w_prims w) (w_clock w AtMatch) ch (rt_Users r) = Ok u \<Longrightarrow> hello_matches w ch (u_Name u) r"
  by (auto simp: MatchClientHello_def bind_res_Ok_iff match_hello_loop_Ok hello_valid_def hello_matches_def)

lemma matched_header:
  "MatchSecureHeader (w_prims w) header (rt_Users r) = Ok (u, dc) \<Longrightarrow> header_matches w header (u_Name u) dc r"
  by (auto simp: MatchSecureHeader_def header_matches_def dest: match_secure_loop_Ok)

section \<open>Sessions\<close>

lemma session_of:
  assumes "Ok se \<in> set_thread (relayMTProto_th w crd cwr c dcID user ch remote)"
  shows "se_user se = user" "se_dc se = dcID"
  using assms
  by (auto simp: relayMTProto_th_def run_session_th_def dest!: set_thread_bind split: res.splits option.splits if_splits)

lemma tls_session_of:
  "(Ok se, rec') \<in> set_thread (tls_session_th w cfg ch matched remote rec sk) \<Longrightarrow> se_user se = u_Name matched"
  by (auto simp: tls_session_th_def Let_def dest!: set_thread_bind split: res.splits option.splits) (erule session_of(1))

lemma greeted:
  "(Ok u, sk') \<in> set_thread (tls_greet_th w cfg ch sk) \<Longrightarrow> CheckClientHelloPolicy (Some ch) (tls_ClientHelloPolicy (cfg_TLS cfg)) = Ok ()"
  by (auto simp: tls_greet_th_def split: res.splits)

lemma passes_greet:
  "passes (\<lambda>s. hello_matches w ch name (s_rt s)) (\<lambda>x. \<exists>u. fst x = Ok u \<and> u_Name u = name) (tls_greet_th w cfg ch sk)"
proof -
  have "passes (\<lambda>s. hello_matches w ch name (s_rt s)) (\<lambda>x. \<exists>u. fst x = Ok u \<and> u_Name u = name)
    (case MatchClientHello (w_prims w) (w_clock w AtMatch) ch (rt_Users (s_rt s)) of
      Err e \<Rightarrow> Done (Err (PeMatch e), sk) | Panic \<Rightarrow> Done (Panic, sk)
    | Ok matched \<Rightarrow> bind_thread (atomic (hello_op w cfg ch matched sk)) (\<lambda>(r, sk').
        case r of Err e \<Rightarrow> Done (Err (PeServerHello e), sk') | Panic \<Rightarrow> Done (Panic, sk') | Ok _ \<Rightarrow> Done (Ok matched, sk')))"
    if "\<not> hello_matches w ch name (s_rt s)" for s :: server
  proof (cases "MatchClientHello (w_prims w) (w_clock w AtMatch) ch (rt_Users (s_rt s))")
    case (Ok matched)
    then have "u_Name matched \<noteq> name" using that matched_hello by blast
    then show ?thesis unfolding Ok by (intro passes_results) (auto dest!: set_thread_bind split: res.splits)
  qed simp_all
  then show ?thesis
    unfolding tls_greet_th_def by (auto intro!: passes_bind passes_reads split: res.splits)
qed

lemma passes_policy: "passes (\<lambda>s. policy_admits ch (s_rt s)) (\<lambda>x. fst x = Ok se) (admitted_th w remote ch rec sk)"
proof -
  have "passes (\<lambda>s. policy_admits ch (s_rt s)) (\<lambda>x. fst x = Ok se) (bind_thread (tls_greet_th w (rt_Snapshot (s_rt s)) ch sk) (\<lambda>(r, sk').
      case r of Err e \<Rightarrow> Done (Err e, rec, sk', Some ch) | Panic \<Rightarrow> Done (Panic, rec, sk', Some ch)
      | Ok matched \<Rightarrow> bind_thread (tls_session_th w (rt_Snapshot (s_rt s)) ch matched remote rec sk') (\<lambda>(r, rec'). Done (r, rec', sk', Some ch))))"
    if "\<not> policy_admits ch (s_rt s)" for s
    using that by (intro passes_later) (auto simp: policy_admits_def rt_Snapshot_def dest: greeted split: res.splits)
  then show ?thesis
    unfolding admitted_th_def snapshot_th_def by (intro passes_bind passes_reads) simp
qed

lemma passes_match:
  "passes (\<lambda>s. hello_matches w ch (se_user se) (s_rt s)) (\<lambda>x. fst x = Ok se) (admitted_th w remote ch rec sk)"
proof -
  have "\<exists>u. fst x = Ok u \<and> u_Name u = se_user se"
    if "\<not> passes (\<lambda>s. hello_matches w ch (se_user se) (s_rt s)) (\<lambda>x. fst x = Ok se) (case x of (r, sk') \<Rightarrow>
      case r of Err e \<Rightarrow> Done (Err e, rec, sk', Some ch) | Panic \<Rightarrow> Done (Panic, rec, sk', Some ch)
      | Ok matched \<Rightarrow> bind_thread (tls_session_th w cfg ch matched remote rec sk') (\<lambda>(r, rec'). Done (r, rec', sk', Some ch)))"
    for x :: "(proxy_error, User) res \<times> sink" and cfg
  proof (rule ccontr)
    assume "\<nexists>u. fst x = Ok u \<and> u_Name u = se_user se"
    then have "passes (\<lambda>s. hello_matches w ch (se_user se) (s_rt s)) (\<lambda>x. fst x = Ok se) (case x of (r, sk') \<Rightarrow>
      case r of Err e \<Rightarrow> Done (Err e, rec, sk', Some ch) | Panic \<Rightarrow> Done (Panic, rec, sk', Some ch)
      | Ok matched \<Rightarrow> bind_thread (tls_session_th w cfg ch matched remote rec sk') (\<lambda>(r, rec'). Done (r, rec', sk', Some ch)))"
      by (auto dest!: set_thread_bind intro!: passes_results split: prod.splits res.splits) (metis tls_session_of)
    with that show False by contradiction
  qed
  then show ?thesis
    unfolding admitted_th_def by (intro passes_later passes_bind passes_mono [OF passes_greet])
qed

lemma passes_closure:
  "passes (\<lambda>s. \<exists>ch. opens_with w (rr_stream rec) ch \<and> hello_fresh w ch (s_rt s)) (\<lambda>x. fst x = Ok se) (tls_closure_th w remote rec sk)"
  "passes (\<lambda>s. \<exists>ch. opens_with w (rr_stream rec) ch \<and> policy_admits ch (s_rt s)) (\<lambda>x. fst x = Ok se) (tls_closure_th w remote rec sk)"
  "passes (\<lambda>s. \<exists>ch. opens_with w (rr_stream rec) ch \<and> hello_matches w ch (se_user se) (s_rt s)) (\<lambda>x. fst x = Ok se) (tls_closure_th w remote rec sk)"
proof -
  obtain q st where p: "parseClientHello (w_spare w) (rr_stream rec) = (q, st)" by fastforce
  have caught: "passes Q (\<lambda>x. fst x = Ok se) (bind_thread (count_th f) (\<lambda>_. Done (Err PeReplay, rec', sk, Some ch)))" for Q f rec' ch
    by (intro passes_later) simp
  have greeted: "opens_with w (rr_stream rec) ch" "hello_fresh w ch (s_rt s) \<or> fst (replay_op w ch s)" if "q = Ok ch" for ch s
    using that by (auto simp: opens_with_def p hello_fresh_def replay_op_def split: option.splits prod.splits)
  show "passes (\<lambda>s. \<exists>ch. opens_with w (rr_stream rec) ch \<and> hello_fresh w ch (s_rt s)) (\<lambda>x. fst x = Ok se) (tls_closure_th w remote rec sk)"
  proof (cases q)
    case (Ok ch)
    have "passes (\<lambda>s. \<exists>ch. opens_with w (rr_stream rec) ch \<and> hello_fresh w ch (s_rt s)) (\<lambda>x. fst x = Ok se) (if fst (replay_op w ch s)
        then bind_thread (count_th f) (\<lambda>_. Done (Err PeReplay, rec', sk, Some ch)) else admitted_th w remote ch rec' sk)"
      if "\<nexists>ch. opens_with w (rr_stream rec) ch \<and> hello_fresh w ch (s_rt s)" for s f rec'
      using greeted(1) [OF Ok] greeted(2) [OF Ok, of s] that caught by auto
    then show ?thesis unfolding tls_closure_th_def p Ok Let_def by (auto intro!: passes_bind passes_atomic)
  qed (simp_all add: tls_closure_th_def p)
  have later: "passes (\<lambda>s. \<exists>ch. opens_with w (rr_stream rec) ch \<and> Q ch s) (\<lambda>x. fst x = Ok se) (tls_closure_th w remote rec sk)"
    if Q: "\<And>ch rec. passes (Q ch) (\<lambda>x. fst x = Ok se) (admitted_th w remote ch rec sk)" for Q
  proof (cases q)
    case (Ok ch)
    have "passes (\<lambda>s. \<exists>ch. opens_with w (rr_stream rec) ch \<and> Q ch s) (\<lambda>x. fst x = Ok se) (admitted_th w remote ch rec' sk)" for rec'
      using greeted(1) [OF Ok] by (intro passes_weaken [OF Q [of ch]]) blast
    with caught show ?thesis unfolding tls_closure_th_def p Ok Let_def by (auto intro!: passes_later)
  qed (simp_all add: tls_closure_th_def p)
  show "passes (\<lambda>s. \<exists>ch. opens_with w (rr_stream rec) ch \<and> policy_admits ch (s_rt s)) (\<lambda>x. fst x = Ok se) (tls_closure_th w remote rec sk)"
    by (rule later) (rule passes_policy)
  show "passes (\<lambda>s. \<exists>ch. opens_with w (rr_stream rec) ch \<and> hello_matches w ch (se_user se) (s_rt s)) (\<lambda>x. fst x = Ok se) (tls_closure_th w remote rec sk)"
    by (rule later) (rule passes_match)
qed

lemma passes_FakeTLSPath:
  assumes "passes Q (\<lambda>x. fst x = Ok se) (tls_closure_th w (remoteAddr raddr) rec sk)"
  shows "passes Q (\<lambda>r. r = Ok (RelayedTLS se)) (handleFakeTLSPath_th w rec sk raddr)"
  unfolding handleFakeTLSPath_th_def
proof (rule passes_bind, rule passes_mono [OF assms], rule ccontr)
  fix x :: "(proxy_error, tls_client session) res \<times> ReadRecorder \<times> sink \<times> client_hello option"
  assume n: "fst x \<noteq> Ok se"
  obtain q rec' sk' hello where x: "x = (q, rec', sk', hello)" by (metis prod_cases4)
  assume "\<not> passes Q (\<lambda>r. r = Ok (RelayedTLS se)) (case x of (r, rec, sk, hello) \<Rightarrow> case r of
        Ok se \<Rightarrow> bind_thread onHandshakeSuccess_th (\<lambda>_. Done (Ok (RelayedTLS se)))
      | Err err \<Rightarrow> bind_thread (onHandshakeFailure_th w err) (\<lambda>r. case r of Ok _ \<Rightarrow>
            bind_thread (if \<not> isIOTimeoutErr err then recordProbe_th w raddr else Done ()) (\<lambda>_. handleRejectedTLS_th w rec sk hello)
          | Err e \<Rightarrow> Done (Err e) | Panic \<Rightarrow> Done Panic)
      | Panic \<Rightarrow> Done Panic)"
  moreover have "passes Q (\<lambda>r. r = Ok (RelayedTLS se)) (handleRejectedTLS_th w rec' sk' hello)"
    using rejected_results by (intro passes_results) fastforce
  ultimately show False
    using n by (cases q) (auto simp: x intro!: passes_later split: res.splits)
qed

lemma passes_secure:
  "passes (\<lambda>s. header_matches w header (se_user se) (se_dc se) (s_rt s)) (\<lambda>r. r = Ok se) (handleSecure_th w st sk header remote)"
proof -
  have relayed: "passes Q (\<lambda>r. r = Ok se) (relayMTProto_th w crd cwr c dcID user None remote)"
    if "(user, dcID) \<noteq> (se_user se, se_dc se)" for Q crd cwr c dcID user
  proof (rule passes_results)
    fix r assume r: "r \<in> set_thread (relayMTProto_th w crd cwr c dcID user None remote)"
    show "r \<noteq> Ok se"
    proof
      assume "r = Ok se"
      with r have "Ok se \<in> set_thread (relayMTProto_th w crd cwr c dcID user None remote)" by simp
      from session_of [OF this] that show False by simp
    qed
  qed
  have "passes (\<lambda>s. header_matches w header (se_user se) (se_dc se) (s_rt s)) (\<lambda>r. r = Ok se)
    (case MatchSecureHeader (w_prims w) header (rt_Users (s_rt s)) of
        Err e \<Rightarrow> Done (Err (PeMatch e))
      | Panic \<Rightarrow> Done Panic
      | Ok (matched, dcID) \<Rightarrow>
          (case ConnFromHeader (pr_ks (w_prims w)) (pr_sha (w_prims w)) header (s_key (u_Secret matched)) of
             Err e \<Rightarrow> Done (Err (PeObf e))
           | Panic \<Rightarrow> Done Panic
           | Ok (obf, _) \<Rightarrow>
               relayMTProto_th w (obf_read (pr_ks (w_prims w)) (tcp_read (w_sched w))) (obf_write (pr_ks (w_prims w)) tcp_write) (obf, st, sk)
                 dcID (u_Name matched) None remote))"
    if n: "\<not> header_matches w header (se_user se) (se_dc se) (s_rt s)" for s :: server
  proof (cases "MatchSecureHeader (w_prims w) header (rt_Users (s_rt s))")
    case (Ok m)
    obtain u dc where m: "m = (u, dc)" by fastforce
    then have "(u_Name u, dc) \<noteq> (se_user se, se_dc se)" using n matched_header [of w header "s_rt s" u dc] Ok by auto
    then show ?thesis unfolding Ok m by (auto intro!: relayed split: res.splits)
  qed simp_all
  then show ?thesis
    unfolding handleSecure_th_def Let_def by (intro passes_bind passes_reads) simp
qed

text \<open>The whole handler.\<close>

lemma passes_not_blocked:
  assumes "is_session e"
  shows "passes (\<lambda>s. \<not> blocked_at w conn (s_rt s)) (\<lambda>r. r = Ok e) (handleConnection_th w conn sk)"
proof -
  have "fst (blocked_op w (nc_remote conn) s) = blocked_at w conn (s_rt s)" for s by (simp add: blocked_op_def split: prod.splits)
  then show ?thesis
    unfolding handleConnection_th_def using assms by (intro passes_later passes_bind [of _ _ _ "atomic _"] passes_atomic) (auto intro!: passes_later)
qed

lemma passes_stranger: "is_session e \<Longrightarrow> passes Q (\<lambda>r. r = Ok e) (serve_stranger_th w cfg first st sk raddr)"
  by (intro passes_results) (auto dest!: stranger_results)

lemma recorded_stream:
  assumes "conn_read sched (Suc 0) st = (Inr bs, st')"
  shows "rr_stream (Prepend [hd bs] \<lparr>rr_conn = st', rr_capture = [], rr_pending = []\<rparr>) = st" "st_in st = hd bs # st_in st'"
  using assms by (cases "st_in st"; auto simp: conn_read_def rr_stream_def Prepend_def Let_def)+

lemma passes_tls:
  assumes "\<And>rec remote. rr_stream rec = nc_in conn \<Longrightarrow> passes Q (\<lambda>x. fst x = Ok se) (tls_closure_th w remote rec sk)"
  shows "passes Q (\<lambda>r. r = Ok (RelayedTLS se)) (handleConnection_th w conn sk)"
proof -
  have secure: "passes Q (\<lambda>r. r = Ok (RelayedTLS se)) (bind_thread (handleSecure_th w st sk header remote) (\<lambda>r. case r of
      Ok se \<Rightarrow> Done (Ok (RelayedSecure se)) | Err _ \<Rightarrow> serve_stranger_th w cfg first st sk raddr | Panic \<Rightarrow> Done Panic))"
    for st header remote cfg first raddr
    by (rule passes_later) (auto intro!: passes_stranger split: res.splits)
  show ?thesis
    unfolding handleConnection_th_def Let_def
    by (auto intro!: passes_later secure passes_stranger passes_FakeTLSPath assms recorded_stream(1) split: sum.splits prod.splits)
qed

lemma passes_plain:
  "passes (\<lambda>s. header_matches w (take 64 (st_in (nc_in conn))) (se_user se) (se_dc se) (s_rt s)) (\<lambda>r. r = Ok (RelayedSecure se)) (handleConnection_th w conn sk)"
proof -
  let ?Q = "\<lambda>s. header_matches w (take 64 (st_in (nc_in conn))) (se_user se) (se_dc se) (s_rt s)"
  have tls: "passes ?Q (\<lambda>r. r = Ok (RelayedSecure se)) (handleFakeTLSPath_th w rec sk raddr)" for rec raddr
  proof -
    have "passes ?Q (\<lambda>r. r = Ok (RelayedSecure se)) (handleRejectedTLS_th w rec' sk' hello)" for rec' sk' hello
      using rejected_results by (intro passes_results) fastforce
    then show ?thesis unfolding handleFakeTLSPath_th_def by (auto intro!: passes_later split: res.splits prod.splits)
  qed
  have secure: "passes ?Q (\<lambda>r. r = Ok (RelayedSecure se)) (bind_thread (handleSecure_th w st sk (hd bs # rest) remote) (\<lambda>r. case r of
      Ok se \<Rightarrow> Done (Ok (RelayedSecure se)) | Err _ \<Rightarrow> serve_stranger_th w cfg first st sk raddr | Panic \<Rightarrow> Done Panic))"
    if c: "conn_read (w_sched w) (Suc 0) (nc_in conn) = (Inr bs, st0)" "read_full 63 st0 = (Inr rest, st)" for bs st0 rest st remote cfg first raddr
  proof -
    have "take 64 (st_in (nc_in conn)) = hd bs # rest"
      using recorded_stream(2) [OF c(1)] c(2) by (auto simp: read_full_def split: if_splits)
    then have "passes ?Q (\<lambda>r. r = Ok se) (handleSecure_th w st sk (hd bs # rest) remote)"
      using passes_secure [of w "hd bs # rest" se] by simp
    then show ?thesis by (intro passes_bind, elim passes_mono) (auto intro: passes_stranger split: res.splits)
  qed
  have dropped: "passes ?Q (\<lambda>r. r = Ok (RelayedSecure se)) (bind_thread (count_th f) (\<lambda>_. Done (Ok Dropped)))" for f
    by (rule passes_later) simp
  show ?thesis
    unfolding handleConnection_th_def Let_def
    by (rule passes_later, rule passes_later) (auto intro!: dropped secure tls passes_stranger split: sum.splits prod.splits)
qed

section \<open>Every schedule\<close>

lemma passes_goroutine:
  assumes "passes Q (\<lambda>r. r = Ok e) (handleConnection_th w conn sk)"
  shows "passes Q (\<lambda>r. r = Some (Ok e)) (goroutine_th w conn sk)"
proof -
  have released: "passes Q (\<lambda>r. r = Some (Ok e)) (bind_thread (writes f) (\<lambda>_. Done (Some r)))" if "r \<noteq> Ok e" for f r
    using that by (intro passes_later) simp
  show ?thesis
    unfolding goroutine_th_def by (rule passes_later, rule passes_bind, rule passes_mono [OF assms]) (use released in blast)
qed

text \<open>What a connection does after the first look at the configuration.\<close>

definition accepted_th :: "world \<Rightarrow> net_conn \<Rightarrow> sink \<Rightarrow> (unit, ending) res option conn_thread" where
  "accepted_th w conn sk = bind_thread (atomic (acquire_op conn)) (\<lambda>ok. if ok then goroutine_th w conn sk else Done None)"

definition as_job :: "(unit, ending) res option conn_thread \<Rightarrow> (shared, job_result) thread" where
  "as_job t = bind_thread (on_part (pg_server \<circ> fst) set_server t) (\<lambda>r. Done (Handled r))"

lemma connection_job:
  "job_th (Connection w conn sk) = Act (\<lambda>p. set_server (pg_server (fst p)) p) (\<lambda>p. as_job
     (case accept_conn (rt_Config (as_rt (pg_admin (fst p)))) conn of Ok conn' \<Rightarrow> accepted_th w conn' sk | Err e \<Rightarrow> Done None | Panic \<Rightarrow> Done (Some Panic)))"
  by (simp only: job_th.simps connection_th_def snapshot_th_def reads_def atomic_def bind_thread.simps on_part.simps as_job_def accepted_th_def
      comp_apply prod.sel rt_Snapshot_def pg_server_sel)

lemma passes_job:
  assumes "passes (\<lambda>s. Q (s_rt s)) (\<lambda>r. r = Some (Ok e)) t"
  shows "passes (\<lambda>p. Q (as_rt (pg_admin (fst p)))) (\<lambda>r. r = Handled (Some (Ok e))) (as_job t)"
proof -
  have "passes (\<lambda>p. Q (as_rt (pg_admin (fst p)))) (\<lambda>r. r = Some (Ok e)) (on_part (pg_server \<circ> fst) set_server t)"
    using passes_on_part [OF assms, of "pg_server \<circ> fst" set_server] by (simp add: comp_def)
  then show ?thesis unfolding as_job_def by (intro passes_bind) simp
qed

lemma passes_accepted:
  "passes (\<lambda>s. Q (s_rt s)) (\<lambda>r. r = Ok e) (handleConnection_th w conn sk) \<Longrightarrow>
     passes (\<lambda>p. Q (as_rt (pg_admin (fst p)))) (\<lambda>r. r = Handled (Some (Ok e))) (as_job (accepted_th w conn sk))"
  unfolding accepted_th_def by (intro passes_job passes_later) (simp add: passes_goroutine)

lemma connection_accepted:
  assumes "pool_step\<^sup>*\<^sup>* (p0, map job_th jobs) (p, ts)" "i < length jobs" "jobs ! i = Connection w conn sk"
    and "ts ! i = Done (Handled (Some (Ok e)))"
  shows "\<exists>p1 ts1 conn'. pool_step\<^sup>*\<^sup>* (p0, map job_th jobs) (p1, ts1) \<and> pool_step\<^sup>*\<^sup>* (p1, ts1) (p, ts)
    \<and> accept_conn (rt_Config (as_rt (pg_admin (fst p1)))) conn = Ok conn'
    \<and> (\<forall>Q. passes (\<lambda>s. Q (s_rt s)) (\<lambda>r. r = Ok e) (handleConnection_th w conn' sk) \<longrightarrow>
      moment (\<lambda>p. Q (as_rt (pg_admin (fst p)))) (p0, map job_th jobs) (p, ts))"
proof -
  let ?ts = "map job_th jobs" and ?P = "\<lambda>r. r = Handled (Some (Ok e))"
  define rest where "rest p = (case accept_conn (rt_Config (as_rt (pg_admin (fst p)))) conn of Ok conn' \<Rightarrow> accepted_th w conn' sk
    | Err e \<Rightarrow> Done None | Panic \<Rightarrow> Done (Some Panic))" for p :: shared
  define look where "look p = set_server (pg_server (fst p)) p" for p :: shared
  have len: "i < length ?ts" and act: "?ts ! i = Act look (\<lambda>p. as_job (rest p))"
    using assms(2,3) by (simp_all add: connection_job rest_def [abs_def] look_def [abs_def] del: job_th.simps)
  from first_action [OF assms(1) len act assms(4)] obtain p1 ts1 where p1: "pool_step\<^sup>*\<^sup>* (p0, ?ts) (p1, ts1)"
    "pool_step (p1, ts1) (look p1, ts1[i := as_job (rest p1)])" "length ts1 = length ?ts" "pool_step\<^sup>*\<^sup>* (look p1, ts1[i := as_job (rest p1)]) (p, ts)"
    by blast
  have m: "moment Q (p0, ?ts) (p, ts)" if "passes Q ?P (as_job (rest p1))" for Q
  proof (rule moment_earlier)
    show "pool_step\<^sup>*\<^sup>* (p0, ?ts) (look p1, ts1[i := as_job (rest p1)])" using p1(1,2) by simp
    show "moment Q (look p1, ts1[i := as_job (rest p1)]) (p, ts)"
      using passes_moment [OF p1(4), of i Q ?P] that assms(2,4) p1(3) by simp
  qed
  have "\<exists>conn'. accept_conn (rt_Config (as_rt (pg_admin (fst p1)))) conn = Ok conn'"
  proof (rule ccontr)
    assume "\<nexists>conn'. accept_conn (rt_Config (as_rt (pg_admin (fst p1)))) conn = Ok conn'"
    then have "passes (\<lambda>_. False) ?P (as_job (rest p1))" by (auto simp: rest_def as_job_def split: res.splits)
    from m [OF this] show False by (simp add: moment_def)
  qed
  then obtain conn' where c: "accept_conn (rt_Config (as_rt (pg_admin (fst p1)))) conn = Ok conn'" by blast
  then have r: "rest p1 = accepted_th w conn' sk" by (simp add: rest_def)
  have "pool_step\<^sup>*\<^sup>* (p1, ts1) (p, ts)" using p1(2,4) by (rule converse_rtranclp_into_rtranclp)
  with p1(1) c show ?thesis by (intro exI [of _ p1] exI [of _ ts1] exI [of _ conn']) (simp add: m r passes_accepted)
qed


text \<open>
  C4. Only authenticated clients are relayed, whatever happens meanwhile. In every schedule of connections, management requests and
  reloads, a connection that ends in a relayed session was accepted under a configuration of some moment, its address
  was not blocked at some moment, and for Fake TLS its stream opened with a hello that at some moment the replay cache did
  not have, at some moment passed the policy in force, and at some moment matched the key, the time and the host
  of an enabled Fake TLS user of that moment, whose session it is; in the plain mode its first 64 bytes at some moment
  matched an enabled user of that mode, whose session it is, to the data centre of the session.
\<close>

theorem authentic_under_schedules:
  assumes "pool_step\<^sup>*\<^sup>* (p0, map job_th jobs) (p, ts)" "i < length jobs" "jobs ! i = Connection w conn sk"
    and "ts ! i = Done (Handled (Some (Ok e)))" "is_session e"
  shows "\<exists>cfg conn'. accept_conn cfg conn = Ok conn'
    \<and> moment (\<lambda>p. rt_Config (as_rt (pg_admin (fst p))) = cfg) (p0, map job_th jobs) (p, ts)
    \<and> moment (\<lambda>p. \<not> blocked_at w conn' (as_rt (pg_admin (fst p)))) (p0, map job_th jobs) (p, ts)
    \<and> (case e of
         RelayedTLS se \<Rightarrow> \<exists>ch. opens_with w (nc_in conn') ch
           \<and> moment (\<lambda>p. hello_fresh w ch (as_rt (pg_admin (fst p)))) (p0, map job_th jobs) (p, ts)
           \<and> moment (\<lambda>p. policy_admits ch (as_rt (pg_admin (fst p)))) (p0, map job_th jobs) (p, ts)
           \<and> moment (\<lambda>p. hello_matches w ch (se_user se) (as_rt (pg_admin (fst p)))) (p0, map job_th jobs) (p, ts)
       | RelayedSecure se \<Rightarrow>
           moment (\<lambda>p. header_matches w (take 64 (st_in (nc_in conn'))) (se_user se) (se_dc se) (as_rt (pg_admin (fst p)))) (p0, map job_th jobs) (p, ts)
       | _ \<Rightarrow> False)"
proof -
  let ?M = "\<lambda>Q. moment (\<lambda>p. Q (as_rt (pg_admin (fst p)))) (p0, map job_th jobs) (p, ts)"
  from connection_accepted [OF assms(1-4)] obtain p1 ts1 conn' where p1: "pool_step\<^sup>*\<^sup>* (p0, map job_th jobs) (p1, ts1)"
    "pool_step\<^sup>*\<^sup>* (p1, ts1) (p, ts)" "accept_conn (rt_Config (as_rt (pg_admin (fst p1)))) conn = Ok conn'"
    and ms: "\<forall>Q. passes (\<lambda>s. Q (s_rt s)) (\<lambda>r. r = Ok e) (handleConnection_th w conn' sk) \<longrightarrow> ?M Q"
    by (elim exE conjE) (rule that)
  have m: "?M Q" if "passes (\<lambda>s. Q (s_rt s)) (\<lambda>r. r = Ok e) (handleConnection_th w conn' sk)" for Q
    using ms [rule_format, OF that] .
  have cfg: "?M (\<lambda>r. rt_Config r = rt_Config (as_rt (pg_admin (fst p1))))" using p1(1,2) by (rule momentI) simp
  have blocked: "?M (\<lambda>r. \<not> blocked_at w conn' r)" using passes_not_blocked [OF assms(5)] by (rule m)
  show ?thesis
  proof (cases e)
    case (RelayedTLS se)
    have at: "\<exists>ch. opens_with w (nc_in conn') ch \<and> ?M (Q ch)"
      if "\<And>rec remote. rr_stream rec = nc_in conn' \<Longrightarrow>
        passes (\<lambda>s. \<exists>ch. opens_with w (rr_stream rec) ch \<and> Q ch (s_rt s)) (\<lambda>x. fst x = Ok se) (tls_closure_th w remote rec sk)" for Q
    proof -
      have "?M (\<lambda>r. \<exists>ch. opens_with w (nc_in conn') ch \<and> Q ch r)"
      proof (rule m, unfold RelayedTLS, rule passes_tls)
        fix rec remote assume "rr_stream rec = nc_in conn'"
        with that [OF this] show "passes (\<lambda>s. \<exists>ch. opens_with w (nc_in conn') ch \<and> Q ch (s_rt s)) (\<lambda>x. fst x = Ok se) (tls_closure_th w remote rec sk)" by simp
      qed
      then show ?thesis unfolding moment_def by blast
    qed
    have one: "ch = ch'" if "opens_with w (nc_in conn') ch" "opens_with w (nc_in conn') ch'" for ch ch' using that by (simp add: opens_with_def)
    from at [OF passes_closure(1)] at [OF passes_closure(2)] at [OF passes_closure(3)] one
    have "\<exists>ch. opens_with w (nc_in conn') ch \<and> ?M (hello_fresh w ch) \<and> ?M (policy_admits ch) \<and> ?M (hello_matches w ch (se_user se))" by metis
    with RelayedTLS p1(3) cfg blocked show ?thesis by (intro exI conjI) simp_all
  next
    case (RelayedSecure se)
    have "?M (header_matches w (take 64 (st_in (nc_in conn'))) (se_user se) (se_dc se))"
      by (rule m) (simp add: RelayedSecure passes_plain)
    with RelayedSecure p1(3) cfg blocked show ?thesis by (intro exI conjI) simp_all
  qed (use assms(5) in simp_all)
qed


definition example_shared :: shared where
  "example_shared = (\<lparr>pg_admin = \<lparr>as_rt = example_runtime, as_mgmt = cfg_Management (sample_config []), as_listener = None, as_disk = None, as_actions = []\<rparr>,
     pg_metrics = None, pg_services = [], pg_log = LevelInfo\<rparr>, [])"

lemma run_job:
  assumes "run (connection_th w conn sk) (pg_server (fst p)) = Some (r, s')"
  shows "run (job_th (Connection w conn sk)) p = Some (Handled r, set_server s' p)"
proof -
  have "run (on_part (pg_server \<circ> fst) set_server (connection_th w conn sk)) p =
      map_option (\<lambda>(r, s). (r, set_server s p)) (run (connection_th w conn sk) ((pg_server \<circ> fst) p))"
    by (rule run_on_part) (simp_all add: set_server_def pg_server_def with_server_def)
  with assms show ?thesis by (simp add: run_bind)
qed

theorem authentic_under_schedules_witness:
  "\<exists>bs se p ch. pool_step\<^sup>*\<^sup>* (example_shared, map job_th [Connection example_world (example_conn bs) example_sink]) (p, [Done (Handled (Some (Ok (RelayedTLS se))))])
     \<and> moment (\<lambda>p. hello_matches example_world ch ''b'' (as_rt (pg_admin (fst p))))
         (example_shared, map job_th [Connection example_world (example_conn bs) example_sink]) (p, [Done (Handled (Some (Ok (RelayedTLS se))))])"
proof -
  obtain bs se s' where r: "run (connection_th example_world (example_conn bs) example_sink) example_server = Some (Some (Ok (RelayedTLS se)), s')"
    "se_user se = ''b''"
    by (rule example_thread)
  let ?jobs = "[Connection example_world (example_conn bs) example_sink]" and ?ts = "[Done (Handled (Some (Ok (RelayedTLS se))))]"
  let ?p = "set_server s' example_shared"
  have "pg_server (fst example_shared) = example_server" by (simp add: example_shared_def pg_server_def example_server_def)
  with r(1) have "run (job_th (Connection example_world (example_conn bs) example_sink)) example_shared = Some (Handled (Some (Ok (RelayedTLS se))), ?p)"
    by (intro run_job) simp
  from alone_is_a_schedule [OF this, of 0 "map job_th ?jobs"]
  have s: "pool_step\<^sup>*\<^sup>* (example_shared, map job_th ?jobs) (?p, ?ts)" by (simp del: job_th.simps)
  have j: "0 < length ?jobs" "?jobs ! 0 = Connection example_world (example_conn bs) example_sink"
    "?ts ! 0 = Done (Handled (Some (Ok (RelayedTLS se))))" "is_session (RelayedTLS se)" by simp_all
  obtain ch where "moment (\<lambda>p. hello_matches example_world ch (se_user se) (as_rt (pg_admin (fst p)))) (example_shared, map job_th ?jobs) (?p, ?ts)"
    using authentic_under_schedules [OF s j] by (simp del: job_th.simps list.map) blast
  with s r(2) show ?thesis by (intro exI [of _ bs] exI [of _ se] exI [of _ ?p] exI [of _ ch]) (simp del: job_th.simps)
qed

end
