(* ===== verification/WebText.thy ===== *)
theory WebText
  imports AdminUI
begin

text \<open>
  Text of the web interface, \<open>internal/admin/ui/handler.go\<close>: byte counts as the templates show them, and the cookie of a
  session. \<open>formatBytes\<close> divides in floating point; the divisor is a power of two, so the quotient is exact but for
  the rounding of the count to 53 bits, and all of it is integer arithmetic here.
\<close>

section \<open>Byte counts\<close>

text \<open>Division that rounds to the nearest integer, halves to the even one.\<close>

definition round_div :: "nat \<Rightarrow> nat \<Rightarrow> nat" where
  "round_div a b = (let q = a div b; r = a mod b in if 2 * r < b \<or> 2 * r = b \<and> even q then q else q + 1)"

text \<open>\<open>float64\<close> of an integer that fits into 64 bits: what is over 53 bits is rounded away.\<close>

fun excess :: "nat \<Rightarrow> nat" where
  "excess n = (if n < 2 ^ 53 then 0 else Suc (excess (n div 2)))"

declare excess.simps [simp del]

definition float64 :: "nat \<Rightarrow> nat" where
  "float64 n = (let b = 2 ^ excess n in round_div n b * b)"

definition byte_unit :: nat where "byte_unit = 1024"

fun unit_loop :: "nat \<Rightarrow> nat \<Rightarrow> nat \<Rightarrow> nat \<times> nat" where
  "unit_loop cur d e = (if cur \<ge> 1024 then unit_loop (cur div 1024) (d * 1024) (e + 1) else (d, e))"

declare unit_loop.simps [simp del]

definition formatBytes :: "int \<Rightarrow> (unit, string) res" where
  "formatBytes n =
     (if n < int byte_unit then Ok (dec_int n @ '' B'')
      else case unit_loop (nat n div byte_unit) byte_unit 0 of (d, e) \<Rightarrow>
        let tenths = round_div (10 * float64 (nat n)) d in
        if e < length ''KMGTPE''
        then Ok (dec_nat (tenths div 10) @ ''.'' @ dec_nat (tenths mod 10) @ '' '' @ [''KMGTPE'' ! e] @ ''B'')
        else Panic)"

lemma unit_loop_spec:
  "0 < cur \<Longrightarrow> \<exists>k. unit_loop cur d e = (d * 1024 ^ k, e + k) \<and> 1024 ^ k \<le> cur \<and> cur < 1024 ^ Suc k"
proof (induction cur d e rule: unit_loop.induct)
  case (1 cur d e)
  show ?case
  proof (cases "cur \<ge> 1024")
    case True
    then have "0 < cur div 1024" by (simp add: div_greater_zero_iff)
    with 1(1) True obtain k where k: "unit_loop (cur div 1024) (d * 1024) (e + 1) = (d * 1024 * 1024 ^ k, e + 1 + k)"
      "1024 ^ k \<le> cur div 1024" "cur div 1024 < 1024 ^ Suc k" by blast
    have "1024 ^ Suc k \<le> cur" "cur < 1024 ^ Suc (Suc k)"
      using k(2,3) by (simp_all add: less_eq_div_iff_mult_less_eq div_less_iff_less_mult mult.commute)
    with k(1) True show ?thesis by (intro exI [of _ "Suc k"]) (simp add: unit_loop.simps [of cur])
  next
    case False
    with 1(2) show ?thesis by (intro exI [of _ 0]) (simp add: unit_loop.simps [of cur])
  qed
qed

lemma round_div_error:
  assumes "0 < b"
  shows "\<bar>2 * int a - 2 * int (round_div a b) * int b\<bar> \<le> int b"
proof -
  have "a = a div b * b + a mod b" by simp
  then have a: "int a = int (a div b) * int b + int (a mod b)" by (metis of_nat_add of_nat_mult)
  have "int (a mod b) < int b" using assms by simp
  with a show ?thesis by (auto simp: round_div_def Let_def algebra_simps)
qed

lemma float64_exact: "n < 2 ^ 53 \<Longrightarrow> float64 n = n"
  by (simp add: float64_def excess.simps round_div_def)

lemma unit_of:
  assumes "1024 \<le> n" "n < 2 ^ 63"
  obtains k where "unit_loop (nat n div byte_unit) byte_unit 0 = (1024 ^ Suc k, k)" "k < 6" "1024 ^ Suc k \<le> n" "n < 1024 ^ Suc (Suc k)"
proof -
  have "0 < nat n div 1024" using assms(1) by (simp add: div_greater_zero_iff)
  then obtain k where k: "unit_loop (nat n div 1024) 1024 0 = (1024 * 1024 ^ k, 0 + k)" "1024 ^ k \<le> nat n div 1024" "nat n div 1024 < 1024 ^ Suc k"
    using unit_loop_spec by blast
  have b: "1024 ^ Suc k \<le> nat n" "nat n < 1024 ^ Suc (Suc k)"
    using k(2,3) by (simp_all add: less_eq_div_iff_mult_less_eq div_less_iff_less_mult mult.commute)
  have bi: "1024 ^ Suc k \<le> n" "n < 1024 ^ Suc (Suc k)"
    using b assms(1) by (simp_all add: le_nat_iff nat_less_iff)
  have "(2 :: int) ^ (10 * Suc k) = 1024 ^ Suc k" by (simp only: power_mult) simp
  then have "(2 :: int) ^ (10 * Suc k) < 2 ^ 63" using bi(1) assms(2) by linarith
  then have "10 * Suc k < 63" by (rule power_less_imp_less_exp [rotated]) simp
  with k(1) bi show thesis by (intro that [of k]) (simp_all add: byte_unit_def)
qed

text \<open>
  What is shown is the count divided by the unit, to the nearest tenth, and the unit is the largest that the count reaches. The
  loop stops within the six units, so the index into their names never panics.
\<close>

lemma formatBytes_shows:
  assumes "1024 \<le> n" "n < 2 ^ 53"
  shows "\<exists>k t. k < 6 \<and> 1024 ^ Suc k \<le> n \<and> n < 1024 ^ Suc (Suc k) \<and> \<bar>20 * n - 2 * int t * 1024 ^ Suc k\<bar> \<le> 1024 ^ Suc k
    \<and> formatBytes n = Ok (dec_nat (t div 10) @ ''.'' @ dec_nat (t mod 10) @ '' '' @ [''KMGTPE'' ! k] @ ''B'')"
proof -
  obtain k where k: "unit_loop (nat n div byte_unit) byte_unit 0 = (1024 ^ Suc k, k)" "k < 6" "1024 ^ Suc k \<le> n" "n < 1024 ^ Suc (Suc k)"
    using unit_of [OF assms(1)] assms(2) by force
  let ?t = "round_div (10 * nat n) (1024 ^ Suc k)"
  have "\<bar>2 * int (10 * nat n) - 2 * int ?t * int (1024 ^ Suc k)\<bar> \<le> int (1024 ^ Suc k)" by (rule round_div_error) simp
  then have e: "\<bar>20 * n - 2 * int ?t * 1024 ^ Suc k\<bar> \<le> 1024 ^ Suc k" using assms(1) by simp
  have "float64 (nat n) = nat n" using assms by (intro float64_exact) (simp add: nat_less_iff)
  then have "formatBytes n = Ok (dec_nat (?t div 10) @ ''.'' @ dec_nat (?t mod 10) @ '' '' @ [''KMGTPE'' ! k] @ ''B'')"
    using assms(1) k(1,2) by (simp add: formatBytes_def byte_unit_def Let_def)
  with k(2-4) e show ?thesis by (intro exI [of _ k] exI [of _ ?t] conjI)
qed

lemma formatBytes_total: "n < 2 ^ 63 \<Longrightarrow> formatBytes n \<noteq> Panic"
proof (cases "1024 \<le> n")
  case True
  assume "n < 2 ^ 63"
  then obtain k where "unit_loop (nat n div byte_unit) byte_unit 0 = (1024 ^ Suc k, k)" "k < 6" using unit_of [OF True] by blast
  then show ?thesis by (simp add: formatBytes_def Let_def)
qed (simp add: formatBytes_def byte_unit_def)

lemma formatBytes_examples:
  "formatBytes 1023 = Ok ''1023 B''" "formatBytes 1536 = Ok ''1.5 KB''" "formatBytes 1048575 = Ok ''1024.0 KB''"
  by (simp add: formatBytes_def byte_unit_def unit_loop.simps float64_exact round_div_def dec_int_def dec_nat.simps dec_digit_def, code_simp)+

section \<open>The cookie of a session\<close>

record cookie =
  ck_Name :: string
  ck_Value :: string
  ck_Path :: string
  ck_HttpOnly :: bool
  ck_SameSite :: string
  ck_MaxAge :: nat

definition sessionCookie :: string where "sessionCookie = ''phantom_session''"

definition setSession :: "admin_state \<Rightarrow> cookie" where
  "setSession s = \<lparr>ck_Name = sessionCookie, ck_Value = man_Token (as_mgmt s), ck_Path = ''/'', ck_HttpOnly = True,
     ck_SameSite = ''Lax'', ck_MaxAge = 86400 * 7\<rparr>"

text \<open>
  \<open>http.SetCookie\<close> drops the characters that a value may not have and quotes one with a space or a comma; \<open>Request.Cookie\<close> takes the
  quotes off and ignores a cookie with such a character. The browser sends back what it was given.
\<close>

definition cookie_char :: "char \<Rightarrow> bool" where
  "cookie_char c \<longleftrightarrow> 32 \<le> (of_char c :: nat) \<and> (of_char c :: nat) < 127 \<and> c \<notin> {CHR 0x22, CHR '';'', CHR 0x5C}"

definition sanitizeCookieValue :: "string \<Rightarrow> string" where
  "sanitizeCookieValue v =
     (let v = filter cookie_char v in
      if CHR '' '' \<in> set v \<or> CHR '','' \<in> set v then CHR 0x22 # v @ [CHR 0x22] else v)"

definition parseCookieValue :: "string \<Rightarrow> string option" where
  "parseCookieValue raw =
     (let v = (if 1 < length raw \<and> hd raw = CHR 0x22 \<and> last raw = CHR 0x22 then butlast (tl raw) else raw)
      in if list_all cookie_char v then Some v else None)"

definition next_request :: "cookie \<Rightarrow> api_request \<Rightarrow> api_request" where
  "next_request c r = r\<lparr>ar_Cookie := parseCookieValue (sanitizeCookieValue (ck_Value c))\<rparr>"

lemma cookie_travels: "parseCookieValue (sanitizeCookieValue v) = Some (filter cookie_char v)"
proof -
  have q: "\<not> cookie_char (CHR 0x22)" by (simp add: cookie_char_def)
  have v: "list_all cookie_char (filter cookie_char v)" by (simp add: list_all_iff)
  show ?thesis
  proof (cases "CHR '' '' \<in> set (filter cookie_char v) \<or> CHR '','' \<in> set (filter cookie_char v)")
    case True
    then show ?thesis using v by (simp add: sanitizeCookieValue_def parseCookieValue_def Let_def)
  next
    case False
    have "\<not> (1 < length (filter cookie_char v) \<and> hd (filter cookie_char v) = CHR 0x22)"
    proof
      assume "1 < length (filter cookie_char v) \<and> hd (filter cookie_char v) = CHR 0x22"
      then have "CHR 0x22 \<in> set (filter cookie_char v)" by (metis hd_in_set length_0_conv not_one_less_zero)
      with q show False by simp
    qed
    with False v show ?thesis by (simp only: sanitizeCookieValue_def parseCookieValue_def Let_def) auto
  qed
qed

text \<open>
  Who has logged in has a session, if the token has only characters that a cookie may carry. With any other token the login
  succeeds and the next page asks for it again.
\<close>

lemma session_after_login:
  "hasSession (next_request (setSession s) r) s \<longleftrightarrow> (\<forall>c \<in> set (man_Token (as_mgmt s)). cookie_char c)"
  by (auto simp: hasSession_def next_request_def setSession_def cookie_travels filter_id_conv)

end
