(* ===== verification/Spec2Isabelle.thy ===== *)
theory Spec2Isabelle
  imports Secret ClientHello Readers TlsRecord Rotators ServerHello Replay Limiter Blacklist Stats Obfuscated2 Fingerprints
    UserManager RelayTunnel MiddleCrypto MiddleProxy Config Runtime Pipe ProxyNet Metrics ProxyServer ProxyGuarantees ProxyProperties Fallback Service Admin AdminUI AdminProperties Startup HalfClose Lifecycle Servers TestBed
    Threads ConnThreads ConnNotes ReloadThreads SharedInvariants Concurrency Authenticity WebText
begin

text \<open>
  \<^bold>\<open>PhantomProxy\<close>, a proxy for Telegram's MTProto that disguises itself as a TLS server. A client proves
  with an HMAC inside a TLS ClientHello that it knows a user's secret; the server answers with a synthetic
  ServerHello, and both go on with TLS application records that carry an obfuscated2 stream. The server decrypts
  that stream and copies it to a Telegram data centre. Whoever does not authenticate is spliced to a genuine web
  site or meets an HTTP honeypot. Users and settings are changed while the proxy runs, through a management API
  and web pages.

  \<^bold>\<open>How the parts interact.\<close> \<open>main\<close> loads the configuration and makes one runtime, which the proxy server, the
  management server and the metrics share. For every connection the accept loop reads the PROXY header if
  configured, asks the limiter, and starts a thread with \<open>handleConnection\<close>. This asks the blacklist,
  looks at the first byte and takes one of three ways: Fake TLS (ClientHello, replay cache, policy, user manager
  and fingerprint lists, ServerHello, record layer, obfuscated2 header), plain obfuscated2, or the fallback. An
  authenticated client is connected to a data centre directly, through a middle proxy, or through the relay tunnel
  to a second proxy; two threads copy the bytes, and statistics and metrics count them.

  \<^bold>\<open>The theories\<close>, in the order of their imports, with the code they model (paths under \<open>src/\<close>).

  \<^item> \<open>GoBase\<close>: what the code uses of Go. Outcomes of a call (\<open>res\<close>: \<open>Ok\<close>, \<open>Err\<close>, \<open>Panic\<close>), bytes and their codecs,
    slices with length and capacity, decimal and hexadecimal text, input streams with the error that ends them,
    and output sinks that may run out of room. \<open>Readers\<close>: the contract of \<open>io.Reader\<close> as the locale \<open>byte_reader\<close>
    (a read returns a non-empty part of what is pending, in order, or an error), in which \<open>io.ReadFull\<close> is proved
    correct once; every connection wrapper interprets it.
  \<^item> \<open>Secret\<close> (\<open>internal/mtproto/secret.go\<close>): which texts \<open>ParseSecret\<close> accepts, and that printing and parsing are inverse.
  \<^item> \<open>ClientHello\<close> (\<open>internal/faketls/client_hello.go\<close>, \<open>client_hello_policy.go\<close>, the builder in \<open>client.go\<close>): the parser reads every
    message of the wire format, panics exactly on the records whose fields overrun, the HMAC check accepts exactly
    the hellos it should, and a generated hello is accepted.
  \<^item> \<open>TlsRecord\<close> (\<open>record.go\<close>, \<open>fronting.go\<close>, \<open>rand.go\<close>): what is written are complete records within the bounds, carrying the
    bytes reported as written; reading gives them back; the recorder keeps what it reads.
  \<^item> \<open>Rotators\<close> (\<open>pool.go\<close>, \<open>sni.go\<close>, the rotator of \<open>server_hello.go\<close>): one locale for the three rotators; picks stay in the pool.
    \<open>ServerHello\<close> (\<open>server_hello.go\<close>, \<open>client.go\<close>): the client's reader accepts the server's packet for every profile.
    \<open>Replay\<close> (\<open>replay.go\<close>): replays are detected and the cache is bounded. \<open>Fingerprints\<close> (\<open>fingerprint.go\<close>): JA3 and JA4.
  \<^item> \<open>Limiter\<close> (\<open>internal/limit\<close>), \<open>Blacklist\<close> (\<open>internal/probe\<close>), \<open>Stats\<close> (\<open>internal/stats\<close>), \<open>Metrics\<close> (\<open>internal/metrics\<close>): the
    limiter counts the live connections, a block lasts for its term, counters are exact modulo their width.
  \<^item> \<open>Obfuscated2\<close> (\<open>internal/obfuscated2\<close>): headers are accepted by the other side with the data centre they name, and the
    stream on top of any reader gives the client's bytes.
  \<^item> \<open>UserManager\<close> (\<open>internal/user/manager.go\<close>): matching finds the first valid user; every operation keeps the manager usable
    or reports that it does not.
  \<^item> \<open>RelayTunnel\<close> (\<open>internal/relay/tunnel.go\<close>): the handshake needs the shared key, and what a front writes a back reads.
  \<^item> \<open>MiddleCrypto\<close>, \<open>MiddleProxy\<close> (\<open>internal/middleproxy\<close>): frames and cipher blocks round trip, the handshake succeeds with an
    honest middle proxy, uploads become requests and answers become downloads, packet by packet.
  \<^item> \<open>Config\<close> (\<open>internal/config\<close>), \<open>Runtime\<close> (\<open>internal/runtime\<close>): defaults and validation; every runtime operation refines the
    operation on configurations; users that were saved are the users after a reload.
  \<^item> \<open>Pipe\<close> (\<open>pipeTraffic\<close> in \<open>internal/proxy/server.go\<close>, \<open>SpliceToHost\<close> in \<open>fronting.go\<close>): \<open>io.Copy\<close> as a loop, its threads as the step
    relation \<open>pipe_step\<close>. The locales \<open>duplex\<close> to \<open>full_pipe\<close> say what copying needs of its ends; in them are proved that
    every schedule ends, that all schedules agree and that every byte is delivered. They are interpreted for each
    pair of connections that the server builds of TCP, records, obfuscated2 and the tunnel.
  \<^item> \<open>ProxyNet\<close> (\<open>listen.go\<close>, \<open>netutil.go\<close>, \<open>proxyproto.go\<close> of \<open>internal/proxy\<close>, \<open>internal/telegram/dc.go\<close>, \<open>internal/upstream/dial.go\<close>): addresses,
    the PROXY header, data centres and dialling.
  \<^item> \<open>ProxyServer\<close> (\<open>internal/proxy/server.go\<close>, \<open>errors.go\<close>, \<open>relay.go\<close>): the handlers, as functions of the record \<open>world\<close> (what a
    connection meets) and the record \<open>server\<close> (runtime and metrics). \<open>ProxyGuarantees\<close> and \<open>ProxyProperties\<close> show that an
    honest client is served to the last byte, that only authenticated clients are relayed, that a stranger sees
    only the mask host, and that a connection leaves the runtime sound and the statistics exact; the step
    relation \<open>serving\<close> extends this to every interleaving of accepting and handling.
  \<^item> \<open>HalfClose\<close>: the \<open>CloseWrite\<close> methods of all wrappers. \<open>Lifecycle\<close>: \<open>Serve\<close>, \<open>Shutdown\<close> and \<open>RebindListenIfNeeded\<close> as a
    state machine; the loop returns after the context ends. \<open>Servers\<close>: the same for the loop of \<open>ServeBack\<close>, the two HTTP
    servers, the ticker of the metrics and the test data centre; the locale \<open>winding_down\<close> holds what their endings share.
  \<^item> \<open>Fallback\<close> (\<open>internal/fallback/http.go\<close>): the honeypot's answers are complete HTTP. \<open>Service\<close> (\<open>internal/service/systemd.go\<close>):
    uninstalling, as the list of actions on the machine.
  \<^item> \<open>Admin\<close> (\<open>internal/admin/server.go\<close>), \<open>AdminUI\<close> (\<open>internal/admin/ui/handler.go\<close>): every route is a function from a request and the
    state to a reply and the state. \<open>AdminProperties\<close>: strangers get nothing and change nothing, the configuration
    file stays in step with the runtime, a created user is live at once and in the file, uninstalling needs consent. The locale
    \<open>admin_invariant\<close> reduces an invariant of all requests to the operations on the runtime. \<open>WebText\<close>: byte counts are shown to
    the nearest tenth of the right unit, and for which tokens the cookie of a session works.
  \<^item> \<open>Startup\<close> (\<open>cmd/proxy/main.go\<close>): commands, flags, and the running program as the step relation \<open>running\<close>, which
    interleaves connections and management requests on the one runtime and keeps it sound.
  \<^item> \<open>Threads\<close>: goroutines as resumptions over a shared state, pools of them under every schedule (\<open>pool_step\<close>), and the rules for
    proving something of all schedules: invariants with a note per thread (\<open>obeys\<close>), relations that every action keeps
    (\<open>guarantees\<close>), and moments that a thread cannot avoid (\<open>passes\<close>). \<open>ConnThreads\<close>: the handlers of \<open>ProxyServer\<close> again, as threads, with
    the accept loop and the deferred \<open>Release\<close>; a thread that nothing interferes with does what \<open>handleConnection\<close> does.
    \<open>ReloadThreads\<close>: \<open>Reload\<close> as a thread. \<open>ConnNotes\<close>: the locales \<open>connection_notes\<close> and \<open>connection_actions\<close>, in which it is proved once
    what every connection does to an invariant. \<open>SharedInvariants\<close> interprets them for the statistics, the limiter, the
    replay cache and the soundness of the runtime. \<open>Concurrency\<close>: under every schedule of any number of connections the
    statistics and the limiter are exact, of racing copies of a hello at most one is relayed, and the program stays
    sound also while requests and reloads run; and how a reload breaks the limit. \<open>Authenticity\<close>: under every schedule only
    authenticated clients are relayed.
  \<^item> \<open>TestBed\<close> (\<open>internal/testclient\<close>, \<open>internal/testdc\<close>): the repository's own client and data centre, composed with the
    server: the echo arrives.

  \<^bold>\<open>State.\<close> Go structures are records with the fields of the source (a prefix keeps field names apart), their
  methods are functions that take and return the record; a pointer that may be nil is an option. Go maps are lists
  of pairs or functions, and where the code iterates over one the order is an argument. Integers that can
  overflow are words; a run-time panic (index out of range, nil dereference) is the outcome \<open>Panic\<close>. Where threads share state
  their interleaving is a step relation: the two copying threads of a session, the accept loop and the threads of the
  connections, the servers of the program. The unit of interleaving of connections is an action: one operation that a lock
  or an atomic counter makes indivisible, or the read of a field of the runtime with the call of a method on it. A management
  request is one action; \<open>Reload\<close>, which holds no lock, is also a thread of its own. Pointers are values, except that the
  limiters which the runtime has had are told apart (\<open>rt_LimiterID\<close>), since a connection keeps a pointer to one.

  \<^bold>\<open>Parameters.\<close> Code outside the repository is an argument: HMAC, SHA-1, SHA-256, MD5, the AES-CTR key stream, AES-GCM
  and AES-CBC (with the law that opening undoes sealing where a round trip needs it), the bytes that \<open>utls\<close> makes, the
  decoded configuration of \<open>viper\<close>, the parser of \<open>net/http\<close>, what dialling gives, clocks and random numbers. Every
  property with such a law has a witness with a concrete function.

  \<^bold>\<open>Loops.\<close> Loops over data are structurally recursive or have a measure, mostly the length of the input that is left.
  Loops that wait for a connection (\<open>io_read_full\<close>, \<open>mp_readFull\<close>, \<open>readFrame\<close>, \<open>readPayload\<close>, \<open>io_copy\<close>) are partial functions in the
  option type: \<open>None\<close> is not returning, and the properties state that they return. No fuel is used.

  \<^bold>\<open>Not modelled.\<close> Logging, the wording of log lines, and deadlines as clocks (an expired deadline is the error \<open>Timeout\<close> at the
  end of a stream). The HTTP handler of the metrics, which is the Prometheus library; the HTML templates and static files of the
  web pages. Memory, and data races below the
  level of the actions above.
\<close>

end
